(* ===== verification/Prelude.thy ===== *)
theory Prelude
  imports Main "HOL-Library.Word"
begin

text \<open>
  Shared vocabulary of the development: the machine integer types of the Rust code, the
  result type its fallible functions return, the little- and big-endian codecs every wire
  format uses, and the slice operations (\<open>copy_from_slice\<close>, \<open>xs[a..b]\<close>, XOR of byte
  strings) with the lemmas the component theories rest on.
\<close>

unbundle bit_operations_syntax

named_theorems byte_simps \<open>lengths and reads of byte strings built with the codecs below\<close>

type_synonym u8 = "8 word"
type_synonym u16 = "16 word"
type_synonym u32 = "32 word"
type_synonym u64 = "64 word"
type_synonym i32 = "32 word"
type_synonym bytes = "u8 list"

section \<open>Results\<close>

text \<open>
  The kernel's \<open>Result\<close>: an errno or a value. A Rust panic (an index out of range, a
  slice of the wrong length) is the error \<open>Panic\<close>, so that it is a branch of the model too.
\<close>

datatype error =
  EINVAL | EOVERFLOW | ENOMEM | ENODEV | ETIMEDOUT | ERESTARTSYS | EFAULT | Panic

type_synonym 'a res = "error + 'a"

fun bindR :: "'a res \<Rightarrow> ('a \<Rightarrow> 'b res) \<Rightarrow> 'b res" where
  "bindR (Inl e) f = Inl e"
| "bindR (Inr a) f = f a"

lemma bindR_Inr_iff: "bindR m f = Inr b \<longleftrightarrow> (\<exists>a. m = Inr a \<and> f a = Inr b)"
  by (cases m) auto

lemma bindR_Inl_iff: "bindR m f = Inl e \<longleftrightarrow> m = Inl e \<or> (\<exists>a. m = Inr a \<and> f a = Inl e)"
  by (cases m) auto

lemma bindR_assoc: "bindR (bindR m f) g = bindR m (\<lambda>a. bindR (f a) g)"
  by (cases m) auto

fun is_ok :: "'a res \<Rightarrow> bool" where
  "is_ok (Inr _) = True"
| "is_ok (Inl _) = False"

lemma is_ok_iff: "is_ok m \<longleftrightarrow> (\<exists>a. m = Inr a)"
  by (cases m) auto

section \<open>Slices\<close>

definition slice :: "nat \<Rightarrow> nat \<Rightarrow> 'a list \<Rightarrow> 'a list" where
  "slice off n xs = take n (drop off xs)"

text \<open>\<open>xs[off..off + vs.len()].copy_from_slice(vs)\<close>, for a range inside \<open>xs\<close>.\<close>

definition put :: "nat \<Rightarrow> 'a list \<Rightarrow> 'a list \<Rightarrow> 'a list" where
  "put off vs xs = take off xs @ vs @ drop (off + length vs) xs"

text \<open>The same with the panic Rust raises when the range does not lie inside \<open>xs\<close>.\<close>

definition put_checked :: "nat \<Rightarrow> 'a list \<Rightarrow> 'a list \<Rightarrow> 'a list res" where
  "put_checked off vs xs =
     (if off + length vs \<le> length xs then Inr (put off vs xs) else Inl Panic)"

lemma length_put [simp, byte_simps]:
  "off + length vs \<le> length xs \<Longrightarrow> length (put off vs xs) = length xs"
  by (simp add: put_def)

lemma nth_put [byte_simps]:
  assumes "off + length vs \<le> length xs" "i < length xs"
  shows "put off vs xs ! i = (if off \<le> i \<and> i < off + length vs then vs ! (i - off) else xs ! i)"
  using assms by (auto simp: put_def nth_append min_def)

lemma length_slice [simp, byte_simps]: "length (slice off n xs) = min n (length xs - off)"
  by (simp add: slice_def min.commute)

lemma nth_slice [simp, byte_simps]:
  "i < n \<Longrightarrow> off + i < length xs \<Longrightarrow> slice off n xs ! i = xs ! (off + i)"
  by (simp add: slice_def)

lemma slice_put_same [byte_simps]:
  "off + length vs \<le> length xs \<Longrightarrow> slice off (length vs) (put off vs xs) = vs"
  by (simp add: slice_def put_def)

lemma slice_put_other [byte_simps]:
  assumes "off + length vs \<le> length xs" "o2 + n \<le> off \<or> off + length vs \<le> o2" "o2 + n \<le> length xs"
  shows "slice o2 n (put off vs xs) = slice o2 n xs"
proof (rule nth_equalityI)
  show "length (slice o2 n (put off vs xs)) = length (slice o2 n xs)"
    using assms by simp
next
  fix i assume "i < length (slice o2 n (put off vs xs))"
  with assms show "slice o2 n (put off vs xs) ! i = slice o2 n xs ! i"
    by (auto simp: nth_put)
qed

lemma slice_append_left: "off + n \<le> length xs \<Longrightarrow> slice off n (xs @ ys) = slice off n xs"
  by (simp add: slice_def)

lemma slice_append_right: "slice (length xs + off) n (xs @ ys) = slice off n ys"
  by (simp add: slice_def)

lemma slice_all [simp]: "slice 0 (length xs) xs = xs"
  by (simp add: slice_def)

lemma drop_append_exact: "length xs = n \<Longrightarrow> drop n (xs @ ys) = ys"
  by simp

lemma find_append:
  "find P (xs @ ys) = (case find P xs of Some x \<Rightarrow> Some x | None \<Rightarrow> find P ys)"
  by (induction xs) auto

lemma find_SomeD: "find P xs = Some x \<Longrightarrow> x \<in> set xs \<and> P x"
  by (auto simp: find_Some_iff)

section \<open>Fixed-width codecs\<close>

text \<open>\<open>to_le_bytes\<close> / \<open>to_be_bytes\<close> and their inverses.\<close>

definition le16 :: "u16 \<Rightarrow> bytes" where
  "le16 w = [ucast w, ucast (drop_bit 8 w)]"

definition le32 :: "u32 \<Rightarrow> bytes" where
  "le32 w = [ucast w, ucast (drop_bit 8 w), ucast (drop_bit 16 w), ucast (drop_bit 24 w)]"

definition be16 :: "u16 \<Rightarrow> bytes" where
  "be16 w = rev (le16 w)"

definition be32 :: "u32 \<Rightarrow> bytes" where
  "be32 w = rev (le32 w)"

definition be64 :: "u64 \<Rightarrow> bytes" where
  "be64 w = be32 (ucast (drop_bit 32 w)) @ be32 (ucast w)"

definition of_le16 :: "u8 \<Rightarrow> u8 \<Rightarrow> u16" where
  "of_le16 a b = ucast a OR push_bit 8 (ucast b)"

definition of_le32 :: "u8 \<Rightarrow> u8 \<Rightarrow> u8 \<Rightarrow> u8 \<Rightarrow> u32" where
  "of_le32 a b c d =
     ucast a OR push_bit 8 (ucast b) OR push_bit 16 (ucast c) OR push_bit 24 (ucast d)"

text \<open>\<open>u16::from_le_bytes([b[i], b[i+1]])\<close> and the 32-bit reader, for indices in range.\<close>

definition rd16 :: "bytes \<Rightarrow> nat \<Rightarrow> u16" where
  "rd16 b i = of_le16 (b ! i) (b ! (i + 1))"

definition rd32 :: "bytes \<Rightarrow> nat \<Rightarrow> u32" where
  "rd32 b i = of_le32 (b ! i) (b ! (i + 1)) (b ! (i + 2)) (b ! (i + 3))"

lemma length_codecs [simp, byte_simps]:
  "length (le16 w) = 2" "length (le32 d) = 4" "length (be16 w) = 2" "length (be32 d) = 4"
  "length (be64 q) = 8"
  by (simp_all add: le16_def le32_def be16_def be32_def be64_def)

lemma of_le16_le16: "of_le16 (ucast w) (ucast (drop_bit 8 w)) = w"
  unfolding of_le16_def
  by (rule bit_eqI) (auto simp: bit_simps)

lemma le16_of_le16: "le16 (of_le16 a b) = [a, b]"
proof -
  have "\<not> bit a (8 + n)" for n
    using bit_imp_le_length [of a "8 + n"] by auto
  then show ?thesis
    unfolding le16_def of_le16_def by (auto intro!: bit_eqI simp: bit_simps)
qed

lemma of_le32_le32:
  "of_le32 (ucast w) (ucast (drop_bit 8 w)) (ucast (drop_bit 16 w)) (ucast (drop_bit 24 w)) = w"
  unfolding of_le32_def
proof (rule bit_word_eqI)
  fix n assume "n < LENGTH(32)"
  then consider "n < 8" | "8 \<le> n" "n < 16" | "16 \<le> n" "n < 24" | "24 \<le> n" "n < 32"
    by fastforce
  then show "bit ((ucast (ucast w :: u8) :: u32) OR push_bit 8 (ucast (ucast (drop_bit 8 w) :: u8)) OR
      push_bit 16 (ucast (ucast (drop_bit 16 w) :: u8)) OR
      push_bit 24 (ucast (ucast (drop_bit 24 w) :: u8))) n = bit w n"
    by cases (auto simp: bit_simps)
qed

lemma le32_of_le32: "le32 (of_le32 a b c d) = [a, b, c, d]"
proof -
  have nb: "n \<ge> 8 \<Longrightarrow> \<not> bit v n" for v :: u8 and n
    using bit_imp_le_length [of v n] by auto
  show ?thesis
    unfolding le32_def of_le32_def by (auto intro!: bit_eqI simp: bit_simps nb)
qed

lemma rd16_le16 [simp, byte_simps]: "rd16 (le16 w @ ys) 0 = w"
  by (simp add: rd16_def le16_def of_le16_le16)

lemma rd32_le32 [simp, byte_simps]: "rd32 (le32 w @ ys) 0 = w"
  by (simp add: rd32_def le32_def of_le32_le32 nth_Cons')

lemma rd16_slice: "i + 2 \<le> length b \<Longrightarrow> rd16 b i = rd16 (slice i 2 b) 0"
  by (simp add: rd16_def)

lemma rd32_slice: "i + 4 \<le> length b \<Longrightarrow> rd32 b i = rd32 (slice i 4 b) 0"
  by (simp add: rd32_def)

lemma rd16_put:
  assumes "off + 2 \<le> length xs" "i + 2 \<le> length xs"
  shows "rd16 (put off (le16 w) xs) i =
    (if i = off then w else if i + 2 \<le> off \<or> off + 2 \<le> i then rd16 xs i
     else rd16 (put off (le16 w) xs) i)"
proof -
  have "rd16 (put off (le16 w) xs) off = w"
    using assms by (simp add: rd16_def nth_put le16_def of_le16_le16)
  moreover have "i + 2 \<le> off \<or> off + 2 \<le> i \<Longrightarrow> rd16 (put off (le16 w) xs) i = rd16 xs i"
    using assms by (auto simp: rd16_def nth_put)
  ultimately show ?thesis by auto
qed

lemma rd16_append_left: "i + 2 \<le> length xs \<Longrightarrow> rd16 (xs @ ys) i = rd16 xs i"
  by (simp add: rd16_def nth_append)

lemma rd32_append_left: "i + 4 \<le> length xs \<Longrightarrow> rd32 (xs @ ys) i = rd32 xs i"
  by (simp add: rd32_def nth_append)

lemma rd16_append_right: "length xs \<le> i \<Longrightarrow> rd16 (xs @ ys) i = rd16 ys (i - length xs)"
  by (simp add: rd16_def nth_append Suc_diff_le)

lemma rd32_append_right:
  assumes "length xs \<le> i"
  shows "rd32 (xs @ ys) i = rd32 ys (i - length xs)"
proof -
  have "(xs @ ys) ! (i + k) = ys ! (i - length xs + k)" for k
    using assms by (simp add: nth_append)
  from this[of 0] this[of 1] this[of 2] this[of 3] show ?thesis
    by (simp add: rd32_def)
qed

lemma inj_le16: "le16 v = le16 w \<Longrightarrow> v = w"
  by (metis append_Nil2 rd16_le16)

lemma inj_le32: "le32 v = le32 w \<Longrightarrow> v = w"
  by (metis append_Nil2 rd32_le32)

section \<open>Casts\<close>

text \<open>\<open>n as u16\<close> on a \<open>usize\<close> keeps the low 16 bits: \<open>of_nat\<close> into a word.\<close>

lemma unat16_less: "unat (w :: u16) < 65536"
  using unsigned_less [of w, where 'a = nat] by simp

lemma unat8_less: "unat (w :: u8) < 256"
  using unsigned_less [of w, where 'a = nat] by simp

lemma unat_of_nat16: "n < 65536 \<Longrightarrow> unat (of_nat n :: u16) = n"
  by (simp add: unat_of_nat)

lemma unat_of_nat8: "n < 256 \<Longrightarrow> unat (of_nat n :: u8) = n"
  by (simp add: unat_of_nat)

lemma unat_ucast_16_32 [simp]: "unat (ucast (w :: u16) :: u32) = unat w"
  using unat16_less [of w] by (simp add: unsigned_ucast_eq take_bit_nat_eq_self)

lemma unat_ucast_8_16 [simp]: "unat (ucast (w :: u8) :: u16) = unat w"
  using unat8_less [of w] by (simp add: unsigned_ucast_eq take_bit_nat_eq_self)

lemma unat_ucast_8_32 [simp]: "unat (ucast (w :: u8) :: u32) = unat w"
  using unat8_less [of w] by (simp add: unsigned_ucast_eq take_bit_nat_eq_self)

section \<open>XOR of byte strings\<close>

definition xor_bytes :: "bytes \<Rightarrow> bytes \<Rightarrow> bytes" where
  "xor_bytes xs ys = map2 (XOR) xs ys"

lemma length_xor_bytes [simp, byte_simps]:
  "length (xor_bytes xs ys) = min (length xs) (length ys)"
  by (simp add: xor_bytes_def)

lemma nth_xor_bytes [simp, byte_simps]:
  "i < length xs \<Longrightarrow> i < length ys \<Longrightarrow> xor_bytes xs ys ! i = xs ! i XOR ys ! i"
  by (simp add: xor_bytes_def)

lemma xor_bytes_cancel:
  assumes "length xs \<le> length ys"
  shows "xor_bytes (xor_bytes xs ys) ys = xs"
proof (rule nth_equalityI)
  show "length (xor_bytes (xor_bytes xs ys) ys) = length xs"
    using assms by simp
  fix i assume "i < length (xor_bytes (xor_bytes xs ys) ys)"
  with assms show "xor_bytes (xor_bytes xs ys) ys ! i = xs ! i"
    by (simp add: xor.assoc)
qed

text \<open>XOR a single byte of a string, as \<open>b[i] ^= m\<close> does.\<close>

definition xor_at :: "nat \<Rightarrow> u8 \<Rightarrow> bytes \<Rightarrow> bytes" where
  "xor_at i m b = b[i := b ! i XOR m]"

lemma length_xor_at [simp, byte_simps]: "length (xor_at i m b) = length b"
  by (simp add: xor_at_def)

lemma xor_at_twice [simp]: "xor_at i m (xor_at i m b) = b"
proof (cases "i < length b")
  case True
  then show ?thesis by (simp add: xor_at_def xor.assoc)
next
  case False
  then show ?thesis by (simp add: xor_at_def list_update_beyond)
qed

lemma xor_at_commute: "i \<noteq> j \<Longrightarrow> xor_at i m (xor_at j n b) = xor_at j n (xor_at i m b)"
  by (simp add: xor_at_def list_update_swap)

section \<open>Padding\<close>

text \<open>\<open>while out.len() < len \{ out.push(0) \}\<close>.\<close>

definition pad_to :: "nat \<Rightarrow> bytes \<Rightarrow> bytes" where
  "pad_to n b = b @ replicate (n - length b) 0"

lemma length_pad_to [simp, byte_simps]: "length (pad_to n b) = max n (length b)"
  by (simp add: pad_to_def)

lemma pad_to_id: "n \<le> length b \<Longrightarrow> pad_to n b = b"
  by (simp add: pad_to_def)

lemma nth_pad_to [byte_simps]:
  "i < max n (length b) \<Longrightarrow> pad_to n b ! i = (if i < length b then b ! i else 0)"
  by (auto simp: pad_to_def nth_append)

definition zeros :: "nat \<Rightarrow> bytes" where
  "zeros n = replicate n 0"

lemma length_zeros [simp, byte_simps]: "length (zeros n) = n"
  by (simp add: zeros_def)

lemma nth_zeros [simp, byte_simps]: "i < n \<Longrightarrow> zeros n ! i = 0"
  by (simp add: zeros_def)

end
