(* ===== verification/Proto.thy ===== *)
theory Proto
  imports Prelude
begin

text \<open>
  The DL3 wire framing. \<open>push_frame_with\<close> and the plaintext session-init messages of
  \<open>chimera/vino/proto.rs\<close>, and the \<open>Frame\<close> codec of \<open>vino-driver/src/frame.rs\<close>: the
  same 16-byte little-endian header written by two independent pieces of code.
\<close>

section \<open>The kernel framer (proto.rs)\<close>

definition push_frame_with ::
    "bytes \<Rightarrow> u32 \<Rightarrow> u16 \<Rightarrow> u16 \<Rightarrow> u32 \<Rightarrow> bytes \<Rightarrow> bytes" where
  "push_frame_with out msg_type sub_id sub_len_dw sq bdy =
     (let size = of_nat ((16 + length bdy) - 4)
      in out @ [0, 0] @ le16 size @ le32 msg_type @ le16 sub_id @ le16 sub_len_dw
           @ le32 sq @ bdy)"

definition INIT_25 :: bytes where
  "INIT_25 = [0x05, 0, 0x08, 0, 0, 0, 0, 0, 0, 0, 0, 0, 0, 0, 0, 0]"

definition INIT_4 :: bytes where
  "INIT_4 = [0x04, 0, 0, 0, 0, 0, 0, 0, 0, 0, 0, 0, 0, 0, 0, 0]"

definition PROBE_BODY :: bytes where
  "PROBE_BODY = (zeros 32)[0 := 0x14, 2 := 0x90]"

definition PROBE_BODY_RESEND :: bytes where
  "PROBE_BODY_RESEND = (zeros 32)[0 := 0x14, 2 := 0x76, 4 := 0x01]"

definition init_0 :: bytes where
  "init_0 = push_frame_with [] 0x01 0x00 0 0 []"

definition init_25 :: bytes where
  "init_25 = push_frame_with [] 0x02 0x25 0 0 INIT_25"

definition init_4_probe :: bytes where
  "init_4_probe =
     push_frame_with (push_frame_with [] 0x02 0x04 0 0 INIT_4) 0x04 0x04 0x0a 0 PROBE_BODY"

definition probe_resend :: bytes where
  "probe_resend = push_frame_with [] 0x04 0x04 0x0a 0 PROBE_BODY_RESEND"

section \<open>The userspace codec (frame.rs)\<close>

record frame =
  fr_msg_type :: u32
  fr_sub_id :: u16
  fr_sub_len_dw :: u16
  fr_seq :: u32
  fr_body :: bytes

definition frame_encode :: "frame \<Rightarrow> bytes" where
  "frame_encode f =
     (let total = 16 + length (fr_body f);
          size_field = of_nat (total - 4)
      in [0, 0] @ le16 size_field @ le32 (fr_msg_type f) @ le16 (fr_sub_id f)
           @ le16 (fr_sub_len_dw f) @ le32 (fr_seq f) @ fr_body f)"

definition frame_decode :: "bytes \<Rightarrow> frame option" where
  "frame_decode buf =
     (if length buf < 16 then None
      else let size = unat (rd16 buf 2)
           in if size < 12 then None
              else let body_len = size - 12
                   in if length buf < 16 + body_len then None
                      else Some \<lparr>fr_msg_type = rd32 buf 4, fr_sub_id = rd16 buf 8,
                                 fr_sub_len_dw = rd16 buf 10, fr_seq = rd32 buf 12,
                                 fr_body = slice 16 body_len buf\<rparr>)"

definition build_frame :: "u32 \<Rightarrow> u16 \<Rightarrow> u32 \<Rightarrow> bytes \<Rightarrow> frame" where
  "build_frame msg_type sub_id sq bdy =
     \<lparr>fr_msg_type = msg_type, fr_sub_id = sub_id, fr_sub_len_dw = of_nat (length bdy div 4),
      fr_seq = sq, fr_body = bdy\<rparr>"

section \<open>Lengths and header fields\<close>

lemma length_push_frame_with [simp, byte_simps]:
  "length (push_frame_with out mt sid dw sq bdy) = length out + 16 + length bdy"
  by (simp add: push_frame_with_def Let_def)

lemma length_frame_encode [simp, byte_simps]:
  "length (frame_encode f) = 16 + length (fr_body f)"
  by (simp add: frame_encode_def Let_def)

lemma length_init_bodies [simp]:
  "length INIT_25 = 16" "length INIT_4 = 16" "length PROBE_BODY = 32"
  "length PROBE_BODY_RESEND = 32"
  by (simp_all add: INIT_25_def INIT_4_def PROBE_BODY_def PROBE_BODY_RESEND_def)

lemma push_frame_with_eq_encode:
  "push_frame_with out mt sid dw sq bdy =
     out @ frame_encode \<lparr>fr_msg_type = mt, fr_sub_id = sid, fr_sub_len_dw = dw, fr_seq = sq,
                          fr_body = bdy\<rparr>"
  by (simp add: push_frame_with_def frame_encode_def Let_def)

lemma frame_encode_fields:
  "rd16 (frame_encode f @ rest) 2 = of_nat (length (fr_body f) + 12)"
  "rd32 (frame_encode f @ rest) 4 = fr_msg_type f"
  "rd16 (frame_encode f @ rest) 8 = fr_sub_id f"
  "rd16 (frame_encode f @ rest) 10 = fr_sub_len_dw f"
  "rd32 (frame_encode f @ rest) 12 = fr_seq f"
  by (simp_all add: frame_encode_def Let_def rd16_def rd32_def le16_def le32_def
      of_le16_le16 of_le32_le32 nth_append nth_Cons' add.commute)

lemma frame_encode_body:
  "slice 16 n (frame_encode f @ rest) = take n (fr_body f @ rest)"
  by (simp add: frame_encode_def Let_def slice_def le16_def le32_def numeral_eq_Suc)

lemma frame_decode_encode:
  assumes "length (fr_body f) \<le> 65523"
  shows "frame_decode (frame_encode f @ rest) = Some f"
proof -
  have "unat (of_nat (length (fr_body f) + 12) :: u16) = length (fr_body f) + 12"
    using assms by (intro unat_of_nat16) simp
  then show ?thesis
    by (simp only: frame_decode_def frame_encode_fields Let_def)
      (simp add: frame_encode_body frame_encode_fields)
qed

text \<open>
  Past 65523 body bytes the 16-bit size field has wrapped, and the decoder either rejects the
  frame or cuts the body short.
\<close>

lemma frame_decode_body_bound:
  "frame_decode buf = Some f \<Longrightarrow> length (fr_body f) \<le> 65523"
proof -
  assume d: "frame_decode buf = Some f"
  have "unat (rd16 buf 2) < 65536"
    by (rule unat16_less)
  with d show ?thesis
    by (auto simp: frame_decode_def Let_def split: if_splits)
qed

text \<open>
  C15. The userspace frame decoder inverts the encoder exactly on the frames whose body fits the
  16-bit size field: decoding an encoded frame (whatever follows it in the buffer) returns that
  frame if and only if its body has at most 65523 bytes.
\<close>

theorem frame_roundtrip_iff:
  "frame_decode (frame_encode f @ rest) = Some f \<longleftrightarrow> length (fr_body f) \<le> 65523"
  using frame_decode_encode frame_decode_body_bound by blast

text \<open>
  The other direction: whatever the decoder accepts is the encoding of what it returns, except
  for the two pad bytes, which it ignores.
\<close>

lemma frame_encode_decode:
  assumes "frame_decode buf = Some f"
  shows "frame_encode f = [0, 0] @ slice 2 (14 + length (fr_body f)) buf"
proof (rule nth_equalityI)
  from assms have len: "16 + length (fr_body f) \<le> length buf"
    and size: "unat (rd16 buf 2) = length (fr_body f) + 12"
    and fs: "f = \<lparr>fr_msg_type = rd32 buf 4, fr_sub_id = rd16 buf 8, fr_sub_len_dw = rd16 buf 10,
      fr_seq = rd32 buf 12, fr_body = slice 16 (length (fr_body f)) buf\<rparr>"
    by (auto simp: frame_decode_def Let_def min_def split: if_splits)
  show "length (frame_encode f) = length ([0, 0] @ slice 2 (14 + length (fr_body f)) buf)"
    using len by simp
  have le16_rd: "le16 (rd16 buf i) = [buf ! i, buf ! (i + 1)]" for i
    by (simp add: rd16_def le16_of_le16)
  have le32_rd: "le32 (rd32 buf i) = [buf ! i, buf ! (i + 1), buf ! (i + 2), buf ! (i + 3)]" for i
    by (simp add: rd32_def le32_of_le32)
  have sz: "of_nat (length (fr_body f) + 12) = rd16 buf 2"
    using size [symmetric] by simp
  fix i assume i: "i < length (frame_encode f)"
  have "frame_encode f = [0, 0] @ le16 (rd16 buf 2) @ le32 (rd32 buf 4) @ le16 (rd16 buf 8)
      @ le16 (rd16 buf 10) @ le32 (rd32 buf 12) @ slice 16 (length (fr_body f)) buf"
    using fs [THEN arg_cong [of _ _ fr_msg_type]] fs [THEN arg_cong [of _ _ fr_sub_id]]
      fs [THEN arg_cong [of _ _ fr_sub_len_dw]] fs [THEN arg_cong [of _ _ fr_seq]]
      fs [THEN arg_cong [of _ _ fr_body]]
    by (simp add: frame_encode_def Let_def sz [symmetric] add.commute)
  then have "frame_encode f ! i = ([0, 0] @ [buf ! 2, buf ! 3, buf ! 4, buf ! 5, buf ! 6, buf ! 7,
      buf ! 8, buf ! 9, buf ! 10, buf ! 11, buf ! 12, buf ! 13, buf ! 14, buf ! 15] @
      slice 16 (length (fr_body f)) buf) ! i"
    by (simp add: le16_rd le32_rd)
  also have "\<dots> = ([0, 0] @ slice 2 (14 + length (fr_body f)) buf) ! i"
  proof -
    have "slice 2 (14 + length (fr_body f)) buf = slice 2 14 buf @ slice 16 (length (fr_body f)) buf"
      by (simp add: slice_def take_add)
    moreover have "slice 2 14 buf = map (\<lambda>k. buf ! (2 + k)) [0..<14]"
      using len by (intro nth_equalityI) auto
    moreover have "[0..<14] = [0, 1, 2, 3, 4, 5, 6, 7, 8, 9, 10, 11, 12, 13::nat]"
      by (simp add: upt_rec)
    ultimately show ?thesis by (simp add: eval_nat_numeral del: upt_Suc)
  qed
  finally show "frame_encode f ! i = ([0, 0] @ slice 2 (14 + length (fr_body f)) buf) ! i" .
qed

text \<open>
  What the frame decoder accepts is canonical: re-encoding the decoded frame gives back the
  bytes it was read from, up to the two ignored pad bytes, and nothing past the declared size.
\<close>

theorem frame_decode_canonical:
  "frame_decode buf = Some f \<Longrightarrow> frame_encode f = [0, 0] @ slice 2 (14 + length (fr_body f)) buf"
  by (rule frame_encode_decode)

theorem frame_decode_canonical_witness:
  "frame_encode \<lparr>fr_msg_type = 2, fr_sub_id = 4, fr_sub_len_dw = 0, fr_seq = 0, fr_body = INIT_4\<rparr>
     = [0, 0] @ slice 2 30 (init_4_probe)"
proof -
  have "frame_decode init_4_probe = Some \<lparr>fr_msg_type = 2, fr_sub_id = 4, fr_sub_len_dw = 0,
      fr_seq = 0, fr_body = INIT_4\<rparr>"
    by (simp add: init_4_probe_def push_frame_with_eq_encode frame_decode_encode)
  from frame_decode_canonical [OF this] show ?thesis by simp
qed

end
