(* ===== verification/Layout.thy ===== *)
theory Layout
  imports Prelude
begin

text \<open>
  C layouts: a \<open>#[repr(C)]\<close> struct is a value of \<open>cty\<close> that keeps the names of its fields and the sign of
  its integers. Its size and offsets follow the C rules on LP64. \<open>store\<close> and \<open>load\<close> write and read the
  fields of a structure by name in memory; what is stored is loaded again, for every layout.
\<close>

section \<open>Types, sizes and offsets\<close>

text \<open>An integer is signed or not and has a size in bytes.\<close>

datatype cty = CInt bool nat | CPtr | CArr cty nat | CStruct "(string \<times> cty) list"

lemma size_field [termination_simp]:
  "(f, t) \<in> set fs \<Longrightarrow> size t < Suc (size_list (size_prod (\<lambda>x. 0) size) fs)"
  by (induction fs) auto

lemma cty_induct [case_names Int Ptr Arr Struct]:
  assumes "\<And>s n. P (CInt s n)" "P CPtr" "\<And>t n. P t \<Longrightarrow> P (CArr t n)"
    "\<And>fs. (\<And>f t. (f, t) \<in> set fs \<Longrightarrow> P t) \<Longrightarrow> P (CStruct fs)"
  shows "P t"
  by (induction t) (use assms in \<open>auto intro: snds.intros\<close>)

fun calign :: "cty \<Rightarrow> nat" where
  "calign (CInt s n) = n"
| "calign CPtr = 8"
| "calign (CArr t n) = calign t"
| "calign (CStruct fs) = foldr max (map (\<lambda>(f, t). calign t) fs) 1"

definition align_up :: "nat \<Rightarrow> nat \<Rightarrow> nat" where
  "align_up n a = (n + a - 1) div a * a"

fun csize :: "cty \<Rightarrow> nat" where
  "csize (CInt s n) = n"
| "csize CPtr = 8"
| "csize (CArr t n) = n * csize t"
| "csize (CStruct fs) =
     align_up (fold (\<lambda>(f, t) off. align_up off (calign t) + csize t) fs 0)
              (foldr max (map (\<lambda>(f, t). calign t) fs) 1)"

fun offsets_from :: "nat \<Rightarrow> cty list \<Rightarrow> nat list" where
  "offsets_from off [] = []"
| "offsets_from off (t # ts) =
     align_up off (calign t) # offsets_from (align_up off (calign t) + csize t) ts"

fun field_offset :: "cty \<Rightarrow> nat \<Rightarrow> nat" where
  "field_offset (CStruct fs) k = offsets_from 0 (map snd fs) ! k"
| "field_offset _ k = 0"

abbreviation c_u8 :: cty where "c_u8 \<equiv> CInt False 1"
abbreviation c_u16 :: cty where "c_u16 \<equiv> CInt False 2"
abbreviation c_u32 :: cty where "c_u32 \<equiv> CInt False 4"
abbreviation c_i32 :: cty where "c_i32 \<equiv> CInt True 4"
abbreviation c_u64 :: cty where "c_u64 \<equiv> CInt False 8"
abbreviation c_usize :: cty where "c_usize \<equiv> CInt False 8"

section \<open>The scalars of a type\<close>

text \<open>
  The path to a scalar goes through fields and indices; \<open>leaves\<close> lists the scalars in the order of
  memory, each with its offset, sign and size. An address is an unsigned integer.
\<close>

datatype sel = Fld string | Idx nat

type_synonym path = "sel list"

type_synonym leaf = "path \<times> nat \<times> bool \<times> nat"

fun tag_leaf :: "sel \<Rightarrow> leaf \<Rightarrow> leaf" where
  "tag_leaf x (p, off, k) = (x # p, off, k)"

fun shift_leaf :: "nat \<Rightarrow> leaf \<Rightarrow> leaf" where
  "shift_leaf b (p, off, k) = (p, b + off, k)"

fun leaves :: "cty \<Rightarrow> leaf list" where
  "leaves (CInt s n) = [([], 0, s, n)]"
| "leaves CPtr = [([], 0, False, 8)]"
| "leaves (CArr t n) =
     concat (map (\<lambda>i. map (shift_leaf (i * csize t)) (map (tag_leaf (Idx i)) (leaves t))) [0..<n])"
| "leaves (CStruct fs) =
     concat (map2 (\<lambda>b. map (shift_leaf b)) (offsets_from 0 (map snd fs))
       (map (\<lambda>(f, t). map (tag_leaf (Fld f)) (leaves t)) fs))"

section \<open>Memory\<close>

fun le_val :: "bytes \<Rightarrow> int" where
  "le_val [] = 0"
| "le_val (b # bs) = uint b + 256 * le_val bs"

fun le_put :: "nat \<Rightarrow> int \<Rightarrow> bytes" where
  "le_put 0 v = []"
| "le_put (Suc n) v = word_of_int v # le_put n (v div 256)"

definition scalar_val :: "bool \<Rightarrow> nat \<Rightarrow> bytes \<Rightarrow> int" where
  "scalar_val s n bs = (if s \<and> 2 ^ (8 * n - 1) \<le> le_val bs then le_val bs - 2 ^ (8 * n) else le_val bs)"

definition representable :: "bool \<Rightarrow> nat \<Rightarrow> int \<Rightarrow> bool" where
  "representable s n v \<longleftrightarrow>
     (if s then - (2 ^ (8 * n - 1)) \<le> v \<and> v < 2 ^ (8 * n - 1) else 0 \<le> v \<and> v < 2 ^ (8 * n))"

definition store :: "cty \<Rightarrow> (path \<Rightarrow> int) \<Rightarrow> bytes" where
  "store t v = foldl (\<lambda>m (p, off, s, n). put off (le_put n (v p)) m) (zeros (csize t)) (leaves t)"

definition load :: "cty \<Rightarrow> bytes \<Rightarrow> path \<Rightarrow> int option" where
  "load t m p =
     (case map_of (leaves t) p of
        None \<Rightarrow> None
      | Some (off, s, n) \<Rightarrow> Some (scalar_val s n (slice off n m)))"

definition holds_values :: "cty \<Rightarrow> (path \<Rightarrow> int) \<Rightarrow> bool" where
  "holds_values t v = list_all (\<lambda>(p, off, s, n). representable s n (v p)) (leaves t)"

section \<open>Scalars\<close>

lemma length_le_put [simp]: "length (le_put n v) = n"
  by (induction n v rule: le_put.induct) auto

lemma le_val_put: "le_val (le_put n v) = v mod 256 ^ n"
proof (induction n v rule: le_put.induct)
  case (2 n v)
  have "v mod 256 ^ Suc n = 256 * (v div 256 mod 256 ^ n) + v mod 256"
    using zmod_zmult2_eq [of "256 ^ n" v 256] by simp
  with 2 show ?case by (simp add: uint_word_of_int take_bit_eq_mod)
qed simp

lemma pow_bytes: "(256 :: int) ^ n = 2 ^ (8 * n)"
  by (simp add: power_mult)

lemma scalar_roundtrip:
  assumes "representable s n v" "0 < n"
  shows "scalar_val s n (le_put n v) = v"
proof -
  have e: "(2 :: int) ^ (8 * n) = 2 * 2 ^ (8 * n - 1)"
    using assms(2) by (cases n) (simp_all add: numeral_eq_Suc)
  show ?thesis
  proof (cases "0 \<le> v")
    case True
    have "v < 2 ^ (8 * n)" using assms e True by (auto simp: representable_def split: if_splits)
    then have "v mod 2 ^ (8 * n) = v" using True by (rule mod_pos_pos_trivial [rotated])
    then show ?thesis
      using assms True by (auto simp: scalar_val_def le_val_put pow_bytes representable_def)
  next
    case False
    then have s: "s" "- (2 ^ (8 * n - 1)) \<le> v" using assms(1) by (auto simp: representable_def split: if_splits)
    have "v mod 2 ^ (8 * n) = (v + 2 ^ (8 * n)) mod 2 ^ (8 * n)" by simp
    also have "\<dots> = v + 2 ^ (8 * n)"
      using s(2) False e by (intro mod_pos_pos_trivial) auto
    finally show ?thesis
      using s e by (simp add: scalar_val_def le_val_put pow_bytes)
  qed
qed

section \<open>Every layout is a layout\<close>

text \<open>Scalars that follow each other from \<open>lo\<close> on and end before \<open>hi\<close>.\<close>

fun spaced :: "nat \<Rightarrow> nat \<Rightarrow> (path \<times> nat \<times> bool \<times> nat) list \<Rightarrow> bool" where
  "spaced lo hi [] \<longleftrightarrow> lo \<le> hi"
| "spaced lo hi ((p, off, s, n) # ls) \<longleftrightarrow> lo \<le> off \<and> spaced (off + n) hi ls"

lemma spaced_bounds: "spaced lo hi ls \<Longrightarrow> lo \<le> hi \<and> (\<forall>(p, off, s, n) \<in> set ls. lo \<le> off \<and> off + n \<le> hi)"
  by (induction lo hi ls rule: spaced.induct) fastforce+

lemma spaced_append: "spaced lo mid xs \<Longrightarrow> spaced mid hi ys \<Longrightarrow> spaced lo hi (xs @ ys)"
proof (induction lo mid xs rule: spaced.induct)
  case (1 lo mid)
  then show ?case by (cases ys) auto
qed auto

lemma spaced_shift:
  "spaced lo hi ls \<Longrightarrow> spaced (b + lo) (b + hi) (map (shift_leaf b) (map (tag_leaf x) ls))"
  by (induction lo hi ls rule: spaced.induct) (auto simp: add.assoc)

lemma spaced_widen: "spaced lo hi ls \<Longrightarrow> lo' \<le> lo \<Longrightarrow> hi \<le> hi' \<Longrightarrow> spaced lo' hi' ls"
  by (induction lo hi ls arbitrary: lo' rule: spaced.induct) auto

text \<open>Sizes are positive and the fields of a structure have different names.\<close>

fun cwf :: "cty \<Rightarrow> bool" where
  "cwf (CInt s n) = (0 < n)"
| "cwf CPtr = True"
| "cwf (CArr t n) = cwf t"
| "cwf (CStruct fs) = (distinct (map fst fs) \<and> list_all (\<lambda>(f, t). cwf t) fs)"

lemma foldr_max_le: "(x :: nat) \<in> set xs \<Longrightarrow> x \<le> foldr max xs z"
  by (induction xs) auto

lemma foldr_max_base: "(z :: nat) \<le> foldr max xs z"
  by (induction xs) auto

lemma calign_pos: "cwf t \<Longrightarrow> 0 < calign t"
proof (induction t rule: calign.induct)
  case (4 fs)
  have "1 \<le> foldr max (map (\<lambda>(f, t). calign t) fs) 1" by (rule foldr_max_base)
  then show ?case by simp
qed auto

lemma align_up_ge: "0 < a \<Longrightarrow> n \<le> align_up n a"
proof -
  assume a: "0 < a"
  have "(n + a - 1) div a * a + (n + a - 1) mod a = n + a - 1" by (rule div_mult_mod_eq)
  moreover have "(n + a - 1) mod a < a" using a by simp
  ultimately show ?thesis unfolding align_up_def using a by linarith
qed

lemma spaced_fields:
  assumes "\<forall>(f, t) \<in> set fs. 0 < calign t \<and> spaced 0 (csize t) (leaves t)"
  shows "spaced off (fold (\<lambda>(f, t) off. align_up off (calign t) + csize t) fs off)
    (concat (map2 (\<lambda>b. map (shift_leaf b)) (offsets_from off (map snd fs))
       (map (\<lambda>(f, t). map (tag_leaf (Fld f)) (leaves t)) fs)))"
  using assms
proof (induction fs arbitrary: off)
  case (Cons ft fs)
  obtain f t where ft: "ft = (f, t)" by fastforce
  let ?o = "align_up off (calign t)"
  have t: "0 < calign t" "spaced 0 (csize t) (leaves t)" using Cons.prems ft by auto
  have "spaced off (?o + csize t) (map (shift_leaf ?o) (map (tag_leaf (Fld f)) (leaves t)))"
    using spaced_widen [OF spaced_shift [OF t(2), of ?o "Fld f"], of off] align_up_ge [OF t(1), of off] by simp
  from spaced_append [OF this Cons.IH [of "?o + csize t"]] Cons.prems show ?case by (simp add: ft)
qed simp

lemma spaced_array:
  assumes "spaced 0 z ls"
  shows "spaced 0 (n * z) (concat (map (\<lambda>i. map (shift_leaf (i * z)) (map (tag_leaf (Idx i)) ls)) [0..<n]))"
proof (induction n)
  case (Suc n)
  have "spaced (n * z) (n * z + z) (map (shift_leaf (n * z)) (map (tag_leaf (Idx n)) ls))"
    using spaced_shift [OF assms, of "n * z"] by simp
  from spaced_append [OF Suc this] show ?case by (simp add: add.commute)
qed simp

lemma leaves_spaced: "cwf t \<Longrightarrow> spaced 0 (csize t) (leaves t)"
proof (induction t rule: cty_induct)
  case (Arr t n)
  then show ?case using spaced_array [of "csize t" "leaves t" n] by simp
next
  case (Struct fs)
  have f: "\<forall>(f, t) \<in> set fs. 0 < calign t \<and> spaced 0 (csize t) (leaves t)"
    using Struct calign_pos by (auto simp: list_all_iff)
  have "0 < foldr max (map (\<lambda>(f, t). calign t) fs) 1"
    using foldr_max_base [of 1 "map (\<lambda>(f, t). calign t) fs"] by simp
  from spaced_widen [OF spaced_fields [OF f, of 0] _ align_up_ge [OF this]] show ?case by simp
qed auto

lemma size_leaf [simp]: "snd (snd (snd (tag_leaf x l))) = snd (snd (snd l))"
  "snd (snd (snd (shift_leaf b l))) = snd (snd (snd l))"
  by (cases l; simp)+

lemma leaves_sizes: "cwf t \<Longrightarrow> l \<in> set (leaves t) \<Longrightarrow> 0 < snd (snd (snd l))"
proof (induction t arbitrary: l rule: cty_induct)
  case (Struct fs)
  then obtain b ls where "(b, ls) \<in> set (zip (offsets_from 0 (map snd fs))
      (map (\<lambda>(f, t). map (tag_leaf (Fld f)) (leaves t)) fs))" and l: "l \<in> shift_leaf b ` set ls" by auto
  then obtain f t where "(f, t) \<in> set fs" "ls = map (tag_leaf (Fld f)) (leaves t)"
    using set_zip_rightD by fastforce
  with Struct l show ?case by (auto simp: list_all_iff)
qed auto

lemma leaves_positive: "cwf t \<Longrightarrow> (p, off, s, n) \<in> set (leaves t) \<Longrightarrow> 0 < n"
  using leaves_sizes by fastforce

lemma fst_leaf [simp]: "fst (tag_leaf x l) = x # fst l" "fst (shift_leaf b l) = fst l"
  by (cases l; simp)+

lemma paths_struct:
  "length os = length fs \<Longrightarrow>
   map fst (concat (map2 (\<lambda>b. map (shift_leaf b)) os (map (\<lambda>(f, t). map (tag_leaf (Fld f)) (leaves t)) fs))) =
   concat (map (\<lambda>(f, t). map ((#) (Fld f)) (map fst (leaves t))) fs)"
  by (induction os fs rule: list_induct2) (auto simp: comp_def)

lemma length_offsets [simp]: "length (offsets_from off ts) = length ts"
  by (induction off ts rule: offsets_from.induct) auto

lemma distinct_tagged:
  "distinct (map g xs) \<Longrightarrow> (\<And>x. x \<in> set xs \<Longrightarrow> distinct (h x)) \<Longrightarrow>
     distinct (concat (map (\<lambda>x. map ((#) (g x)) (h x)) xs))"
proof (induction xs)
  case (Cons x xs)
  then show ?case by (auto simp: distinct_map)
qed simp

lemma leaves_distinct: "cwf t \<Longrightarrow> distinct (map fst (leaves t))"
proof (induction t rule: cty_induct)
  case (Arr t n)
  have "map fst (leaves (CArr t n)) = concat (map (\<lambda>i. map ((#) (Idx i)) (map fst (leaves t))) [0..<n])"
    by (simp add: map_concat comp_def)
  then show ?case
    using Arr distinct_tagged [of Idx "[0..<n]" "\<lambda>i. map fst (leaves t)"] by (simp add: distinct_map inj_on_def)
next
  case (Struct fs)
  have "distinct (map (\<lambda>x. Fld (fst x)) fs)" using Struct.prems by (auto simp: distinct_map inj_on_def)
  moreover have "distinct (map fst (leaves (snd x)))" if "x \<in> set fs" for x
    using Struct that by (cases x) (auto simp: list_all_iff)
  ultimately have "distinct (concat (map (\<lambda>x. map ((#) (Fld (fst x))) (map fst (leaves (snd x)))) fs))"
    by (rule distinct_tagged)
  then have "distinct (concat (map (\<lambda>(f, t). map ((#) (Fld f)) (map fst (leaves t))) fs))"
    by (simp only: case_prod_unfold)
  then show ?case by (simp only: leaves.simps paths_struct length_offsets length_map)
qed auto

section \<open>What is stored is loaded\<close>

lemma store_spaced:
  assumes "spaced lo hi ls" "hi \<le> length m"
  shows "take lo (foldl (\<lambda>m (p, off, s, n). put off (le_put n (v p)) m) m ls) = take lo m
    \<and> (\<forall>(p, off, s, n) \<in> set ls.
        slice off n (foldl (\<lambda>m (p, off, s, n). put off (le_put n (v p)) m) m ls) = le_put n (v p))"
  using assms
proof (induction lo hi ls arbitrary: m rule: spaced.induct)
  case (2 lo hi p off s n ls)
  let ?m = "put off (le_put n (v p)) m"
  let ?r = "foldl (\<lambda>m (p, off, s, n). put off (le_put n (v p)) m) ?m ls"
  have b: "off + n \<le> length m" using spaced_bounds [of "off + n" hi ls] 2(2,3) by auto
  then have ih: "take (off + n) ?r = take (off + n) ?m"
    "\<forall>(p, off, s, n) \<in> set ls. slice off n ?r = le_put n (v p)"
    using 2 by auto
  have "slice off n ?r = slice off n (take (off + n) ?r)" by (simp add: slice_def take_drop)
  also have "\<dots> = slice off n ?m" by (simp add: ih(1)) (simp add: slice_def take_drop)
  also have "\<dots> = le_put n (v p)" using b slice_put_same [of off "le_put n (v p)" m] by simp
  finally have s: "slice off n ?r = le_put n (v p)" .
  have "take lo ?r = take lo (take (off + n) ?r)" using 2(2) by simp
  also have "\<dots> = take lo ?m" using ih(1) 2(2) by simp
  also have "\<dots> = take lo m" using 2(2) b by (simp add: put_def)
  finally show ?case using s ih(2) by simp
qed simp

theorem load_store:
  assumes "cwf t" "holds_values t v" "p \<in> fst ` set (leaves t)"
  shows "load t (store t v) p = Some (v p)"
proof -
  obtain off s n where l: "(p, off, s, n) \<in> set (leaves t)" using assms(3) by auto
  then have "map_of (leaves t) p = Some (off, s, n)" using leaves_distinct [OF assms(1)] by simp
  moreover have "slice off n (store t v) = le_put n (v p)"
    using store_spaced [OF leaves_spaced [OF assms(1)], of "zeros (csize t)" v] l
    unfolding store_def by fastforce
  moreover have "representable s n (v p)" using assms(2) l by (auto simp: holds_values_def list_all_iff)
  ultimately show ?thesis
    using scalar_roundtrip leaves_positive [OF assms(1) l] by (simp add: load_def)
qed

end
