(* ===== verification/Uapi.thy ===== *)
theory Uapi
  imports Layout
begin

text \<open>
  The ABI between the kernel module (\<open>module/uapi.rs\<close>) and the userspace library
  (\<open>library/src/uapi.rs\<close>): the C layouts of every structure of both files, the memory image
  of the events the kernel sends, and the ioctl numbers both sides compute.
\<close>

section \<open>The kernel module's structures (module/uapi.rs)\<close>

definition DRM_COMMAND_BASE :: u32 where "DRM_COMMAND_BASE = 0x40"
definition DRM_EVDI_EVENT_UPDATE_READY :: u32 where "DRM_EVDI_EVENT_UPDATE_READY = 0x80000000"
definition DRM_EVDI_EVENT_DPMS :: u32 where "DRM_EVDI_EVENT_DPMS = 0x80000001"
definition DRM_EVDI_EVENT_MODE_CHANGED :: u32 where "DRM_EVDI_EVENT_MODE_CHANGED = 0x80000002"
definition DRM_EVDI_EVENT_CRTC_STATE :: u32 where "DRM_EVDI_EVENT_CRTC_STATE = 0x80000003"
definition DRM_EVDI_EVENT_CURSOR_SET :: u32 where "DRM_EVDI_EVENT_CURSOR_SET = 0x80000004"
definition DRM_EVDI_EVENT_CURSOR_MOVE :: u32 where "DRM_EVDI_EVENT_CURSOR_MOVE = 0x80000005"
definition DRM_EVDI_EVENT_DDCCI_DATA :: u32 where "DRM_EVDI_EVENT_DDCCI_DATA = 0x80000006"
definition DDCCI_BUFFER_SIZE :: nat where "DDCCI_BUFFER_SIZE = 64"

definition m_DrmEvent :: cty where
  "m_DrmEvent = CStruct
     [(''type_'', c_u32), (''length'', c_u32)]"
definition m_DrmEvdiEventUpdateReady :: cty where
  "m_DrmEvdiEventUpdateReady = CStruct
     [(''base'', m_DrmEvent)]"
definition m_DrmEvdiEventDpms :: cty where
  "m_DrmEvdiEventDpms = CStruct
     [(''base'', m_DrmEvent), (''mode'', c_i32)]"
definition m_DrmEvdiEventModeChanged :: cty where
  "m_DrmEvdiEventModeChanged = CStruct
     [(''base'', m_DrmEvent), (''hdisplay'', c_i32), (''vdisplay'', c_i32),
      (''vrefresh'', c_i32), (''bits_per_pixel'', c_i32), (''pixel_format'', c_u32)]"
definition m_DrmEvdiEventCrtcState :: cty where
  "m_DrmEvdiEventCrtcState = CStruct
     [(''base'', m_DrmEvent), (''state'', c_i32)]"
definition m_DrmEvdiEventCursorSet :: cty where
  "m_DrmEvdiEventCursorSet = CStruct
     [(''base'', m_DrmEvent), (''hot_x'', c_i32), (''hot_y'', c_i32), (''width'', c_u32),
      (''height'', c_u32), (''enabled'', c_u8), (''buffer_handle'', c_u32),
      (''buffer_length'', c_u32), (''pixel_format'', c_u32), (''stride'', c_u32)]"
definition m_DrmEvdiEventCursorMove :: cty where
  "m_DrmEvdiEventCursorMove = CStruct
     [(''base'', m_DrmEvent), (''x'', c_i32), (''y'', c_i32)]"
definition m_DrmEvdiEventDdcciData :: cty where
  "m_DrmEvdiEventDdcciData = CStruct
     [(''base'', m_DrmEvent), (''buffer'', CArr c_u8 DDCCI_BUFFER_SIZE),
      (''buffer_length'', c_u32), (''flags'', c_u16), (''address'', c_u16)]"
definition m_DrmEvdiConnect :: cty where
  "m_DrmEvdiConnect = CStruct
     [(''connected'', c_i32), (''dev_index'', c_i32), (''edid'', c_usize),
      (''edid_length'', c_u32), (''pixel_area_limit'', c_u32),
      (''pixel_per_second_limit'', c_u32)]"
definition m_DrmEvdiRequestUpdate :: cty where
  "m_DrmEvdiRequestUpdate = CStruct
     [(''reserved'', c_i32)]"
definition m_DrmEvdiGrabpix :: cty where
  "m_DrmEvdiGrabpix = CStruct
     [(''mode'', c_i32), (''buf_width'', c_i32), (''buf_height'', c_i32),
      (''buf_byte_stride'', c_i32), (''buffer'', c_usize), (''num_rects'', c_i32),
      (''rects'', c_usize)]"
definition m_DrmEvdiDdcciResponse :: cty where
  "m_DrmEvdiDdcciResponse = CStruct
     [(''buffer'', c_usize), (''buffer_length'', c_u32), (''result'', c_u8)]"
definition m_DrmEvdiEnableCursorEvents :: cty where
  "m_DrmEvdiEnableCursorEvents = CStruct
     [(''base'', m_DrmEvent), (''enable'', c_u8)]"

section \<open>The library's structures (library/src/uapi.rs)\<close>

definition lib_DRM_COMMAND_BASE :: u32 where "lib_DRM_COMMAND_BASE = 0x40"
definition lib_EVENT_UPDATE_READY :: u32 where "lib_EVENT_UPDATE_READY = 0x80000000"
definition lib_EVENT_DPMS :: u32 where "lib_EVENT_DPMS = 0x80000001"
definition lib_EVENT_MODE_CHANGED :: u32 where "lib_EVENT_MODE_CHANGED = 0x80000002"
definition lib_EVENT_CRTC_STATE :: u32 where "lib_EVENT_CRTC_STATE = 0x80000003"
definition lib_EVENT_CURSOR_SET :: u32 where "lib_EVENT_CURSOR_SET = 0x80000004"
definition lib_EVENT_CURSOR_MOVE :: u32 where "lib_EVENT_CURSOR_MOVE = 0x80000005"
definition lib_EVENT_DDCCI_DATA :: u32 where "lib_EVENT_DDCCI_DATA = 0x80000006"
definition lib_DDCCI_BUFFER_SIZE :: nat where "lib_DDCCI_BUFFER_SIZE = 64"

definition l_DrmEvent :: cty where
  "l_DrmEvent = CStruct
     [(''type_'', c_u32), (''length'', c_u32)]"
definition l_DrmEvdiEventDpms :: cty where
  "l_DrmEvdiEventDpms = CStruct
     [(''base'', l_DrmEvent), (''mode'', c_i32)]"
definition l_DrmEvdiEventModeChanged :: cty where
  "l_DrmEvdiEventModeChanged = CStruct
     [(''base'', l_DrmEvent), (''hdisplay'', c_i32), (''vdisplay'', c_i32),
      (''vrefresh'', c_i32), (''bits_per_pixel'', c_i32), (''pixel_format'', c_u32)]"
definition l_DrmEvdiEventCrtcState :: cty where
  "l_DrmEvdiEventCrtcState = CStruct
     [(''base'', l_DrmEvent), (''state'', c_i32)]"
definition l_DrmEvdiEventCursorSet :: cty where
  "l_DrmEvdiEventCursorSet = CStruct
     [(''base'', l_DrmEvent), (''hot_x'', c_i32), (''hot_y'', c_i32), (''width'', c_u32),
      (''height'', c_u32), (''enabled'', c_u8), (''buffer_handle'', c_u32),
      (''buffer_length'', c_u32), (''pixel_format'', c_u32), (''stride'', c_u32)]"
definition l_DrmEvdiEventCursorMove :: cty where
  "l_DrmEvdiEventCursorMove = CStruct
     [(''base'', l_DrmEvent), (''x'', c_i32), (''y'', c_i32)]"
definition l_DrmEvdiEventDdcciData :: cty where
  "l_DrmEvdiEventDdcciData = CStruct
     [(''base'', l_DrmEvent), (''buffer'', CArr c_u8 lib_DDCCI_BUFFER_SIZE),
      (''buffer_length'', c_u32), (''flags'', c_u16), (''address'', c_u16)]"
definition l_DrmEvdiConnect :: cty where
  "l_DrmEvdiConnect = CStruct
     [(''connected'', c_i32), (''dev_index'', c_i32), (''edid'', CPtr), (''edid_length'', c_u32),
      (''pixel_area_limit'', c_u32), (''pixel_per_second_limit'', c_u32)]"
definition l_DrmEvdiRequestUpdate :: cty where
  "l_DrmEvdiRequestUpdate = CStruct
     [(''reserved'', c_i32)]"
definition l_DrmClipRect :: cty where
  "l_DrmClipRect = CStruct
     [(''x1'', c_u16), (''y1'', c_u16), (''x2'', c_u16), (''y2'', c_u16)]"
definition l_DrmEvdiGrabpix :: cty where
  "l_DrmEvdiGrabpix = CStruct
     [(''mode'', c_i32), (''buf_width'', c_i32), (''buf_height'', c_i32),
      (''buf_byte_stride'', c_i32), (''buffer'', CPtr), (''num_rects'', c_i32),
      (''rects'', CPtr)]"
definition l_DrmEvdiDdcciResponse :: cty where
  "l_DrmEvdiDdcciResponse = CStruct
     [(''buffer'', CPtr), (''buffer_length'', c_u32), (''result'', c_u8)]"
definition l_DrmEvdiEnableCursorEvents :: cty where
  "l_DrmEvdiEnableCursorEvents = CStruct
     [(''base'', l_DrmEvent), (''enable'', c_u8)]"

lemmas module_structs = m_DrmEvent_def m_DrmEvdiEventUpdateReady_def m_DrmEvdiEventDpms_def
  m_DrmEvdiEventModeChanged_def m_DrmEvdiEventCrtcState_def m_DrmEvdiEventCursorSet_def
  m_DrmEvdiEventCursorMove_def m_DrmEvdiEventDdcciData_def m_DrmEvdiConnect_def
  m_DrmEvdiRequestUpdate_def m_DrmEvdiGrabpix_def m_DrmEvdiDdcciResponse_def
  m_DrmEvdiEnableCursorEvents_def DDCCI_BUFFER_SIZE_def

lemmas library_structs = l_DrmEvent_def l_DrmEvdiEventDpms_def
  l_DrmEvdiEventModeChanged_def l_DrmEvdiEventCrtcState_def l_DrmEvdiEventCursorSet_def
  l_DrmEvdiEventCursorMove_def l_DrmEvdiEventDdcciData_def l_DrmEvdiConnect_def
  l_DrmEvdiRequestUpdate_def l_DrmClipRect_def l_DrmEvdiGrabpix_def l_DrmEvdiDdcciResponse_def
  l_DrmEvdiEnableCursorEvents_def lib_DDCCI_BUFFER_SIZE_def

lemmas layout_simps = align_up_def

section \<open>ioctl numbers\<close>

text \<open>
  The module builds its numbers with the kernel's \<open>IOWR\<close> (\<open>_IOC(READ|WRITE, 'd', nr, size)\<close>,
  outside the repository: a parameter of the comparison below); the library spells the
  shifts out twice, in \<open>uapi.rs\<close> and in \<open>ffi.rs\<close>.
\<close>

definition iowr :: "u32 \<Rightarrow> nat \<Rightarrow> u64" where
  "iowr nr sz =
     ucast (push_bit 30 ((2 :: u32) OR 1) OR push_bit 8 (0x64 :: u32) OR push_bit 0 nr
            OR push_bit 16 (of_nat sz :: u32))"

definition IOC_NRSHIFT :: nat where "IOC_NRSHIFT = 0"
definition IOC_TYPESHIFT :: nat where "IOC_TYPESHIFT = 8"
definition IOC_SIZESHIFT :: nat where "IOC_SIZESHIFT = 16"
definition IOC_DIRSHIFT :: nat where "IOC_DIRSHIFT = 30"
definition IOC_NONE :: u32 where "IOC_NONE = 0"
definition IOC_WRITE :: u32 where "IOC_WRITE = 1"
definition IOC_READ :: u32 where "IOC_READ = 2"
definition DRM_IOCTL_BASE :: u32 where "DRM_IOCTL_BASE = 0x64"

definition ioc :: "u32 \<Rightarrow> u32 \<Rightarrow> nat \<Rightarrow> u64" where
  "ioc dir nr sz =
     ucast (push_bit IOC_DIRSHIFT dir OR push_bit IOC_TYPESHIFT DRM_IOCTL_BASE
            OR push_bit IOC_NRSHIFT nr OR push_bit IOC_SIZESHIFT (of_nat sz :: u32))"

definition drm_io :: "u32 \<Rightarrow> u64" where "drm_io nr = ioc IOC_NONE nr 0"
definition drm_iow :: "u32 \<Rightarrow> nat \<Rightarrow> u64" where "drm_iow nr sz = ioc IOC_WRITE nr sz"
definition drm_iowr :: "u32 \<Rightarrow> nat \<Rightarrow> u64" where
  "drm_iowr nr sz = ioc (IOC_READ OR IOC_WRITE) nr sz"

definition ioctl_connect :: u64 where
  "ioctl_connect = iowr (lib_DRM_COMMAND_BASE + 0x00) (csize l_DrmEvdiConnect)"
definition ioctl_request_update :: u64 where
  "ioctl_request_update = iowr (lib_DRM_COMMAND_BASE + 0x01) (csize l_DrmEvdiRequestUpdate)"
definition ioctl_grabpix :: u64 where
  "ioctl_grabpix = iowr (lib_DRM_COMMAND_BASE + 0x02) (csize l_DrmEvdiGrabpix)"
definition ioctl_ddcci_response :: u64 where
  "ioctl_ddcci_response = iowr (lib_DRM_COMMAND_BASE + 0x03) (csize l_DrmEvdiDdcciResponse)"
definition ioctl_enable_cursor_events :: u64 where
  "ioctl_enable_cursor_events =
     iowr (lib_DRM_COMMAND_BASE + 0x04) (csize l_DrmEvdiEnableCursorEvents)"

text \<open>The module's \<open>DRM_IOCTL_EVDI_*\<close>, over the kernel's \<open>IOWR\<close>.\<close>

definition m_ioctl_connect :: "(u32 \<Rightarrow> nat \<Rightarrow> u64) \<Rightarrow> u64" where
  "m_ioctl_connect IOWR = IOWR (DRM_COMMAND_BASE + 0x00) (csize m_DrmEvdiConnect)"
definition m_ioctl_request_update :: "(u32 \<Rightarrow> nat \<Rightarrow> u64) \<Rightarrow> u64" where
  "m_ioctl_request_update IOWR = IOWR (DRM_COMMAND_BASE + 0x01) (csize m_DrmEvdiRequestUpdate)"
definition m_ioctl_grabpix :: "(u32 \<Rightarrow> nat \<Rightarrow> u64) \<Rightarrow> u64" where
  "m_ioctl_grabpix IOWR = IOWR (DRM_COMMAND_BASE + 0x02) (csize m_DrmEvdiGrabpix)"
definition m_ioctl_ddcci_response :: "(u32 \<Rightarrow> nat \<Rightarrow> u64) \<Rightarrow> u64" where
  "m_ioctl_ddcci_response IOWR = IOWR (DRM_COMMAND_BASE + 0x03) (csize m_DrmEvdiDdcciResponse)"
definition m_ioctl_enable_cursor_events :: "(u32 \<Rightarrow> nat \<Rightarrow> u64) \<Rightarrow> u64" where
  "m_ioctl_enable_cursor_events IOWR =
     IOWR (DRM_COMMAND_BASE + 0x04) (csize m_DrmEvdiEnableCursorEvents)"

lemma iowr_eq_drm_iowr: "iowr nr sz = drm_iowr nr sz"
  by (simp add: iowr_def drm_iowr_def ioc_def IOC_READ_def IOC_WRITE_def IOC_DIRSHIFT_def
      IOC_TYPESHIFT_def IOC_NRSHIFT_def IOC_SIZESHIFT_def DRM_IOCTL_BASE_def)

lemma module_sizes:
  "csize m_DrmEvent = 8" "csize m_DrmEvdiEventUpdateReady = 8" "csize m_DrmEvdiEventDpms = 12"
  "csize m_DrmEvdiEventModeChanged = 28" "csize m_DrmEvdiEventCrtcState = 12"
  "csize m_DrmEvdiEventCursorSet = 44" "csize m_DrmEvdiEventCursorMove = 16"
  "csize m_DrmEvdiEventDdcciData = 80" "csize m_DrmEvdiConnect = 32"
  "csize m_DrmEvdiRequestUpdate = 4" "csize m_DrmEvdiGrabpix = 40"
  "csize m_DrmEvdiDdcciResponse = 16" "csize m_DrmEvdiEnableCursorEvents = 12"
  by (simp_all add: module_structs layout_simps)

text \<open>The structures both files declare, the module's first.\<close>

definition abi_structs :: "(cty \<times> cty) list" where
  "abi_structs =
     [(m_DrmEvent, l_DrmEvent), (m_DrmEvdiEventDpms, l_DrmEvdiEventDpms),
      (m_DrmEvdiEventModeChanged, l_DrmEvdiEventModeChanged),
      (m_DrmEvdiEventCrtcState, l_DrmEvdiEventCrtcState),
      (m_DrmEvdiEventCursorSet, l_DrmEvdiEventCursorSet),
      (m_DrmEvdiEventCursorMove, l_DrmEvdiEventCursorMove),
      (m_DrmEvdiEventDdcciData, l_DrmEvdiEventDdcciData), (m_DrmEvdiConnect, l_DrmEvdiConnect),
      (m_DrmEvdiRequestUpdate, l_DrmEvdiRequestUpdate), (m_DrmEvdiGrabpix, l_DrmEvdiGrabpix),
      (m_DrmEvdiDdcciResponse, l_DrmEvdiDdcciResponse),
      (m_DrmEvdiEnableCursorEvents, l_DrmEvdiEnableCursorEvents)]"

text \<open>The module's addresses are \<open>usize\<close>, the library's are pointers; the scalars are the same.\<close>

lemma abi_leaves:
  "(k, u) \<in> set abi_structs \<Longrightarrow> leaves u = leaves k \<and> csize u = csize k \<and> cwf k \<and> cwf u"
proof -
  have "list_all (\<lambda>(k, u). leaves u = leaves k \<and> csize u = csize k \<and> cwf k \<and> cwf u) abi_structs"
    by code_simp
  then show "(k, u) \<in> set abi_structs \<Longrightarrow> ?thesis" by (auto simp: list_all_iff)
qed

lemma library_layouts:
  "csize l_DrmEvent = csize m_DrmEvent" "csize l_DrmEvdiEventDpms = csize m_DrmEvdiEventDpms"
  "csize l_DrmEvdiEventModeChanged = csize m_DrmEvdiEventModeChanged"
  "csize l_DrmEvdiEventCrtcState = csize m_DrmEvdiEventCrtcState"
  "csize l_DrmEvdiEventCursorSet = csize m_DrmEvdiEventCursorSet"
  "csize l_DrmEvdiEventCursorMove = csize m_DrmEvdiEventCursorMove"
  "csize l_DrmEvdiEventDdcciData = csize m_DrmEvdiEventDdcciData"
  "csize l_DrmEvdiConnect = csize m_DrmEvdiConnect"
  "csize l_DrmEvdiRequestUpdate = csize m_DrmEvdiRequestUpdate"
  "csize l_DrmEvdiGrabpix = csize m_DrmEvdiGrabpix"
  "csize l_DrmEvdiDdcciResponse = csize m_DrmEvdiDdcciResponse"
  "csize l_DrmEvdiEnableCursorEvents = csize m_DrmEvdiEnableCursorEvents"
  using abi_leaves by (simp_all add: abi_structs_def)

lemma ioctl_agree:
  "ioctl_connect = m_ioctl_connect drm_iowr"
  "ioctl_request_update = m_ioctl_request_update drm_iowr"
  "ioctl_grabpix = m_ioctl_grabpix drm_iowr"
  "ioctl_ddcci_response = m_ioctl_ddcci_response drm_iowr"
  "ioctl_enable_cursor_events = m_ioctl_enable_cursor_events drm_iowr"
  by (simp_all add: ioctl_connect_def ioctl_request_update_def ioctl_grabpix_def
      ioctl_ddcci_response_def ioctl_enable_cursor_events_def m_ioctl_connect_def
      m_ioctl_request_update_def m_ioctl_grabpix_def m_ioctl_ddcci_response_def
      m_ioctl_enable_cursor_events_def iowr_eq_drm_iowr library_layouts
      DRM_COMMAND_BASE_def lib_DRM_COMMAND_BASE_def)

lemma ioctl_values:
  "[ioctl_connect, ioctl_request_update, ioctl_grabpix, ioctl_ddcci_response,
    ioctl_enable_cursor_events] =
   [0xC0206440, 0xC0046441, 0xC0286442, 0xC0106443, 0xC00C6444]"
  by (simp add: ioctl_connect_def ioctl_request_update_def ioctl_grabpix_def
      ioctl_ddcci_response_def ioctl_enable_cursor_events_def iowr_def library_layouts
      module_sizes lib_DRM_COMMAND_BASE_def push_bit_eq_mult)

section \<open>Events\<close>

text \<open>
  An event as the driver builds it (without the header, which \<open>EventChannel::send\<close> fills with
  the payload's type code and size), and its memory image, which the client reads.
\<close>

datatype event =
    UpdateReady
  | Dpms i32
  | ModeChanged i32 i32 i32 i32 u32
  | CrtcState i32
  | CursorSet i32 i32 u32 u32 u8 u32 u32 u32 u32
  | CursorMove i32 i32
  | DdcciData bytes u32 u16 u16

fun event_type :: "event \<Rightarrow> u32" where
  "event_type UpdateReady = DRM_EVDI_EVENT_UPDATE_READY"
| "event_type (Dpms _) = DRM_EVDI_EVENT_DPMS"
| "event_type (ModeChanged _ _ _ _ _) = DRM_EVDI_EVENT_MODE_CHANGED"
| "event_type (CrtcState _) = DRM_EVDI_EVENT_CRTC_STATE"
| "event_type (CursorSet _ _ _ _ _ _ _ _ _) = DRM_EVDI_EVENT_CURSOR_SET"
| "event_type (CursorMove _ _) = DRM_EVDI_EVENT_CURSOR_MOVE"
| "event_type (DdcciData _ _ _ _) = DRM_EVDI_EVENT_DDCCI_DATA"

fun event_struct :: "event \<Rightarrow> cty" where
  "event_struct UpdateReady = m_DrmEvdiEventUpdateReady"
| "event_struct (Dpms _) = m_DrmEvdiEventDpms"
| "event_struct (ModeChanged _ _ _ _ _) = m_DrmEvdiEventModeChanged"
| "event_struct (CrtcState _) = m_DrmEvdiEventCrtcState"
| "event_struct (CursorSet _ _ _ _ _ _ _ _ _) = m_DrmEvdiEventCursorSet"
| "event_struct (CursorMove _ _) = m_DrmEvdiEventCursorMove"
| "event_struct (DdcciData _ _ _ _) = m_DrmEvdiEventDdcciData"

fun event_fields :: "event \<Rightarrow> bytes list" where
  "event_fields UpdateReady = []"
| "event_fields (Dpms m) = [le32 m]"
| "event_fields (ModeChanged h v r bpp fmt) = [le32 h, le32 v, le32 r, le32 bpp, le32 fmt]"
| "event_fields (CrtcState s) = [le32 s]"
| "event_fields (CursorSet hx hy w h en bh bl pf st) =
     [le32 hx, le32 hy, le32 w, le32 h, [en], le32 bh, le32 bl, le32 pf, le32 st]"
| "event_fields (CursorMove x y) = [le32 x, le32 y]"
| "event_fields (DdcciData b len flags addr) = [b, le32 len, le16 flags, le16 addr]"

fun fields_image :: "nat \<Rightarrow> cty list \<Rightarrow> bytes list \<Rightarrow> bytes" where
  "fields_image off (t # ts) (v # vs) =
     zeros (align_up off (calign t) - off) @ v
     @ fields_image (align_up off (calign t) + csize t) ts vs"
| "fields_image off _ _ = []"

fun struct_image :: "cty \<Rightarrow> bytes list \<Rightarrow> bytes" where
  "struct_image (CStruct fs) vs = pad_to (csize (CStruct fs)) (fields_image 0 (map snd fs) vs)"
| "struct_image _ vs = concat vs"

definition event_image :: "event \<Rightarrow> bytes" where
  "event_image ev =
     struct_image (event_struct ev)
       ((le32 (event_type ev) @ le32 (of_nat (csize (event_struct ev)))) # event_fields ev)"

fun event_ok :: "event \<Rightarrow> bool" where
  "event_ok (DdcciData b _ _ _) = (length b = DDCCI_BUFFER_SIZE)"
| "event_ok _ = True"

lemmas event_codes = DRM_EVDI_EVENT_UPDATE_READY_def DRM_EVDI_EVENT_DPMS_def
  DRM_EVDI_EVENT_MODE_CHANGED_def DRM_EVDI_EVENT_CRTC_STATE_def DRM_EVDI_EVENT_CURSOR_SET_def
  DRM_EVDI_EVENT_CURSOR_MOVE_def DRM_EVDI_EVENT_DDCCI_DATA_def

lemmas lib_event_codes = lib_EVENT_UPDATE_READY_def lib_EVENT_DPMS_def
  lib_EVENT_MODE_CHANGED_def lib_EVENT_CRTC_STATE_def lib_EVENT_CURSOR_SET_def
  lib_EVENT_CURSOR_MOVE_def lib_EVENT_DDCCI_DATA_def

lemma length_event_image: "event_ok ev \<Longrightarrow> length (event_image ev) = csize (event_struct ev)"
  by (cases ev) (simp_all add: event_image_def module_structs layout_simps)

text \<open>
  C16. The kernel module and the library agree on the ABI. For every structure both files declare,
  and all field values its types can hold: whatever one side writes in memory with its own layout,
  the other reads back field by field, by name and with the same sign, array elements and headers
  included, and the two sizes are equal. The event type codes are the same, and every ioctl number
  the library issues is the one the module registers (with the asm-generic \<open>_IOC\<close> for the kernel's
  \<open>IOWR\<close>); the five are distinct.
\<close>

theorem abi_agreement:
  assumes "(k, u) \<in> set abi_structs" "holds_values k v"
  shows "csize u = csize k \<and> fst ` set (leaves u) = fst ` set (leaves k)
    \<and> (\<forall>p \<in> fst ` set (leaves k). load u (store k v) p = Some (v p) \<and> load k (store u v) p = Some (v p))
    \<and> [lib_EVENT_UPDATE_READY, lib_EVENT_DPMS, lib_EVENT_MODE_CHANGED, lib_EVENT_CRTC_STATE,
        lib_EVENT_CURSOR_SET, lib_EVENT_CURSOR_MOVE, lib_EVENT_DDCCI_DATA]
      = [DRM_EVDI_EVENT_UPDATE_READY, DRM_EVDI_EVENT_DPMS, DRM_EVDI_EVENT_MODE_CHANGED,
        DRM_EVDI_EVENT_CRTC_STATE, DRM_EVDI_EVENT_CURSOR_SET, DRM_EVDI_EVENT_CURSOR_MOVE,
        DRM_EVDI_EVENT_DDCCI_DATA]
    \<and> [ioctl_connect, ioctl_request_update, ioctl_grabpix, ioctl_ddcci_response, ioctl_enable_cursor_events]
      = [m_ioctl_connect drm_iowr, m_ioctl_request_update drm_iowr, m_ioctl_grabpix drm_iowr,
        m_ioctl_ddcci_response drm_iowr, m_ioctl_enable_cursor_events drm_iowr]
    \<and> distinct [ioctl_connect, ioctl_request_update, ioctl_grabpix, ioctl_ddcci_response,
        ioctl_enable_cursor_events]"
proof -
  note same = abi_leaves [OF assms(1)]
  then have eq: "load u = load k" "store u v = store k v"
    by (simp_all add: fun_eq_iff load_def store_def)
  have "distinct [ioctl_connect, ioctl_request_update, ioctl_grabpix, ioctl_ddcci_response,
      ioctl_enable_cursor_events]"
    by (subst ioctl_values) simp
  then show ?thesis
    using same load_store [of k v] assms(2)
    by (simp add: eq ioctl_agree event_codes lib_event_codes)
qed

text \<open>A grab with a negative width into a buffer in the upper half of the address space.\<close>

definition demo_grab_values :: "path \<Rightarrow> int" where
  "demo_grab_values p =
     (if p = [Fld ''buf_width''] then - 1 else if p = [Fld ''buffer''] then 2 ^ 63 else 16)"

theorem abi_agreement_witness:
  "load m_DrmEvdiGrabpix (store l_DrmEvdiGrabpix demo_grab_values) [Fld ''buf_width''] = Some (- 1)
   \<and> load m_DrmEvdiGrabpix (store l_DrmEvdiGrabpix demo_grab_values) [Fld ''buffer''] = Some (2 ^ 63)"
proof -
  have "(m_DrmEvdiGrabpix, l_DrmEvdiGrabpix) \<in> set abi_structs" by (simp add: abi_structs_def)
  moreover have "holds_values m_DrmEvdiGrabpix demo_grab_values" by code_simp
  moreover have "{[Fld ''buf_width''], [Fld ''buffer'']} \<subseteq> set (map fst (leaves m_DrmEvdiGrabpix))" by code_simp
  ultimately have "load m_DrmEvdiGrabpix (store l_DrmEvdiGrabpix demo_grab_values) p = Some (demo_grab_values p)"
    if "p \<in> {[Fld ''buf_width''], [Fld ''buffer'']}" for p
    using abi_agreement [of m_DrmEvdiGrabpix l_DrmEvdiGrabpix demo_grab_values] that by auto
  then show ?thesis by (simp add: demo_grab_values_def)
qed

end
