(* ===== verification/Painter.thy ===== *)
theory Painter
  imports Uapi
begin

text \<open>
  The painter of the kernel module (\<open>module/painter.rs\<close>): the per-device connection flags and
  the accumulated frame damage. \<open>i32\<close> coordinates are integers: the code only compares them.
  The events the \<open>notify_*\<close> functions send are values of \<open>event\<close> (theory \<open>Uapi\<close>).
\<close>

type_synonym rect = "int \<times> int \<times> int \<times> int"

definition DPMS_ON :: i32 where "DPMS_ON = 0"
definition DPMS_OFF :: i32 where "DPMS_OFF = 3"
definition MAX_DAMAGE_RECTS :: nat where "MAX_DAMAGE_RECTS = 16"

section \<open>Frame damage\<close>

record damage =
  dm_rects :: "rect list"
  dm_count :: nat

definition damage_new :: damage where
  "damage_new = \<lparr>dm_rects = replicate MAX_DAMAGE_RECTS (0, 0, 0, 0), dm_count = 0\<rparr>"

fun bb_join :: "rect \<Rightarrow> rect \<Rightarrow> rect" where
  "bb_join (bx1, by1, bx2, by2) (x1, y1, x2, y2) =
     (min bx1 x1, min by1 y1, max bx2 x2, max by2 y2)"

definition damage_push :: "damage \<Rightarrow> rect \<Rightarrow> damage" where
  "damage_push d r =
     (if dm_count d < MAX_DAMAGE_RECTS
      then d\<lparr>dm_rects := (dm_rects d)[dm_count d := r], dm_count := dm_count d + 1\<rparr>
      else (let bb = foldl bb_join r (take (dm_count d) (dm_rects d))
            in d\<lparr>dm_rects := (dm_rects d)[0 := bb], dm_count := 1\<rparr>))"

definition damage_clear :: "damage \<Rightarrow> damage" where
  "damage_clear d = d\<lparr>dm_count := 0\<rparr>"

record painter_state =
  ps_connected :: bool
  ps_cursor_events_enabled :: bool
  ps_frame_dirty :: bool
  ps_damage :: damage

definition painter_new :: painter_state where
  "painter_new = \<lparr>ps_connected = False, ps_cursor_events_enabled = False,
                  ps_frame_dirty = False, ps_damage = damage_new\<rparr>"

section \<open>What a damage record covers\<close>

text \<open>
  The rectangles GRABPIX will look at are \<open>rects[..count]\<close>. A pixel lies in a rectangle
  \<open>(x1, y1, x2, y2)\<close> when \<open>x1 \<le> x < x2\<close> and \<open>y1 \<le> y < y2\<close>.
\<close>

definition active :: "damage \<Rightarrow> rect list" where
  "active d = take (dm_count d) (dm_rects d)"

fun in_rect :: "int \<times> int \<Rightarrow> rect \<Rightarrow> bool" where
  "in_rect (x, y) (x1, y1, x2, y2) = (x1 \<le> x \<and> x < x2 \<and> y1 \<le> y \<and> y < y2)"

definition covers :: "damage \<Rightarrow> int \<times> int \<Rightarrow> bool" where
  "covers d p = (\<exists>r \<in> set (active d). in_rect p r)"

definition damage_wf :: "damage \<Rightarrow> bool" where
  "damage_wf d = (length (dm_rects d) = MAX_DAMAGE_RECTS \<and> dm_count d \<le> MAX_DAMAGE_RECTS)"

lemma in_bb_join:
  "in_rect p a \<or> in_rect p b \<Longrightarrow> in_rect p (bb_join a b)"
  by (cases p; cases a; cases b) auto

lemma in_bb_foldl:
  "in_rect p a \<or> (\<exists>r \<in> set rs. in_rect p r) \<Longrightarrow> in_rect p (foldl bb_join a rs)"
proof (induction rs arbitrary: a)
  case (Cons r rs)
  then have "in_rect p (bb_join a r) \<or> (\<exists>r \<in> set rs. in_rect p r)"
    using in_bb_join [of p a r] by (metis set_ConsD)
  from Cons.IH [OF this] show ?case by simp
qed simp

text \<open>The bounding box is the least rectangle around its arguments.\<close>

fun rect_le :: "rect \<Rightarrow> rect \<Rightarrow> bool" where
  "rect_le (x1, y1, x2, y2) (u1, v1, u2, v2) = (u1 \<le> x1 \<and> v1 \<le> y1 \<and> x2 \<le> u2 \<and> y2 \<le> v2)"

lemma rect_le_refl [simp]: "rect_le a a"
  by (cases a) simp

lemma bb_join_le_iff: "rect_le (bb_join a b) u \<longleftrightarrow> rect_le a u \<and> rect_le b u"
  by (cases a; cases b; cases u) auto

lemma bb_foldl_le_iff: "rect_le (foldl bb_join a rs) u \<longleftrightarrow> (\<forall>r \<in> set (a # rs). rect_le r u)"
  by (induction rs arbitrary: a) (auto simp: bb_join_le_iff)

lemma rect_le_in: "rect_le a b \<Longrightarrow> in_rect p a \<Longrightarrow> in_rect p b"
  by (cases p; cases a; cases b) auto

lemma damage_new_wf [simp]: "damage_wf damage_new"
  by (simp add: damage_wf_def damage_new_def)

lemma damage_push_wf [simp]: "damage_wf d \<Longrightarrow> damage_wf (damage_push d r)"
  by (auto simp: damage_wf_def damage_push_def Let_def MAX_DAMAGE_RECTS_def)

lemma damage_clear_wf [simp]: "damage_wf d \<Longrightarrow> damage_wf (damage_clear d)"
  by (simp add: damage_wf_def damage_clear_def)

lemma covers_clear [simp]: "\<not> covers (damage_clear d) p"
  by (simp add: covers_def active_def damage_clear_def)

lemma covers_new [simp]: "\<not> covers damage_new p"
  by (simp add: covers_def active_def damage_new_def)

lemma active_push:
  assumes "damage_wf d"
  shows "active (damage_push d r) =
    (if dm_count d < MAX_DAMAGE_RECTS then active d @ [r]
     else [foldl bb_join r (active d)])"
proof (cases "dm_count d < MAX_DAMAGE_RECTS")
  case True
  with assms show ?thesis
    by (simp add: active_def damage_push_def damage_wf_def take_Suc_conv_app_nth)
next
  case False
  with assms show ?thesis
    by (cases "dm_rects d") (auto simp: active_def damage_push_def damage_wf_def Let_def
        MAX_DAMAGE_RECTS_def)
qed

lemma covers_push:
  assumes "damage_wf d"
  shows "covers d p \<or> in_rect p r \<Longrightarrow> covers (damage_push d r) p"
  using assms by (auto simp: covers_def active_push intro: in_bb_foldl)

lemma covers_push_exact:
  assumes "damage_wf d" "dm_count d < MAX_DAMAGE_RECTS"
  shows "covers (damage_push d r) p \<longleftrightarrow> covers d p \<or> in_rect p r"
  using assms by (auto simp: covers_def active_push)

section \<open>The accumulator interface\<close>

text \<open>
  What the flip path relies on: pushing a region never loses a pixel recorded before it, and
  records the region's own pixels. The clients (the plane's damage loop, GRABPIX) push a
  sequence of regions; nothing recorded since the last clear is lost.
\<close>

locale damage_log =
  fixes push :: "'d \<Rightarrow> 'r \<Rightarrow> 'd"
    and clear :: "'d \<Rightarrow> 'd"
    and cov :: "'d \<Rightarrow> 'p \<Rightarrow> bool"
    and within :: "'p \<Rightarrow> 'r \<Rightarrow> bool"
    and wf :: "'d \<Rightarrow> bool"
  assumes push_wf: "wf d \<Longrightarrow> wf (push d r)"
    and clear_wf: "wf d \<Longrightarrow> wf (clear d)"
    and push_keeps: "wf d \<Longrightarrow> cov d p \<Longrightarrow> cov (push d r) p"
    and push_adds: "wf d \<Longrightarrow> within p r \<Longrightarrow> cov (push d r) p"
    and clear_shows: "wf d \<Longrightarrow> \<not> cov (clear d) p"
begin

lemma fold_wf: "wf d \<Longrightarrow> wf (foldl push d rs)"
  by (induction rs arbitrary: d) (auto intro: push_wf)

lemma fold_keeps: "wf d \<Longrightarrow> cov d p \<Longrightarrow> cov (foldl push d rs) p"
  by (induction rs arbitrary: d) (auto intro: push_wf push_keeps)

lemma fold_adds: "wf d \<Longrightarrow> r \<in> set rs \<Longrightarrow> within p r \<Longrightarrow> cov (foldl push d rs) p"
  by (induction rs arbitrary: d) (auto intro: push_wf push_adds fold_keeps)

end

interpretation dmg: damage_log damage_push damage_clear covers in_rect damage_wf
  by unfold_locales (auto intro: covers_push)

lemma push_all_exact:
  assumes "damage_wf d" "dm_count d + length rs \<le> MAX_DAMAGE_RECTS"
  shows "active (foldl damage_push d rs) = active d @ rs"
  using assms
proof (induction rs arbitrary: d)
  case (Cons r rs)
  then have "dm_count (damage_push d r) = dm_count d + 1"
    by (simp add: damage_push_def)
  with Cons show ?case by (simp add: active_push)
qed simp

lemma push_all_bounded:
  assumes "\<forall>r \<in> set (active d @ rs). rect_le r u" "damage_wf d"
  shows "\<forall>r \<in> set (active (foldl damage_push d rs)). rect_le r u"
  using assms
proof (induction rs arbitrary: d)
  case (Cons r rs)
  then have "\<forall>q \<in> set (active (damage_push d r) @ rs). rect_le q u"
    by (auto simp: active_push bb_foldl_le_iff split: if_splits)
  with Cons.IH [of "damage_push d r"] Cons.prems show ?case by simp
qed simp

text \<open>
  Damage is never lost between grabs: from an empty record, after any sequence of changed
  rectangles every pixel of every one of them is covered by the recorded rectangles; the record
  never holds more than 16; up to 16 pushes it is exactly the sequence pushed; and it never
  grows beyond a rectangle that bounds everything pushed.
\<close>

theorem damage_push_sound:
  assumes "damage_wf d" "dm_count d = 0"
  shows "(\<forall>r \<in> set rs. \<forall>p. in_rect p r \<longrightarrow> covers (foldl damage_push d rs) p) \<and>
    length (active (foldl damage_push d rs)) \<le> MAX_DAMAGE_RECTS \<and>
    (length rs \<le> MAX_DAMAGE_RECTS \<longrightarrow> active (foldl damage_push d rs) = rs) \<and>
    (\<forall>u. (\<forall>q \<in> set rs. rect_le q u) \<longrightarrow>
         (\<forall>q \<in> set (active (foldl damage_push d rs)). rect_le q u))"
proof (intro conjI allI impI ballI)
  have none: "active d = []" using assms(2) by (simp add: active_def)
  show "r \<in> set rs \<Longrightarrow> in_rect p r \<Longrightarrow> covers (foldl damage_push d rs) p" for r p
    by (rule dmg.fold_adds [OF assms(1)])
  have "damage_wf (foldl damage_push d rs)"
    by (rule dmg.fold_wf [OF assms(1)])
  then show "length (active (foldl damage_push d rs)) \<le> MAX_DAMAGE_RECTS"
    by (simp add: damage_wf_def active_def)
  show "length rs \<le> MAX_DAMAGE_RECTS \<Longrightarrow> active (foldl damage_push d rs) = rs"
    using push_all_exact [OF assms(1)] assms(2) none by simp
  show "\<forall>q \<in> set rs. rect_le q u \<Longrightarrow> q \<in> set (active (foldl damage_push d rs)) \<Longrightarrow> rect_le q u"
    for u q
    using push_all_bounded [of d rs u] assms(1) none by simp
qed

theorem damage_push_sound_witness:
  "covers (foldl damage_push damage_new [(0, 0, 64, 64), (100, 50, 200, 80)]) (150, 60) \<and>
   length (active (foldl damage_push damage_new (replicate 40 (1, 2, 3, 4)))) \<le> MAX_DAMAGE_RECTS \<and>
   active (foldl damage_push damage_new [(5, 6, 7, 8)]) = [(5, 6, 7, 8)]"
proof -
  have d: "damage_wf damage_new" "dm_count damage_new = 0"
    by (simp_all add: damage_new_def damage_wf_def)
  have "(100, 50, 200, 80) \<in> set [(0, 0, 64, 64), (100, 50, 200, 80 :: int)]"
    "in_rect (150, 60) (100, 50, 200, 80)"
    by simp_all
  with damage_push_sound [OF d, of "[(0, 0, 64, 64), (100, 50, 200, 80)]"]
  have "covers (foldl damage_push damage_new [(0, 0, 64, 64), (100, 50, 200, 80)]) (150, 60)"
    by blast
  moreover have "length [(5, 6, 7, 8 :: int)] \<le> MAX_DAMAGE_RECTS"
    by (simp add: MAX_DAMAGE_RECTS_def)
  ultimately show ?thesis
    using damage_push_sound [OF d, of "replicate 40 (1, 2, 3, 4)"]
      damage_push_sound [OF d, of "[(5, 6, 7, 8)]"]
    by blast
qed

section \<open>Notifications\<close>

text \<open>
  Each \<open>notify_*\<close> builds one event and hands it to \<open>EventChannel::send\<close>, whose result it
  drops: the event it sends is its model.
\<close>

definition notify_update_ready :: event where
  "notify_update_ready = UpdateReady"

definition notify_dpms :: "i32 \<Rightarrow> event" where
  "notify_dpms mode = Dpms mode"

definition notify_cursor_move :: "i32 \<Rightarrow> i32 \<Rightarrow> event" where
  "notify_cursor_move x y = CursorMove x y"

definition notify_cursor_set ::
    "i32 \<Rightarrow> i32 \<Rightarrow> u32 \<Rightarrow> u32 \<Rightarrow> bool \<Rightarrow> u32 \<Rightarrow> u32 \<Rightarrow> u32 \<Rightarrow> u32 \<Rightarrow> event" where
  "notify_cursor_set hot_x hot_y width height enabled buffer_handle buffer_length pixel_format
     stride =
     CursorSet hot_x hot_y width height (if enabled then 1 else 0) buffer_handle buffer_length
       pixel_format stride"

definition notify_mode_changed :: "i32 \<Rightarrow> i32 \<Rightarrow> i32 \<Rightarrow> i32 \<Rightarrow> u32 \<Rightarrow> event" where
  "notify_mode_changed hdisplay vdisplay vrefresh bits_per_pixel pixel_format =
     ModeChanged hdisplay vdisplay vrefresh bits_per_pixel pixel_format"

end
