(* ===== verification/Kms.thy ===== *)
theory Kms
  imports Painter
begin

text \<open>
  The DRM/KMS half of the kernel module (\<open>module/kms.rs\<close>, \<open>module/ddcci.rs\<close>): the
  module-wide slot table behind the pixel-rate budget, the per-device data and its
  operations, the CRTC, plane and connector callbacks, the vblank timer, and the DDC/CI
  hand-off. Calls into the kernel's own crates (event channel, hotplug, vblank) are recorded in
  order in \<open>ed_calls\<close>; what they return is an argument.
\<close>

section \<open>State\<close>

definition MAX_CARDS :: nat where "MAX_CARDS = 16"
definition DDCCI_ADDRESS :: u16 where "DDCCI_ADDRESS = 0x37"
definition DRM_FORMAT_XRGB8888 :: u32 where "DRM_FORMAT_XRGB8888 = 0x34325258"
definition DRM_FORMAT_ARGB8888 :: u32 where "DRM_FORMAT_ARGB8888 = 0x34325241"
definition FALLBACK_W :: u32 where "FALLBACK_W = 1024"
definition FALLBACK_H :: u32 where "FALLBACK_H = 768"

text \<open>A framebuffer object: its identity, its geometry and what \<open>vmap\<close> gives.\<close>

record fb =
  fb_id :: nat
  fb_width :: u32
  fb_height :: u32
  fb_pitch :: u32
  fb_format :: u32
  fb_vmap :: "bytes res"

record connector =
  cn_cached_edid :: "bytes option"
  cn_pixel_area_limit :: u32
  cn_pixel_per_second_limit :: u32

datatype kcall =
    KSend event
  | KConnect nat
  | KDisconnect
  | KHotplug
  | KNotifyAll
  | KNotifyOne
  | KModuleGet
  | KModulePut
  | KVblankOn
  | KVblankOff
  | KHandleVblank

record evdi_data =
  ed_painter :: painter_state
  ed_scanout :: "fb option"
  ed_ddcci_resp :: "bytes option"
  ed_connector :: "connector option"
  ed_dying :: bool
  ed_pixel_rate_slot :: nat
  ed_calls :: "kcall list"

definition kcall :: "kcall \<Rightarrow> evdi_data \<Rightarrow> evdi_data" where
  "kcall c d = d\<lparr>ed_calls := ed_calls d @ [c]\<rparr>"

lemma kcall_simps [simp]:
  "ed_painter (kcall c d) = ed_painter d" "ed_scanout (kcall c d) = ed_scanout d"
  "ed_ddcci_resp (kcall c d) = ed_ddcci_resp d" "ed_connector (kcall c d) = ed_connector d"
  "ed_dying (kcall c d) = ed_dying d" "ed_pixel_rate_slot (kcall c d) = ed_pixel_rate_slot d"
  "ed_calls (kcall c d) = ed_calls d @ [c]"
  by (simp_all add: kcall_def)

section \<open>The slot table (module statics)\<close>

record slots =
  sl_in_use :: "bool list"
  sl_connected :: "bool list"

definition slots_init :: slots where
  "slots_init = \<lparr>sl_in_use = replicate MAX_CARDS False, sl_connected = replicate MAX_CARDS False\<rparr>"

definition claim_pixel_rate_slot :: "slots \<Rightarrow> slots \<times> nat" where
  "claim_pixel_rate_slot sl =
     (case find (\<lambda>i. \<not> sl_in_use sl ! i) [0..<MAX_CARDS] of
        Some i \<Rightarrow> (sl\<lparr>sl_in_use := (sl_in_use sl)[i := True]\<rparr>, i)
      | None \<Rightarrow> (sl, 0))"

definition connected_head_count :: "slots \<Rightarrow> u32" where
  "connected_head_count sl =
     of_nat (length (filter (\<lambda>i. sl_in_use sl ! i \<and> sl_connected sl ! i) [0..<MAX_CARDS]))"

definition own_pixel_budget :: "slots \<Rightarrow> u32 \<Rightarrow> u32" where
  "own_pixel_budget sl tot = tot div (max (connected_head_count sl) 1)"

definition evdi_data_new :: "slots \<Rightarrow> slots \<times> evdi_data" where
  "evdi_data_new sl =
     (let (sl', i) = claim_pixel_rate_slot sl
      in (sl', \<lparr>ed_painter = painter_new, ed_scanout = None, ed_ddcci_resp = None,
                ed_connector = None, ed_dying = False, ed_pixel_rate_slot = i,
                ed_calls = []\<rparr>))"

definition shutdown :: "slots \<Rightarrow> evdi_data \<Rightarrow> slots \<times> evdi_data" where
  "shutdown sl d =
     (sl\<lparr>sl_connected := (sl_connected sl)[ed_pixel_rate_slot d := False],
         sl_in_use := (sl_in_use sl)[ed_pixel_rate_slot d := False]\<rparr>,
      kcall KNotifyAll (d\<lparr>ed_dying := True\<rparr>))"

section \<open>Device operations\<close>

definition sat_mul :: "u32 \<Rightarrow> u32 \<Rightarrow> u32" where
  "sat_mul a b = (if unat a * unat b < 2 ^ 32 then a * b else - 1)"

definition shared_pixel_budget :: "evdi_data \<Rightarrow> u32" where
  "shared_pixel_budget d =
     (case ed_connector d of Some c \<Rightarrow> cn_pixel_per_second_limit c | None \<Rightarrow> 0)"

definition set_scanout :: "fb option \<Rightarrow> evdi_data \<Rightarrow> evdi_data" where
  "set_scanout f d = d\<lparr>ed_scanout := f\<rparr>"

definition scanout_fb :: "evdi_data \<Rightarrow> fb option" where
  "scanout_fb d = ed_scanout d"

definition set_edid :: "bytes \<Rightarrow> evdi_data \<Rightarrow> evdi_data" where
  "set_edid blob d =
     (case ed_connector d of None \<Rightarrow> d
      | Some c \<Rightarrow> kcall KHotplug (d\<lparr>ed_connector := Some (c\<lparr>cn_cached_edid := Some blob\<rparr>)\<rparr>))"

definition clear_edid :: "evdi_data \<Rightarrow> evdi_data" where
  "clear_edid d =
     (case ed_connector d of None \<Rightarrow> d
      | Some c \<Rightarrow> kcall KHotplug (d\<lparr>ed_connector := Some (c\<lparr>cn_cached_edid := None\<rparr>)\<rparr>))"

definition set_mode_limits :: "u32 \<Rightarrow> u32 \<Rightarrow> evdi_data \<Rightarrow> evdi_data" where
  "set_mode_limits pixel_area pixels_per_second d =
     (case ed_connector d of None \<Rightarrow> d
      | Some c \<Rightarrow> d\<lparr>ed_connector := Some (c\<lparr>cn_pixel_area_limit := pixel_area,
                     cn_pixel_per_second_limit := sat_mul pixels_per_second 2\<rparr>)\<rparr>)"

lemma set_edid_simps [simp]:
  "ed_painter (set_edid blob d) = ed_painter d" "ed_painter (clear_edid d) = ed_painter d"
  "ed_painter (set_mode_limits a b d) = ed_painter d"
  "ed_calls (set_mode_limits a b d) = ed_calls d"
  by (simp_all add: set_edid_def clear_edid_def set_mode_limits_def split: option.splits)

definition connector_new :: connector where
  "connector_new = \<lparr>cn_cached_edid = None, cn_pixel_area_limit = 0,
                    cn_pixel_per_second_limit = 0\<rparr>"

text \<open>The step of \<open>KmsDriver::probe\<close> that touches the device data.\<close>

definition probe_connector :: "evdi_data \<Rightarrow> evdi_data" where
  "probe_connector d = d\<lparr>ed_connector := Some connector_new\<rparr>"

section \<open>DDC/CI\<close>

text \<open>
  What one \<open>wait_interruptible_timeout\<close> reports, with the slot and the dying flag as they are
  when it returns: the lock is released during the wait, so \<open>ddcci_respond\<close> and \<open>shutdown\<close>
  may have run. A list of wake-ups is what the scheduler does; when it is used up the
  transfer is still waiting, and its result is \<open>None\<close>. The flag is looked at before every wait, the
  first one included; the result has the slot, the flag as last seen and what the loop returns.
\<close>

datatype wake =
    Woken "bytes option" bool
  | Timeout "bytes option" bool
  | Signal "bytes option" bool

fun ddcci_wait :: "wake list \<Rightarrow> bytes option \<Rightarrow> bool \<Rightarrow> (bytes option \<times> bool \<times> unit res) option" where
  "ddcci_wait ws (Some r) dying = Some (Some r, dying, Inr ())"
| "ddcci_wait ws None True = Some (None, True, Inl ENODEV)"
| "ddcci_wait [] None False = None"
| "ddcci_wait (Woken s dy # ws) None False = ddcci_wait ws s dy"
| "ddcci_wait (Timeout s dy # ws) None False =
     (case s of Some r \<Rightarrow> Some (Some r, dy, Inr ()) | None \<Rightarrow> Some (None, dy, Inl ETIMEDOUT))"
| "ddcci_wait (Signal s dy # ws) None False = Some (s, dy, Inl ERESTARTSYS)"

definition ddcci_event :: "u16 \<Rightarrow> u16 \<Rightarrow> bytes \<Rightarrow> event" where
  "ddcci_event addr flags buf =
     (let n = min (length buf) DDCCI_BUFFER_SIZE
      in DdcciData (put 0 (take n buf) (zeros DDCCI_BUFFER_SIZE)) (of_nat (length buf)) flags addr)"

text \<open>\<open>dy\<close>: the dying flag once the event is sent, before the first wait.\<close>

definition ddcci_transfer ::
    "unit res \<Rightarrow> bool \<Rightarrow> wake list \<Rightarrow> u16 \<Rightarrow> u16 \<Rightarrow> bool \<Rightarrow> bytes \<Rightarrow> evdi_data
       \<Rightarrow> (evdi_data \<times> bytes \<times> unit res) option" where
  "ddcci_transfer send_result dy wakes addr flags is_read buf d =
     (if ed_dying d then Some (d, buf, Inl ENODEV)
      else
        let d = kcall (KSend (ddcci_event addr flags buf)) (d\<lparr>ed_ddcci_resp := None\<rparr>)
        in case send_result of
             Inl e \<Rightarrow> Some (d, buf, Inl e)
           | Inr _ \<Rightarrow>
               (case ddcci_wait wakes None dy of
                  None \<Rightarrow> None
                | Some (s, dying, r) \<Rightarrow>
                    let d = d\<lparr>ed_ddcci_resp := s, ed_dying := dying\<rparr>
                    in case r of
                         Inl e \<Rightarrow> Some (d, buf, Inl e)
                       | Inr _ \<Rightarrow>
                           (case (is_read, s) of
                              (True, Some resp) \<Rightarrow>
                                (let m = min (length resp) (length buf)
                                 in Some (d\<lparr>ed_ddcci_resp := None\<rparr>, put 0 (take m resp) buf, Inr ()))
                            | _ \<Rightarrow> Some (d, buf, Inr ()))))"

definition ddcci_respond :: "bytes \<Rightarrow> evdi_data \<Rightarrow> evdi_data" where
  "ddcci_respond resp d = kcall KNotifyOne (d\<lparr>ed_ddcci_resp := Some resp\<rparr>)"

record i2c_msg =
  im_addr :: u16
  im_flags :: u16
  im_is_read :: bool
  im_buf :: bytes

text \<open>\<open>EvdiI2c::master_xfer\<close>: each message with what the event channel and the scheduler do
  for it; the messages come back with the buffers read.\<close>

fun master_xfer ::
    "(i2c_msg \<times> unit res \<times> bool \<times> wake list) list \<Rightarrow> evdi_data \<Rightarrow> (evdi_data \<times> i2c_msg list \<times> nat) option" where
  "master_xfer [] d = Some (d, [], 0)"
| "master_xfer ((m, sr, dy, ws) # rest) d =
     (if im_addr m \<noteq> DDCCI_ADDRESS
      then map_option (\<lambda>(d, ms, n). (d, m # ms, n)) (master_xfer rest d)
      else case ddcci_transfer sr dy ws (im_addr m) (im_flags m) (im_is_read m) (im_buf m) d of
             None \<Rightarrow> None
           | Some (d, buf, r) \<Rightarrow>
               map_option (\<lambda>(d, ms, n). (d, m\<lparr>im_buf := buf\<rparr> # ms, if is_ok r then n + 1 else n))
                 (master_xfer rest d))"

section \<open>CRTC\<close>

record mode =
  md_hdisplay :: u16
  md_vdisplay :: u16
  md_vrefresh :: i32

text \<open>\<open>mode.vrefresh().max(0) as u32\<close>.\<close>

definition vrefresh_u32 :: "mode \<Rightarrow> u32" where
  "vrefresh_u32 m = (if sint (md_vrefresh m) < 0 then 0 else md_vrefresh m)"

definition mode_rate :: "mode \<Rightarrow> u32" where
  "mode_rate m = sat_mul (sat_mul (ucast (md_hdisplay m)) (ucast (md_vdisplay m))) (vrefresh_u32 m)"

text \<open>A CRTC state: \<open>Some m\<close> when active in mode \<open>m\<close>, \<open>None\<close> when inactive.\<close>

definition crtc_rate :: "mode option \<Rightarrow> u32" where
  "crtc_rate st = (case st of Some m \<Rightarrow> mode_rate m | None \<Rightarrow> 0)"

definition atomic_check :: "slots \<Rightarrow> evdi_data \<Rightarrow> mode option \<Rightarrow> mode option \<Rightarrow> unit res" where
  "atomic_check sl d old_st new_st =
     (let budget = shared_pixel_budget d;
          old_rate = crtc_rate old_st;
          own_rate = crtc_rate new_st
      in if budget = 0 \<or> own_rate \<le> old_rate then Inr ()
         else let own_budget = own_pixel_budget sl budget
              in if own_rate > own_budget then Inl EINVAL else Inr ())"

definition atomic_enable :: "mode \<Rightarrow> evdi_data \<Rightarrow> evdi_data" where
  "atomic_enable m d =
     kcall (KSend (notify_mode_changed (ucast (md_hdisplay m)) (ucast (md_vdisplay m))
                     (md_vrefresh m) 32 DRM_FORMAT_XRGB8888))
       (kcall (KSend (notify_dpms DPMS_ON)) (kcall KVblankOn d))"

definition atomic_disable :: "evdi_data \<Rightarrow> evdi_data" where
  "atomic_disable d = kcall (KSend (notify_dpms DPMS_OFF)) (kcall KVblankOff d)"

text \<open>What \<open>atomic_flush\<close> does with a pending page-flip event.\<close>

datatype flip_action = FlipNone | FlipArm | FlipSend

definition atomic_flush :: "bool \<Rightarrow> unit res \<Rightarrow> flip_action" where
  "atomic_flush pending vblank_get =
     (if \<not> pending then FlipNone else if is_ok vblank_get then FlipArm else FlipSend)"

section \<open>The software vblank timer\<close>

record vblank_timer =
  vt_crtc :: "nat option"
  vt_interval_ns :: int
  vt_enabled :: bool

definition vblank_timer_new :: vblank_timer where
  "vblank_timer_new = \<lparr>vt_crtc = None, vt_interval_ns = 16666666, vt_enabled = False\<rparr>"

text \<open>The callback: whether it delivers a vblank, and the interval it re-arms with, if any.\<close>

definition vblank_run :: "vblank_timer \<Rightarrow> bool \<times> int option" where
  "vblank_run t =
     (if \<not> vt_enabled t then (False, None)
      else (vt_crtc t \<noteq> None, Some (max (vt_interval_ns t) 1000000)))"

datatype timer_start = FirstStart int | Restart int

definition enable_vblank ::
    "int \<Rightarrow> nat \<Rightarrow> vblank_timer \<Rightarrow> bool \<Rightarrow> vblank_timer \<times> bool \<times> timer_start" where
  "enable_vblank fd crtc t has_handle =
     (let t = (if fd > 0 then t\<lparr>vt_interval_ns := fd\<rparr> else t);
          t = t\<lparr>vt_crtc := Some crtc, vt_enabled := True\<rparr>;
          interval = vt_interval_ns t
      in (t, True, if has_handle then Restart interval else FirstStart interval))"

definition disable_vblank :: "vblank_timer \<Rightarrow> vblank_timer" where
  "disable_vblank t = t\<lparr>vt_enabled := False\<rparr>"

section \<open>Planes\<close>

text \<open>\<open>EvdiPlane::atomic_update\<close> on the primary plane: the old and the new framebuffer and the
  damage clips of the new state.\<close>

definition primary_update :: "fb option \<Rightarrow> fb option \<Rightarrow> rect list \<Rightarrow> evdi_data \<Rightarrow> evdi_data" where
  "primary_update old_fb new_fb clips d =
     (let d = set_scanout new_fb d
      in case new_fb of
           None \<Rightarrow> d
         | Some f \<Rightarrow>
             let fb_unchanged = (case old_fb of Some o_fb \<Rightarrow> fb_id o_fb = fb_id f | None \<Rightarrow> False);
                 p = ed_painter d;
                 p = p\<lparr>ps_damage := foldl damage_push (ps_damage p) clips\<rparr>;
                 clip_count = length clips;
                 p = (if \<not> fb_unchanged \<or> clip_count > 0 then p\<lparr>ps_frame_dirty := True\<rparr> else p);
                 d = d\<lparr>ed_painter := p\<rparr>
             in if fb_unchanged \<and> clip_count = 0 then d
                else kcall (KSend notify_update_ready) d)"

record cursor_state =
  cu_fb :: "fb option"
  cu_x :: i32
  cu_y :: i32
  cu_hot_x :: i32
  cu_hot_y :: i32

text \<open>The cursor plane. \<open>create_handle\<close> is what \<open>with_receiver(.. fb.create_handle ..)\<close> gives:
  \<open>None\<close> without a receiver. The second result is the number of handles asked for.\<close>

definition cursor_update ::
    "(fb \<Rightarrow> u32 res option) \<Rightarrow> cursor_state \<Rightarrow> cursor_state \<Rightarrow> evdi_data \<Rightarrow> evdi_data \<times> nat" where
  "cursor_update create_handle old_st new_st d =
     (if \<not> ps_cursor_events_enabled (ed_painter d) then (d, 0)
      else
        let d = kcall (KSend (notify_cursor_move (cu_x new_st) (cu_y new_st))) d;
            fb_changed = (case (cu_fb old_st, cu_fb new_st) of
                            (Some o_fb, Some n_fb) \<Rightarrow> fb_id o_fb \<noteq> fb_id n_fb
                          | (None, None) \<Rightarrow> False
                          | _ \<Rightarrow> True);
            hotspot_changed = (cu_hot_x old_st \<noteq> cu_hot_x new_st \<or> cu_hot_y old_st \<noteq> cu_hot_y new_st)
        in if \<not> fb_changed \<and> \<not> hotspot_changed then (d, 0)
           else case cu_fb new_st of
                  Some f \<Rightarrow>
                    let handle = (case create_handle f of Some (Inr h) \<Rightarrow> h | _ \<Rightarrow> 0)
                    in (kcall (KSend (notify_cursor_set (cu_hot_x new_st) (cu_hot_y new_st)
                          (fb_width f) (fb_height f) (handle \<noteq> 0) handle
                          (fb_height f * fb_pitch f) (fb_format f) (fb_pitch f))) d, 1)
                | None \<Rightarrow> (kcall (KSend (notify_cursor_set 0 0 0 0 False 0 0 0 0)) d, 0))"

section \<open>Connector\<close>

datatype conn_status = Connected | Disconnected
datatype mode_status = ModeOk | ModeBad

definition detect :: "slots \<Rightarrow> evdi_data \<Rightarrow> connector \<Rightarrow> slots \<times> conn_status" where
  "detect sl d c =
     (let connected = cn_cached_edid c \<noteq> None
      in (sl\<lparr>sl_connected := (sl_connected sl)[ed_pixel_rate_slot d := connected]\<rparr>,
          if connected then Connected else Disconnected))"

fun is_lowest_frequency_mode_of_resolution :: "mode list \<Rightarrow> mode \<Rightarrow> bool" where
  "is_lowest_frequency_mode_of_resolution [] m = True"
| "is_lowest_frequency_mode_of_resolution (p # probed) m =
     (if md_hdisplay p = md_hdisplay m \<and> md_vdisplay p = md_vdisplay m
         \<and> sint (md_vrefresh p) < sint (md_vrefresh m)
      then False else is_lowest_frequency_mode_of_resolution probed m)"

definition mode_valid :: "slots \<Rightarrow> connector \<Rightarrow> mode list \<Rightarrow> mode \<Rightarrow> mode_status" where
  "mode_valid sl c probed m =
     (let pps = cn_pixel_per_second_limit c
      in if pps = 0 then ModeOk
         else
           let area = ucast (md_hdisplay m) * ucast (md_vdisplay m);
               vrefresh = vrefresh_u32 m
           in if area > cn_pixel_area_limit c then ModeBad
              else
                let budget_left = own_pixel_budget sl pps
                in if sat_mul area vrefresh \<le> budget_left then ModeOk
                   else if is_lowest_frequency_mode_of_resolution probed m then ModeOk
                   else ModeBad)"

text \<open>\<open>get_modes\<close>: the EDID's modes when it yields any, else the fallback list. What the DRM
  helpers return is an argument.\<close>

definition get_modes :: "(bytes \<Rightarrow> int) \<Rightarrow> int \<Rightarrow> connector \<Rightarrow> int \<times> (u32 \<times> u32) option" where
  "get_modes add_edid_modes noedid c =
     (case cn_cached_edid c of
        Some blob \<Rightarrow>
          (let n = add_edid_modes blob
           in if n > 0 then (n, None) else (noedid, Some (FALLBACK_W, FALLBACK_H)))
      | None \<Rightarrow> (noedid, Some (FALLBACK_W, FALLBACK_H)))"

section \<open>Open files\<close>

record drm_file =
  fl_id :: nat
  fl_connected :: bool

definition file_open :: "nat \<Rightarrow> evdi_data \<Rightarrow> evdi_data \<times> drm_file" where
  "file_open i d = (kcall KModuleGet d, \<lparr>fl_id = i, fl_connected = False\<rparr>)"

definition file_drop :: "drm_file \<Rightarrow> evdi_data \<Rightarrow> evdi_data" where
  "file_drop f d = kcall KModulePut (if fl_connected f then kcall KDisconnect d else d)"

end
