(* ===== verification/KmsLaws.thy ===== *)
theory KmsLaws
  imports Kms
begin

text \<open>
  What the KMS callbacks guarantee: slots are never shared while at most sixteen cards exist,
  the combined pixel rate of the heads never exceeds the dock's budget, flips never lose
  damage, cursor motion mints no GEM handle, and a DDC/CI transfer hands back exactly the
  client's reply or reports why it could not.
\<close>

section \<open>The slot table\<close>

definition slots_wf :: "slots \<Rightarrow> bool" where
  "slots_wf sl = (length (sl_in_use sl) = MAX_CARDS \<and> length (sl_connected sl) = MAX_CARDS)"

lemma slots_init_wf [simp]: "slots_wf slots_init"
  by (simp add: slots_wf_def slots_init_def)

lemma find_upt_Some_iff:
  "find P [0..<n] = Some i \<longleftrightarrow> i < n \<and> P i \<and> (\<forall>j < i. \<not> P j)"
  by (auto simp: find_Some_iff)

lemma claim_free:
  assumes "claim_pixel_rate_slot sl = (sl', i)" "j < MAX_CARDS" "\<not> sl_in_use sl ! j"
  shows "i < MAX_CARDS \<and> \<not> sl_in_use sl ! i \<and> sl' = sl\<lparr>sl_in_use := (sl_in_use sl)[i := True]\<rparr>"
proof (cases "find (\<lambda>i. \<not> sl_in_use sl ! i) [0..<MAX_CARDS]")
  case None
  with assms(2,3) have False by (auto simp: find_None_iff)
  then show ?thesis ..
next
  case (Some k)
  with assms(1) have "i = k" "sl' = sl\<lparr>sl_in_use := (sl_in_use sl)[i := True]\<rparr>"
    by (auto simp: claim_pixel_rate_slot_def)
  with Some show ?thesis by (simp add: find_upt_Some_iff)
qed

lemma claim_full:
  assumes "\<forall>j < MAX_CARDS. sl_in_use sl ! j"
  shows "claim_pixel_rate_slot sl = (sl, 0)"
proof -
  have "find (\<lambda>i. \<not> sl_in_use sl ! i) [0..<MAX_CARDS] = None"
    using assms by (auto simp: find_None_iff)
  then show ?thesis by (simp add: claim_pixel_rate_slot_def)
qed

text \<open>
  The cards of the module over time: the slot table and the live devices, newest first. A card
  is created while fewer than \<open>MAX_CARDS\<close> exist, unbound at any time, and its connector is
  detected at any time.
\<close>

inductive cards :: "slots \<Rightarrow> evdi_data list \<Rightarrow> bool" where
  cards_init: "cards slots_init []"
| cards_probe: "cards sl ds \<Longrightarrow> length ds < MAX_CARDS \<Longrightarrow> evdi_data_new sl = (sl', d)
    \<Longrightarrow> cards sl' (d # ds)"
| cards_unbind: "cards sl (ds1 @ d # ds2) \<Longrightarrow> cards (fst (shutdown sl d)) (ds1 @ ds2)"
| cards_detect: "cards sl ds \<Longrightarrow> d \<in> set ds \<Longrightarrow> cards (fst (detect sl d c)) ds"

definition slots_of :: "evdi_data list \<Rightarrow> nat list" where
  "slots_of ds = map ed_pixel_rate_slot ds"

definition cards_inv :: "slots \<Rightarrow> evdi_data list \<Rightarrow> bool" where
  "cards_inv sl ds =
     (slots_wf sl \<and> distinct (slots_of ds) \<and> length ds \<le> MAX_CARDS \<and>
      set (slots_of ds) = {i. i < MAX_CARDS \<and> sl_in_use sl ! i} \<and>
      (\<forall>i < MAX_CARDS. sl_connected sl ! i \<longrightarrow> sl_in_use sl ! i))"

lemma free_slot_exists:
  assumes "cards_inv sl ds" "length ds < MAX_CARDS"
  shows "\<exists>j < MAX_CARDS. \<not> sl_in_use sl ! j"
proof (rule ccontr)
  assume "\<not> ?thesis"
  then have "{i. i < MAX_CARDS \<and> sl_in_use sl ! i} = {..<MAX_CARDS}" by auto
  with assms(1) have "card (set (slots_of ds)) = MAX_CARDS"
    by (simp add: cards_inv_def)
  moreover have "card (set (slots_of ds)) \<le> length ds"
    by (metis card_length length_map slots_of_def)
  ultimately show False using assms(2) by simp
qed

lemma cards_inv_probe:
  assumes "cards_inv sl ds" "length ds < MAX_CARDS" "evdi_data_new sl = (sl', d)"
  shows "cards_inv sl' (d # ds) \<and> ed_pixel_rate_slot d \<notin> set (slots_of ds)"
proof -
  obtain i where c: "claim_pixel_rate_slot sl = (sl', i)" and i: "ed_pixel_rate_slot d = i"
    using assms(3) by (auto simp: evdi_data_new_def split: prod.splits)
  obtain j where "j < MAX_CARDS" "\<not> sl_in_use sl ! j"
    using free_slot_exists [OF assms(1,2)] by auto
  from claim_free [OF c this] assms(1) i show ?thesis
    by (auto simp: cards_inv_def slots_wf_def slots_of_def nth_list_update assms(2) Suc_leI
        split: if_splits)
qed

lemma cards_inv_unbind:
  assumes "cards_inv sl (ds1 @ d # ds2)"
  shows "cards_inv (fst (shutdown sl d)) (ds1 @ ds2)"
proof -
  let ?k = "ed_pixel_rate_slot d"
  have k: "?k < MAX_CARDS" "?k \<notin> set (slots_of (ds1 @ ds2))"
    using assms by (auto simp: cards_inv_def slots_of_def)
  have "set (slots_of (ds1 @ ds2)) = set (slots_of (ds1 @ d # ds2)) - {?k}"
    using k by (auto simp: slots_of_def)
  then have "set (slots_of (ds1 @ ds2)) = {i. i < MAX_CARDS \<and> sl_in_use sl ! i} - {?k}"
    using assms by (simp add: cards_inv_def)
  with assms k show ?thesis
    by (auto simp: cards_inv_def slots_wf_def shutdown_def nth_list_update slots_of_def)
qed

lemma cards_inv_detect:
  assumes "cards_inv sl ds" "d \<in> set ds"
  shows "cards_inv (fst (detect sl d c)) ds"
proof -
  have "ed_pixel_rate_slot d \<in> {i. i < MAX_CARDS \<and> sl_in_use sl ! i}"
    using assms by (auto simp: cards_inv_def slots_of_def)
  with assms(1) show ?thesis
    by (auto simp: cards_inv_def slots_wf_def detect_def nth_list_update Let_def)
qed

lemma cards_reachable_inv: "cards sl ds \<Longrightarrow> cards_inv sl ds"
proof (induction rule: cards.induct)
  case cards_init
  then show ?case
    by (auto simp: cards_inv_def slots_of_def slots_init_def slots_wf_def)
qed (auto dest: cards_inv_probe cards_inv_unbind cards_inv_detect)

text \<open>
  As long as at most sixteen cards exist, however they are created, unbound and detected,
  no two live cards share a slot of the budget table, the slots in use are exactly those of the
  live cards, and only a live card's slot counts as connected.
\<close>

theorem cards_slots_distinct:
  assumes "cards sl ds"
  shows "distinct (slots_of ds) \<and>
    set (slots_of ds) = {i. i < MAX_CARDS \<and> sl_in_use sl ! i} \<and>
    (\<forall>i < MAX_CARDS. sl_connected sl ! i \<longrightarrow> i \<in> set (slots_of ds))"
  using cards_reachable_inv [OF assms] by (auto simp: cards_inv_def)

theorem cards_slots_distinct_witness:
  "\<exists>sl ds. cards sl ds \<and> length ds = 2 \<and> distinct (slots_of ds)"
proof -
  obtain s1 d1 where 1: "evdi_data_new slots_init = (s1, d1)" by fastforce
  obtain s2 d2 where 2: "evdi_data_new s1 = (s2, d2)" by fastforce
  have "cards s1 [d1]"
    by (rule cards_probe [OF cards_init _ 1]) (simp add: MAX_CARDS_def)
  then have c: "cards s2 [d2, d1]"
    by (rule cards_probe [OF _ _ 2]) (simp add: MAX_CARDS_def)
  from cards_slots_distinct [OF this] have "distinct (slots_of [d2, d1])" by blast
  with c show ?thesis by (intro exI [of _ s2] exI [of _ "[d2, d1]"]) simp
qed

section \<open>The pixel-rate budget\<close>

definition connected_slots :: "slots \<Rightarrow> nat list" where
  "connected_slots sl = filter (\<lambda>i. sl_in_use sl ! i \<and> sl_connected sl ! i) [0..<MAX_CARDS]"

lemma connected_slots_bound: "length (connected_slots sl) \<le> MAX_CARDS"
  unfolding connected_slots_def by (metis length_filter_le length_upt diff_zero)

lemma unat_head_count: "unat (connected_head_count sl) = length (connected_slots sl)"
proof -
  have "length (connected_slots sl) < 2 ^ 32"
    using connected_slots_bound [of sl] by (simp add: MAX_CARDS_def)
  then show ?thesis
    by (simp add: connected_head_count_def connected_slots_def unat_of_nat)
qed

lemma unat_own_budget:
  "unat (own_pixel_budget sl tot) = unat tot div max (length (connected_slots sl)) 1"
proof (cases "connected_slots sl = []")
  case True
  then have "connected_head_count sl = 0"
    using unat_head_count [of sl] by (simp add: unat_eq_0)
  with True show ?thesis by (simp add: own_pixel_budget_def)
next
  case False
  then have "1 \<le> connected_head_count sl"
    using unat_head_count [of sl] by (simp add: word_le_nat_alt Suc_le_eq)
  then have "max (connected_head_count sl) 1 = connected_head_count sl"
    by (rule max_absorb1)
  moreover have "max (length (connected_slots sl)) 1 = length (connected_slots sl)"
    using False by (cases "connected_slots sl") auto
  ultimately show ?thesis
    by (simp add: own_pixel_budget_def unat_div unat_head_count)
qed

text \<open>
  Commits of the CRTCs of all the heads, in any order, each passing \<open>atomic_check\<close> against the
  state its predecessor left.
\<close>

inductive commits :: "slots \<Rightarrow> (nat \<Rightarrow> evdi_data) \<Rightarrow> (nat \<Rightarrow> mode option) \<Rightarrow> bool"
  for sl ds where
  commits_init: "commits sl ds (\<lambda>_. None)"
| commits_step: "commits sl ds st \<Longrightarrow> atomic_check sl (ds i) (st i) new_st = Inr ()
    \<Longrightarrow> commits sl ds (st(i := new_st))"

lemma atomic_check_ok:
  assumes "atomic_check sl d o_st n_st = Inr ()" "shared_pixel_budget d \<noteq> 0"
  shows "crtc_rate n_st \<le> crtc_rate o_st \<or>
    crtc_rate n_st \<le> own_pixel_budget sl (shared_pixel_budget d)"
  using assms by (auto simp: atomic_check_def Let_def not_less split: if_splits)

lemma commits_rate:
  assumes "commits sl ds st" "\<And>i. shared_pixel_budget (ds i) = B" "B \<noteq> 0"
  shows "crtc_rate (st i) \<le> own_pixel_budget sl B"
  using assms(1)
proof (induction arbitrary: i rule: commits.induct)
  case commits_init
  then show ?case by (simp add: crtc_rate_def)
next
  case (commits_step st j n_st)
  have "crtc_rate n_st \<le> own_pixel_budget sl B"
    using atomic_check_ok [OF commits_step.hyps(2)] commits_step.IH [of j] assms(2,3)
    by (auto intro: order_trans)
  with commits_step.IH show ?case by simp
qed

text \<open>
  C12. The dock is never asked for more than its budget: with a fixed set of connected heads
  that share a budget \<open>B\<close>, after any sequence of commits that \<open>atomic_check\<close> accepted, in any
  order, the pixel rates of the connected heads add up to at most \<open>B\<close>; and a commit that does
  not raise its head's own rate is accepted whatever the budget and the other heads.
\<close>

theorem combined_rate_within_budget:
  assumes "commits sl ds st" "\<forall>i. shared_pixel_budget (ds i) = B" "B \<noteq> 0"
  shows "(\<Sum>i \<leftarrow> connected_slots sl. unat (crtc_rate (st i))) \<le> unat B \<and>
    (crtc_rate n_st \<le> crtc_rate (st i) \<longrightarrow> atomic_check sl (ds i) (st i) n_st = Inr ())"
proof
  let ?n = "length (connected_slots sl)"
  have r: "unat (crtc_rate (st i)) \<le> unat (own_pixel_budget sl B)" for i
    using commits_rate [OF assms(1) _ assms(3)] assms(2) by (simp add: word_le_nat_alt)
  have "(\<Sum>i \<leftarrow> is. unat (crtc_rate (st i))) \<le> length is * unat (own_pixel_budget sl B)" for "is"
    using r by (induction "is") (auto simp: add_mono)
  then have "(\<Sum>i \<leftarrow> connected_slots sl. unat (crtc_rate (st i)))
      \<le> ?n * (unat B div max ?n 1)"
    by (simp add: unat_own_budget)
  also have "\<dots> \<le> unat B"
    by (cases "?n = 0") (simp_all add: max_def)
  finally show "(\<Sum>i \<leftarrow> connected_slots sl. unat (crtc_rate (st i))) \<le> unat B" .
  show "crtc_rate n_st \<le> crtc_rate (st i) \<longrightarrow> atomic_check sl (ds i) (st i) n_st = Inr ()"
    by (simp add: atomic_check_def Let_def)
qed


theorem combined_rate_within_budget_witness:
  "\<exists>sl ds st. length (connected_slots sl) = 2 \<and>
     (\<Sum>i \<leftarrow> connected_slots sl. unat (crtc_rate (st i))) \<le> unat (884736000 :: u32)"
proof -
  define sl where "sl = slots_init\<lparr>sl_in_use := (replicate 16 False)[0 := True, 1 := True],
    sl_connected := (replicate 16 False)[0 := True, 1 := True]\<rparr>"
  define d where "d = \<lparr>ed_painter = painter_new, ed_scanout = None, ed_ddcci_resp = None,
    ed_connector = Some (connector_new\<lparr>cn_pixel_per_second_limit := 884736000\<rparr>),
    ed_dying = False, ed_pixel_rate_slot = 0, ed_calls = []\<rparr>"
  define m where "m = \<lparr>md_hdisplay = 2560, md_vdisplay = 1440, md_vrefresh = 60\<rparr>"
  have b: "shared_pixel_budget d = 884736000"
    by (simp add: d_def shared_pixel_budget_def)
  have two: "connected_slots sl = [0, 1]"
    by (simp add: connected_slots_def sl_def MAX_CARDS_def upt_rec nth_Cons')
  have "crtc_rate (Some m) = 221184000"
    by (simp add: m_def crtc_rate_def mode_rate_def sat_mul_def vrefresh_u32_def)
  moreover have "max (length (connected_slots sl)) 1 = 2"
    by (simp add: two)
  then have "unat (own_pixel_budget sl 884736000) = 442368000"
    by (simp only: unat_own_budget) simp
  then have "own_pixel_budget sl 884736000 = 442368000"
    by (simp add: word_unat_eq_iff)
  ultimately have ok: "atomic_check sl d st (Some m) = Inr ()" for st
    by (simp add: atomic_check_def b)
  have "commits sl (\<lambda>_. d) ((\<lambda>_. None)(0 := Some m))"
    by (rule commits_step [OF commits_init ok])
  then have "commits sl (\<lambda>_. d) ((\<lambda>_. None)(0 := Some m, 1 := Some m))"
    by (rule commits_step [OF _ ok])
  from combined_rate_within_budget [OF this, of 884736000] b
  have "(\<Sum>i \<leftarrow> connected_slots sl.
      unat (crtc_rate (((\<lambda>_. None)(0 := Some m, 1 := Some m)) i))) \<le> unat (884736000 :: u32)"
    by simp
  with two show ?thesis by (intro exI [of _ sl]) auto
qed


section \<open>DDC/CI\<close>

text \<open>What the first wake-up that is not spurious means for the transfer.\<close>

fun wake_outcome :: "wake \<Rightarrow> bytes res" where
  "wake_outcome (Woken (Some r) _) = Inr r"
| "wake_outcome (Woken None _) = Inl ENODEV"
| "wake_outcome (Timeout (Some r) _) = Inr r"
| "wake_outcome (Timeout None _) = Inl ETIMEDOUT"
| "wake_outcome (Signal _ _) = Inl ERESTARTSYS"

lemma ddcci_wait_spurious:
  "\<forall>w \<in> set sp. w = Woken None False \<Longrightarrow> ddcci_wait (sp @ ws) None False = ddcci_wait ws None False"
  by (induction sp) auto

lemma ddcci_wait_outcome:
  assumes "w \<noteq> Woken None False"
  shows "\<exists>s dying. ddcci_wait (w # ws) None False =
    Some (s, dying, case wake_outcome w of Inr r \<Rightarrow> Inr () | Inl e \<Rightarrow> Inl e) \<and>
    (\<forall>r. wake_outcome w = Inr r \<longrightarrow> s = Some r)"
proof (cases w)
  case (Woken s dy)
  with assms show ?thesis by (cases s; cases dy; cases ws) auto
next
  case (Timeout s dy)
  then show ?thesis by (cases s) auto
qed auto

lemma put_take_reply:
  "put 0 (take (min (length r) (length b)) r) b = take (length b) r @ drop (length r) b"
  by (simp add: put_def min_def)

text \<open>
  C13. A DDC/CI transfer on a live card sends exactly one event. When the card is torn down by the time
  the event is sent, it fails with \<open>ENODEV\<close> at once, whatever wake-ups would follow. Otherwise,
  whatever number of spurious wake-ups precede it, it returns at the first wake-up with a cause:
  with the client's reply (also when it arrives at the very expiry of the timeout) it succeeds
  and a read buffer holds the reply's prefix, otherwise the buffer is untouched and the error
  is \<open>ETIMEDOUT\<close>, \<open>ERESTARTSYS\<close> on a signal, or \<open>ENODEV\<close> on teardown.
\<close>

theorem ddcci_transfer_outcome:
  assumes "\<not> ed_dying d" "\<forall>w \<in> set sp. w = Woken None False" "w \<noteq> Woken None False"
  shows "\<exists>d'. ddcci_transfer (Inr ()) dy (sp @ w # ws) addr flags is_read buf d =
    (if dy then Some (d', buf, Inl ENODEV)
     else case wake_outcome w of
       Inr r \<Rightarrow> Some (d', if is_read then take (length buf) r @ drop (length r) buf else buf, Inr ())
     | Inl e \<Rightarrow> Some (d', buf, Inl e)) \<and>
    ed_calls d' = ed_calls d @ [KSend (ddcci_event addr flags buf)] \<and>
    ed_painter d' = ed_painter d \<and> ed_connector d' = ed_connector d"
proof (cases dy)
  case True
  then show ?thesis using assms(1) by (cases "sp @ w # ws") (simp_all add: ddcci_transfer_def Let_def)
next
  case False
  obtain s dying where s: "ddcci_wait (w # ws) None False =
      Some (s, dying, case wake_outcome w of Inr r \<Rightarrow> Inr () | Inl e \<Rightarrow> Inl e)"
    and r: "\<forall>r. wake_outcome w = Inr r \<longrightarrow> s = Some r"
    using ddcci_wait_outcome [OF assms(3)] by blast
  show ?thesis
    using assms(1) s r False
    by (cases "wake_outcome w"; cases is_read)
      (auto simp: ddcci_transfer_def ddcci_wait_spurious [OF assms(2)] Let_def put_take_reply)
qed

theorem ddcci_transfer_outcome_witness:
  "\<exists>d d'. ddcci_transfer (Inr ()) False [Woken None False, Timeout (Some [0x6e, 0x80]) False]
     DDCCI_ADDRESS 1 True [0, 0, 0] d = Some (d', [0x6e, 0x80, 0], Inr ())"
proof -
  define d where "d = snd (evdi_data_new slots_init)"
  have "\<not> ed_dying d"
    by (simp add: d_def evdi_data_new_def split: prod.splits)
  from ddcci_transfer_outcome [OF this, of "[Woken None False]"
      "Timeout (Some [0x6e, 0x80]) False" False "[]" DDCCI_ADDRESS 1 True "[0, 0, 0]"]
  show ?thesis by auto
qed

section \<open>Flips and the cursor\<close>

definition same_fb :: "fb option \<Rightarrow> fb option \<Rightarrow> bool" where
  "same_fb a b = (case (a, b) of (Some f, Some g) \<Rightarrow> fb_id f = fb_id g | (None, None) \<Rightarrow> True | _ \<Rightarrow> False)"

text \<open>
  A primary-plane commit with a framebuffer records it as the scanout buffer and loses no
  damage: every pixel of every clip, and every pixel recorded before, is covered afterwards. It
  marks the frame dirty and sends one UPDATE_READY exactly when there is something new (another
  framebuffer, or at least one clip), and otherwise sends nothing and leaves the flag alone.
\<close>

theorem primary_update_effect:
  assumes "damage_wf (ps_damage (ed_painter d))"
  shows "let d' = primary_update old_fb (Some f) clips d;
             fresh = (\<not> same_fb old_fb (Some f) \<or> clips \<noteq> [])
         in ed_scanout d' = Some f \<and>
            (\<forall>p. covers (ps_damage (ed_painter d)) p \<or> (\<exists>r \<in> set clips. in_rect p r)
               \<longrightarrow> covers (ps_damage (ed_painter d')) p) \<and>
            damage_wf (ps_damage (ed_painter d')) \<and>
            ps_frame_dirty (ed_painter d') = (fresh \<or> ps_frame_dirty (ed_painter d)) \<and>
            ed_calls d' = ed_calls d @ (if fresh then [KSend UpdateReady] else [])"
proof -
  have "ps_damage (ed_painter (primary_update old_fb (Some f) clips d)) =
      foldl damage_push (ps_damage (ed_painter d)) clips"
    by (simp add: primary_update_def Let_def set_scanout_def)
  moreover note dmg.fold_wf [OF assms, of clips] dmg.fold_keeps [OF assms, of _ clips]
    dmg.fold_adds [OF assms, of _ clips]
  moreover have "ed_scanout (primary_update old_fb (Some f) clips d) = Some f"
    "ps_frame_dirty (ed_painter (primary_update old_fb (Some f) clips d)) =
      ((\<not> same_fb old_fb (Some f) \<or> clips \<noteq> []) \<or> ps_frame_dirty (ed_painter d))"
    "ed_calls (primary_update old_fb (Some f) clips d) = ed_calls d @
      (if \<not> same_fb old_fb (Some f) \<or> clips \<noteq> [] then [KSend UpdateReady] else [])"
    by (auto simp: primary_update_def Let_def set_scanout_def same_fb_def notify_update_ready_def
        split: option.splits)
  ultimately show ?thesis by (auto simp: Let_def)
qed

theorem primary_update_effect_witness:
  "ps_frame_dirty (ed_painter (primary_update None
     (Some \<lparr>fb_id = 1, fb_width = 64, fb_height = 16, fb_pitch = 256,
            fb_format = DRM_FORMAT_XRGB8888, fb_vmap = Inr (zeros 4096)\<rparr>)
     [(0, 0, 8, 8)] (snd (evdi_data_new slots_init))))"
proof -
  have "damage_wf (ps_damage (ed_painter (snd (evdi_data_new slots_init))))"
    by (simp add: evdi_data_new_def painter_new_def split: prod.splits)
  from primary_update_effect [OF this] show ?thesis
    by (simp add: Let_def)
qed

text \<open>
  Cursor motion is cheap: a cursor-plane commit asks for a GEM handle, and sends a
  CURSOR_SET, only when the client enabled cursor events and the bitmap or the hotspot changed;
  a pure move sends exactly one CURSOR_MOVE, and with events disabled nothing is sent. A
  CURSOR_SET marked enabled always carries a non-zero handle.
\<close>

theorem cursor_update_effect:
  "let (d', handles) = cursor_update mk o_st n_st d;
       on = ps_cursor_events_enabled (ed_painter d);
       change = (\<not> same_fb (cu_fb o_st) (cu_fb n_st) \<or> cu_hot_x o_st \<noteq> cu_hot_x n_st
                 \<or> cu_hot_y o_st \<noteq> cu_hot_y n_st)
   in handles = (if on \<and> change \<and> cu_fb n_st \<noteq> None then 1 else 0) \<and>
      (\<not> on \<longrightarrow> d' = d) \<and>
      (on \<and> \<not> change \<longrightarrow>
         ed_calls d' = ed_calls d @ [KSend (CursorMove (cu_x n_st) (cu_y n_st))]) \<and>
      (on \<and> change \<longrightarrow> (\<exists>hx hy w h en bh bl pf st.
         ed_calls d' = ed_calls d @ [KSend (CursorMove (cu_x n_st) (cu_y n_st)),
                                     KSend (CursorSet hx hy w h en bh bl pf st)] \<and>
         (en = 1 \<longleftrightarrow> bh \<noteq> 0)))"
  by (auto simp: cursor_update_def Let_def same_fb_def notify_cursor_move_def notify_cursor_set_def
      split: option.splits sum.splits)

section \<open>Mode filtering\<close>

lemma is_lowest_iff:
  "is_lowest_frequency_mode_of_resolution probed m \<longleftrightarrow>
     (\<forall>p \<in> set probed. md_hdisplay p = md_hdisplay m \<and> md_vdisplay p = md_vdisplay m
        \<longrightarrow> sint (md_vrefresh m) \<le> sint (md_vrefresh p))"
  by (induction probed) auto

lemma unat_area: "unat ((ucast (h :: u16) :: u32) * ucast (v :: u16)) = unat h * unat v"
proof -
  have "unat h * unat v \<le> 65535 * 65535"
    using unat16_less [of h] unat16_less [of v] by (intro mult_mono) auto
  then have "unat (ucast h :: u32) * unat (ucast v :: u32) < 2 ^ LENGTH(32)"
    by (simp add: unat_ucast_16_32)
  then show ?thesis
    by (simp add: unat_mult_lem [THEN iffD1] unat_ucast_16_32)
qed

text \<open>
  Mode filtering never removes a resolution the dock can address: among the probed modes
  of a resolution within the area limit, the one with the lowest refresh rate is offered
  whatever the pixel-rate budget; a mode above the area limit is never offered once a limit is
  set; and every other mode offered fits the head's share of the budget.
\<close>

theorem mode_valid_decision:
  "mode_valid sl c probed m = ModeOk \<longleftrightarrow>
     (if cn_pixel_per_second_limit c = 0 then True
      else unat (md_hdisplay m) * unat (md_vdisplay m) \<le> unat (cn_pixel_area_limit c) \<and>
         (mode_rate m \<le> own_pixel_budget sl (cn_pixel_per_second_limit c) \<or>
          list_all (\<lambda>p. sint (md_vrefresh m) \<le> sint (md_vrefresh p))
            (filter (\<lambda>p. md_hdisplay p = md_hdisplay m \<and> md_vdisplay p = md_vdisplay m) probed)))"
proof -
  have "sat_mul (ucast (md_hdisplay m)) (ucast (md_vdisplay m)) =
      ucast (md_hdisplay m) * ucast (md_vdisplay m)"
    using unat_area [of "md_hdisplay m" "md_vdisplay m"]
      unsigned_less [of "(ucast (md_hdisplay m) :: u32) * ucast (md_vdisplay m)", where 'a = nat]
    by (simp add: sat_mul_def unat_ucast_16_32)
  moreover have "list_all (\<lambda>p. sint (md_vrefresh m) \<le> sint (md_vrefresh p))
      (filter (\<lambda>p. md_hdisplay p = md_hdisplay m \<and> md_vdisplay p = md_vdisplay m) probed)
      = is_lowest_frequency_mode_of_resolution probed m"
    by (auto simp: is_lowest_iff list_all_iff)
  ultimately show ?thesis
    by (simp add: mode_valid_def Let_def mode_rate_def word_less_nat_alt unat_area not_less)
qed

end
