(* ===== verification/Ioctl.thy ===== *)
theory Ioctl
  imports KmsLaws
begin

text \<open>
  The five driver-private ioctls (\<open>module/ioctl.rs\<close>). Access to user memory is an argument:
  \<open>ur addr len\<close> is what copying in gives, \<open>uw addr bytes\<close> whether copying out succeeded; the
  copies out a handler asks for are returned in order. \<open>i32\<close> arguments are integers,
  addresses and sizes (\<open>usize\<close>, 64 bits) naturals with the overflow checks of the code.
\<close>

definition EDID_MAX :: nat where "EDID_MAX = 32 * 1024"

section \<open>CONNECT, REQUEST\_UPDATE, DDCCI\_RESPONSE, ENABLE\_CURSOR\_EVENTS\<close>

record connect_arg =
  ca_connected :: int
  ca_edid :: nat
  ca_edid_length :: u32
  ca_pixel_area_limit :: u32
  ca_pixel_per_second_limit :: u32

text \<open>
  \<open>connect\<close>, with the file that issues it: the device, the file and the result. The EDID is
  copied in before anything changes, so a failed copy leaves the state alone.
\<close>

definition connect ::
    "(nat \<Rightarrow> nat \<Rightarrow> bytes res) \<Rightarrow> connect_arg \<Rightarrow> drm_file \<Rightarrow> evdi_data
       \<Rightarrow> evdi_data \<times> drm_file \<times> nat res" where
  "connect ur arg f d =
     (if ca_connected arg \<noteq> 0 then
        let len = unat (ca_edid_length arg);
            edid = (if len > 0 \<and> ca_edid arg \<noteq> 0
                    then if len > EDID_MAX then Inl EINVAL else ur (ca_edid arg) len
                    else Inr [])
        in case edid of
             Inl e \<Rightarrow> (d, f, Inl e)
           | Inr blob \<Rightarrow>
               let d = kcall (KConnect (fl_id f)) d;
                   f = f\<lparr>fl_connected := True\<rparr>;
                   d = d\<lparr>ed_painter := (ed_painter d)\<lparr>ps_connected := True\<rparr>\<rparr>;
                   d = set_mode_limits (ca_pixel_area_limit arg) (ca_pixel_per_second_limit arg) d;
                   d = (if blob \<noteq> [] then set_edid blob d else d)
               in (d, f, Inr 0)
      else
        let d = kcall KDisconnect d;
            f = f\<lparr>fl_connected := False\<rparr>;
            d = d\<lparr>ed_painter := (ed_painter d)\<lparr>ps_connected := False\<rparr>\<rparr>
        in (clear_edid d, f, Inr 0))"

definition request_update :: "evdi_data \<Rightarrow> nat res" where
  "request_update d = (if ps_frame_dirty (ed_painter d) then Inr 1 else Inr 0)"

definition ddcci_response ::
    "(nat \<Rightarrow> nat \<Rightarrow> bytes res) \<Rightarrow> nat \<Rightarrow> u32 \<Rightarrow> evdi_data \<Rightarrow> evdi_data \<times> nat res" where
  "ddcci_response ur buffer buffer_length d =
     (let len = min (unat buffer_length) DDCCI_BUFFER_SIZE
      in case (if len > 0 \<and> buffer \<noteq> 0 then ur buffer len else Inr []) of
           Inl e \<Rightarrow> (d, Inl e)
         | Inr resp \<Rightarrow> (ddcci_respond resp d, Inr 0))"

definition enable_cursor_events :: "u8 \<Rightarrow> evdi_data \<Rightarrow> evdi_data \<times> nat res" where
  "enable_cursor_events enable d =
     (d\<lparr>ed_painter := (ed_painter d)\<lparr>ps_cursor_events_enabled := (enable \<noteq> 0)\<rparr>\<rparr>, Inr 0)"

section \<open>GRABPIX\<close>

record grabpix_arg =
  ga_buf_width :: int
  ga_buf_height :: int
  ga_buf_byte_stride :: int
  ga_buffer :: nat
  ga_num_rects :: int
  ga_rects :: nat

type_synonym uwrites = "(nat \<times> bytes) list"

definition BPP :: nat where "BPP = 4"

text \<open>\<open>v.clamp(lo, hi)\<close>, which panics when the bounds are crossed.\<close>

definition rclamp :: "int \<Rightarrow> int \<Rightarrow> int \<Rightarrow> int res" where
  "rclamp v lo hi =
     (if lo > hi then Inl Panic else Inr (if v < lo then lo else if v > hi then hi else v))"

fun clamp_rect :: "int \<Rightarrow> int \<Rightarrow> rect \<Rightarrow> rect res" where
  "clamp_rect max_w max_h (rx1, ry1, rx2, ry2) =
     bindR (rclamp rx1 0 max_w) (\<lambda>x1.
     bindR (rclamp ry1 0 max_h) (\<lambda>y1.
     bindR (rclamp rx2 x1 max_w) (\<lambda>x2.
     bindR (rclamp ry2 y1 max_h) (\<lambda>y2. Inr (x1, y1, x2, y2)))))"

fun rect_nonempty :: "rect \<Rightarrow> bool" where
  "rect_nonempty (x1, y1, x2, y2) = (x2 > x1 \<and> y2 > y1)"

fun clamp_rects :: "int \<Rightarrow> int \<Rightarrow> rect list \<Rightarrow> rect list res" where
  "clamp_rects max_w max_h [] = Inr []"
| "clamp_rects max_w max_h (r # rs) =
     bindR (clamp_rect max_w max_h r) (\<lambda>c.
     bindR (clamp_rects max_w max_h rs) (\<lambda>cs.
     Inr (if rect_nonempty c then c # cs else cs)))"

fun coalesce :: "nat \<Rightarrow> rect list \<Rightarrow> rect list" where
  "coalesce cap (r # rs) =
     (if length (r # rs) > cap then [foldl bb_join r rs] else r # rs)"
| "coalesce cap [] = []"

fun rect_bytes :: "rect \<Rightarrow> bytes" where
  "rect_bytes (x1, y1, x2, y2) =
     le16 (of_int x1) @ le16 (of_int y1) @ le16 (of_int x2) @ le16 (of_int y2)"

fun copy_rows ::
    "(nat \<Rightarrow> bytes \<Rightarrow> unit res) \<Rightarrow> nat \<Rightarrow> nat \<Rightarrow> nat \<Rightarrow> bytes \<Rightarrow> nat \<Rightarrow> nat \<Rightarrow> nat list
       \<Rightarrow> uwrites \<times> unit res" where
  "copy_rows uw buffer dst_stride src_pitch src xoff span [] = ([], Inr ())"
| "copy_rows uw buffer dst_stride src_pitch src xoff span (y # ys) =
     (let so = y * src_pitch + xoff
      in if so + span > length src then ([], Inr ())
         else if y * dst_stride \<ge> 2 ^ 64 \<or> y * dst_stride + xoff \<ge> 2 ^ 64
                 \<or> buffer + (y * dst_stride + xoff) \<ge> 2 ^ 64
              then ([], Inl EINVAL)
         else
           let dst = buffer + (y * dst_stride + xoff);
               row = slice so span src
           in case uw dst row of
                Inl e \<Rightarrow> ([(dst, row)], Inl e)
              | Inr _ \<Rightarrow>
                  (let (ws, r) = copy_rows uw buffer dst_stride src_pitch src xoff span ys
                   in ((dst, row) # ws, r)))"

fun copy_rects ::
    "(nat \<Rightarrow> bytes \<Rightarrow> unit res) \<Rightarrow> nat \<Rightarrow> nat \<Rightarrow> nat \<Rightarrow> bytes \<Rightarrow> rect list
       \<Rightarrow> uwrites \<times> unit res" where
  "copy_rects uw buffer dst_stride src_pitch src [] = ([], Inr ())"
| "copy_rects uw buffer dst_stride src_pitch src ((x1, y1, x2, y2) # rs) =
     (let xoff = nat x1 * BPP;
          span = nat (x2 - x1) * BPP
      in case copy_rows uw buffer dst_stride src_pitch src xoff span [nat y1..<nat y2] of
           (ws, Inl e) \<Rightarrow> (ws, Inl e)
         | (ws, Inr _) \<Rightarrow>
             (let (ws', r) = copy_rects uw buffer dst_stride src_pitch src rs in (ws @ ws', r)))"

text \<open>Reporting the rectangles to the client, when it gave a buffer for them.\<close>

definition report_rects ::
    "(nat \<Rightarrow> bytes \<Rightarrow> unit res) \<Rightarrow> nat \<Rightarrow> rect list \<Rightarrow> uwrites \<times> unit res" where
  "report_rects uw rects rs =
     (if rects \<noteq> 0
      then (let out = concat (map rect_bytes rs) in ([(rects, out)], uw rects out))
      else ([], Inr ()))"

definition take_damage :: "evdi_data \<Rightarrow> evdi_data \<times> damage" where
  "take_damage d =
     (d\<lparr>ed_painter := (ed_painter d)\<lparr>ps_frame_dirty := False,
          ps_damage := damage_clear (ps_damage (ed_painter d))\<rparr>\<rparr>,
      ps_damage (ed_painter d))"

definition grabpix ::
    "(nat \<Rightarrow> bytes \<Rightarrow> unit res) \<Rightarrow> grabpix_arg \<Rightarrow> evdi_data
       \<Rightarrow> evdi_data \<times> grabpix_arg \<times> uwrites \<times> nat res" where
  "grabpix uw arg d =
     (case scanout_fb d of
        None \<Rightarrow> (d, arg\<lparr>ga_num_rects := 0\<rparr>, [], Inr 0)
      | Some f \<Rightarrow>
          let (d, dmg) = take_damage d
          in case fb_vmap f of
               Inl e \<Rightarrow> (d, arg, [], Inl e)
             | Inr src \<Rightarrow>
                 let src_pitch = unat (fb_pitch f);
                     fb_w = sint (fb_width f);
                     fb_h = sint (fb_height f)
                 in if ga_buffer arg = 0 \<or> ga_buf_byte_stride arg \<le> 0 \<or> ga_buf_width arg < 0
                       \<or> ga_buf_height arg < 0
                    then (d, arg, [], Inl EINVAL)
                    else
                      let dst_stride = nat (ga_buf_byte_stride arg);
                          max_w = min fb_w (int (dst_stride div BPP));
                          max_h = min fb_h (ga_buf_height arg);
                          regions = (if dm_count dmg = 0 then [(0, 0, fb_w, fb_h)] else active dmg)
                      in case clamp_rects max_w max_h regions of
                           Inl e \<Rightarrow> (d, arg, [], Inl e)
                         | Inr rects \<Rightarrow>
                             if rects = [] then (d, arg\<lparr>ga_num_rects := 0\<rparr>, [], Inr 0)
                             else
                               let cap = min (nat (max (ga_num_rects arg) 1)) MAX_DAMAGE_RECTS;
                                   rects = coalesce cap rects
                               in case report_rects uw (ga_rects arg) rects of
                                    (ws, Inl e) \<Rightarrow> (d, arg, ws, Inl e)
                                  | (ws, Inr _) \<Rightarrow>
                                      let arg = arg\<lparr>ga_num_rects := int (length rects)\<rparr>
                                      in case copy_rects uw (ga_buffer arg) dst_stride src_pitch src
                                                rects of
                                           (ws', Inl e) \<Rightarrow> (d, arg, ws @ ws', Inl e)
                                         | (ws', Inr _) \<Rightarrow> (d, arg, ws @ ws', Inr 0))"

section \<open>Clamping\<close>

lemma rclamp_Inr: "rclamp v lo hi = Inr w \<longleftrightarrow> lo \<le> hi \<and> w = max lo (min v hi)"
  by (auto simp: rclamp_def)

lemma clamp_rect_Inr:
  "clamp_rect w h (a, b, c, d) = Inr r \<longleftrightarrow> 0 \<le> w \<and> 0 \<le> h \<and>
     r = (max 0 (min a w), max 0 (min b h), max (max 0 (min a w)) (min c w),
          max (max 0 (min b h)) (min d h))"
  by (auto simp: bindR_Inr_iff rclamp_Inr)

lemma clamp_rects_Cons:
  "clamp_rects w h (r # rs) = Inr cs \<longleftrightarrow>
     (\<exists>c cs'. clamp_rect w h r = Inr c \<and> clamp_rects w h rs = Inr cs' \<and>
        cs = (if rect_nonempty c then c # cs' else cs'))"
  by (auto simp: bindR_Inr_iff)

lemma clamp_rects_ConsE:
  assumes "clamp_rects w h (r # rs) = Inr cs"
  obtains k ks where "clamp_rect w h r = Inr k" "clamp_rects w h rs = Inr ks"
    "cs = (if rect_nonempty k then k # ks else ks)"
  using assms unfolding clamp_rects_Cons by blast

definition rect_inside :: "int \<Rightarrow> int \<Rightarrow> rect \<Rightarrow> bool" where
  "rect_inside w h r = (case r of (x1, y1, x2, y2) \<Rightarrow>
     0 \<le> x1 \<and> x1 < x2 \<and> x2 \<le> w \<and> 0 \<le> y1 \<and> y1 < y2 \<and> y2 \<le> h)"

lemma clamp_rect_inside: "clamp_rect w h r = Inr c \<Longrightarrow> rect_nonempty c \<Longrightarrow> rect_inside w h c"
  by (cases r) (auto simp: clamp_rect_Inr rect_inside_def simp del: clamp_rect.simps)

lemma clamp_rects_inside: "clamp_rects w h rs = Inr cs \<Longrightarrow> c \<in> set cs \<Longrightarrow> rect_inside w h c"
proof (induction rs arbitrary: cs)
  case (Cons r rs)
  from Cons.prems(1) obtain k ks where k: "clamp_rect w h r = Inr k"
    "clamp_rects w h rs = Inr ks" "cs = (if rect_nonempty k then k # ks else ks)"
    by (rule clamp_rects_ConsE)
  with Cons.prems(2) consider "c \<in> set ks" | "c = k" "rect_nonempty k"
    by (auto split: if_splits)
  then show ?case
    using Cons.IH [OF k(2)] clamp_rect_inside [OF k(1)] by cases auto
qed simp

lemma clamp_rects_length: "clamp_rects w h rs = Inr cs \<Longrightarrow> length cs \<le> length rs"
proof (induction rs arbitrary: cs)
  case (Cons r rs)
  from Cons.prems obtain k ks where "clamp_rects w h rs = Inr ks"
    "cs = (if rect_nonempty k then k # ks else ks)"
    by (rule clamp_rects_ConsE)
  with Cons.IH [of ks] show ?case by simp
qed simp

lemma clamp_rect_covers:
  assumes "clamp_rect w h r = Inr c" "in_rect (x, y) r" "0 \<le> x" "x < w" "0 \<le> y" "y < h"
  shows "rect_nonempty c \<and> in_rect (x, y) c"
  using assms by (cases r) (auto simp: clamp_rect_Inr simp del: clamp_rect.simps)

lemma clamp_rects_covers:
  assumes "clamp_rects w h rs = Inr cs" "r \<in> set rs" "in_rect (x, y) r"
    "0 \<le> x" "x < w" "0 \<le> y" "y < h"
  shows "\<exists>c \<in> set cs. in_rect (x, y) c"
  using assms
proof (induction rs arbitrary: cs)
  case (Cons q rs)
  from Cons.prems(1) obtain k ks where k: "clamp_rect w h q = Inr k"
    "clamp_rects w h rs = Inr ks" "cs = (if rect_nonempty k then k # ks else ks)"
    by (rule clamp_rects_ConsE)
  show ?case
  proof (cases "r = q")
    case True
    then show ?thesis
      using clamp_rect_covers [OF k(1), of x y] Cons.prems k(3) by auto
  next
    case False
    then have "\<exists>c \<in> set ks. in_rect (x, y) c"
      using Cons.IH [OF k(2)] Cons.prems by auto
    then show ?thesis using k(3) by auto
  qed
qed simp

lemma clamp_rects_total:
  assumes "0 \<le> w" "0 \<le> h"
  shows "\<exists>cs. clamp_rects w h rs = Inr cs"
proof (induction rs)
  case (Cons r rs)
  moreover have "\<exists>c. clamp_rect w h r = Inr c"
    using assms by (cases r) (simp only: clamp_rect_Inr, blast)
  ultimately show ?case by (auto simp only: clamp_rects_Cons)
qed simp

end
