(* ===== verification/GrabLaws.thy ===== *)
theory GrabLaws
  imports Ioctl
begin

text \<open>
  What GRABPIX guarantees: every copy to the client stays inside the buffers it handed over,
  every recorded pixel reaches the client's frame, and where the handler gives up the damage
  it has already taken is gone. Also the connection ioctls.
\<close>

section \<open>The shape of the copies\<close>

definition row_write :: "nat \<Rightarrow> nat \<Rightarrow> nat \<Rightarrow> bytes \<Rightarrow> int \<Rightarrow> int \<Rightarrow> nat \<times> bytes \<Rightarrow> bool" where
  "row_write buffer stride pitch src w h wr =
     (\<exists>y x n. wr = (buffer + (y * stride + x * BPP), slice (y * pitch + x * BPP) (n * BPP) src) \<and>
        y * pitch + x * BPP + n * BPP \<le> length src \<and> int y < h \<and> int (x + n) \<le> w)"

lemma row_writeE:
  assumes "row_write buffer stride pitch src w h (a, bs)"
  obtains y x n where "a = buffer + (y * stride + x * BPP)" "length bs = n * BPP"
    "int y < h" "int (x + n) \<le> w"
proof -
  from assms obtain y x n where wr: "a = buffer + (y * stride + x * BPP)"
    "bs = slice (y * pitch + x * BPP) (n * BPP) src"
    "y * pitch + x * BPP + n * BPP \<le> length src" "int y < h" "int (x + n) \<le> w"
    unfolding row_write_def by blast
  from wr(2,3) have "length bs = n * BPP" by simp
  with that wr show ?thesis by blast
qed

lemma copy_rows_form:
  assumes "copy_rows uw buffer stride pitch src (x * BPP) (n * BPP) ys = (ws, r)"
    "\<forall>y \<in> set ys. int y < h" "int (x + n) \<le> w"
  shows "\<forall>wr \<in> set ws. row_write buffer stride pitch src w h wr"
  using assms(1,2)
proof (induction ys arbitrary: ws r)
  case (Cons y ys)
  have here: "y * pitch + x * BPP + n * BPP \<le> length src \<Longrightarrow> row_write buffer stride pitch src w h
      (buffer + (y * stride + x * BPP), slice (y * pitch + x * BPP) (n * BPP) src)"
    using Cons.prems(2) assms(3) unfolding row_write_def by (intro exI conjI) auto
  show ?case
    using Cons here by (auto simp: Let_def split: if_splits sum.splits prod.splits)
qed simp

lemma copy_rows_complete:
  assumes "copy_rows uw buffer stride pitch src xoff span ys = (ws, Inr ())" "y \<in> set ys"
    "\<forall>y \<in> set ys. y * pitch + xoff + span \<le> length src"
  shows "(buffer + (y * stride + xoff), slice (y * pitch + xoff) span src) \<in> set ws"
  using assms
  by (induction ys arbitrary: ws) (auto simp: Let_def not_less split: if_splits sum.splits prod.splits)

lemma copy_rects_form:
  assumes "copy_rects uw buffer stride pitch src rs = (ws, r)" "\<forall>c \<in> set rs. rect_inside w h c"
  shows "\<forall>wr \<in> set ws. row_write buffer stride pitch src w h wr"
  using assms
proof (induction rs arbitrary: ws r)
  case (Cons c rs)
  obtain x1 y1 x2 y2 where c: "c = (x1, y1, x2, y2)" by (cases c) auto
  obtain ws1 r1 where 1: "copy_rows uw buffer stride pitch src (nat x1 * BPP) (nat (x2 - x1) * BPP)
      [nat y1..<nat y2] = (ws1, r1)" by fastforce
  have "rect_inside w h c" using Cons.prems(2) by simp
  then have "\<forall>wr \<in> set ws1. row_write buffer stride pitch src w h wr"
    by (intro copy_rows_form [OF 1]) (auto simp: c rect_inside_def)
  with Cons show ?case
    by (auto simp: c 1 Let_def split: sum.splits prod.splits)
qed simp

lemma row_fits:
  assumes "rect_inside w h (x1, y1, x2, y2)" "nat w * BPP \<le> pitch" "nat h * pitch \<le> len"
    "v < nat y2"
  shows "v * pitch + nat x1 * BPP + nat (x2 - x1) * BPP \<le> len"
proof -
  have "nat x1 + nat (x2 - x1) \<le> nat w" using assms(1) by (auto simp: rect_inside_def)
  then have "nat x1 * BPP + nat (x2 - x1) * BPP \<le> pitch"
    using assms(2) by (metis (no_types, lifting) add_mult_distrib le_trans mult_le_mono1)
  moreover have "Suc v * pitch \<le> nat h * pitch"
    using assms(1,4) by (intro mult_le_mono1) (auto simp: rect_inside_def)
  ultimately show ?thesis using assms(3) by simp
qed

lemma pixel_in_row:
  assumes "0 \<le> x1" "x1 \<le> x" "x < x2" "k < BPP"
  shows "nat x1 * BPP \<le> nat x * BPP + k \<and> nat x * BPP + k < nat x1 * BPP + nat (x2 - x1) * BPP"
proof
  show "nat x1 * BPP \<le> nat x * BPP + k"
    using assms by (simp add: trans_le_add1 nat_mono)
  have "Suc (nat x) \<le> nat x1 + nat (x2 - x1)" using assms by linarith
  then have "Suc (nat x) * BPP \<le> (nat x1 + nat (x2 - x1)) * BPP" by (rule mult_le_mono1)
  then show "nat x * BPP + k < nat x1 * BPP + nat (x2 - x1) * BPP"
    using assms(4) by (simp add: add_mult_distrib)
qed

lemma copy_rects_complete:
  assumes "copy_rects uw buffer stride pitch src rs = (ws, Inr ())"
    "(x1, y1, x2, y2) \<in> set rs" "nat y1 \<le> y" "y < nat y2"
    "\<forall>c \<in> set rs. rect_inside w h c" "nat w * BPP \<le> pitch" "nat h * pitch \<le> length src"
  shows "(buffer + (y * stride + nat x1 * BPP),
          slice (y * pitch + nat x1 * BPP) (nat (x2 - x1) * BPP) src) \<in> set ws"
  using assms(1,2,5)
proof (induction rs arbitrary: ws)
  case (Cons c rs)
  obtain a1 b1 a2 b2 where c: "c = (a1, b1, a2, b2)" by (cases c) auto
  obtain ws1 r1 where 1: "copy_rows uw buffer stride pitch src (nat a1 * BPP) (nat (a2 - a1) * BPP)
      [nat b1..<nat b2] = (ws1, r1)" by fastforce
  have r1: "r1 = Inr ()" and "\<exists>ws2. copy_rects uw buffer stride pitch src rs = (ws2, Inr ()) \<and>
      ws = ws1 @ ws2"
    using Cons.prems(1) by (auto simp: c 1 Let_def split: sum.splits prod.splits)
  then obtain ws2 where 2: "copy_rects uw buffer stride pitch src rs = (ws2, Inr ())"
    "ws = ws1 @ ws2" by blast
  show ?case
  proof (cases "c = (x1, y1, x2, y2)")
    case True
    have "rect_inside w h (a1, b1, a2, b2)" using Cons.prems(3) c by simp
    then have "\<forall>v \<in> set [nat b1..<nat b2].
        v * pitch + nat a1 * BPP + nat (a2 - a1) * BPP \<le> length src"
      using row_fits assms(6,7) by auto
    with True c assms(3,4) show ?thesis
      using copy_rows_complete [OF 1 [unfolded r1], of y] 2 by auto
  next
    case False
    with Cons.prems have "(x1, y1, x2, y2) \<in> set rs" "\<forall>c \<in> set rs. rect_inside w h c" by auto
    from Cons.IH [OF 2(1) this] 2(2) show ?thesis by simp
  qed
qed simp

section \<open>Client memory\<close>

fun write_mem :: "(nat \<Rightarrow> u8) \<Rightarrow> nat \<times> bytes \<Rightarrow> nat \<Rightarrow> u8" where
  "write_mem mem (a, bs) = (\<lambda>i. if a \<le> i \<and> i < a + length bs then bs ! (i - a) else mem i)"

definition apply_writes :: "uwrites \<Rightarrow> (nat \<Rightarrow> u8) \<Rightarrow> nat \<Rightarrow> u8" where
  "apply_writes ws mem = foldl write_mem mem ws"

lemma apply_writes_append: "apply_writes (ws @ ws') mem = apply_writes ws' (apply_writes ws mem)"
  by (simp add: apply_writes_def)

lemma apply_writes_agree:
  assumes "\<forall>(a, bs) \<in> set ws. a \<le> i \<and> i < a + length bs \<longrightarrow> bs ! (i - a) = v"
    "mem i = v \<or> (\<exists>(a, bs) \<in> set ws. a \<le> i \<and> i < a + length bs)"
  shows "apply_writes ws mem i = v"
  using assms
proof (induction ws arbitrary: mem)
  case (Cons wr ws)
  obtain a bs where wr: "wr = (a, bs)" by fastforce
  have "apply_writes ws (write_mem mem wr) i = v"
    by (rule Cons.IH) (use Cons.prems wr in auto)
  then show ?case by (simp add: apply_writes_def)
qed (simp add: apply_writes_def)

lemma row_write_pixel:
  assumes "row_write buffer stride pitch src w h (a, bs)" "nat w * BPP \<le> stride"
    "a \<le> buffer + (y * stride + j)" "buffer + (y * stride + j) < a + length bs" "j < stride"
  shows "bs ! (buffer + (y * stride + j) - a) = src ! (y * pitch + j)"
proof -
  obtain y' x n where a: "a = buffer + (y' * stride + x * BPP)"
    and bs: "bs = slice (y' * pitch + x * BPP) (n * BPP) src"
    and len: "y' * pitch + x * BPP + n * BPP \<le> length src" and w: "int (x + n) \<le> w"
    using assms(1) by (auto simp: row_write_def)
  have l: "length bs = n * BPP" using bs len by simp
  have "x + n \<le> nat w" using w by linarith
  then have xn: "x * BPP + n * BPP \<le> stride"
    using assms(2) by (metis add_mult_distrib le_trans mult_le_mono1)
  have low: "y' * stride + x * BPP \<le> y * stride + j" and
    high: "y * stride + j < y' * stride + x * BPP + n * BPP"
    using assms(3,4) a l by auto
  have "y' * stride < Suc y * stride" "y * stride < Suc y' * stride"
    using low high xn assms(5) by auto
  then have y: "y' = y"
    by (metis less_Suc_eq_le mult_less_cancel2 order_antisym)
  have "bs ! (j - x * BPP) = src ! (y * pitch + x * BPP + (j - x * BPP))"
    using low high len unfolding bs y by (subst nth_slice) auto
  then show ?thesis using a y low by simp
qed

section \<open>GRABPIX as a whole\<close>

lemma coalesce_cases:
  "coalesce cap rs = rs \<and> length rs \<le> cap \<or>
   (\<exists>r rs'. rs = r # rs' \<and> coalesce cap rs = [foldl bb_join r rs'])"
  by (cases rs) auto

lemma coalesce_covers:
  assumes "c \<in> set rs" "in_rect p c"
  shows "\<exists>c \<in> set (coalesce cap rs). in_rect p c"
  using coalesce_cases [of cap rs]
proof (elim disjE conjE exE)
  fix r rs' assume "rs = r # rs'" and co: "coalesce cap rs = [foldl bb_join r rs']"
  with assms have "in_rect p r \<or> (\<exists>q \<in> set rs'. in_rect p q)" by auto
  from in_bb_foldl [OF this] show ?thesis by (simp add: co)
qed (use assms in auto)

lemma rect_inside_join:
  "rect_inside w h a \<Longrightarrow> rect_inside w h b \<Longrightarrow> rect_inside w h (bb_join a b)"
  by (cases a; cases b) (auto simp: rect_inside_def)

lemma rect_inside_foldl:
  "rect_inside w h a \<Longrightarrow> \<forall>r \<in> set rs. rect_inside w h r \<Longrightarrow> rect_inside w h (foldl bb_join a rs)"
proof (induction rs arbitrary: a)
  case (Cons r rs)
  then have "rect_inside w h (bb_join a r)"
    by (intro rect_inside_join) auto
  with Cons.IH Cons.prems(2) show ?case by simp
qed simp

lemma coalesce_inside:
  "\<forall>r \<in> set rs. rect_inside w h r \<Longrightarrow> \<forall>r \<in> set (coalesce cap rs). rect_inside w h r"
  using coalesce_cases [of cap rs] rect_inside_foldl by fastforce

lemma coalesce_length:
  "0 < cap \<Longrightarrow> length (coalesce cap rs) \<le> cap"
  using coalesce_cases [of cap rs] by auto

lemma coalesce_nonempty: "rs \<noteq> [] \<Longrightarrow> coalesce cap rs \<noteq> []"
  by (cases rs) auto

lemma length_rects_bytes: "length (concat (map rect_bytes rs)) = 8 * length rs"
proof (induction rs)
  case (Cons r rs)
  have "length (rect_bytes r) = 8" by (cases r) simp
  with Cons show ?case by simp
qed simp

text \<open>The rectangles a grab works with, before and after clamping.\<close>

definition grab_regions :: "evdi_data \<Rightarrow> fb \<Rightarrow> rect list" where
  "grab_regions d f =
     (if dm_count (ps_damage (ed_painter d)) = 0
      then [(0, 0, sint (fb_width f), sint (fb_height f))]
      else active (ps_damage (ed_painter d)))"

definition grab_w :: "grabpix_arg \<Rightarrow> fb \<Rightarrow> int" where
  "grab_w arg f = min (sint (fb_width f)) (int (nat (ga_buf_byte_stride arg) div BPP))"

definition grab_h :: "grabpix_arg \<Rightarrow> fb \<Rightarrow> int" where
  "grab_h arg f = min (sint (fb_height f)) (ga_buf_height arg)"

definition grab_cap :: "grabpix_arg \<Rightarrow> nat" where
  "grab_cap arg = min (nat (max (ga_num_rects arg) 1)) MAX_DAMAGE_RECTS"

lemma grab_w_stride: "nat (grab_w arg f) * BPP \<le> nat (ga_buf_byte_stride arg)"
proof -
  have "nat (grab_w arg f) \<le> nat (ga_buf_byte_stride arg) div BPP" by (simp add: grab_w_def)
  then show ?thesis by (metis div_times_less_eq_dividend le_trans mult_le_mono1)
qed

text \<open>A grab either makes no copy at all, or it copies for the coalesced clamped regions.\<close>

lemma grabpix_copies:
  assumes "grabpix uw arg d = (d', arg', ws, r)"
  shows "ws = [] \<or> (\<exists>f src rects ws1 r1 ws2 r2. scanout_fb d = Some f \<and> fb_vmap f = Inr src \<and>
    0 < ga_buf_byte_stride arg \<and>
    clamp_rects (grab_w arg f) (grab_h arg f) (grab_regions d f) = Inr rects \<and>
    report_rects uw (ga_rects arg) (coalesce (grab_cap arg) rects) = (ws1, r1) \<and>
    copy_rects uw (ga_buffer arg) (nat (ga_buf_byte_stride arg)) (unat (fb_pitch f)) src
      (coalesce (grab_cap arg) rects) = (ws2, r2) \<and> (ws = ws1 \<or> ws = ws1 @ ws2))"
  using assms
  by (auto simp: grabpix_def take_damage_def Let_def grab_w_def grab_h_def grab_cap_def
      grab_regions_def split: option.splits sum.splits if_splits prod.splits)

lemma grabpix_ok:
  assumes "grabpix uw arg d = (d', arg', ws, Inr n)" "scanout_fb d = Some f"
  shows "\<exists>src rects. fb_vmap f = Inr src \<and> 0 < ga_buf_byte_stride arg \<and>
    clamp_rects (grab_w arg f) (grab_h arg f) (grab_regions d f) = Inr rects \<and>
    ga_num_rects arg' = int (length (coalesce (grab_cap arg) rects)) \<and>
    (rects = [] \<or> (\<exists>ws1 ws2.
       report_rects uw (ga_rects arg) (coalesce (grab_cap arg) rects) = (ws1, Inr ()) \<and>
       copy_rects uw (ga_buffer arg) (nat (ga_buf_byte_stride arg)) (unat (fb_pitch f)) src
         (coalesce (grab_cap arg) rects) = (ws2, Inr ()) \<and> ws = ws1 @ ws2)) \<and>
    d' = fst (take_damage d)"
  using assms
  by (auto simp: grabpix_def take_damage_def Let_def grab_w_def grab_h_def grab_cap_def
      grab_regions_def split: option.splits sum.splits if_splits prod.splits)


text \<open>
  C10. GRABPIX never writes outside the client's buffers, whatever it is called with: every copy
  it asks for is either the rectangle report, at the client's \<open>rects\<close> pointer and at most
  8 bytes for each of the \<open>max(num_rects, 1)\<close> (and at most 16) entries, or part of one row of
  the pixel buffer, inside \<open>buf_height\<close> rows of \<open>buf_byte_stride\<close> bytes.
\<close>

theorem grabpix_writes_in_bounds:
  "let (d', arg', ws, r) = grabpix uw arg d
   in list_all (\<lambda>(a, bs).
         if ga_rects arg \<noteq> 0 \<and> a = ga_rects arg \<and> length bs \<le> 8 * grab_cap arg then True
         else (\<exists>y. y < nat (ga_buf_height arg) \<and>
              ga_buffer arg + y * nat (ga_buf_byte_stride arg) \<le> a \<and>
              a + length bs \<le> ga_buffer arg + Suc y * nat (ga_buf_byte_stride arg))) ws"
proof -
  obtain d' arg' ws r where g: "grabpix uw arg d = (d', arg', ws, r)"
    by (metis prod_cases4)
  have "(ga_rects arg \<noteq> 0 \<and> a = ga_rects arg \<and> length bs \<le> 8 * grab_cap arg) \<or>
      (\<exists>y. y < nat (ga_buf_height arg) \<and>
        ga_buffer arg + y * nat (ga_buf_byte_stride arg) \<le> a \<and>
        a + length bs \<le> ga_buffer arg + Suc y * nat (ga_buf_byte_stride arg))"
    if w: "(a, bs) \<in> set ws" for a bs
    using grabpix_copies [OF g]
  proof (elim disjE exE conjE)
    fix f src rects ws1 r1 ws2 r2
    assume cl: "clamp_rects (grab_w arg f) (grab_h arg f) (grab_regions d f) = Inr rects"
      and st: "0 < ga_buf_byte_stride arg"
      and rep: "report_rects uw (ga_rects arg) (coalesce (grab_cap arg) rects) = (ws1, r1)"
      and cp: "copy_rects uw (ga_buffer arg) (nat (ga_buf_byte_stride arg)) (unat (fb_pitch f)) src
        (coalesce (grab_cap arg) rects) = (ws2, r2)"
    let ?st = "nat (ga_buf_byte_stride arg)"
    have len: "length (coalesce (grab_cap arg) rects) \<le> grab_cap arg"
      by (intro coalesce_length) (simp add: grab_cap_def MAX_DAMAGE_RECTS_def)
    have in1: "(a, bs) \<in> set ws1 \<Longrightarrow> ga_rects arg \<noteq> 0 \<and> a = ga_rects arg \<and> length bs \<le> 8 * grab_cap arg"
      using rep len by (auto simp: report_rects_def Let_def length_rects_bytes split: if_splits)
    have in2: "\<exists>y. y < nat (ga_buf_height arg) \<and> ga_buffer arg + y * ?st \<le> a \<and>
        a + length bs \<le> ga_buffer arg + Suc y * ?st" if "(a, bs) \<in> set ws2"
    proof -
      have "row_write (ga_buffer arg) ?st (unat (fb_pitch f)) src (grab_w arg f) (grab_h arg f) (a, bs)"
        using copy_rects_form [OF cp coalesce_inside] clamp_rects_inside [OF cl] that by blast
      then obtain y x n where a: "a = ga_buffer arg + (y * ?st + x * BPP)"
        and bs: "length bs = n * BPP" and y: "int y < grab_h arg f"
        and xn: "int (x + n) \<le> grab_w arg f"
        by (rule row_writeE)
      have "x + n \<le> nat (grab_w arg f)" using xn by linarith
      then have "(x + n) * BPP \<le> ?st"
        using grab_w_stride [of arg f] by (meson le_trans mult_le_mono1)
      moreover have "y < nat (ga_buf_height arg)" using y by (auto simp: grab_h_def)
      ultimately show ?thesis using a bs
        by (intro exI [of _ y]) (auto simp: add_mult_distrib)
    qed
    { assume "ws = ws1" then show ?thesis using w in1 by blast }
    { assume "ws = ws1 @ ws2" then show ?thesis using w in1 in2 by auto }
  qed (use w in simp)
  then show ?thesis by (auto simp: g Let_def list_all_iff)
qed


text \<open>
  C17. No recorded pixel is lost by a successful GRABPIX: for a framebuffer whose mapping holds
  all its rows, every pixel of the recorded damage (of the whole frame when none is recorded)
  that fits the client's buffer has its four bytes in the client's memory afterwards, at the
  same position; the damage record is then empty, the frame is no longer dirty, and at most
  \<open>max(num_rects, 1)\<close> rectangles are reported.
\<close>

theorem grabpix_delivers:
  assumes "grabpix uw arg d = (d', arg', ws, Inr n)" "scanout_fb d = Some f"
    "fb_vmap f = Inr src" "nat (sint (fb_width f)) * BPP \<le> unat (fb_pitch f)"
    "nat (sint (fb_height f)) * unat (fb_pitch f) \<le> length src"
    "\<exists>r \<in> set (grab_regions d f). in_rect (x, y) r"
    "0 \<le> x" "x < grab_w arg f" "0 \<le> y" "y < grab_h arg f" "k < BPP"
  shows "apply_writes ws mem
      (ga_buffer arg + nat y * nat (ga_buf_byte_stride arg) + nat x * BPP + k)
        = src ! (nat y * unat (fb_pitch f) + nat x * BPP + k) \<and>
    active (ps_damage (ed_painter d')) = [] \<and> \<not> ps_frame_dirty (ed_painter d') \<and>
    nat (ga_num_rects arg') \<le> grab_cap arg"
proof -
  let ?st = "nat (ga_buf_byte_stride arg)" and ?p = "unat (fb_pitch f)"
  let ?j = "nat x * BPP + k" and ?i = "ga_buffer arg + (nat y * ?st + (nat x * BPP + k))"
  obtain rects where st: "0 < ga_buf_byte_stride arg"
    and cl: "clamp_rects (grab_w arg f) (grab_h arg f) (grab_regions d f) = Inr rects"
    and num: "ga_num_rects arg' = int (length (coalesce (grab_cap arg) rects))"
    and cp: "rects = [] \<or> (\<exists>ws1 ws2.
       report_rects uw (ga_rects arg) (coalesce (grab_cap arg) rects) = (ws1, Inr ()) \<and>
       copy_rects uw (ga_buffer arg) ?st ?p src (coalesce (grab_cap arg) rects) = (ws2, Inr ()) \<and>
       ws = ws1 @ ws2)"
    and d': "d' = fst (take_damage d)"
    using grabpix_ok [OF assms(1,2)] assms(3) by auto
  obtain c0 where c0: "c0 \<in> set rects" "in_rect (x, y) c0"
    using assms(6) clamp_rects_covers [OF cl] assms(7-10) by blast
  then obtain ws1 ws2 where w: "ws = ws1 @ ws2"
    and cp2: "copy_rects uw (ga_buffer arg) ?st ?p src (coalesce (grab_cap arg) rects) = (ws2, Inr ())"
    using cp by fastforce
  obtain c where c: "c \<in> set (coalesce (grab_cap arg) rects)" "in_rect (x, y) c"
    using coalesce_covers [OF c0] by blast
  obtain x1 y1 x2 y2 where cr: "c = (x1, y1, x2, y2)" by (cases c) auto
  have ins: "\<forall>c \<in> set (coalesce (grab_cap arg) rects). rect_inside (grab_w arg f) (grab_h arg f) c"
    using coalesce_inside clamp_rects_inside [OF cl] by blast
  note wst = grab_w_stride [of arg f]
  have "nat (grab_w arg f) \<le> nat (sint (fb_width f))" "nat (grab_h arg f) \<le> nat (sint (fb_height f))"
    by (auto simp: grab_w_def grab_h_def)
  then have wp: "nat (grab_w arg f) * BPP \<le> ?p" "nat (grab_h arg f) * ?p \<le> length src"
    using assms(4,5) by (meson le_trans mult_le_mono1)+
  have mem: "(ga_buffer arg + (nat y * ?st + nat x1 * BPP),
      slice (nat y * ?p + nat x1 * BPP) (nat (x2 - x1) * BPP) src) \<in> set ws2"
    by (rule copy_rects_complete [OF cp2 _ _ _ ins wp]) (use c cr assms(9) in auto)
  have xx: "0 \<le> x1" "x1 \<le> x" "x < x2" "x2 \<le> grab_w arg f" "y2 \<le> grab_h arg f" "y < y2"
    using c cr ins by (auto simp: rect_inside_def)
  have jst: "?j < ?st"
  proof -
    have "Suc (nat x) * BPP \<le> nat (grab_w arg f) * BPP"
      using assms(7,8) by (intro mult_le_mono1) linarith
    with wst assms(11) show ?thesis by simp
  qed
  have agree: "\<forall>(a, bs) \<in> set ws2. a \<le> ?i \<and> ?i < a + length bs \<longrightarrow>
      bs ! (?i - a) = src ! (nat y * ?p + ?j)"
    using copy_rects_form [OF cp2 ins] row_write_pixel [OF _ wst _ _ jst] by blast
  have hit: "\<exists>(a, bs) \<in> set ws2. a \<le> ?i \<and> ?i < a + length bs"
  proof (rule bexI [OF _ mem])
    have "nat y * ?p + nat x1 * BPP + nat (x2 - x1) * BPP \<le> length src"
      using row_fits [OF _ wp, of x1 y1 x2 y2 "nat y"] ins c cr xx assms(9) by simp
    then show "case (ga_buffer arg + (nat y * ?st + nat x1 * BPP),
        slice (nat y * ?p + nat x1 * BPP) (nat (x2 - x1) * BPP) src) of
        (a, bs) \<Rightarrow> a \<le> ?i \<and> ?i < a + length bs"
      using pixel_in_row [OF xx(1-3) assms(11)] by simp
  qed
  have "apply_writes ws mem ?i = src ! (nat y * ?p + ?j)"
    unfolding w apply_writes_append by (rule apply_writes_agree [OF agree disjI2 [OF hit]])
  moreover have "nat (ga_num_rects arg') \<le> grab_cap arg"
    using coalesce_length [of "grab_cap arg" rects]
    by (simp add: num grab_cap_def MAX_DAMAGE_RECTS_def)
  ultimately show ?thesis
    by (simp add: d' take_damage_def damage_clear_def active_def add.assoc)
qed


text \<open>A small framebuffer and device for the witnesses.\<close>

definition fb_demo :: fb where
  "fb_demo = \<lparr>fb_id = 7, fb_width = 2, fb_height = 1, fb_pitch = 8,
     fb_format = DRM_FORMAT_XRGB8888, fb_vmap = Inr [1, 2, 3, 4, 5, 6, 7, 8]\<rparr>"

definition dev_demo :: evdi_data where
  "dev_demo = primary_update None (Some fb_demo) [(1, 0, 2, 1)] (snd (evdi_data_new slots_init))"

definition grab_demo :: grabpix_arg where
  "grab_demo = \<lparr>ga_buf_width = 2, ga_buf_height = 1, ga_buf_byte_stride = 8, ga_buffer = 100,
     ga_num_rects = 16, ga_rects = 50\<rparr>"

lemma demo_fields:
  "scanout_fb dev_demo = Some fb_demo" "fb_vmap fb_demo = Inr [1, 2, 3, 4, 5, 6, 7, 8]"
  "sint (fb_width fb_demo) = 2" "sint (fb_height fb_demo) = 1" "unat (fb_pitch fb_demo) = 8"
  "fb_width fb_demo = 2" "fb_height fb_demo = 1"
  by (simp_all add: dev_demo_def fb_demo_def primary_update_def set_scanout_def scanout_fb_def
      Let_def)

lemma demo_rects: "(replicate 16 z)[0 := r] = r # replicate 15 z"
  by (simp add: numeral_eq_Suc)

lemma demo_damage_count: "dm_count (ps_damage (ed_painter dev_demo)) = 1"
  "active (ps_damage (ed_painter dev_demo)) = [(1, 0, 2, 1)]"
  by (simp_all add: dev_demo_def primary_update_def set_scanout_def Let_def demo_rects
      evdi_data_new_def painter_new_def damage_new_def damage_push_def active_def
      MAX_DAMAGE_RECTS_def split: prod.splits)

lemma demo_damage: "grab_regions dev_demo fb_demo = [(1, 0, 2, 1)]"
  by (simp add: grab_regions_def demo_damage_count)

lemma demo_grab:
  "\<exists>d' arg'. grabpix (\<lambda>_ _. Inr ()) grab_demo dev_demo =
     (d', arg', [(50, [1, 0, 0, 0, 2, 0, 1, 0]), (104, [5, 6, 7, 8])], Inr 0)"
  by (simp add: grabpix_def demo_fields demo_damage_count take_damage_def grab_demo_def Let_def
      BPP_def rclamp_def report_rects_def MAX_DAMAGE_RECTS_def slice_def le16_def)

theorem grabpix_delivers_witness:
  "\<exists>d' arg' ws. grabpix (\<lambda>_ _. Inr ()) grab_demo dev_demo = (d', arg', ws, Inr 0) \<and>
     apply_writes ws (\<lambda>_. 0) 106 = 7"
proof -
  obtain d' arg' ws where g: "grabpix (\<lambda>_ _. Inr ()) grab_demo dev_demo = (d', arg', ws, Inr 0)"
    using demo_grab by blast
  have "apply_writes ws (\<lambda>_. 0) (ga_buffer grab_demo + nat 0 * nat (ga_buf_byte_stride grab_demo)
      + nat 1 * BPP + 2) = [1, 2, 3, 4, 5, 6, 7, 8 :: u8] ! (nat 0 * unat (fb_pitch fb_demo) + nat 1 * BPP + 2)"
    using grabpix_delivers [OF g demo_fields(1,2), of 1 0 2 "\<lambda>_. 0"]
    by (simp add: demo_fields demo_damage grab_w_def grab_h_def grab_demo_def BPP_def)
  then have "apply_writes ws (\<lambda>_. 0) 106 = 7"
    by (simp add: grab_demo_def BPP_def)
  with g show ?thesis by blast
qed

text \<open>
  C18. A GRABPIX that fails after a frame was flipped in loses the damage it took: on a mapping
  that fails, or on a bad buffer geometry, nothing is copied, yet the damage record is empty and
  the frame no longer dirty afterwards, so REQUEST\_UPDATE no longer reports the pending frame.
\<close>

theorem grabpix_error_drops_damage:
  assumes "scanout_fb d = Some f"
    "(\<exists>e. fb_vmap f = Inl e) \<or> ga_buffer arg = 0 \<or> ga_buf_byte_stride arg \<le> 0
       \<or> ga_buf_width arg < 0 \<or> ga_buf_height arg < 0"
  shows "\<exists>d' e. grabpix uw arg d = (d', arg, [], Inl e) \<and>
    active (ps_damage (ed_painter d')) = [] \<and> request_update d' = Inr 0"
  using assms
  by (cases "fb_vmap f")
    (auto simp: grabpix_def take_damage_def Let_def damage_clear_def active_def request_update_def)


theorem grabpix_error_drops_damage_witness:
  "request_update dev_demo = Inr 1 \<and>
   (\<exists>d' e. grabpix (\<lambda>_ _. Inr ()) (grab_demo\<lparr>ga_buffer := 0\<rparr>) dev_demo =
      (d', grab_demo\<lparr>ga_buffer := 0\<rparr>, [], Inl e) \<and> request_update d' = Inr 0)"
proof
  show "request_update dev_demo = Inr 1"
    by (simp add: dev_demo_def primary_update_def set_scanout_def Let_def request_update_def)
  show "\<exists>d' e. grabpix (\<lambda>_ _. Inr ()) (grab_demo\<lparr>ga_buffer := 0\<rparr>) dev_demo =
      (d', grab_demo\<lparr>ga_buffer := 0\<rparr>, [], Inl e) \<and> request_update d' = Inr 0"
    using grabpix_error_drops_damage [OF demo_fields(1), of "grab_demo\<lparr>ga_buffer := 0\<rparr>"
        "\<lambda>_ _. Inr ()"] by auto
qed

end
