(* ===== verification/Clients.thy ===== *)
theory Clients
  imports Ioctl
begin

text \<open>
  The life of the client files of a card: which file receives events, and what CONNECT and
  closing do to it. The event channel belongs to the kernel's crates; its receiver is read off
  the recorded calls, as the source documents them: \<open>connect\<close> installs the file,
  \<open>disconnect\<close> clears the channel.
\<close>

fun receiver_step :: "nat option \<Rightarrow> kcall \<Rightarrow> nat option" where
  "receiver_step r (KConnect i) = Some i"
| "receiver_step r KDisconnect = None"
| "receiver_step r _ = r"

definition receiver :: "evdi_data \<Rightarrow> nat option" where
  "receiver d = foldl receiver_step None (ed_calls d)"

lemma receiver_kcall [simp]: "receiver (kcall c d) = receiver_step (receiver d) c"
  by (simp add: receiver_def)

lemma receiver_painter [simp]: "receiver (d\<lparr>ed_painter := p\<rparr>) = receiver d"
  by (simp add: receiver_def)

lemma receiver_edid [simp]:
  "receiver (set_edid blob d) = receiver d" "receiver (clear_edid d) = receiver d"
  "receiver (set_mode_limits a b d) = receiver d"
  by (simp_all add: set_edid_def clear_edid_def set_mode_limits_def receiver_def kcall_def
      split: option.splits)

lemma connect_ok:
  assumes "connect ur arg f d = (d', f', Inr n)"
  shows "fl_id f' = fl_id f \<and> (if ca_connected arg \<noteq> 0
    then receiver d' = Some (fl_id f) \<and> fl_connected f' \<and> ps_connected (ed_painter d')
    else receiver d' = None \<and> \<not> fl_connected f' \<and> \<not> ps_connected (ed_painter d'))"
  using assms
  by (auto simp: connect_def Let_def split: if_splits sum.splits)

lemma connect_err:
  "connect ur arg f d = (d', f', Inl e) \<Longrightarrow> d' = d \<and> f' = f"
  by (auto simp: connect_def Let_def split: if_splits sum.splits)

text \<open>
  The open files of a card and its data. A file is opened under a fresh identity, issues
  CONNECT with any argument (connecting, disconnecting or failing), and is closed at any time.
\<close>

inductive clients :: "drm_file list \<Rightarrow> evdi_data \<Rightarrow> bool" where
  clients_init: "receiver d = None \<Longrightarrow> clients [] d"
| clients_open: "clients fs d \<Longrightarrow> i \<notin> fl_id ` set fs \<Longrightarrow> file_open i d = (d', f)
    \<Longrightarrow> clients (f # fs) d'"
| clients_connect: "clients (fs1 @ f # fs2) d \<Longrightarrow> connect ur arg f d = (d', f', r)
    \<Longrightarrow> clients (fs1 @ f' # fs2) d'"
| clients_close: "clients (fs1 @ f # fs2) d \<Longrightarrow> clients (fs1 @ fs2) (file_drop f d)"

inductive_cases clients_openE: "clients (f # fs) d"

definition clients_inv :: "drm_file list \<Rightarrow> evdi_data \<Rightarrow> bool" where
  "clients_inv fs d = (distinct (map fl_id fs) \<and>
     (\<forall>i. receiver d = Some i \<longrightarrow> (\<exists>f \<in> set fs. fl_id f = i \<and> fl_connected f)))"

lemma clients_reachable_inv: "clients fs d \<Longrightarrow> clients_inv fs d"
proof (induction rule: clients.induct)
  case (clients_init d)
  then show ?case by (simp add: clients_inv_def)
next
  case (clients_open fs d i d' f)
  then show ?case by (auto simp: clients_inv_def file_open_def)
next
  case (clients_connect fs1 f fs2 d ur arg d' f' r)
  show ?case
  proof (cases r)
    case (Inl e)
    with clients_connect.hyps connect_err have "d' = d \<and> f' = f" by blast
    with clients_connect.IH show ?thesis by simp
  next
    case (Inr n)
    from connect_ok [OF clients_connect.hyps(2) [unfolded Inr]] clients_connect.IH
    show ?thesis by (auto simp: clients_inv_def split: if_splits)
  qed
next
  case (clients_close fs1 f fs2 d)
  then show ?case
    by (auto simp: clients_inv_def file_drop_def)
qed

text \<open>
  C14. Events are only ever addressed to an open file: however files open, connect, disconnect,
  fail to connect and close, the event receiver, when there is one, is a file that is still open
  and holds the connected flag; in particular, closing the receiver clears the channel.
\<close>

theorem receiver_is_open:
  assumes "clients fs d" "receiver d = Some i"
  shows "\<exists>f \<in> set fs. fl_id f = i \<and> fl_connected f"
  using clients_reachable_inv [OF assms(1)] assms(2) by (auto simp: clients_inv_def)

definition connect_demo :: connect_arg where
  "connect_demo = \<lparr>ca_connected = 1, ca_edid = 4096, ca_edid_length = 128,
     ca_pixel_area_limit = 3686400, ca_pixel_per_second_limit = 442368000\<rparr>"

definition ur_demo :: "nat \<Rightarrow> nat \<Rightarrow> bytes res" where
  "ur_demo a n = Inr (replicate n 7)"

theorem receiver_is_open_witness:
  "\<exists>fs d. clients fs d \<and> receiver d = Some 3 \<and> (\<exists>f \<in> set fs. fl_id f = 3 \<and> fl_connected f)"
proof -
  let ?d0 = "snd (evdi_data_new slots_init)"
  obtain d1 f1 where 1: "file_open 3 ?d0 = (d1, f1)" by fastforce
  obtain d2 f2 r where 2: "connect ur_demo connect_demo f1 d1 = (d2, f2, r)"
    by (metis prod_cases3)
  have "receiver ?d0 = None"
    by (simp add: evdi_data_new_def receiver_def split: prod.splits)
  then have "clients [] ?d0" by (rule clients_init)
  then have "clients ([] @ f1 # []) d1" using clients_open [OF _ _ 1] by simp
  then have c: "clients [f2] d2" using clients_connect [OF _ 2, of "[]" "[]"] by simp
  have "r = Inr 0" "fl_id f1 = 3"
    using 1 2 by (auto simp: connect_def connect_demo_def ur_demo_def Let_def EDID_MAX_def
        file_open_def)
  with connect_ok [of ur_demo connect_demo f1 d1 d2 f2 0] 2 have "receiver d2 = Some 3"
    by (simp add: connect_demo_def)
  with receiver_is_open [OF c this] c show ?thesis by blast
qed

text \<open>
  What CONNECT publishes: a successful CONNECT with a non-empty EDID on a probed card
  stores the EDID and the limits (the pixel rate doubled, saturating) before the one hotplug
  it fires, so the connector is then detected as connected; a disconnect drops the EDID, fires
  one hotplug, and the connector is detected as disconnected; a failed CONNECT changes nothing.
\<close>

theorem connect_publishes:
  assumes "connect ur arg f d = (d', f', r)" "ed_connector d = Some c"
  shows "case r of
     Inl e \<Rightarrow> d' = d \<and> f' = f
   | Inr _ \<Rightarrow>
       if ca_connected arg = 0
       then ed_connector d' = Some (c\<lparr>cn_cached_edid := None\<rparr>) \<and>
            snd (detect sl d' (the (ed_connector d'))) = Disconnected \<and>
            ed_calls d' = ed_calls d @ [KDisconnect, KHotplug]
       else \<forall>blob. ca_edid arg \<noteq> 0 \<and> 0 < unat (ca_edid_length arg) \<and> blob \<noteq> [] \<and>
              ur (ca_edid arg) (unat (ca_edid_length arg)) = Inr blob \<longrightarrow>
              ed_connector d' = Some \<lparr>cn_cached_edid = Some blob,
                 cn_pixel_area_limit = ca_pixel_area_limit arg,
                 cn_pixel_per_second_limit = sat_mul (ca_pixel_per_second_limit arg) 2\<rparr> \<and>
              snd (detect sl d' (the (ed_connector d'))) = Connected \<and>
              ed_calls d' = ed_calls d @ [KConnect (fl_id f), KHotplug]"
proof (cases r)
  case (Inl e)
  with assms(1) connect_err show ?thesis by auto
next
  case (Inr n)
  with assms show ?thesis
    by (auto simp: connect_def Let_def set_edid_def clear_edid_def set_mode_limits_def detect_def
        split: if_splits sum.splits)
qed

theorem connect_publishes_witness:
  "case connect ur_demo connect_demo \<lparr>fl_id = 1, fl_connected = False\<rparr>
     (probe_connector (snd (evdi_data_new slots_init))) of
     (d', f', r) \<Rightarrow> map_option cn_cached_edid (ed_connector d') = Some (Some (replicate 128 7))"
proof -
  let ?d = "probe_connector (snd (evdi_data_new slots_init))"
  obtain d' f' r where k: "connect ur_demo connect_demo \<lparr>fl_id = 1, fl_connected = False\<rparr> ?d
      = (d', f', r)" by (metis prod_cases3)
  have "ed_connector ?d = Some connector_new" by (simp add: probe_connector_def)
  note * = connect_publishes [OF k this, of slots_init]
  have "r = Inr 0"
    using k by (auto simp: connect_def connect_demo_def ur_demo_def Let_def EDID_MAX_def)
  with * have "map_option cn_cached_edid (ed_connector d') = Some (Some (replicate 128 7))"
    by (auto simp: connect_demo_def ur_demo_def)
  with k show ?thesis by simp
qed

text \<open>
  Closing a file that connected earlier also silences its successor: if a second file has
  become the event receiver while the first still holds its connected flag, closing the first
  leaves the card without a receiver although the second is open and connected.
\<close>

theorem stale_close_disconnects:
  assumes "connect ur arg1 f1 d = (d1, f1', Inr n1)" "ca_connected arg1 \<noteq> 0"
    "connect ur arg2 f2 d1 = (d2, f2', Inr n2)" "ca_connected arg2 \<noteq> 0"
  shows "receiver d2 = Some (fl_id f2) \<and> fl_connected f2' \<and> receiver (file_drop f1' d2) = None"
  using connect_ok [OF assms(1)] connect_ok [OF assms(3)] assms(2,4)
  by (simp add: file_drop_def)

theorem stale_close_disconnects_witness:
  "\<exists>d2 f1. \<exists>f2 :: drm_file. receiver d2 = Some 2 \<and> fl_connected f2 \<and> receiver (file_drop f1 d2) = None"
proof -
  let ?d = "snd (evdi_data_new slots_init)"
  let ?f1 = "\<lparr>fl_id = 1, fl_connected = False\<rparr>" and ?f2 = "\<lparr>fl_id = 2, fl_connected = False\<rparr>"
  obtain d1 f1' r1 where 1: "connect ur_demo connect_demo ?f1 ?d = (d1, f1', r1)"
    by (metis prod_cases3)
  obtain d2 f2' r2 where 2: "connect ur_demo connect_demo ?f2 d1 = (d2, f2', r2)"
    by (metis prod_cases3)
  have "r1 = Inr 0" "r2 = Inr 0"
    using 1 2 by (auto simp: connect_def connect_demo_def ur_demo_def Let_def EDID_MAX_def)
  with stale_close_disconnects [OF 1 [unfolded \<open>r1 = Inr 0\<close>] _ 2 [unfolded \<open>r2 = Inr 0\<close>]]
  have "receiver d2 = Some 2 \<and> fl_connected f2' \<and> receiver (file_drop f1' d2) = None"
    by (simp add: connect_demo_def)
  then show ?thesis by blast
qed

end
