(* ===== verification/Libevdi.thy ===== *)
theory Libevdi
  imports Ioctl
begin

text \<open>
  The userspace library (\<open>library/src/lib.rs\<close>): finding and opening a card, the table of
  cards this process holds, the buffer registry of a handle, grabbing pixels, and the event
  loop that turns the bytes the kernel delivers back into the client's callbacks. The file
  system, the ioctls and the allocator are arguments; callbacks and side effects are returned
  in order.
\<close>

definition MAX_DIRTS :: nat where "MAX_DIRTS = 16"
definition EVDI_USAGE_LEN :: nat where "EVDI_USAGE_LEN = 64"
definition INVALID_DEVICE_INDEX :: int where "INVALID_DEVICE_INDEX = - 1"
definition COMPAT_MAJOR :: int where "COMPAT_MAJOR = 1"
definition COMPAT_MINOR :: int where "COMPAT_MINOR = 9"

section \<open>The file system the library looks at\<close>

text \<open>
  A snapshot: the entries of \<open>/sys/bus/platform/devices\<close> (\<open>None\<close> when it cannot be read), and
  for each entry the last component of its \<open>device\<close> link, whether that link's target exists,
  and the entries of its \<open>drm\<close> directory.
\<close>

record sysfs =
  fs_platform :: "string list option"
  fs_device_link :: "string \<Rightarrow> string option"
  fs_device_exists :: "string \<Rightarrow> bool"
  fs_drm :: "string \<Rightarrow> string list option"

fun starts_with :: "string \<Rightarrow> string \<Rightarrow> bool" where
  "starts_with p s = (take (length p) s = p)"

definition digit_val :: "char \<Rightarrow> nat option" where
  "digit_val c = (let n = of_char c in if 48 \<le> n \<and> n \<le> (57 :: nat) then Some (n - 48) else None)"

fun digits_val :: "nat \<Rightarrow> string \<Rightarrow> nat option" where
  "digits_val acc [] = Some acc"
| "digits_val acc (c # cs) =
     (case digit_val c of None \<Rightarrow> None | Some v \<Rightarrow> digits_val (acc * 10 + v) cs)"

text \<open>\<open>str::parse::<c_int>()\<close>: an optional sign, at least one digit, in range.\<close>

definition parse_i32 :: "string \<Rightarrow> int option" where
  "parse_i32 s =
     (let (neg, ds) = (case s of c # cs \<Rightarrow> (if c = CHR ''-'' then (True, cs)
                                    else if c = CHR ''+'' then (False, cs) else (False, s))
                       | [] \<Rightarrow> (False, []))
      in if ds = [] then None
         else case digits_val 0 ds of
                None \<Rightarrow> None
              | Some n \<Rightarrow> let v = (if neg then - int n else int n)
                          in if - (2 ^ 31) \<le> v \<and> v < 2 ^ 31 then Some v else None)"

fun get_drm_device_index :: "string list option \<Rightarrow> int" where
  "get_drm_device_index None = INVALID_DEVICE_INDEX"
| "get_drm_device_index (Some []) = INVALID_DEVICE_INDEX"
| "get_drm_device_index (Some (n # ns)) =
     (if starts_with ''card'' n
      then case parse_i32 (drop 4 n) of
             Some i \<Rightarrow> i
           | None \<Rightarrow> get_drm_device_index (Some ns)
      else get_drm_device_index (Some ns))"

definition is_correct_parent_device :: "sysfs \<Rightarrow> string \<Rightarrow> string option \<Rightarrow> bool" where
  "is_correct_parent_device fs name parent_device =
     (case parent_device of
        None \<Rightarrow> \<not> fs_device_exists fs name
      | Some parent \<Rightarrow>
          (case fs_device_link fs name of
             None \<Rightarrow> False
           | Some token \<Rightarrow> if length parent < 2 then False else token = parent))"

fun find_in :: "sysfs \<Rightarrow> bool list \<Rightarrow> string option \<Rightarrow> string list \<Rightarrow> int" where
  "find_in fs in_use parent [] = INVALID_DEVICE_INDEX"
| "find_in fs in_use parent (name # names) =
     (if \<not> starts_with ''evdi'' name then find_in fs in_use parent names
      else if \<not> is_correct_parent_device fs name parent then find_in fs in_use parent names
      else let dev_index = get_drm_device_index (fs_drm fs name)
           in if dev_index < 0 \<or> nat dev_index \<ge> EVDI_USAGE_LEN then find_in fs in_use parent names
              else if \<not> in_use ! nat dev_index then dev_index
              else find_in fs in_use parent names)"

definition find_unused_card_for :: "sysfs \<Rightarrow> bool list \<Rightarrow> string option \<Rightarrow> int" where
  "find_unused_card_for fs in_use parent =
     (case fs_platform fs of None \<Rightarrow> INVALID_DEVICE_INDEX | Some ns \<Rightarrow> find_in fs in_use parent ns)"

text \<open>\<open>after\<close> is the file system once \<open>/sys/devices/evdi/add\<close> has been written; the second
  result is what was written, if anything.\<close>

definition get_generic_device :: "sysfs \<Rightarrow> (string \<Rightarrow> sysfs) \<Rightarrow> bool list \<Rightarrow> int \<times> string option" where
  "get_generic_device fs after in_use =
     (let idx = find_unused_card_for fs in_use None
      in if idx \<noteq> INVALID_DEVICE_INDEX then (idx, None)
         else (find_unused_card_for (after ''1'') in_use None, Some ''1''))"

definition get_device_attached_to_usb ::
    "sysfs \<Rightarrow> (string \<Rightarrow> sysfs) \<Rightarrow> bool list \<Rightarrow> string \<Rightarrow> string \<Rightarrow> int \<times> string option" where
  "get_device_attached_to_usb fs after in_use raw parent =
     (let idx = find_unused_card_for fs in_use (Some parent)
      in if idx \<noteq> INVALID_DEVICE_INDEX then (idx, None)
         else (find_unused_card_for (after raw) in_use (Some parent), Some raw))"

section \<open>Handles\<close>

record evdi_buffer =
  eb_id :: int
  eb_buffer :: nat
  eb_width :: int
  eb_height :: int
  eb_stride :: int

record evdi_ctx =
  ec_fd :: int
  ec_buffer_to_update :: int
  ec_frame_buffers :: "evdi_buffer list"
  ec_device_index :: int

text \<open>What \<open>DRM_IOCTL_VERSION\<close> answers.\<close>

record drm_version =
  dv_ret :: int
  dv_major :: int
  dv_minor :: int
  dv_name :: bytes

definition is_evdi :: "drm_version \<Rightarrow> bool" where
  "is_evdi v =
     (if dv_ret v \<noteq> 0 then False
      else takeWhile (\<lambda>b. b \<noteq> 0) (pad_to 64 (take 64 (dv_name v))) = [0x65, 0x76, 0x64, 0x69])"

definition is_evdi_compatible :: "drm_version \<Rightarrow> bool" where
  "is_evdi_compatible v =
     (if dv_ret v \<noteq> 0 then False else dv_major v = COMPAT_MAJOR \<and> dv_minor v \<ge> COMPAT_MINOR)"

text \<open>\<open>evdi_open\<close>: \<open>fd\<close> is what \<open>open_device\<close> gives, the file descriptor as opened and its DRM
  version. The last result says whether the descriptor was closed again.\<close>

definition evdi_open ::
    "int \<Rightarrow> drm_version \<Rightarrow> int \<Rightarrow> bool list \<Rightarrow> evdi_ctx option \<times> bool list \<times> bool" where
  "evdi_open fd ver device in_use =
     (if fd \<le> 0 then (None, in_use, False)
      else if \<not> (is_evdi ver \<and> is_evdi_compatible ver) then (None, in_use, True)
      else if device < 0 \<or> nat device \<ge> EVDI_USAGE_LEN then (None, in_use, True)
      else (Some \<lparr>ec_fd = fd, ec_buffer_to_update = 0, ec_frame_buffers = [],
                  ec_device_index = device\<rparr>,
            in_use[nat device := True], False))"

definition evdi_close :: "evdi_ctx \<Rightarrow> bool list \<Rightarrow> bool list" where
  "evdi_close ctx in_use =
     map (\<lambda>(i, used). if used \<and> int i = ec_device_index ctx then False else used)
       (enumerate 0 in_use)"

definition evdi_open_attached_to_fixed ::
    "sysfs \<Rightarrow> (string \<Rightarrow> sysfs) \<Rightarrow> (int \<Rightarrow> int \<times> drm_version) \<Rightarrow> string option \<Rightarrow> bool list
       \<Rightarrow> evdi_ctx option \<times> bool list \<times> string option" where
  "evdi_open_attached_to_fixed fs after opened parent in_use =
     (let (device_index, written) =
        (case parent of
           None \<Rightarrow> get_generic_device fs after in_use
         | Some raw \<Rightarrow>
             if length raw > 4 \<and> take 4 raw = ''usb:''
             then get_device_attached_to_usb fs after in_use raw (drop 4 raw)
             else (INVALID_DEVICE_INDEX, None))
      in if device_index \<ge> 0 \<and> nat device_index < EVDI_USAGE_LEN
         then (let (fd, ver) = opened device_index;
                   (c, u, _) = evdi_open fd ver device_index in_use
               in (c, u, written))
         else (None, in_use, written))"

section \<open>Buffers\<close>

definition find_buffer :: "evdi_ctx \<Rightarrow> int \<Rightarrow> evdi_buffer option" where
  "find_buffer ctx i = find (\<lambda>b. eb_id b = i) (ec_frame_buffers ctx)"

definition evdi_register_buffer :: "evdi_buffer \<Rightarrow> evdi_ctx \<Rightarrow> evdi_ctx" where
  "evdi_register_buffer b ctx = ctx\<lparr>ec_frame_buffers := ec_frame_buffers ctx @ [b]\<rparr>"

definition evdi_unregister_buffer :: "int \<Rightarrow> evdi_ctx \<Rightarrow> evdi_ctx" where
  "evdi_unregister_buffer i ctx =
     ctx\<lparr>ec_frame_buffers := filter (\<lambda>b. eb_id b \<noteq> i) (ec_frame_buffers ctx)\<rparr>"

text \<open>\<open>evdi_request_update\<close>, given what the ioctl returned.\<close>

definition evdi_request_update :: "int \<Rightarrow> int \<Rightarrow> evdi_ctx \<Rightarrow> evdi_ctx \<times> bool" where
  "evdi_request_update ioctl_ret buffer_id ctx =
     (ctx\<lparr>ec_buffer_to_update := buffer_id\<rparr>, ioctl_ret = 1)"

type_synonym clip = "u16 \<times> u16 \<times> u16 \<times> u16"

text \<open>
  \<open>evdi_grab_pixels\<close>: the ioctl is a function of its argument to the return value, the
  argument as the kernel leaves it and the 16 clip rectangles the kernel filled. The result is
  the list written to the client's \<open>rects\<close> and the value of \<open>*num_rects\<close>.
\<close>

definition grab_arg_of :: "nat \<Rightarrow> evdi_buffer \<Rightarrow> grabpix_arg" where
  "grab_arg_of rects dest =
     \<lparr>ga_buf_width = eb_width dest, ga_buf_height = eb_height dest,
      ga_buf_byte_stride = eb_stride dest, ga_buffer = eb_buffer dest,
      ga_num_rects = int MAX_DIRTS, ga_rects = rects\<rparr>"

definition evdi_grab_pixels ::
    "(grabpix_arg \<Rightarrow> int \<times> grabpix_arg \<times> clip list) \<Rightarrow> nat \<Rightarrow> evdi_ctx \<Rightarrow> rect list \<times> int" where
  "evdi_grab_pixels ioctl rects ctx =
     (case find_buffer ctx (ec_buffer_to_update ctx) of
        None \<Rightarrow> ([], 0)
      | Some dest \<Rightarrow>
          (case ioctl (grab_arg_of rects dest) of
             (ret, grab, kernel_dirts) \<Rightarrow>
               if ret = 0
               then (let n = nat (max (ga_num_rects grab) 0)
                     in (map (\<lambda>(x1, y1, x2, y2). (uint x1, uint y1, uint x2, uint y2))
                           (take n kernel_dirts), ga_num_rects grab))
               else ([], 0)))"

section \<open>Events\<close>

text \<open>The client's callbacks, as invoked, and the side effects of the cursor path.\<close>

datatype lcall =
    CbUpdateReady int
  | CbDpms i32
  | CbModeChanged i32 i32 i32 i32 u32
  | CbCrtcState i32
  | CbCursorSet i32 i32 u32 u32 u8 u32 "bytes option" u32 u32
  | CbCursorMove i32 i32
  | CbDdcciData u16 u16 u32 bytes
  | GemClose u32
  | DisableCursorEvents

record handlers =
  hd_update_ready :: bool
  hd_dpms :: bool
  hd_mode_changed :: bool
  hd_crtc_state :: bool
  hd_cursor_set :: bool
  hd_cursor_move :: bool
  hd_ddcci_data :: bool

abbreviation off :: "cty \<Rightarrow> nat \<Rightarrow> nat" where "off \<equiv> field_offset"

text \<open>
  \<open>to_evdi_cursor_set\<close>: \<open>bitmap handle size\<close> is the copy of the dumb buffer, \<open>None\<close> when the
  offset lookup, the mapping or the allocation fails. The fields are hot x/y, width, height,
  enabled, buffer length, buffer, pixel format, stride.
\<close>

definition cursor_calls :: "(u32 \<Rightarrow> nat \<Rightarrow> bytes option) \<Rightarrow> bytes \<Rightarrow> lcall list" where
  "cursor_calls bitmap raw =
     (let S = l_DrmEvdiEventCursorSet;
          hx = rd32 raw (off S 1); hy = rd32 raw (off S 2);
          w = rd32 raw (off S 3); h = rd32 raw (off S 4);
          enabled = raw ! off S 5; handle = rd32 raw (off S 6);
          blen = rd32 raw (off S 7); pf = rd32 raw (off S 8); st = rd32 raw (off S 9)
      in if enabled \<noteq> 0
         then (let close = (if handle \<noteq> 0 then [GemClose handle] else [])
               in case bitmap handle (unat blen) of
                    Some bm \<Rightarrow> close @ [CbCursorSet hx hy w h enabled blen (Some bm) pf st]
                  | None \<Rightarrow> close @ [DisableCursorEvents, CbCursorSet hx hy w h 0 0 None pf st])
         else [CbCursorSet hx hy w h enabled 0 None pf st])"

text \<open>\<open>dispatch_event\<close>. A structure that does not fit the bytes left in the buffer is read
  out of bounds, which is undefined behaviour in the source: the error \<open>Panic\<close>.\<close>

definition dispatch_event ::
    "(u32 \<Rightarrow> nat \<Rightarrow> bytes option) \<Rightarrow> evdi_ctx \<Rightarrow> handlers \<Rightarrow> bytes \<Rightarrow> u32 \<Rightarrow> lcall list res" where
  "dispatch_event bitmap ctx hs raw etype =
     (let rd = (\<lambda>S f. if length raw < csize S then Inl Panic else Inr f)
      in if etype = lib_EVENT_UPDATE_READY then
           Inr (if hd_update_ready hs then [CbUpdateReady (ec_buffer_to_update ctx)] else [])
         else if etype = lib_EVENT_DPMS then
           (if hd_dpms hs
            then rd l_DrmEvdiEventDpms [CbDpms (rd32 raw (off l_DrmEvdiEventDpms 1))] else Inr [])
         else if etype = lib_EVENT_MODE_CHANGED then
           (if hd_mode_changed hs
            then (let S = l_DrmEvdiEventModeChanged
                  in rd S [CbModeChanged (rd32 raw (off S 1)) (rd32 raw (off S 2))
                             (rd32 raw (off S 3)) (rd32 raw (off S 4)) (rd32 raw (off S 5))])
            else Inr [])
         else if etype = lib_EVENT_CRTC_STATE then
           (if hd_crtc_state hs
            then rd l_DrmEvdiEventCrtcState [CbCrtcState (rd32 raw (off l_DrmEvdiEventCrtcState 1))]
            else Inr [])
         else if etype = lib_EVENT_CURSOR_SET then
           (if hd_cursor_set hs then rd l_DrmEvdiEventCursorSet (cursor_calls bitmap raw) else Inr [])
         else if etype = lib_EVENT_CURSOR_MOVE then
           (if hd_cursor_move hs
            then (let S = l_DrmEvdiEventCursorMove
                  in rd S [CbCursorMove (rd32 raw (off S 1)) (rd32 raw (off S 2))])
            else Inr [])
         else if etype = lib_EVENT_DDCCI_DATA then
           (if hd_ddcci_data hs
            then (let S = l_DrmEvdiEventDdcciData
                  in rd S [CbDdcciData (rd16 raw (off S 4)) (rd16 raw (off S 3)) (rd32 raw (off S 2))
                             (slice (off S 1) lib_DDCCI_BUFFER_SIZE raw)])
            else Inr [])
         else Inr [])"

text \<open>The loop of \<open>evdi_handle_events\<close> at offset \<open>i\<close> of the 1024-byte buffer.\<close>

function handle_loop ::
    "(u32 \<Rightarrow> nat \<Rightarrow> bytes option) \<Rightarrow> evdi_ctx \<Rightarrow> handlers \<Rightarrow> bytes \<Rightarrow> nat \<Rightarrow> nat \<Rightarrow> lcall list res" where
  "handle_loop bitmap ctx hs buf bytes_read i =
     (if i + csize l_DrmEvent \<le> bytes_read
      then (let raw = drop i buf;
                etype = rd32 raw (off l_DrmEvent 0);
                len = unat (rd32 raw (off l_DrmEvent 1))
            in if len = 0 \<or> i + len > bytes_read then Inr []
               else bindR (dispatch_event bitmap ctx hs raw etype) (\<lambda>cs.
                    bindR (handle_loop bitmap ctx hs buf bytes_read (i + len)) (\<lambda>cs'.
                    Inr (cs @ cs'))))
      else Inr [])"
  by pat_completeness auto
termination
  by (relation "measure (\<lambda>(_, _, _, _, n, i). n - i)") (auto simp: l_DrmEvent_def align_up_def)

definition evdi_handle_events ::
    "(u32 \<Rightarrow> nat \<Rightarrow> bytes option) \<Rightarrow> evdi_ctx \<Rightarrow> handlers option \<Rightarrow> int \<Rightarrow> bytes \<Rightarrow> lcall list res" where
  "evdi_handle_events bitmap ctx evtctx bytes_read contents =
     (case evtctx of
        None \<Rightarrow> Inr []
      | Some hs \<Rightarrow>
          if bytes_read \<le> 0 then Inr []
          else handle_loop bitmap ctx hs (pad_to 1024 contents) (nat bytes_read) 0)"

declare handle_loop.simps [simp del]

end
