(* ===== verification/LibOpen.thy ===== *)
theory LibOpen
  imports Libevdi Ioctl
begin

text \<open>
  The rest of the userspace library (\<open>library/src/lib.rs\<close>): how a card node is opened without
  keeping DRM master, who else holds it, what a device index stands for, and the ioctls that
  carry one argument. The processes, the descriptors and what the ioctls return are arguments.
\<close>

section \<open>ioctl\<close>

definition EINTR :: int where "EINTR = 4"
definition EAGAIN :: int where "EAGAIN = 11"
definition EACCES :: int where "EACCES = 13"

text \<open>\<open>drm_ioctl\<close>: the results and \<open>errno\<close> of the calls in order; \<open>None\<close> while it still retries.\<close>

fun drm_ioctl :: "(int \<times> int) list \<Rightarrow> int option" where
  "drm_ioctl [] = None"
| "drm_ioctl ((ret, errno) # rs) =
     (if ret = - 1 \<and> (errno = EINTR \<or> errno = EAGAIN) then drm_ioctl rs else Some ret)"

definition drm_auth_magic :: "int \<Rightarrow> int \<Rightarrow> int" where
  "drm_auth_magic ret errno = (if ret \<noteq> 0 then - errno else 0)"

definition drm_is_master :: "int \<times> int \<Rightarrow> bool" where
  "drm_is_master r = (drm_auth_magic (fst r) (snd r) \<noteq> - EACCES)"

section \<open>Who holds the card\<close>

text \<open>An entry of \<open>/proc\<close>: its name, the link targets in \<open>fd\<close> and the text of \<open>maps\<close> and \<open>comm\<close>.\<close>

record proc_entry =
  pe_name :: string
  pe_fds :: "string option list option"
  pe_maps :: "string option"
  pe_comm :: "string option"

fun contains :: "string \<Rightarrow> string \<Rightarrow> bool" where
  "contains [] p = (p = [])"
| "contains (c # cs) p = (take (length p) (c # cs) = p \<or> contains cs p)"

definition parse_u32 :: "string \<Rightarrow> nat option" where
  "parse_u32 s =
     (let ds = (case s of c # cs \<Rightarrow> (if c = CHR ''+'' then cs else s) | [] \<Rightarrow> [])
      in if ds = [] then None
         else case digits_val 0 ds of None \<Rightarrow> None | Some n \<Rightarrow> if n < 2 ^ 32 then Some n else None)"

definition does_path_link_to :: "string option \<Rightarrow> string \<Rightarrow> bool" where
  "does_path_link_to link substr = (case link of None \<Rightarrow> False | Some t \<Rightarrow> contains t substr)"

definition process_opened_files :: "proc_entry \<Rightarrow> string \<Rightarrow> bool" where
  "process_opened_files e path =
     (case pe_fds e of None \<Rightarrow> False | Some ls \<Rightarrow> list_ex (\<lambda>l. does_path_link_to l path) ls)"

definition process_opened_device :: "proc_entry \<Rightarrow> string \<Rightarrow> bool" where
  "process_opened_device e path = (case pe_maps e of None \<Rightarrow> False | Some m \<Rightarrow> contains m path)"

definition device_has_master :: "nat \<Rightarrow> proc_entry list option \<Rightarrow> string \<Rightarrow> bool" where
  "device_has_master myself entries path =
     (case entries of
        None \<Rightarrow> False
      | Some es \<Rightarrow> list_ex (\<lambda>e. case parse_u32 (pe_name e) of
            None \<Rightarrow> False
          | Some pid \<Rightarrow> pid \<noteq> myself \<and> (process_opened_files e path \<or> process_opened_device e path)) es)"

definition xorg_running :: "proc_entry list option \<Rightarrow> bool" where
  "xorg_running entries =
     (case entries of
        None \<Rightarrow> False
      | Some es \<Rightarrow> list_ex (\<lambda>e. parse_u32 (pe_name e) \<noteq> None
          \<and> (case pe_comm e of None \<Rightarrow> False | Some c \<Rightarrow> contains c ''Xorg'')) es)"

text \<open>
  \<open>wait_for_master\<close> sleeps until another process holds the card: \<open>held i\<close> is what
  \<open>device_has_master\<close> answers at the i-th poll. The result is the number of sleeps and whether the
  wait timed out.
\<close>

fun master_loop :: "(nat \<Rightarrow> bool) \<Rightarrow> nat \<Rightarrow> nat \<Rightarrow> nat" where
  "master_loop held 0 i = i"
| "master_loop held (Suc cnt) i = (if \<not> held i then master_loop held cnt (Suc i) else i)"

definition wait_for_master :: "(nat \<Rightarrow> bool) \<Rightarrow> nat \<times> bool" where
  "wait_for_master held = (let i = master_loop held 50 0 in (i, \<not> held (Suc i)))"

section \<open>Opening the node\<close>

text \<open>
  One attempt: the descriptor \<open>open\<close> gives, what \<open>AUTH_MAGIC\<close> answers before and after
  \<open>DROP_MASTER\<close> (result and \<open>errno\<close>), and what \<open>DROP_MASTER\<close> returns. The second result is the
  descriptors closed again.
\<close>

record attempt =
  at_fd :: int
  at_auth :: "int \<times> int"
  at_drop :: int
  at_auth_after :: "int \<times> int"

definition open_as_slave :: "attempt \<Rightarrow> int \<times> int list" where
  "open_as_slave a =
     (if at_fd a < 0 then (- 1, [])
      else if drm_is_master (at_auth a) \<and> (at_drop a < 0 \<or> drm_is_master (at_auth_after a))
      then (- 1, [at_fd a])
      else (at_fd a, []))"

fun device_loop :: "(nat \<Rightarrow> attempt) \<Rightarrow> nat \<Rightarrow> nat \<Rightarrow> int list \<Rightarrow> int \<times> int list" where
  "device_loop tries cnt i closed =
     (case open_as_slave (tries i) of (fd, cs) \<Rightarrow>
        if fd \<ge> 0 then (fd, closed @ cs)
        else case cnt of
               0 \<Rightarrow> (fd, closed @ cs)
             | Suc cnt \<Rightarrow> device_loop tries cnt (Suc i) (closed @ cs))"

declare device_loop.simps [simp del]

definition wait_for_device :: "(nat \<Rightarrow> attempt) \<Rightarrow> int \<times> int list" where
  "wait_for_device tries = device_loop tries 50 0 []"

text \<open>The last \<open>DROP_MASTER\<close> of \<open>open_device\<close> has no result the code looks at.\<close>

definition open_device :: "(nat \<Rightarrow> attempt) \<Rightarrow> int \<times> int list" where
  "open_device tries = wait_for_device tries"

section \<open>What a device index stands for\<close>

datatype device_status = AVAILABLE | UNRECOGNIZED | NOT_PRESENT

fun nat_digits :: "nat \<Rightarrow> string" where
  "nat_digits n = (if n < 10 then [char_of (48 + n)] else nat_digits (n div 10) @ [char_of (48 + n mod 10)])"

declare nat_digits.simps [simp del]

definition int_str :: "int \<Rightarrow> string" where
  "int_str i = (if i < 0 then CHR ''-'' # nat_digits (nat (- i)) else nat_digits (nat i))"

definition device_to_platform :: "(int \<Rightarrow> bool) \<Rightarrow> sysfs \<Rightarrow> int \<Rightarrow> device_status" where
  "device_to_platform exists fs device =
     (if \<not> exists device then NOT_PRESENT
      else case fs_platform fs of
             None \<Rightarrow> NOT_PRESENT
           | Some ns \<Rightarrow>
               if list_ex (\<lambda>n. starts_with ''evdi'' n
                   \<and> (case fs_drm fs n of None \<Rightarrow> False | Some ds \<Rightarrow> ''card'' @ int_str device \<in> set ds)) ns
               then AVAILABLE else UNRECOGNIZED)"

definition evdi_check_device :: "(int \<Rightarrow> bool) \<Rightarrow> sysfs \<Rightarrow> int \<Rightarrow> device_status" where
  "evdi_check_device = device_to_platform"

definition write_add_device :: "bool \<Rightarrow> string \<Rightarrow> nat" where
  "write_add_device ok buffer = (if ok then length buffer else 0)"

definition evdi_add_device :: "bool \<Rightarrow> int" where
  "evdi_add_device ok = int (write_add_device ok ''1'')"

section \<open>One-argument ioctls\<close>

definition evdi_connect2 :: "nat \<Rightarrow> u32 \<Rightarrow> u32 \<Rightarrow> u32 \<Rightarrow> connect_arg" where
  "evdi_connect2 edid edid_length pixel_area_limit pixel_per_second_limit =
     \<lparr>ca_connected = 1, ca_edid = edid, ca_edid_length = edid_length,
      ca_pixel_area_limit = pixel_area_limit, ca_pixel_per_second_limit = pixel_per_second_limit\<rparr>"

definition evdi_connect :: "nat \<Rightarrow> u32 \<Rightarrow> u32 \<Rightarrow> connect_arg" where
  "evdi_connect edid edid_length sku_area_limit =
     evdi_connect2 edid edid_length sku_area_limit (sku_area_limit * 60)"

definition evdi_disconnect :: connect_arg where
  "evdi_disconnect =
     \<lparr>ca_connected = 0, ca_edid = 0, ca_edid_length = 0, ca_pixel_area_limit = 0,
      ca_pixel_per_second_limit = 0\<rparr>"

text \<open>The argument of \<open>MODE_MAP_DUMB\<close> is \<open>ret\<close> and the offset the kernel stores.\<close>

definition evdi_get_dumb_offset :: "int \<Rightarrow> u64 \<Rightarrow> u64 option" where
  "evdi_get_dumb_offset ret offset = (if ret \<noteq> 0 then None else Some offset)"

definition evdi_get_event_ready :: "evdi_ctx option \<Rightarrow> int" where
  "evdi_get_event_ready h = (case h of Some ctx \<Rightarrow> ec_fd ctx | None \<Rightarrow> - 1)"

section \<open>Laws\<close>

text \<open>A retried ioctl answers with the first result that is not an interruption.\<close>

lemma drm_ioctl_find:
  "drm_ioctl rs = map_option fst (find (\<lambda>(ret, errno). \<not> (ret = - 1 \<and> (errno = EINTR \<or> errno = EAGAIN))) rs)"
  by (induction rs) auto

lemma master_loop_le: "i \<le> master_loop held cnt i \<and> master_loop held cnt i \<le> i + cnt"
proof (induction cnt arbitrary: i)
  case (Suc cnt)
  from Suc [of "Suc i"] show ?case by auto
qed simp

text \<open>It wakes at the first poll that finds a holder, and after at most fifty sleeps (five seconds).\<close>

lemma master_loop_find:
  "master_loop held cnt i = (case find held [i..<i + cnt] of Some k \<Rightarrow> k | None \<Rightarrow> i + cnt)"
proof (induction cnt arbitrary: i)
  case (Suc cnt)
  have "[i..<i + Suc cnt] = i # [Suc i..<Suc i + cnt]" by (simp add: upt_conv_Cons)
  then show ?case using Suc [of "Suc i"] by (auto simp del: upt_Suc split: option.split)
qed simp


lemma wait_for_master_bound: "fst (wait_for_master held) \<le> 50"
  using master_loop_le [of 0 held 50] by (simp add: wait_for_master_def Let_def)

definition not_master :: "attempt \<Rightarrow> bool" where
  "not_master a \<longleftrightarrow> at_fd a \<ge> 0 \<and> (\<not> drm_is_master (at_auth a)
     \<or> (at_drop a \<ge> 0 \<and> \<not> drm_is_master (at_auth_after a)))"

lemma open_as_slave_fd: "open_as_slave a = (if not_master a then (at_fd a, []) else (- 1, if at_fd a < 0 then [] else [at_fd a]))"
  by (auto simp: open_as_slave_def not_master_def)

lemma device_loop_result:
  "device_loop tries cnt i closed =
     (case find (\<lambda>k. not_master (tries k)) [i..<i + Suc cnt] of
        Some k \<Rightarrow> (at_fd (tries k), closed @ filter ((\<le>) 0) (map (at_fd \<circ> tries) [i..<k]))
      | None \<Rightarrow> (- 1, closed @ filter ((\<le>) 0) (map (at_fd \<circ> tries) [i..<i + Suc cnt])))"
proof (induction cnt arbitrary: i closed)
  case 0
  show ?case
    by (subst device_loop.simps) (auto simp: open_as_slave_fd not_master_def)
next
  case (Suc cnt)
  define R where "R = [Suc i..<Suc i + Suc cnt]"
  have u: "[i..<i + Suc (Suc cnt)] = i # R" by (simp add: R_def upt_conv_Cons)
  have IH: "device_loop tries cnt (Suc i) closed' =
     (case find (\<lambda>k. not_master (tries k)) R of
        Some k \<Rightarrow> (at_fd (tries k), closed' @ filter ((\<le>) 0) (map (at_fd \<circ> tries) [Suc i..<k]))
      | None \<Rightarrow> (- 1, closed' @ filter ((\<le>) 0) (map (at_fd \<circ> tries) R)))" for closed'
    unfolding R_def by (rule Suc.IH)
  show ?case
  proof (cases "not_master (tries i)")
    case True
    then have "at_fd (tries i) \<ge> 0" by (simp add: not_master_def)
    with True show ?thesis
      unfolding u by (subst device_loop.simps) (simp add: open_as_slave_fd)
  next
    case False
    let ?cs = "if at_fd (tries i) < 0 then [] else [at_fd (tries i)]"
    have c: "[i..<k] = i # [Suc i..<k]" if "find (\<lambda>k. not_master (tries k)) R = Some k" for k
    proof -
      from that have "k \<in> set R" by (auto simp: find_Some_iff)
      then have "i < k" by (simp only: R_def set_upt atLeastLessThan_iff) simp
      then show ?thesis by (rule upt_conv_Cons)
    qed
    have "device_loop tries (Suc cnt) i closed = device_loop tries cnt (Suc i) (closed @ ?cs)"
      using False by (subst device_loop.simps) (simp add: open_as_slave_fd)
    then show ?thesis
      unfolding u using False c by (auto simp: IH comp_def split: option.split)
  qed
qed

text \<open>
  C40. Opening a card node: of at most 51 attempts the first that yields a descriptor without DRM
  master wins, and it is the one returned; every descriptor opened before it is closed again. When
  all fail the result is -1 and nothing stays open.
\<close>

theorem open_device_first_slave:
  "open_device tries =
     (case find (\<lambda>k. not_master (tries k)) [0..<51] of
        Some k \<Rightarrow> (at_fd (tries k), filter ((\<le>) 0) (map (at_fd \<circ> tries) [0..<k]))
      | None \<Rightarrow> (- 1, filter ((\<le>) 0) (map (at_fd \<circ> tries) [0..<51])))"
  using device_loop_result [of tries 50 0 "[]"]
  by (simp add: open_device_def wait_for_device_def split: option.split)

text \<open>The rate limit \<open>evdi_connect\<close> derives wraps for areas above 71582788 pixels.\<close>

lemma connect_rate_limit:
  "unat area \<le> 71582788 \<Longrightarrow> unat (ca_pixel_per_second_limit (evdi_connect e n area)) = 60 * unat area"
  by (simp add: evdi_connect_def evdi_connect2_def unat_word_ariths mult.commute)

lemma connect_rate_limit_wraps: "ca_pixel_per_second_limit (evdi_connect e n 71582789) = 44"
  by (simp add: evdi_connect_def evdi_connect2_def)

end
