(* ===== verification/LibLaws.thy ===== *)
theory LibLaws
  imports Libevdi GrabLaws
begin

text \<open>
  What the library guarantees together with the kernel module: the bytes the kernel delivers
  come back as exactly the callbacks for the events it sent; a card index is handed out once;
  the buffer registry is a map; and the rectangles a grab reports are those the kernel copied.
\<close>

section \<open>Reading an event image\<close>

lemma zeros_0 [simp]: "zeros 0 = []"
  by (simp add: zeros_def)

lemma zeros_3: "zeros 3 = [0, 0, 0]"
  by (simp add: zeros_def numeral_eq_Suc)

lemma event_image_simps:
  "event_image UpdateReady = le32 0x80000000 @ le32 8"
  "event_image (Dpms m) = le32 0x80000001 @ le32 12 @ le32 m"
  "event_image (ModeChanged h v r bpp fmt) =
     le32 0x80000002 @ le32 28 @ le32 h @ le32 v @ le32 r @ le32 bpp @ le32 fmt"
  "event_image (CrtcState s) = le32 0x80000003 @ le32 12 @ le32 s"
  "event_image (CursorMove x y) = le32 0x80000005 @ le32 16 @ le32 x @ le32 y"
  by (simp_all add: event_image_def module_structs layout_simps pad_to_def event_codes)

lemma event_image_cursor_set:
  "event_image (CursorSet hx hy w h en bh bl pf st) =
     le32 0x80000004 @ le32 44 @ le32 hx @ le32 hy @ le32 w @ le32 h @ [en, 0, 0, 0]
     @ le32 bh @ le32 bl @ le32 pf @ le32 st"
  by (simp add: event_image_def module_structs layout_simps pad_to_def event_codes zeros_3)

lemma event_image_ddcci:
  assumes "length b = 64"
  shows "event_image (DdcciData b len flags addr) =
     le32 0x80000006 @ le32 80 @ b @ le32 len @ le16 flags @ le16 addr"
  using assms by (simp add: event_image_def module_structs layout_simps pad_to_def event_codes)

lemma event_header:
  assumes "event_ok ev"
  shows "rd32 (event_image ev @ rest) 0 = event_type ev"
    "rd32 (event_image ev @ rest) 4 = of_nat (csize (event_struct ev))"
proof -
  have h: "\<exists>r. event_image ev = le32 (event_type ev) @ le32 (of_nat (csize (event_struct ev))) @ r"
    using assms
    by (cases ev) (simp_all add: event_image_simps event_image_cursor_set event_image_ddcci
        event_codes module_sizes DDCCI_BUFFER_SIZE_def)
  then show "rd32 (event_image ev @ rest) 0 = event_type ev" by auto
  from h show "rd32 (event_image ev @ rest) 4 = of_nat (csize (event_struct ev))"
    by (auto simp: rd32_append_right)
qed

lemma event_size: "8 \<le> csize (event_struct ev) \<and> csize (event_struct ev) \<le> 80"
  by (cases ev) (simp_all add: module_sizes)

lemma lib_sizes:
  "csize l_DrmEvent = 8" "csize l_DrmEvdiEventDpms = 12" "csize l_DrmEvdiEventModeChanged = 28"
  "csize l_DrmEvdiEventCrtcState = 12" "csize l_DrmEvdiEventCursorSet = 44"
  "csize l_DrmEvdiEventCursorMove = 16" "csize l_DrmEvdiEventDdcciData = 80"
  by (simp_all add: library_layouts module_sizes)

lemma lib_offsets:
  "off l_DrmEvent 0 = 0" "off l_DrmEvent 1 = 4"
  "off l_DrmEvdiEventDpms 1 = 8" "off l_DrmEvdiEventCrtcState 1 = 8"
  "off l_DrmEvdiEventModeChanged 1 = 8" "off l_DrmEvdiEventModeChanged 2 = 12"
  "off l_DrmEvdiEventModeChanged 3 = 16" "off l_DrmEvdiEventModeChanged 4 = 20"
  "off l_DrmEvdiEventModeChanged 5 = 24"
  "off l_DrmEvdiEventCursorMove 1 = 8" "off l_DrmEvdiEventCursorMove 2 = 12"
  "off l_DrmEvdiEventDdcciData 1 = 8" "off l_DrmEvdiEventDdcciData 2 = 72"
  "off l_DrmEvdiEventDdcciData 3 = 76" "off l_DrmEvdiEventDdcciData 4 = 78"
  "off l_DrmEvdiEventCursorSet 1 = 8" "off l_DrmEvdiEventCursorSet 2 = 12"
  "off l_DrmEvdiEventCursorSet 3 = 16" "off l_DrmEvdiEventCursorSet 4 = 20"
  "off l_DrmEvdiEventCursorSet 5 = 24" "off l_DrmEvdiEventCursorSet 6 = 28"
  "off l_DrmEvdiEventCursorSet 7 = 32" "off l_DrmEvdiEventCursorSet 8 = 36"
  "off l_DrmEvdiEventCursorSet 9 = 40"
  by code_simp+

lemmas lib_offs = lib_offsets [unfolded One_nat_def]

text \<open>What the client should see for an event the kernel sent.\<close>

fun client_calls :: "(u32 \<Rightarrow> nat \<Rightarrow> bytes option) \<Rightarrow> evdi_ctx \<Rightarrow> event \<Rightarrow> lcall list" where
  "client_calls bitmap ctx UpdateReady = [CbUpdateReady (ec_buffer_to_update ctx)]"
| "client_calls bitmap ctx (Dpms m) = [CbDpms m]"
| "client_calls bitmap ctx (ModeChanged h v r bpp fmt) = [CbModeChanged h v r bpp fmt]"
| "client_calls bitmap ctx (CrtcState s) = [CbCrtcState s]"
| "client_calls bitmap ctx (CursorSet hx hy w h en bh bl pf st) =
     (if en = 0 then [CbCursorSet hx hy w h 0 0 None pf st]
      else (if bh \<noteq> 0 then [GemClose bh] else []) @
        (case bitmap bh (unat bl) of
           Some bm \<Rightarrow> [CbCursorSet hx hy w h en bl (Some bm) pf st]
         | None \<Rightarrow> [DisableCursorEvents, CbCursorSet hx hy w h 0 0 None pf st]))"
| "client_calls bitmap ctx (CursorMove x y) = [CbCursorMove x y]"
| "client_calls bitmap ctx (DdcciData b len flags addr) = [CbDdcciData addr flags len b]"

definition all_handlers :: handlers where
  "all_handlers = \<lparr>hd_update_ready = True, hd_dpms = True, hd_mode_changed = True,
     hd_crtc_state = True, hd_cursor_set = True, hd_cursor_move = True, hd_ddcci_data = True\<rparr>"

lemma rd32_Cons: "0 < i \<Longrightarrow> rd32 (a # xs) i = rd32 xs (i - 1)"
  by (cases i) (simp_all add: rd32_def add.commute)

lemmas rd_le = rd32_def rd16_def le32_def le16_def of_le32_le32 of_le16_le16 nth_append nth_Cons'

lemma cursor_calls_fields:
  assumes "rd32 raw 8 = hx" "rd32 raw 12 = hy" "rd32 raw 16 = w" "rd32 raw 20 = h"
    "raw ! 24 = en" "rd32 raw 28 = bh" "rd32 raw 32 = bl" "rd32 raw 36 = pf" "rd32 raw 40 = st"
  shows "cursor_calls bitmap raw = client_calls bitmap ctx (CursorSet hx hy w h en bh bl pf st)"
  using assms by (simp add: cursor_calls_def lib_offs Let_def split: option.splits)

lemma cursor_calls_image:
  "cursor_calls bitmap (event_image (CursorSet hx hy w h en bh bl pf st) @ rest) =
     client_calls bitmap ctx (CursorSet hx hy w h en bh bl pf st)"
  by (rule cursor_calls_fields)
    (simp_all add: event_image_cursor_set rd32_append_right rd32_Cons nth_append)

lemma dispatch_image:
  assumes "event_ok ev"
  shows "dispatch_event bitmap ctx all_handlers (event_image ev @ rest) (event_type ev) =
    Inr (client_calls bitmap ctx ev)"
proof (cases ev)
  case (DdcciData b len flags addr)
  with assms have b: "length b = 64" by (simp add: DDCCI_BUFFER_SIZE_def)
  have "rd32 (event_image ev @ rest) 72 = len" "rd16 (event_image ev @ rest) 76 = flags"
    "rd16 (event_image ev @ rest) 78 = addr" "slice 8 64 (event_image ev @ rest) = b"
    using b by (simp_all add: DdcciData event_image_ddcci rd32_append_right rd16_append_right
        slice_def)
  with DdcciData b show ?thesis
    by (simp add: dispatch_event_def all_handlers_def lib_event_codes event_codes Let_def lib_sizes
        lib_offs event_image_ddcci lib_DDCCI_BUFFER_SIZE_def)
next
  case (CursorSet hx hy w h en bh bl pf st)
  have "\<not> length (event_image ev @ rest) < 44"
    by (simp add: CursorSet event_image_cursor_set)
  then show ?thesis
    by (simp add: CursorSet dispatch_event_def all_handlers_def lib_event_codes event_codes
        Let_def lib_sizes cursor_calls_image del: client_calls.simps)
qed (simp_all add: dispatch_event_def all_handlers_def lib_event_codes event_codes Let_def lib_sizes
    lib_offs event_image_simps rd_le)

lemma handle_loop_images:
  assumes "\<forall>ev \<in> set evs. event_ok ev"
  shows "handle_loop bitmap ctx all_handlers (pre @ concat (map event_image evs) @ post)
      (length pre + length (concat (map event_image evs))) (length pre) =
    Inr (concat (map (client_calls bitmap ctx) evs))"
  using assms
proof (induction evs arbitrary: pre)
  case Nil
  show ?case by (subst handle_loop.simps) (simp add: lib_sizes)
next
  case (Cons ev evs)
  let ?tail = "concat (map event_image evs)"
  let ?buf = "pre @ event_image ev @ ?tail @ post"
  have ok: "event_ok ev" using Cons.prems by simp
  have len: "length (event_image ev) = csize (event_struct ev)"
    by (rule length_event_image [OF ok])
  have sz: "unat (of_nat (csize (event_struct ev)) :: u32) = csize (event_struct ev)"
    using event_size [of ev] by (simp add: unat_of_nat)
  have IH: "handle_loop bitmap ctx all_handlers ?buf
      (length pre + (csize (event_struct ev) + length ?tail)) (length pre + csize (event_struct ev))
      = Inr (concat (map (client_calls bitmap ctx) evs))"
    using Cons.IH [of "pre @ event_image ev"] Cons.prems by (simp add: len add.assoc)
  show ?case
    using event_size [of ev] ok
    by (subst handle_loop.simps)
      (simp add: lib_sizes lib_offs Let_def event_header sz len IH dispatch_image add.assoc)
qed

text \<open>
  C11. The event path is lossless end to end: for any batch of events the kernel delivers in one
  read (at most 1024 bytes), the library invokes, in order and without reading out of bounds,
  exactly the callbacks that carry the values the driver put into the events; a cursor handle is
  closed exactly once, and cursor events are switched off when its bitmap cannot be had.
\<close>

theorem events_roundtrip:
  assumes "\<forall>ev \<in> set evs. event_ok ev" "length (concat (map event_image evs)) \<le> 1024"
  shows "evdi_handle_events bitmap ctx (Some all_handlers)
      (int (length (concat (map event_image evs)))) (concat (map event_image evs)) =
    Inr (concat (map (client_calls bitmap ctx) evs))"
proof (cases "evs = []")
  case False
  have "length (event_image ev) > 0" if "ev \<in> set evs" for ev
    using length_event_image [of ev] event_size [of ev] assms(1) that by simp
  with False have "length (concat (map event_image evs)) > 0"
    by (cases evs) auto
  then show ?thesis
    using handle_loop_images [OF assms(1), of bitmap ctx "[]"]
    by (auto simp: evdi_handle_events_def pad_to_def)
qed (simp add: evdi_handle_events_def)

theorem events_roundtrip_witness:
  "evdi_handle_events (\<lambda>_ _. None) \<lparr>ec_fd = 3, ec_buffer_to_update = 5, ec_frame_buffers = [],
       ec_device_index = 0\<rparr> (Some all_handlers)
     (int (length (concat (map event_image [Dpms 0, CursorMove 1 2, UpdateReady]))))
     (concat (map event_image [Dpms 0, CursorMove 1 2, UpdateReady]))
     = Inr [CbDpms 0, CbCursorMove 1 2, CbUpdateReady 5]"
proof -
  have "length (concat (map event_image [Dpms 0, CursorMove 1 2, UpdateReady])) \<le> 1024"
    by (simp add: event_image_simps)
  from events_roundtrip [OF _ this] show ?thesis by simp
qed

text \<open>
  C18. A DDC/CI message longer than 64 bytes reaches the client with a length its buffer does not
  have: the kernel puts the whole message's length into the event while the payload stops at 64
  bytes, and the library passes both on, so the callback's \<open>buffer_length\<close> exceeds its buffer.
\<close>

theorem ddcci_length_overstated:
  assumes "64 < length buf" "length buf < 2 ^ 32"
  shows "\<exists>len b. evdi_handle_events bitmap ctx (Some all_handlers) 80
      (event_image (ddcci_event addr flags buf)) = Inr [CbDdcciData addr flags len b] \<and>
    unat len = length buf \<and> length b = 64 \<and> b = take 64 buf"
proof -
  let ?b = "put 0 (take 64 buf) (zeros 64)"
  have b: "?b = take 64 buf" "length ?b = 64" using assms(1) by (simp_all add: put_def min_def)
  have ev: "ddcci_event addr flags buf = DdcciData ?b (of_nat (length buf)) flags addr"
    using assms(1) by (simp add: ddcci_event_def Let_def DDCCI_BUFFER_SIZE_def)
  have ok: "event_ok (ddcci_event addr flags buf)"
    using b by (simp add: ev DDCCI_BUFFER_SIZE_def)
  have "length (event_image (ddcci_event addr flags buf)) = 80"
    using length_event_image [OF ok] by (simp add: ev module_sizes)
  with handle_loop_images [of "[ddcci_event addr flags buf]" bitmap ctx "[]"] ok
  have "evdi_handle_events bitmap ctx (Some all_handlers) 80
      (event_image (ddcci_event addr flags buf)) =
      Inr (client_calls bitmap ctx (ddcci_event addr flags buf))"
    by (simp add: evdi_handle_events_def pad_to_def)
  moreover have "unat (of_nat (length buf) :: u32) = length buf"
    using assms(2) by (simp add: unat_of_nat)
  ultimately show ?thesis using b by (simp add: ev)
qed

theorem ddcci_length_overstated_witness:
  "\<exists>len b. evdi_handle_events (\<lambda>_ _. None) \<lparr>ec_fd = 3, ec_buffer_to_update = 0,
       ec_frame_buffers = [], ec_device_index = 0\<rparr> (Some all_handlers) 80
     (event_image (ddcci_event DDCCI_ADDRESS 0 (replicate 100 1))) =
       Inr [CbDdcciData DDCCI_ADDRESS 0 len b] \<and> unat len = 100 \<and> length b = 64"
  using ddcci_length_overstated [of "replicate 100 1" "\<lambda>_ _. None" "\<lparr>ec_fd = 3,
      ec_buffer_to_update = 0, ec_frame_buffers = [], ec_device_index = 0\<rparr>" DDCCI_ADDRESS 0]
  by auto


section \<open>Card allocation\<close>

lemma find_in_result:
  assumes "find_in fs in_use parent names = i" "i \<noteq> INVALID_DEVICE_INDEX"
  shows "0 \<le> i \<and> nat i < EVDI_USAGE_LEN \<and> \<not> in_use ! nat i \<and>
    (\<exists>n \<in> set names. starts_with ''evdi'' n \<and> is_correct_parent_device fs n parent \<and>
       get_drm_device_index (fs_drm fs n) = i)"
  using assms
  by (induction fs in_use parent names rule: find_in.induct)
    (auto simp: Let_def split: if_splits)

definition matches_card :: "sysfs \<Rightarrow> string option \<Rightarrow> int \<Rightarrow> bool" where
  "matches_card fs parent i =
     (\<exists>ns n. fs_platform fs = Some ns \<and> n \<in> set ns \<and> starts_with ''evdi'' n \<and>
        is_correct_parent_device fs n parent \<and> get_drm_device_index (fs_drm fs n) = i)"

lemma find_unused_result:
  assumes "find_unused_card_for fs in_use parent = i" "i \<noteq> INVALID_DEVICE_INDEX"
  shows "0 \<le> i \<and> nat i < EVDI_USAGE_LEN \<and> \<not> in_use ! nat i \<and> matches_card fs parent i"
  using assms find_in_result [of fs in_use parent]
  by (fastforce simp: find_unused_card_for_def matches_card_def split: option.splits)

lemma close_releases:
  assumes "length in_use = EVDI_USAGE_LEN" "nat (ec_device_index c) < EVDI_USAGE_LEN"
    "0 \<le> ec_device_index c" "\<not> in_use ! nat (ec_device_index c)"
  shows "evdi_close c (in_use[nat (ec_device_index c) := True]) = in_use"
  using assms
  by (intro nth_equalityI)
    (auto simp: evdi_close_def nth_enumerate_eq nth_list_update split: if_splits)

definition usb_parent :: "string option \<Rightarrow> string option" where
  "usb_parent p = map_option (drop 4) p"

text \<open>
  C21. Opening a card by its parent hands out a card nobody holds: the index is in range, was
  not in use by this process, belongs to an evdi platform device with the requested parent
  (before or after the one \<open>add\<close> write), the table marks exactly it, and closing the handle
  gives the table back.
\<close>

theorem open_attached_fresh:
  assumes "evdi_open_attached_to_fixed fs after opened parent in_use = (Some c, in_use', w)"
    "length in_use = EVDI_USAGE_LEN"
  shows "0 \<le> ec_device_index c \<and> nat (ec_device_index c) < EVDI_USAGE_LEN \<and>
    \<not> in_use ! nat (ec_device_index c) \<and>
    matches_card (case w of None \<Rightarrow> fs | Some t \<Rightarrow> after t) (usb_parent parent) (ec_device_index c) \<and>
    in_use' = in_use[nat (ec_device_index c) := True] \<and> evdi_close c in_use' = in_use"
proof -
  obtain i w' where iw: "(case parent of
        None \<Rightarrow> get_generic_device fs after in_use
      | Some raw \<Rightarrow> if length raw > 4 \<and> take 4 raw = ''usb:''
          then get_device_attached_to_usb fs after in_use raw (drop 4 raw)
          else (INVALID_DEVICE_INDEX, None)) = (i, w')" by fastforce
  have open_c: "ec_device_index c = i" "in_use' = in_use[nat i := True]" "w = w'"
    "i \<noteq> INVALID_DEVICE_INDEX"
    using assms(1) iw by (auto simp: evdi_open_attached_to_fixed_def evdi_open_def
        INVALID_DEVICE_INDEX_def split: prod.splits if_splits)
  have "0 \<le> i \<and> nat i < EVDI_USAGE_LEN \<and> \<not> in_use ! nat i \<and>
      matches_card (case w' of None \<Rightarrow> fs | Some t \<Rightarrow> after t) (usb_parent parent) i"
    using iw open_c(4) find_unused_result
    by (auto simp: get_generic_device_def get_device_attached_to_usb_def Let_def usb_parent_def
        split: option.splits if_splits)
  with open_c close_releases [OF assms(2), of c] show ?thesis by auto
qed

definition fs_demo :: sysfs where
  "fs_demo = \<lparr>fs_platform = Some [''vgem'', ''evdi.0'', ''evdi.1''],
     fs_device_link = (\<lambda>n. if n = ''evdi.1'' then Some ''2-1'' else None),
     fs_device_exists = (\<lambda>n. n = ''evdi.1''),
     fs_drm = (\<lambda>n. Some (if n = ''evdi.1'' then [''renderD128'', ''card4''] else [''card3'']))\<rparr>"

definition version_demo :: drm_version where
  "version_demo = \<lparr>dv_ret = 0, dv_major = 1, dv_minor = 15, dv_name = [0x65, 0x76, 0x64, 0x69]\<rparr>"

lemma open_demo:
  "map_prod (map_option ec_device_index) snd (evdi_open_attached_to_fixed fs_demo (\<lambda>_. fs_demo)
     (\<lambda>_. (7, version_demo)) (Some ''usb:2-1'') (replicate 64 False)) = (Some 4, None)"
  by code_simp

theorem open_attached_fresh_witness:
  "\<exists>c u. evdi_open_attached_to_fixed fs_demo (\<lambda>_. fs_demo) (\<lambda>_. (7, version_demo))
     (Some ''usb:2-1'') (replicate 64 False) = (Some c, u, None) \<and>
     evdi_close c u = replicate 64 False"
proof -
  obtain c u where o: "evdi_open_attached_to_fixed fs_demo (\<lambda>_. fs_demo) (\<lambda>_. (7, version_demo))
     (Some ''usb:2-1'') (replicate 64 False) = (Some c, u, None)"
    using open_demo by (cases "evdi_open_attached_to_fixed fs_demo (\<lambda>_. fs_demo)
     (\<lambda>_. (7, version_demo)) (Some ''usb:2-1'') (replicate 64 False)") auto
  have "evdi_close c u = replicate 64 False"
    using open_attached_fresh [OF o] by (simp only: EVDI_USAGE_LEN_def length_replicate) blast
  with o show ?thesis by blast
qed

section \<open>The buffer registry\<close>

text \<open>What a client of the registry relies on: a keyed store with fresh-key insertion.\<close>

locale buffer_store =
  fixes register :: "'b \<Rightarrow> 's \<Rightarrow> 's"
    and unregister :: "'k \<Rightarrow> 's \<Rightarrow> 's"
    and lookup :: "'s \<Rightarrow> 'k \<Rightarrow> 'b option"
    and key :: "'b \<Rightarrow> 'k"
  assumes lookup_register: "lookup s (key b) = None \<Longrightarrow>
      lookup (register b s) k = (if k = key b then Some b else lookup s k)"
    and lookup_unregister: "lookup (unregister k s) j = (if j = k then None else lookup s j)"
begin

lemma register_fresh:
  assumes "distinct (map key (c # bs))" "\<forall>b \<in> set (c # bs). lookup s (key b) = None"
  shows "\<forall>b \<in> set bs. lookup (register c s) (key b) = None"
proof
  fix b assume b: "b \<in> set bs"
  with assms(1) have "key b \<noteq> key c" by (metis distinct.simps(2) image_eqI list.set_map list.simps(9))
  with b assms(2) show "lookup (register c s) (key b) = None"
    by (simp add: lookup_register)
qed

lemma register_all_other:
  "distinct (map key bs) \<Longrightarrow> \<forall>b \<in> set bs. lookup s (key b) = None \<Longrightarrow> j \<notin> key ` set bs \<Longrightarrow>
     lookup (fold register bs s) j = lookup s j"
proof (induction bs arbitrary: s)
  case (Cons c bs)
  with register_fresh [OF Cons.prems(1,2)] show ?case by (simp add: lookup_register)
qed simp

lemma register_all:
  "distinct (map key bs) \<Longrightarrow> \<forall>b \<in> set bs. lookup s (key b) = None \<Longrightarrow> b \<in> set bs \<Longrightarrow>
     lookup (fold register bs s) (key b) = Some b"
proof (induction bs arbitrary: s)
  case (Cons c bs)
  note none = register_fresh [OF Cons.prems(1,2)]
  show ?case
  proof (cases "b = c")
    case True
    then have "key b \<notin> key ` set bs" using Cons.prems by auto
    with register_all_other [OF _ none] Cons.prems True show ?thesis by (simp add: lookup_register)
  next
    case False
    with Cons none show ?thesis by simp
  qed
qed simp

lemma unregister_register: "lookup s (key b) = None \<Longrightarrow>
    lookup (unregister (key b) (register b s)) k = lookup s k"
  by (simp add: lookup_register lookup_unregister)

end

interpretation bufs: buffer_store evdi_register_buffer evdi_unregister_buffer find_buffer eb_id
proof
  show "find_buffer s (eb_id b) = None \<Longrightarrow> find_buffer (evdi_register_buffer b s) k =
      (if k = eb_id b then Some b else find_buffer s k)" for s b k
    by (auto simp: find_buffer_def evdi_register_buffer_def find_append
        split: option.splits dest: find_SomeD)
  show "find_buffer (evdi_unregister_buffer k s) j = (if j = k then None else find_buffer s j)"
    for k s j
  proof -
    have "find (\<lambda>b. eb_id b = j) (filter (\<lambda>b. eb_id b \<noteq> k) bs) =
        (if j = k then None else find (\<lambda>b. eb_id b = j) bs)" for bs :: "evdi_buffer list"
      by (induction bs) auto
    then show ?thesis by (simp add: find_buffer_def evdi_unregister_buffer_def)
  qed
qed


section \<open>Grabbing, end to end\<close>

text \<open>
  The ioctl as the module runs it: the 16 clip rectangles are read back from the client memory
  at the address the library passed, after the copies the handler made.
\<close>

definition clip_at :: "(nat \<Rightarrow> u8) \<Rightarrow> nat \<Rightarrow> clip" where
  "clip_at mem a = (of_le16 (mem a) (mem (a + 1)), of_le16 (mem (a + 2)) (mem (a + 3)),
                    of_le16 (mem (a + 4)) (mem (a + 5)), of_le16 (mem (a + 6)) (mem (a + 7)))"

definition kernel_grab ::
    "evdi_data \<Rightarrow> (nat \<Rightarrow> u8) \<Rightarrow> grabpix_arg \<Rightarrow> int \<times> grabpix_arg \<times> clip list" where
  "kernel_grab d mem arg =
     (case grabpix (\<lambda>_ _. Inr ()) arg d of
        (d', arg', ws, Inl e) \<Rightarrow> (- 1, arg, [])
      | (d', arg', ws, Inr n) \<Rightarrow>
          (int n, arg', map (\<lambda>i. clip_at (apply_writes ws mem) (ga_rects arg + 8 * i)) [0..<MAX_DIRTS]))"

lemma apply_writes_outside:
  "\<forall>(a, bs) \<in> set ws. \<not> (a \<le> i \<and> i < a + length bs) \<Longrightarrow> apply_writes ws mem i = mem i"
proof (induction ws arbitrary: mem)
  case (Cons wr ws)
  obtain a bs where "wr = (a, bs)" by fastforce
  with Cons show ?case by (auto simp: apply_writes_def)
qed (simp add: apply_writes_def)

lemma nth_rects_bytes:
  assumes "i < length rs" "j < 8"
  shows "concat (map rect_bytes rs) ! (8 * i + j) = rect_bytes (rs ! i) ! j"
  using assms
proof (induction rs arbitrary: i)
  case (Cons r rs)
  have l: "length (rect_bytes r) = 8" by (cases r) simp
  show ?case
  proof (cases i)
    case 0
    with l Cons.prems show ?thesis by (simp add: nth_append)
  next
    case (Suc k)
    with l Cons show ?thesis by (simp add: nth_append)
  qed
qed simp

lemma rect_bytes_nth:
  "map (\<lambda>j. rect_bytes (x1, y1, x2, y2) ! j) [0..<8] =
     le16 (of_int x1) @ le16 (of_int y1) @ le16 (of_int x2) @ le16 (of_int y2)"
  by (simp add: upt_rec le16_def)

lemma clip_of_report:
  assumes "\<forall>j < 8. m (a + j) = rect_bytes (x1, y1, x2, y2) ! j"
  shows "clip_at m a = (of_int x1, of_int y1, of_int x2, of_int y2)"
proof -
  have "m a = rect_bytes (x1, y1, x2, y2) ! 0" "m (a + 1) = rect_bytes (x1, y1, x2, y2) ! 1"
    "m (a + 2) = rect_bytes (x1, y1, x2, y2) ! 2" "m (a + 3) = rect_bytes (x1, y1, x2, y2) ! 3"
    "m (a + 4) = rect_bytes (x1, y1, x2, y2) ! 4" "m (a + 5) = rect_bytes (x1, y1, x2, y2) ! 5"
    "m (a + 6) = rect_bytes (x1, y1, x2, y2) ! 6" "m (a + 7) = rect_bytes (x1, y1, x2, y2) ! 7"
    using assms [rule_format, of 0] assms [rule_format, of 1] assms [rule_format, of 2]
      assms [rule_format, of 3] assms [rule_format, of 4] assms [rule_format, of 5]
      assms [rule_format, of 6] assms [rule_format, of 7] by simp_all
  then show ?thesis
    by (simp add: clip_at_def le16_def of_le16_le16)
qed

lemma uint_clip: "0 \<le> x \<Longrightarrow> x < 65536 \<Longrightarrow> uint (of_int x :: u16) = x"
  by (simp add: uint_word_of_int)


lemma copy_rows_ok:
  assumes "\<forall>y \<in> set ys. buffer + (y * stride + xoff) < 2 ^ 64"
  shows "snd (copy_rows (\<lambda>_ _. Inr ()) buffer stride pitch src xoff span ys) = Inr ()"
  using assms by (induction ys) (auto simp: Let_def split: prod.splits)

lemma copy_rects_ok:
  assumes "\<forall>c \<in> set rs. rect_inside w h c" "nat w * BPP \<le> stride"
    "buffer + nat h * stride < 2 ^ 64"
  shows "snd (copy_rects (\<lambda>_ _. Inr ()) buffer stride pitch src rs) = Inr ()"
  using assms(1)
proof (induction rs)
  case (Cons c rs)
  obtain x1 y1 x2 y2 where c: "c = (x1, y1, x2, y2)" by (cases c) auto
  have "buffer + (y * stride + nat x1 * BPP) < 2 ^ 64" if "y \<in> set [nat y1..<nat y2]" for y
  proof -
    have "Suc y * stride \<le> nat h * stride"
      using that Cons.prems c by (intro mult_le_mono1) (auto simp: rect_inside_def)
    moreover have "nat x1 * BPP \<le> nat w * BPP"
      using Cons.prems c by (intro mult_le_mono1) (auto simp: rect_inside_def)
    ultimately show ?thesis using assms(2,3) unfolding mult_Suc by linarith
  qed
  with Cons show ?case
    using copy_rows_ok [of "[nat y1..<nat y2]" buffer stride "nat x1 * BPP" pitch src
        "nat (x2 - x1) * BPP"]
    by (auto simp: c Let_def split: prod.splits sum.splits)
qed simp

definition grab_fits :: "grabpix_arg \<Rightarrow> bool" where
  "grab_fits arg = (ga_buffer arg \<noteq> 0 \<and> 0 < ga_buf_byte_stride arg \<and> 0 \<le> ga_buf_width arg \<and>
     0 \<le> ga_buf_height arg \<and> ga_rects arg \<noteq> 0 \<and>
     ga_buffer arg + nat (ga_buf_height arg) * nat (ga_buf_byte_stride arg) < 2 ^ 64 \<and>
     (ga_rects arg + 128 \<le> ga_buffer arg \<or>
      ga_buffer arg + nat (ga_buf_height arg) * nat (ga_buf_byte_stride arg) \<le> ga_rects arg))"

lemma grab_h_height: "nat (grab_h arg f) \<le> nat (ga_buf_height arg)"
  by (simp add: grab_h_def)

lemma grabpix_run:
  assumes "grab_fits arg" "scanout_fb d = Some f" "fb_vmap f = Inr src"
    "clamp_rects (grab_w arg f) (grab_h arg f) (grab_regions d f) = Inr raw"
  shows "\<exists>d' arg' ws. grabpix (\<lambda>_ _. Inr ()) arg d = (d', arg', ws, Inr 0) \<and>
    ga_num_rects arg' = int (length (coalesce (grab_cap arg) raw)) \<and>
    (raw \<noteq> [] \<longrightarrow> (\<exists>ws2. ws = (ga_rects arg, concat (map rect_bytes (coalesce (grab_cap arg) raw))) # ws2 \<and>
       (\<forall>wr \<in> set ws2. row_write (ga_buffer arg) (nat (ga_buf_byte_stride arg)) (unat (fb_pitch f))
          src (grab_w arg f) (grab_h arg f) wr)))"
proof -
  let ?rs = "coalesce (grab_cap arg) raw" and ?st = "nat (ga_buf_byte_stride arg)"
  have ins: "\<forall>c \<in> set ?rs. rect_inside (grab_w arg f) (grab_h arg f) c"
    using coalesce_inside clamp_rects_inside [OF assms(4)] by blast
  have "nat (grab_h arg f) * ?st \<le> nat (ga_buf_height arg) * ?st"
    using grab_h_height by (rule mult_le_mono1)
  moreover have "ga_buffer arg + nat (ga_buf_height arg) * ?st < 2 ^ 64"
    using assms(1) unfolding grab_fits_def by blast
  ultimately have "ga_buffer arg + nat (grab_h arg f) * ?st < 2 ^ 64" by linarith
  from copy_rects_ok [OF ins grab_w_stride this]
  obtain ws2 where cp: "copy_rects (\<lambda>_ _. Inr ()) (ga_buffer arg) ?st (unat (fb_pitch f)) src ?rs
      = (ws2, Inr ())" by (metis prod.collapse)
  note form = copy_rects_form [OF cp ins]
  have fit: "ga_buffer arg \<noteq> 0" "\<not> ga_buf_byte_stride arg \<le> 0" "\<not> ga_buf_width arg < 0"
    "\<not> ga_buf_height arg < 0" "ga_rects arg \<noteq> 0"
    using assms(1) by (auto simp: grab_fits_def)
  have reg: "(if dm_count (ps_damage (ed_painter d)) = 0
      then [(0, 0, sint (fb_width f), sint (fb_height f))]
      else active (ps_damage (ed_painter d))) = grab_regions d f"
    by (simp add: grab_regions_def)
  show ?thesis
    using cp form
    by (cases "raw = []")
      (simp_all add: grabpix_def assms(2,3) take_damage_def Let_def fit reg
        assms(4) [unfolded grab_w_def grab_h_def] grab_cap_def [symmetric] report_rects_def)
qed

lemma grab_reads_back:
  assumes "grab_fits arg" "length rs \<le> 16" "i < length rs"
    "\<forall>wr \<in> set ws2. row_write (ga_buffer arg) (nat (ga_buf_byte_stride arg)) pitch src
       (grab_w arg f) (grab_h arg f) wr"
  shows "clip_at (apply_writes ((ga_rects arg, concat (map rect_bytes rs)) # ws2) mem)
      (ga_rects arg + 8 * i) = (case rs ! i of (x1, y1, x2, y2) \<Rightarrow>
        (of_int x1, of_int y1, of_int x2, of_int y2))"
proof -
  let ?st = "nat (ga_buf_byte_stride arg)"
  let ?m = "write_mem mem (ga_rects arg, concat (map rect_bytes rs))"
  have out: "\<not> (a \<le> ga_rects arg + k \<and> ga_rects arg + k < a + length bs)"
    if w: "(a, bs) \<in> set ws2" and k: "k < 128" for a bs k
  proof -
    have "row_write (ga_buffer arg) ?st pitch src (grab_w arg f) (grab_h arg f) (a, bs)"
      using w assms(4) by blast
    then obtain y x n where a: "a = ga_buffer arg + (y * ?st + x * BPP)" "length bs = n * BPP"
      "int y < grab_h arg f" "int (x + n) \<le> grab_w arg f"
      by (rule row_writeE)
    have "x + n \<le> nat (grab_w arg f)" using a(4) by linarith
    then have "(x + n) * BPP \<le> ?st"
      using grab_w_stride [of arg f] by (meson le_trans mult_le_mono1)
    moreover have "Suc y * ?st \<le> nat (ga_buf_height arg) * ?st"
      using a(3) by (intro mult_le_mono1) (auto simp: grab_h_def)
    ultimately have "a + length bs \<le> ga_buffer arg + nat (ga_buf_height arg) * ?st" "ga_buffer arg \<le> a"
      using a(1,2) by (auto simp: add_mult_distrib)
    with assms(1) k show ?thesis by (auto simp: grab_fits_def)
  qed
  obtain x1 y1 x2 y2 where r: "rs ! i = (x1, y1, x2, y2)" by (cases "rs ! i") auto
  have "apply_writes ws2 ?m (ga_rects arg + 8 * i + j) = rect_bytes (rs ! i) ! j" if j: "j < 8" for j
  proof -
    have k: "8 * i + j < 128" "8 * i + j < 8 * length rs" using assms(2,3) j by linarith+
    have "apply_writes ws2 ?m (ga_rects arg + (8 * i + j)) = ?m (ga_rects arg + (8 * i + j))"
      using out k(1) by (intro apply_writes_outside) blast
    also have "\<dots> = concat (map rect_bytes rs) ! (8 * i + j)"
      using k(2) by (simp add: length_rects_bytes)
    finally show ?thesis using nth_rects_bytes [OF assms(3) j] by (simp add: add.assoc)
  qed
  then have "\<forall>j < 8. apply_writes ws2 ?m (ga_rects arg + 8 * i + j) = rect_bytes (x1, y1, x2, y2) ! j"
    by (simp add: r)
  from clip_of_report [OF this] r show ?thesis by (simp add: apply_writes_def)
qed

text \<open>
  C1. The rectangles \<open>evdi_grab_pixels\<close> reports are the rectangles the kernel copied: with the
  module behind the ioctl, a registered buffer of sane geometry that does not overlap the
  library's array, and a framebuffer of at most 65535 pixels a side, the client receives exactly
  the clamped damage (one bounding box when there are more than sixteen), and their number,
  which is never above sixteen.
\<close>

theorem grab_pixels_end_to_end:
  assumes "find_buffer ctx (ec_buffer_to_update ctx) = Some dest"
    "grab_fits (grab_arg_of rects dest)" "scanout_fb d = Some f" "fb_vmap f = Inr src"
    "0 \<le> sint (fb_width f)" "sint (fb_width f) < 65536"
    "0 \<le> sint (fb_height f)" "sint (fb_height f) < 65536"
  shows "\<exists>raw. clamp_rects (grab_w (grab_arg_of rects dest) f) (grab_h (grab_arg_of rects dest) f)
      (grab_regions d f) = Inr raw \<and>
    evdi_grab_pixels (kernel_grab d mem) rects ctx =
      (coalesce 16 raw, int (length (coalesce 16 raw))) \<and> length (coalesce 16 raw) \<le> 16"
proof -
  let ?arg = "grab_arg_of rects dest"
  have cap: "grab_cap ?arg = 16" by (simp add: grab_cap_def grab_arg_of_def MAX_DIRTS_def MAX_DAMAGE_RECTS_def)
  have ra: "ga_rects ?arg = rects" by (simp add: grab_arg_of_def)
  have "0 \<le> grab_w ?arg f" "0 \<le> grab_h ?arg f"
    using assms(2,5,7) by (auto simp: grab_w_def grab_h_def grab_fits_def)
  then obtain raw where cl: "clamp_rects (grab_w ?arg f) (grab_h ?arg f) (grab_regions d f) = Inr raw"
    using clamp_rects_total by blast
  let ?rs = "coalesce 16 raw"
  have len: "length ?rs \<le> 16" by (rule coalesce_length) simp
  obtain d' arg' ws where g: "grabpix (\<lambda>_ _. Inr ()) ?arg d = (d', arg', ws, Inr 0)"
    and num: "ga_num_rects arg' = int (length ?rs)"
    and ws: "raw \<noteq> [] \<longrightarrow> (\<exists>ws2. ws = (rects, concat (map rect_bytes ?rs)) # ws2 \<and>
       (\<forall>wr \<in> set ws2. row_write (ga_buffer ?arg) (nat (ga_buf_byte_stride ?arg))
          (unat (fb_pitch f)) src (grab_w ?arg f) (grab_h ?arg f) wr))"
    using grabpix_run [OF assms(2,3,4) cl] cap ra by auto
  define clips where "clips = map (\<lambda>i. clip_at (apply_writes ws mem) (rects + 8 * i)) [0..<MAX_DIRTS]"
  define out where "out = map (\<lambda>(x1, y1, x2, y2). (uint x1, uint y1, uint x2, uint y2)) (take (length ?rs) clips)"
  have "out = ?rs"
  proof (rule nth_equalityI)
    show "length out = length ?rs"
      using len by (simp add: out_def clips_def MAX_DIRTS_def)
    fix i assume "i < length out"
    then have i: "i < length ?rs" using len by (simp add: out_def clips_def MAX_DIRTS_def)
    then have "raw \<noteq> []" by auto
    with ws obtain ws2 where w: "ws = (rects, concat (map rect_bytes ?rs)) # ws2"
      and rows: "\<forall>wr \<in> set ws2. row_write (ga_buffer ?arg) (nat (ga_buf_byte_stride ?arg))
          (unat (fb_pitch f)) src (grab_w ?arg f) (grab_h ?arg f) wr" by blast
    obtain x1 y1 x2 y2 where r: "?rs ! i = (x1, y1, x2, y2)" by (cases "?rs ! i") auto
    have "rect_inside (grab_w ?arg f) (grab_h ?arg f) (?rs ! i)"
      using coalesce_inside clamp_rects_inside [OF cl] nth_mem [OF i] by blast
    then have "0 \<le> x1" "x1 < 65536" "0 \<le> y1" "y1 < 65536" "0 \<le> x2" "x2 < 65536" "0 \<le> y2" "y2 < 65536"
      using assms(6,8) by (auto simp: r rect_inside_def grab_w_def grab_h_def)
    moreover have "clips ! i = (of_int x1, of_int y1, of_int x2, of_int y2)"
      using grab_reads_back [OF assms(2) len i rows, of mem] i len
      by (simp add: clips_def MAX_DIRTS_def w ra r)
    ultimately show "out ! i = ?rs ! i"
      using i len by (simp add: out_def r uint_clip clips_def MAX_DIRTS_def)
  qed
  then have "evdi_grab_pixels (kernel_grab d mem) rects ctx = (?rs, int (length ?rs))"
    using num by (simp add: evdi_grab_pixels_def assms(1) kernel_grab_def g ra out_def clips_def Let_def)
  with cl len show ?thesis by blast
qed


theorem grab_pixels_end_to_end_witness:
  "evdi_grab_pixels (kernel_grab dev_demo (\<lambda>_. 0)) 500
     \<lparr>ec_fd = 3, ec_buffer_to_update = 9, ec_frame_buffers =
        [\<lparr>eb_id = 9, eb_buffer = 4096, eb_width = 2, eb_height = 1, eb_stride = 8\<rparr>],
      ec_device_index = 0\<rparr> = ([(1, 0, 2, 1)], 1)"
proof -
  let ?b = "\<lparr>eb_id = 9, eb_buffer = 4096, eb_width = 2, eb_height = 1, eb_stride = 8\<rparr>"
  let ?c = "\<lparr>ec_fd = 3, ec_buffer_to_update = 9, ec_frame_buffers = [?b], ec_device_index = 0\<rparr>"
  have "find_buffer ?c (ec_buffer_to_update ?c) = Some ?b" by (simp add: find_buffer_def)
  moreover have "grab_fits (grab_arg_of 500 ?b)"
    by (simp add: grab_fits_def grab_arg_of_def)
  moreover have "clamp_rects (grab_w (grab_arg_of 500 ?b) fb_demo) (grab_h (grab_arg_of 500 ?b) fb_demo)
      (grab_regions dev_demo fb_demo) = Inr [(1, 0, 2, 1)]"
    by (simp add: grab_w_def grab_h_def grab_arg_of_def demo_fields demo_damage BPP_def rclamp_def)
  ultimately show ?thesis
    using grab_pixels_end_to_end [of ?c ?b 500 dev_demo fb_demo "[1, 2, 3, 4, 5, 6, 7, 8]" "\<lambda>_. 0"]
    by (simp add: demo_fields)
qed

end
