(* ===== verification/KmsDriver.thy ===== *)
theory KmsDriver
  imports KmsLaws LibOpen LibLaws
begin

text \<open>
  What the module registers with DRM (\<open>module/kms.rs\<close>): its version, its ioctl table, the limits of its
  mode configuration and the mode objects of \<open>probe\<close>; and the calls of the library
  (\<open>library/src/lib.rs\<close>) that meet them: logging, the checked ioctl, the library version and
  the remaining operations of one ioctl. What the kernel answers to each call is an argument.
\<close>

section \<open>The driver\<close>

record driver_info =
  di_major :: int
  di_minor :: int
  di_patchlevel :: int
  di_name :: string
  di_desc :: string

definition INFO :: driver_info where
  "INFO = \<lparr>di_major = 1, di_minor = 15, di_patchlevel = 0, di_name = ''evdi'',
     di_desc = ''Extensible Virtual Display Interface''\<rparr>"

datatype handler = HConnect | HRequestUpdate | HGrabpix | HDdcciResponse | HEnableCursorEvents

text \<open>A row: the name, the argument's structure, the number, the flags and the handler.\<close>

definition ioctl_table :: "(u32 \<Rightarrow> nat \<Rightarrow> u64) \<Rightarrow> (string \<times> cty \<times> u64 \<times> u32 \<times> handler) list" where
  "ioctl_table IOWR =
     [(''EVDI_CONNECT'', m_DrmEvdiConnect, m_ioctl_connect IOWR, 0, HConnect),
      (''EVDI_REQUEST_UPDATE'', m_DrmEvdiRequestUpdate, m_ioctl_request_update IOWR, 0, HRequestUpdate),
      (''EVDI_GRABPIX'', m_DrmEvdiGrabpix, m_ioctl_grabpix IOWR, 0, HGrabpix),
      (''EVDI_DDCCI_RESPONSE'', m_DrmEvdiDdcciResponse, m_ioctl_ddcci_response IOWR, 0, HDdcciResponse),
      (''EVDI_ENABLE_CURSOR_EVENTS'', m_DrmEvdiEnableCursorEvents, m_ioctl_enable_cursor_events IOWR, 0,
       HEnableCursorEvents)]"

definition handler_of :: "(string \<times> cty \<times> u64 \<times> u32 \<times> handler) list \<Rightarrow> u64 \<Rightarrow> handler option" where
  "handler_of rows cmd = map_option (\<lambda>(_, _, _, _, h). h) (find (\<lambda>(_, _, c, _, _). c = cmd) rows)"

record mode_config =
  mc_min_resolution :: "int \<times> int"
  mc_max_resolution :: "int \<times> int"
  mc_max_cursor :: "int \<times> int"
  mc_preferred_depth :: int
  mc_preferred_fourcc :: "u32 option"

definition mode_config_info :: mode_config where
  "mode_config_info = \<lparr>mc_min_resolution = (0, 0), mc_max_resolution = (8192, 8192), mc_max_cursor = (64, 64),
     mc_preferred_depth = 32, mc_preferred_fourcc = Some DRM_FORMAT_XRGB8888\<rparr>"

definition PRIMARY_FORMATS :: "u32 list" where "PRIMARY_FORMATS = [DRM_FORMAT_XRGB8888]"
definition CURSOR_FORMATS :: "u32 list" where "CURSOR_FORMATS = [DRM_FORMAT_ARGB8888]"

datatype plane_type = PrimaryPlane | CursorPlane
datatype encoder_type = VirtualEncoder
datatype connector_type = DviI

text \<open>The calls of \<open>probe\<close>: a plane with its possible CRTCs, formats, type and \<open>is_cursor\<close>.\<close>

datatype kms_call =
    NewPlane u32 "u32 list" plane_type bool
  | EnableDamageClips
  | NewCrtc
  | NewEncoder encoder_type
  | NewConnector connector_type
  | AttachEncoder

definition probe_calls :: "kms_call list" where
  "probe_calls =
     [NewPlane 1 PRIMARY_FORMATS PrimaryPlane False, EnableDamageClips,
      NewPlane 1 CURSOR_FORMATS CursorPlane True, NewCrtc, NewEncoder VirtualEncoder,
      NewConnector DviI, AttachEncoder]"

text \<open>Each call may fail but \<open>EnableDamageClips\<close>, and a failure ends \<open>probe\<close>.\<close>

fun run_calls :: "(kms_call \<Rightarrow> bool) \<Rightarrow> kms_call list \<Rightarrow> kms_call list \<times> bool" where
  "run_calls ok [] = ([], True)"
| "run_calls ok (c # cs) =
     (if c = EnableDamageClips \<or> ok c
      then (case run_calls ok cs of (made, r) \<Rightarrow> (c # made, r))
      else ([], False))"

definition probe :: "(kms_call \<Rightarrow> bool) \<Rightarrow> evdi_data \<Rightarrow> kms_call list \<times> evdi_data option" where
  "probe ok d =
     (case run_calls ok probe_calls of
        (made, True) \<Rightarrow> (made, Some (probe_connector d))
      | (made, False) \<Rightarrow> (made, None))"

section \<open>The library's side\<close>

definition LIBEVDI_VERSION :: "int \<times> int \<times> int" where
  "LIBEVDI_VERSION = (1, 15, 0)"

text \<open>A null pointer is \<open>None\<close>; otherwise the structure is overwritten.\<close>

definition evdi_get_lib_version :: "(int \<times> int \<times> int) option \<Rightarrow> (int \<times> int \<times> int) option" where
  "evdi_get_lib_version v = (case v of None \<Rightarrow> None | Some _ \<Rightarrow> Some LIBEVDI_VERSION)"

text \<open>
  A log line goes to the client's callback, as the argument of a literal \<open>%s\<close>, or to the standard
  output. A message with a null byte cannot be a C string: the callback gets an empty one.
\<close>

datatype logged = Callback nat string string | Stdout string

definition c_string :: "string \<Rightarrow> string" where
  "c_string msg = (if CHR 0x00 \<in> set msg then [] else msg)"

definition evdi_log :: "nat option \<Rightarrow> string \<Rightarrow> logged" where
  "evdi_log logging msg =
     (case logging of
        Some user_data \<Rightarrow> Callback user_data ''%s'' (c_string msg)
      | None \<Rightarrow> Stdout (''[librevdi] '' @ msg))"

definition evdi_set_logging :: "nat option \<Rightarrow> nat option \<Rightarrow> nat option" where
  "evdi_set_logging logging old = logging"

text \<open>An ioctl whose failure is logged: the results of its retries and the final \<open>errno\<close>.\<close>

definition do_ioctl :: "nat option \<Rightarrow> string \<Rightarrow> (int \<times> int) list \<Rightarrow> int \<Rightarrow> (int \<times> logged list) option" where
  "do_ioctl logging msg rs errno =
     (case drm_ioctl rs of
        None \<Rightarrow> None
      | Some err \<Rightarrow>
          Some (err, if err < 0
                     then [evdi_log logging (''Ioctl '' @ msg @ '' error (errno '' @ int_str errno @ '')'')]
                     else []))"

text \<open>What a call issues: descriptor, number and the fields the module reads.\<close>

definition evdi_enable_cursor_events :: "evdi_ctx option \<Rightarrow> bool \<Rightarrow> (int \<times> u64 \<times> u8) option" where
  "evdi_enable_cursor_events h enable =
     (case h of None \<Rightarrow> None
      | Some ctx \<Rightarrow> Some (ec_fd ctx, ioctl_enable_cursor_events, if enable then 1 else 0))"

definition evdi_ddcci_response ::
    "evdi_ctx option \<Rightarrow> nat \<Rightarrow> u32 \<Rightarrow> bool \<Rightarrow> (int \<times> u64 \<times> nat \<times> u32 \<times> u8) option" where
  "evdi_ddcci_response h buffer buffer_length result =
     (case h of None \<Rightarrow> None
      | Some ctx \<Rightarrow>
          Some (ec_fd ctx, ioctl_ddcci_response, buffer, buffer_length, if result then 1 else 0))"

text \<open>The name as a C string: the memory at the pointer, read up to its null byte.\<close>

definition evdi_open_attached_to ::
    "sysfs \<Rightarrow> (string \<Rightarrow> sysfs) \<Rightarrow> (int \<Rightarrow> int \<times> drm_version) \<Rightarrow> string option \<Rightarrow> bool list
       \<Rightarrow> evdi_ctx option \<times> bool list \<times> string option" where
  "evdi_open_attached_to fs after opened mem in_use =
     evdi_open_attached_to_fixed fs after opened (map_option (takeWhile ((\<noteq>) (CHR 0x00))) mem) in_use"

section \<open>Laws\<close>

lemma ioctl_rows:
  "ioctl_table drm_iowr =
     [(''EVDI_CONNECT'', m_DrmEvdiConnect, ioctl_connect, 0, HConnect),
      (''EVDI_REQUEST_UPDATE'', m_DrmEvdiRequestUpdate, ioctl_request_update, 0, HRequestUpdate),
      (''EVDI_GRABPIX'', m_DrmEvdiGrabpix, ioctl_grabpix, 0, HGrabpix),
      (''EVDI_DDCCI_RESPONSE'', m_DrmEvdiDdcciResponse, ioctl_ddcci_response, 0, HDdcciResponse),
      (''EVDI_ENABLE_CURSOR_EVENTS'', m_DrmEvdiEnableCursorEvents, ioctl_enable_cursor_events, 0,
       HEnableCursorEvents)]"
  unfolding ioctl_table_def ioctl_agree by (rule refl)

lemmas ioctl_value = ioctl_values [unfolded list.inject simp_thms]

text \<open>Every number the library issues reaches the handler of its name.\<close>

lemma table_serves_library:
  "map (handler_of (ioctl_table drm_iowr))
     [ioctl_connect, ioctl_request_update, ioctl_grabpix, ioctl_ddcci_response, ioctl_enable_cursor_events]
   = map Some [HConnect, HRequestUpdate, HGrabpix, HDdcciResponse, HEnableCursorEvents]"
  unfolding ioctl_rows handler_of_def
  by (simp only: find.simps prod.case ioctl_value list.map option.map) simp

text \<open>The size in each number is the size of its structure, so DRM copies whole arguments.\<close>

lemma table_sizes:
  "list_all (\<lambda>(_, ty, cmd, _, _). unat cmd div 2 ^ 16 mod 2 ^ 14 = csize ty) (ioctl_table drm_iowr)"
  unfolding ioctl_rows by (simp only: list.pred_inject prod.case ioctl_value module_sizes) simp

text \<open>A library opening a node of this driver accepts its version.\<close>

lemma driver_accepted:
  assumes "dv_ret v = 0" "dv_major v = di_major INFO" "dv_minor v = di_minor INFO"
    "dv_name v = map (of_nat \<circ> of_char) (di_name INFO)"
  shows "is_evdi v \<and> is_evdi_compatible v"
  using assms
  by (simp add: is_evdi_def is_evdi_compatible_def INFO_def COMPAT_MAJOR_def COMPAT_MINOR_def pad_to_def zeros_def)

text \<open>The device data learns its connector exactly when every object was made.\<close>

lemma run_calls_complete:
  "snd (run_calls ok cs) \<longleftrightarrow> fst (run_calls ok cs) = cs"
  by (induction cs) (auto split: prod.split if_splits)

lemma run_calls_prefix: "\<exists>rest. cs = fst (run_calls ok cs) @ rest"
  by (induction cs) (auto split: prod.split)

lemma probe_stores_connector:
  "snd (probe ok d) = (if fst (probe ok d) = probe_calls then Some (probe_connector d) else None)"
  using run_calls_complete [of ok probe_calls]
  by (auto simp: probe_def split: prod.split bool.split)

lemma probe_complete:
  "fst (probe ok d) = probe_calls \<longleftrightarrow> list_all (\<lambda>c. c = EnableDamageClips \<or> ok c) probe_calls"
proof -
  have "snd (run_calls ok cs) \<longleftrightarrow> list_all (\<lambda>c. c = EnableDamageClips \<or> ok c) cs" for cs
    by (induction cs) (auto split: prod.split)
  then show ?thesis
    using run_calls_complete [of ok probe_calls] by (auto simp: probe_def split: prod.split bool.split)
qed

text \<open>The cursor switch of the library is the painter's flag.\<close>

lemma cursor_switch:
  assumes "evdi_enable_cursor_events (Some ctx) enable = Some (fd, cmd, arg)"
  shows "handler_of (ioctl_table drm_iowr) cmd = Some HEnableCursorEvents
    \<and> ps_cursor_events_enabled (ed_painter (fst (enable_cursor_events arg d))) = enable"
  using assms table_serves_library
  by (cases enable) (auto simp: evdi_enable_cursor_events_def enable_cursor_events_def)

text \<open>
  The module does not read the result flag of a DDC/CI answer: a client that reports a failure
  completes the waiting transfer with its bytes like one that succeeded.
\<close>

lemma ddcci_result_ignored:
  assumes "evdi_ddcci_response (Some ctx) buffer n ok = Some (fd, cmd, b, len, flag)" "ur buffer (min (unat n) DDCCI_BUFFER_SIZE) = Inr resp"
    "0 < n" "buffer \<noteq> 0"
  shows "handler_of (ioctl_table drm_iowr) cmd = Some HDdcciResponse
    \<and> ed_ddcci_resp (fst (ddcci_response ur b len d)) = Some resp"
  using assms table_serves_library
  by (auto simp: evdi_ddcci_response_def ddcci_response_def ddcci_respond_def DDCCI_BUFFER_SIZE_def Let_def
      unat_gt_0 kcall_def)

lemma lib_version_matches_driver: "LIBEVDI_VERSION = (di_major INFO, di_minor INFO, di_patchlevel INFO)"
  by (simp add: LIBEVDI_VERSION_def INFO_def)

text \<open>Nothing is logged of an ioctl that succeeds.\<close>

lemma do_ioctl_quiet: "do_ioctl logging msg rs errno = Some (err, ls) \<Longrightarrow> (ls = []) = (0 \<le> err)"
  by (auto simp: do_ioctl_def split: option.splits if_splits)

end
