(* ===== verification/Binding.thy ===== *)
theory Binding
  imports KmsDriver
begin

text \<open>
  Binding a card (\<open>EvdiPlatformDriver::probe\<close> in \<open>module/evdi.rs\<close>) with every way it fails. The slot of
  the pixel budget is claimed while the device data is built and released by \<open>shutdown\<close>, which only a
  bound card runs: a probe that fails in between keeps it.
\<close>

section \<open>Binding\<close>

record bound_data =
  bd_dev :: evdi_data
  bd_i2c :: bool

text \<open>
  \<open>early\<close>: allocating the DRM device fails before its data is built. Otherwise the data is built, the
  mode objects are made (\<open>kms_ok\<close>), the device registered (\<open>reg\<close>) and the I2C adapter added, whose
  failure is not fatal.
\<close>

definition platform_probe ::
    "error option \<Rightarrow> (kms_call \<Rightarrow> bool) \<Rightarrow> error \<Rightarrow> unit res \<Rightarrow> unit res \<Rightarrow> slots \<Rightarrow> slots \<times> bound_data res" where
  "platform_probe early kms_ok kms_err reg i2c sl =
     (case early of
        Some e \<Rightarrow> (sl, Inl e)
      | None \<Rightarrow>
          (case evdi_data_new sl of
             (sl, d) \<Rightarrow>
               (case snd (probe kms_ok d) of
                  None \<Rightarrow> (sl, Inl kms_err)
                | Some d \<Rightarrow>
                    (case reg of
                       Inl e \<Rightarrow> (sl, Inl e)
                     | Inr _ \<Rightarrow> (sl, Inr \<lparr>bd_dev = d, bd_i2c = is_ok i2c\<rparr>)))))"

text \<open>The fields drop in order, the shutdown guard first.\<close>

definition drop_bound :: "slots \<Rightarrow> bound_data \<Rightarrow> slots" where
  "drop_bound sl b = fst (shutdown sl (bd_dev b))"

section \<open>Laws\<close>

lemma slots_of_append [simp]: "slots_of (as @ bs) = slots_of as @ slots_of bs"
  by (simp add: slots_of_def)

lemma probe_bound_data:
  assumes "platform_probe early kms_ok e reg i2c sl = (sl', Inr b)"
  shows "\<exists>d. evdi_data_new sl = (sl', d) \<and> bd_dev b = probe_connector d"
  using assms probe_stores_connector
  by (auto simp: platform_probe_def split: option.splits prod.splits sum.splits if_splits)

lemma probe_failed_data:
  assumes "platform_probe None kms_ok e reg i2c sl = (sl', Inl e')"
  shows "evdi_data_new sl = (sl', snd (evdi_data_new sl))"
  using assms by (auto simp: platform_probe_def split: option.splits prod.splits sum.splits)

lemma cards_inv_slot: "ed_pixel_rate_slot d = ed_pixel_rate_slot d' \<Longrightarrow> cards_inv sl (d # ds) = cards_inv sl (d' # ds)"
  by (simp add: cards_inv_def slots_of_def)

lemma slot_probe_connector [simp]: "ed_pixel_rate_slot (probe_connector d) = ed_pixel_rate_slot d"
  by (simp add: probe_connector_def)

end
