(* ===== verification/Registry.thy ===== *)
theory Registry
  imports Binding
begin

text \<open>
  The module entry and the card registry (\<open>module/evdi.rs\<close>): the sysfs attributes
  \<open>count\<close>, \<open>add\<close> and \<open>remove_all\<close>, the matching of USB devices by their bus/port chain, and
  the USB removal notifier. Text is a list of Unicode code points (\<open>from_utf8\<close> has run); a USB
  device is its chain of hops, leaf first.
\<close>

section \<open>Text\<close>

type_synonym utext = "nat list"

definition MAX_USB_ADDR :: nat where "MAX_USB_ADDR = 8"

definition is_ws :: "nat \<Rightarrow> bool" where
  "is_ws c = (9 \<le> c \<and> c \<le> 13 \<or> c \<in> {32, 0x85, 0xA0, 0x1680, 0x2028, 0x2029, 0x202F, 0x205F, 0x3000}
              \<or> 0x2000 \<le> c \<and> c \<le> 0x200A)"

definition trim :: "utext \<Rightarrow> utext" where
  "trim t = rev (dropWhile is_ws (rev (dropWhile is_ws t)))"

fun split_on :: "nat \<Rightarrow> utext \<Rightarrow> utext list" where
  "split_on c [] = [[]]"
| "split_on c (x # xs) =
     (if x = c then [] # split_on c xs
      else case split_on c xs of p # ps \<Rightarrow> (x # p) # ps | [] \<Rightarrow> [[x]])"

fun parse_digits :: "nat \<Rightarrow> utext \<Rightarrow> nat option" where
  "parse_digits acc [] = Some acc"
| "parse_digits acc (c # cs) =
     (if 48 \<le> c \<and> c \<le> 57
      then let v = acc * 10 + (c - 48) in if v < 2 ^ 32 then parse_digits v cs else None
      else None)"

text \<open>\<open>str::parse::<u32>()\<close>.\<close>

definition parse_u32 :: "utext \<Rightarrow> nat option" where
  "parse_u32 t =
     (case t of [] \<Rightarrow> None
      | c # cs \<Rightarrow> if c = 43 then (if cs = [] then None else parse_digits 0 cs)
                  else parse_digits 0 t)"

definition strip_prefix :: "utext \<Rightarrow> utext \<Rightarrow> utext option" where
  "strip_prefix p t = (if take (length p) t = p then Some (drop (length p) t) else None)"

definition USB_PREFIX :: utext where "USB_PREFIX = [117, 115, 98, 58]"

section \<open>USB paths\<close>

record usb_hop =
  uh_portnum :: nat
  uh_busnum :: nat

type_synonym usb_device = "usb_hop list"

definition hop_port :: "usb_hop \<Rightarrow> nat" where
  "hop_port h = (if uh_portnum h = 0 then uh_busnum h else uh_portnum h)"

fun parse_ports :: "nat list \<Rightarrow> utext list \<Rightarrow> nat list res" where
  "parse_ports addr [] = Inr addr"
| "parse_ports addr (p # ps) =
     (if length addr \<ge> MAX_USB_ADDR then Inl EINVAL
      else case parse_u32 p of None \<Rightarrow> Inl EINVAL | Some n \<Rightarrow> parse_ports (addr @ [n]) ps)"

text \<open>\<open><bus>-<port>[.<port>...]\<close>, bus first.\<close>

definition parse_usb_token :: "utext \<Rightarrow> nat list res" where
  "parse_usb_token token =
     (case split_on 45 token of
        bus # ports # _ \<Rightarrow>
          (case parse_u32 bus of None \<Rightarrow> Inl EINVAL | Some b \<Rightarrow> parse_ports [b] (split_on 46 ports))
      | bus # [] \<Rightarrow> Inl EINVAL
      | [] \<Rightarrow> Inl EINVAL)"

text \<open>The callback of \<open>usb_for_each_dev\<close>: \<open>k\<close> is the code's \<open>i + 1\<close>.\<close>

fun match_usb_path :: "nat list \<Rightarrow> usb_device \<Rightarrow> nat \<Rightarrow> bool" where
  "match_usb_path addr [] k = False"
| "match_usb_path addr (h # parents) 0 = False"
| "match_usb_path addr (h # parents) (Suc i) =
     (if i \<ge> MAX_USB_ADDR then False
      else if hop_port h \<noteq> addr ! i then False
      else if parents = [] \<and> i = 0 then True
      else match_usb_path addr parents i)"

definition find_usb :: "nat list \<Rightarrow> usb_device list \<Rightarrow> usb_device option" where
  "find_usb addr devs = find (\<lambda>u. match_usb_path addr u (length addr)) devs"

text \<open>The chain \<open>remove_usb\<close> rebuilds, root first; \<open>None\<close> when it is too deep.\<close>

definition usb_chain :: "usb_device \<Rightarrow> nat list option" where
  "usb_chain u = (if length u > MAX_USB_ADDR then None else Some (rev (map hop_port u)))"

section \<open>Cards\<close>

record card =
  cd_dev :: "bound_data option"
  cd_usb_addr :: "nat list"

record registry =
  rg_devices :: "card list"
  rg_slots :: slots

definition registry_new :: registry where
  "registry_new = \<lparr>rg_devices = [], rg_slots = slots_init\<rparr>"

text \<open>
  \<open>platform::RegisteredDevice::new\<close>: the kernel refuses the device, or registers it and offers it to the
  driver. The driver core registers a device whether or not its driver binds to it, so a probe that fails
  leaves a platform device without a card, and the slot table as the probe left it.
\<close>

record probe_env =
  pe_early :: "error option"
  pe_kms :: "kms_call \<Rightarrow> bool"
  pe_kms_err :: error
  pe_reg :: "unit res"
  pe_i2c :: "unit res"

datatype answer = Refused error | Registered probe_env

definition bind_card :: "probe_env \<Rightarrow> slots \<Rightarrow> slots \<times> bound_data res" where
  "bind_card B sl = platform_probe (pe_early B) (pe_kms B) (pe_kms_err B) (pe_reg B) (pe_i2c B) sl"

definition register_device :: "answer \<Rightarrow> slots \<Rightarrow> slots \<times> bound_data option res" where
  "register_device a sl =
     (case a of
        Refused e \<Rightarrow> (sl, Inl e)
      | Registered B \<Rightarrow>
          (case bind_card B sl of
             (sl, Inl e) \<Rightarrow> (sl, Inr None)
           | (sl, Inr b) \<Rightarrow> (sl, Inr (Some b))))"

text \<open>Dropping a card unregisters its platform device, and unbinds it if it was bound.\<close>

definition drop_card :: "slots \<Rightarrow> card \<Rightarrow> slots" where
  "drop_card sl c = (case cd_dev c of None \<Rightarrow> sl | Some b \<Rightarrow> drop_bound sl b)"

definition drop_cards :: "slots \<Rightarrow> card list \<Rightarrow> slots" where
  "drop_cards sl cs = foldl drop_card sl cs"

definition remove_usb :: "usb_device \<Rightarrow> registry \<Rightarrow> registry" where
  "remove_usb u rg =
     (case usb_chain u of
        None \<Rightarrow> rg
      | Some addr \<Rightarrow>
          rg\<lparr>rg_devices := filter (\<lambda>c. cd_usb_addr c \<noteq> addr) (rg_devices rg),
             rg_slots := drop_cards (rg_slots rg)
                           (filter (\<lambda>c. cd_usb_addr c = addr) (rg_devices rg))\<rparr>)"

definition usb_remove_notify :: "bool \<Rightarrow> usb_device \<Rightarrow> registry \<Rightarrow> registry" where
  "usb_remove_notify is_remove u rg = (if is_remove then remove_usb u rg else rg)"

text \<open>\<open>link\<close> is the result of \<open>sysfs_create_link\<close>; every error after the device is registered
  drops it again.\<close>

definition add_usb_device ::
    "usb_device list \<Rightarrow> answer \<Rightarrow> unit res \<Rightarrow> utext \<Rightarrow> registry \<Rightarrow> registry \<times> unit res" where
  "add_usb_device devs ok link token rg =
     (case parse_usb_token token of
        Inl e \<Rightarrow> (rg, Inl e)
      | Inr addr \<Rightarrow>
          (case find_usb addr devs of
             None \<Rightarrow> (rg, Inl EINVAL)
           | Some u \<Rightarrow>
               (case register_device ok (rg_slots rg) of
                  (sl, Inl e) \<Rightarrow> (rg\<lparr>rg_slots := sl\<rparr>, Inl e)
                | (sl, Inr d) \<Rightarrow>
                    let c = \<lparr>cd_dev = d, cd_usb_addr = addr\<rparr>
                    in case link of
                         Inl e \<Rightarrow> (rg\<lparr>rg_slots := drop_card sl c\<rparr>, Inl e)
                       | Inr _ \<Rightarrow>
                           if length (rg_devices rg) \<ge> MAX_CARDS
                           then (rg\<lparr>rg_slots := drop_card sl c\<rparr>, Inl EINVAL)
                           else (rg\<lparr>rg_slots := sl, rg_devices := rg_devices rg @ [c]\<rparr>, Inr ()))))"

text \<open>\<open>for _ in 0..count\<close>: \<open>ok k\<close> is the kernel's answer for the \<open>k\<close>-th device.\<close>

fun add_generic :: "(nat \<Rightarrow> answer) \<Rightarrow> nat \<Rightarrow> registry \<Rightarrow> registry \<times> unit res" where
  "add_generic ok 0 rg = (rg, Inr ())"
| "add_generic ok (Suc n) rg =
     (case register_device (ok n) (rg_slots rg) of
        (sl, Inl e) \<Rightarrow> (rg\<lparr>rg_slots := sl\<rparr>, Inl e)
      | (sl, Inr d) \<Rightarrow>
          add_generic ok n (rg\<lparr>rg_slots := sl,
            rg_devices := rg_devices rg @ [\<lparr>cd_dev = d, cd_usb_addr = []\<rparr>]\<rparr>))"

definition store_add ::
    "usb_device list \<Rightarrow> (nat \<Rightarrow> answer) \<Rightarrow> unit res \<Rightarrow> utext option \<Rightarrow> registry
       \<Rightarrow> registry \<times> unit res" where
  "store_add devs ok link utf8 rg =
     (case utf8 of
        None \<Rightarrow> (rg, Inl EINVAL)
      | Some t \<Rightarrow>
          let txt = trim t
          in case strip_prefix USB_PREFIX txt of
               Some rest \<Rightarrow> add_usb_device devs (ok 0) link (trim (hd (split_on 58 rest))) rg
             | None \<Rightarrow>
                 (case parse_u32 txt of
                    None \<Rightarrow> (rg, Inl EINVAL)
                  | Some count \<Rightarrow>
                      if count > MAX_CARDS \<or> length (rg_devices rg) + count > MAX_CARDS
                      then (rg, Inl EINVAL)
                      else add_generic ok count rg))"

definition store_remove_all :: "registry \<Rightarrow> registry \<times> unit res" where
  "store_remove_all rg =
     (rg\<lparr>rg_devices := [], rg_slots := drop_cards (rg_slots rg) (rg_devices rg)\<rparr>, Inr ())"

text \<open>\<open>write_uint\<close>: decimal digits and a newline, when they fit the buffer.\<close>

fun digits_of :: "nat \<Rightarrow> utext" where
  "digits_of v = (if v < 10 then [48 + v] else digits_of (v div 10) @ [48 + v mod 10])"

declare digits_of.simps [simp del]

definition write_uint :: "nat \<Rightarrow> nat \<Rightarrow> utext res" where
  "write_uint buf_len v =
     (let digits = digits_of v
      in if length digits + 1 > buf_len then Inl EINVAL else Inr (digits @ [10]))"

definition show_count :: "nat \<Rightarrow> registry \<Rightarrow> utext res" where
  "show_count buf_len rg = write_uint buf_len (length (rg_devices rg))"

section \<open>The count attribute\<close>

lemma parse_digits_append:
  "parse_digits acc (xs @ ys) = (case parse_digits acc xs of None \<Rightarrow> None | Some v \<Rightarrow> parse_digits v ys)"
  by (induction acc xs rule: parse_digits.induct) (auto simp: Let_def)

lemma parse_digits_of: "v < 2 ^ 32 \<Longrightarrow> parse_digits 0 (digits_of v) = Some v"
proof (induction v rule: digits_of.induct)
  case (1 v)
  show ?case
  proof (cases "v < 10")
    case True
    then show ?thesis by (simp add: digits_of.simps [of v])
  next
    case False
    with 1 have "parse_digits 0 (digits_of (v div 10)) = Some (v div 10)" by simp
    moreover have "v div 10 * 10 + v mod 10 = v" by simp
    ultimately show ?thesis
      using False 1(2) by (simp add: digits_of.simps [of v] parse_digits_append Let_def)
  qed
qed

lemma digits_of_range: "c \<in> set (digits_of v) \<Longrightarrow> 48 \<le> c \<and> c \<le> 57"
proof (induction v rule: digits_of.induct)
  case (1 v)
  then show ?case
    by (cases "v < 10") (auto simp: digits_of.simps [of v])
qed

lemma digits_of_ne: "digits_of v \<noteq> []"
  by (simp add: digits_of.simps [of v])

lemma parse_u32_digits_of: "v < 2 ^ 32 \<Longrightarrow> parse_u32 (digits_of v) = Some v"
proof -
  assume v: "v < 2 ^ 32"
  obtain c cs where c: "digits_of v = c # cs" using digits_of_ne by (cases "digits_of v") auto
  then have "c \<noteq> 43" using digits_of_range [of c v] by auto
  with c parse_digits_of [OF v] show ?thesis by (simp add: parse_u32_def)
qed

lemma trim_digits_newline: "trim (digits_of v @ [10]) = digits_of v"
proof -
  have nws: "\<not> is_ws c" if "c \<in> set (digits_of v)" for c
    using digits_of_range [OF that] by (auto simp: is_ws_def)
  have "dropWhile is_ws (digits_of v @ [10]) = digits_of v @ [10]"
    using nws digits_of_ne [of v] by (cases "digits_of v") auto
  moreover have "dropWhile is_ws (rev (digits_of v)) = rev (digits_of v)"
    using nws digits_of_ne [of v] by (cases "rev (digits_of v)") auto
  moreover have "is_ws 10" by (simp add: is_ws_def)
  ultimately show ?thesis by (simp add: trim_def)
qed

text \<open>
  C17. What \<open>write_uint\<close> prints reads back: for every value below \<open>2^32\<close> and a buffer that
  holds it, the text is decimal digits and a newline, it fits the buffer, and trimming and
  parsing it the way the \<open>add\<close> attribute reads a number gives the value again.
\<close>

theorem write_uint_parses_back:
  assumes "v < 2 ^ 32" "write_uint n v = Inr out"
  shows "length out \<le> n \<and> last out = 10 \<and> (\<forall>c \<in> set (butlast out). 48 \<le> c \<and> c \<le> 57) \<and>
    parse_u32 (trim out) = Some v"
  using assms digits_of_range
  by (auto simp: write_uint_def Let_def trim_digits_newline parse_u32_digits_of split: if_splits)

theorem write_uint_parses_back_witness:
  "write_uint 4096 16 = Inr [49, 54, 10] \<and> parse_u32 (trim [49, 54, 10]) = Some 16"
proof -
  have w: "write_uint 4096 16 = Inr [49, 54, 10]"
    by (simp add: write_uint_def digits_of.simps)
  have "(16 :: nat) < 2 ^ 32" by simp
  from write_uint_parses_back [OF this w] w show ?thesis by blast
qed

end
