(* ===== verification/RegistryLaws.thy ===== *)
theory RegistryLaws
  imports Registry
begin

text \<open>
  The registry's guarantees: USB matching is exact, unplugging a dock removes the cards added
  for it and no other, at most sixteen cards exist whatever is written to sysfs, and what adding
  and unplugging leaves in the slot table, whatever becomes of the probe; and a path that breaks
  the slot table, adding a card for a present USB device when all sixteen exist.
\<close>

section \<open>Matching\<close>

lemma match_usb_path_iff:
  assumes "k \<le> length addr"
  shows "match_usb_path addr u k \<longleftrightarrow>
    u \<noteq> [] \<and> k = length u \<and> k \<le> MAX_USB_ADDR \<and> take k addr = rev (map hop_port u)"
  using assms
proof (induction addr u k rule: match_usb_path.induct)
  case (3 addr h parents i)
  have t: "take (Suc i) addr = take i addr @ [addr ! i]"
    using 3(2) by (simp add: take_Suc_conv_app_nth)
  show ?case
  proof (cases "parents = []")
    case True
    with 3(2) t show ?thesis by (cases i) (auto simp: MAX_USB_ADDR_def)
  next
    case False
    with 3 show ?thesis by (auto simp: t)
  qed
qed auto

lemma find_usb_Some:
  assumes "find_usb addr devs = Some u"
  shows "u \<in> set devs \<and> usb_chain u = Some addr"
proof -
  from assms have "u \<in> set devs" "match_usb_path addr u (length addr)"
    by (auto simp: find_usb_def find_Some_iff)
  then show ?thesis by (auto simp: match_usb_path_iff usb_chain_def)
qed

text \<open>
  C10. A card is paired with the right dock: the device \<open>usb_for_each_dev\<close> stops at for a
  parsed address is one whose port numbers, from the root hub's bus number down, are exactly
  that address, and some such device is found whenever one of at most eight hops is present.
\<close>

theorem find_usb_exact:
  "case find_usb addr devs of
     Some u \<Rightarrow> u \<in> set devs \<and> rev (map hop_port u) = addr
   | None \<Rightarrow> {u \<in> set devs. u \<noteq> [] \<and> length u \<le> MAX_USB_ADDR \<and> rev (map hop_port u) = addr} = {}"
proof -
  have m: "match_usb_path addr u (length addr) \<longleftrightarrow>
      u \<noteq> [] \<and> length u \<le> MAX_USB_ADDR \<and> rev (map hop_port u) = addr" for u
    by (auto simp: match_usb_path_iff)
  show ?thesis
  proof (cases "find_usb addr devs")
    case None
    then have "\<forall>u \<in> set devs. \<not> match_usb_path addr u (length addr)"
      by (simp add: find_usb_def find_None_iff)
    with None show ?thesis by (auto simp: m)
  next
    case (Some u)
    then show ?thesis using find_usb_Some [of addr devs u] by (auto simp: usb_chain_def split: if_splits)
  qed
qed

section \<open>The slot table through the registry\<close>

text \<open>The device data of the cards whose probe succeeded.\<close>

definition bound_devs :: "card list \<Rightarrow> evdi_data list" where
  "bound_devs cs = map bd_dev (List.map_filter cd_dev cs)"

text \<open>\<open>gs\<close>: the device data of the probes that failed after claiming a slot.\<close>

definition reg_inv :: "registry \<Rightarrow> evdi_data list \<Rightarrow> bool" where
  "reg_inv rg gs = cards_inv (rg_slots rg) (bound_devs (rg_devices rg) @ gs)"

lemma bound_devs_simps [simp]:
  "bound_devs [] = []" "bound_devs (cs @ cs') = bound_devs cs @ bound_devs cs'"
  "bound_devs (c # cs) = (case cd_dev c of None \<Rightarrow> bound_devs cs | Some b \<Rightarrow> bd_dev b # bound_devs cs)"
  by (simp_all add: bound_devs_def List.map_filter_def split: option.split)

lemma reg_new_inv: "reg_inv registry_new []"
  using cards_reachable_inv [OF cards_init] by (simp add: reg_inv_def registry_new_def)

text \<open>What registering a device does to the slot table.\<close>

lemma register_cases:
  "register_device a sl =
     (case a of
        Refused e \<Rightarrow> (sl, Inl e)
      | Registered B \<Rightarrow>
          if pe_early B \<noteq> None then (sl, Inr None)
          else let sl' = fst (claim_pixel_rate_slot sl) in
            if is_ok (snd (bind_card B sl))
            then (sl', Inr (Some \<lparr>bd_dev = probe_connector (snd (evdi_data_new sl)), bd_i2c = is_ok (pe_i2c B)\<rparr>))
            else (sl', Inr None))"
  by (auto simp: register_device_def bind_card_def platform_probe_def evdi_data_new_def probe_def Let_def
      split: answer.splits option.splits prod.splits sum.splits bool.splits)

lemma slot_of_new: "ed_pixel_rate_slot (snd (evdi_data_new sl)) = snd (claim_pixel_rate_slot sl)"
  by (simp add: evdi_data_new_def split: prod.split)

lemma drop_cards_inv:
  "cards_inv sl (bound_devs (pre @ cs) @ gs) \<Longrightarrow>
     cards_inv (drop_cards sl (filter P cs)) (bound_devs (pre @ filter (\<lambda>c. \<not> P c) cs) @ gs)"
proof (induction cs arbitrary: pre sl)
  case (Cons c cs)
  show ?case
  proof (cases "P c")
    case True
    have "cards_inv (drop_card sl c) (bound_devs (pre @ cs) @ gs)"
      using cards_inv_unbind [of sl "bound_devs pre" _ "bound_devs cs @ gs"] Cons.prems
      by (auto simp: drop_card_def drop_bound_def split: option.splits)
    with Cons.IH [of "drop_card sl c" pre] True show ?thesis by (simp add: drop_cards_def)
  next
    case False
    with Cons.IH [of sl "pre @ [c]"] Cons.prems show ?thesis by simp
  qed
qed (simp add: drop_cards_def)

lemma remove_usb_inv: "reg_inv rg gs \<Longrightarrow> reg_inv (remove_usb u rg) gs"
  using drop_cards_inv [of "rg_slots rg" "[]" "rg_devices rg"]
  by (auto simp: remove_usb_def reg_inv_def split: option.splits)

lemma remove_all_inv: "reg_inv rg gs \<Longrightarrow> reg_inv (fst (store_remove_all rg)) gs"
  using drop_cards_inv [of "rg_slots rg" "[]" "rg_devices rg" gs "\<lambda>_. True"]
  by (simp add: store_remove_all_def reg_inv_def)

lemma add_generic_length:
  "add_generic ok n rg = (rg', r) \<Longrightarrow> length (rg_devices rg') \<le> length (rg_devices rg) + n"
  by (induction ok n rg arbitrary: rg' r rule: add_generic.induct)
    (fastforce split: sum.splits prod.splits)+

lemma add_usb_length:
  "add_usb_device devs ok link token rg = (rg', r) \<Longrightarrow> length (rg_devices rg) \<le> MAX_CARDS
    \<Longrightarrow> length (rg_devices rg') \<le> MAX_CARDS"
  by (auto simp: add_usb_device_def Let_def split: sum.splits option.splits if_splits prod.splits)

text \<open>The registry over time: whatever is written to the attributes, and any unplug events.\<close>

inductive reg_run :: "registry \<Rightarrow> bool" where
  run_new: "reg_run registry_new"
| run_add: "reg_run rg \<Longrightarrow> store_add devs ok link utf8 rg = (rg', r) \<Longrightarrow> reg_run rg'"
| run_remove_all: "reg_run rg \<Longrightarrow> reg_run (fst (store_remove_all rg))"
| run_unplug: "reg_run rg \<Longrightarrow> reg_run (usb_remove_notify b u rg)"

lemma store_add_length:
  assumes "store_add devs ok link utf8 rg = (rg', r)" "length (rg_devices rg) \<le> MAX_CARDS"
  shows "length (rg_devices rg') \<le> MAX_CARDS"
proof (cases utf8)
  case None
  with assms show ?thesis by (simp add: store_add_def)
next
  case (Some t)
  show ?thesis
  proof (cases "strip_prefix USB_PREFIX (trim t)")
    case None
    with assms Some show ?thesis
      using add_generic_length [of ok _ rg rg' r]
      by (fastforce simp: store_add_def Let_def split: option.splits if_splits)
  next
    case (Some rest)
    with assms \<open>utf8 = Some t\<close> show ?thesis
      using add_usb_length by (fastforce simp: store_add_def Let_def)
  qed
qed

text \<open>
  C19. No sequence of writes to \<open>add\<close> and \<open>remove_all\<close> and of unplug events, with any answers
  of the kernel along the way, ever leaves more than sixteen cards.
\<close>

theorem registry_bounded:
  assumes "reg_run rg"
  shows "length (rg_devices rg) \<le> MAX_CARDS"
  using assms
proof (induction rule: reg_run.induct)
  case (run_add rg devs ok link utf8 rg' r)
  then show ?case using store_add_length by blast
next
  case (run_unplug rg b u)
  have "length (filter P cs) \<le> MAX_CARDS" if "length cs \<le> MAX_CARDS" for P and cs :: "card list"
    using that length_filter_le [of P cs] by linarith
  with run_unplug show ?case
    by (auto simp: usb_remove_notify_def remove_usb_def split: option.splits)
qed (simp_all add: registry_new_def store_remove_all_def)

definition good_env :: probe_env where
  "good_env = \<lparr>pe_early = None, pe_kms = (\<lambda>_. True), pe_kms_err = ENOMEM, pe_reg = Inr (), pe_i2c = Inr ()\<rparr>"

theorem registry_bounded_witness:
  "\<exists>rg. reg_run rg \<and> length (rg_devices rg) = 2 \<and> length (rg_devices rg) \<le> MAX_CARDS"
proof -
  let ?s = "store_add [] (\<lambda>_. Registered good_env) (Inr ()) (Some [50, 10]) registry_new"
  obtain rg r where s: "?s = (rg, r)" by fastforce
  have run: "reg_run rg" by (rule run_add [OF run_new s])
  have t: "trim [50, 10] = [50]" by (simp add: trim_def is_ws_def)
  have "parse_u32 [50] = Some (Suc (Suc 0))" by (simp add: parse_u32_def)
  with t have "length (rg_devices (fst ?s)) = 2"
    by (simp add: store_add_def Let_def strip_prefix_def USB_PREFIX_def registry_new_def
        MAX_CARDS_def register_device_def split: prod.splits sum.splits)
  with s run registry_bounded [OF run] show ?thesis by auto
qed

text \<open>Adding a card for a USB device and unplugging it.\<close>

lemma add_usb_ok:
  assumes "add_usb_device devs ans link token rg = (rg', Inr ())"
  shows "\<exists>u addr sl d. parse_usb_token token = Inr addr \<and> u \<in> set devs \<and> usb_chain u = Some addr
    \<and> register_device ans (rg_slots rg) = (sl, Inr d)
    \<and> rg' = rg\<lparr>rg_slots := sl, rg_devices := rg_devices rg @ [\<lparr>cd_dev = d, cd_usb_addr = addr\<rparr>]\<rparr>"
  using assms find_usb_Some
  by (auto simp: add_usb_device_def Let_def split: sum.splits option.splits if_splits prod.splits)

definition free_slot :: "slots \<Rightarrow> nat option" where
  "free_slot sl = find (\<lambda>i. \<not> sl_in_use sl ! i) [0..<MAX_CARDS]"

lemma clear_free: "\<not> xs ! i \<Longrightarrow> xs[i := False] = xs"
  by (cases "i < length xs") (simp_all add: list_update_same_conv list_update_beyond)

lemma claim_and_drop:
  assumes "bd_dev b = probe_connector (snd (evdi_data_new sl))"
  shows "drop_card (fst (claim_pixel_rate_slot sl)) \<lparr>cd_dev = Some b, cd_usb_addr = addr\<rparr> =
    (case free_slot sl of
       Some i \<Rightarrow> sl\<lparr>sl_connected := (sl_connected sl)[i := False]\<rparr>
     | None \<Rightarrow> sl\<lparr>sl_connected := (sl_connected sl)[0 := False], sl_in_use := (sl_in_use sl)[0 := False]\<rparr>)"
proof (cases "free_slot sl")
  case None
  then show ?thesis
    using assms by (simp add: drop_card_def drop_bound_def shutdown_def slot_of_new claim_pixel_rate_slot_def
        free_slot_def)
next
  case (Some i)
  then have "\<not> sl_in_use sl ! i" by (auto simp: free_slot_def find_Some_iff)
  with Some show ?thesis
    using assms by (cases sl) (simp add: drop_card_def drop_bound_def shutdown_def slot_of_new claim_pixel_rate_slot_def
        free_slot_def clear_free)
qed

text \<open>
  C20. Adding a card for a USB device and unplugging that device: the removal takes away exactly the
  cards of its bus/port chain, those of earlier additions too, and keeps all others. When there was
  none before, the cards are what they were, and the slot table is known exactly, for every registry
  and whatever became of the probe. A card that was bound to a free slot gives it back. A probe that
  failed before its device data was built leaves the table alone. A probe that failed afterwards keeps
  its slot, which no unplugging gives back. And with no slot free, a bound card has shared
  slot 0, which unplugging takes from its owner.
\<close>

theorem unplug_undoes_add:
  assumes "add_usb_device devs ans link token rg = (rg', Inr ())"
  shows "\<exists>u addr B. u \<in> set devs \<and> parse_usb_token token = Inr addr \<and> usb_chain u = Some addr
    \<and> ans = Registered B
    \<and> rg_devices (remove_usb u rg') = filter (\<lambda>c. cd_usb_addr c \<noteq> addr) (rg_devices rg)
    \<and> ((\<forall>c \<in> set (rg_devices rg). cd_usb_addr c \<noteq> addr) \<longrightarrow>
        rg_devices (remove_usb u rg') = rg_devices rg
        \<and> rg_slots (remove_usb u rg') =
          (let sl = rg_slots rg; bound = is_ok (snd (bind_card B sl)) in
           case (pe_early B, free_slot sl) of
             (Some e, _) \<Rightarrow> sl
           | (None, Some i) \<Rightarrow>
               if bound then sl\<lparr>sl_connected := (sl_connected sl)[i := False]\<rparr>
               else sl\<lparr>sl_in_use := (sl_in_use sl)[i := True]\<rparr>
           | (None, None) \<Rightarrow>
               if bound then sl\<lparr>sl_connected := (sl_connected sl)[0 := False],
                                sl_in_use := (sl_in_use sl)[0 := False]\<rparr>
               else sl))"
proof -
  let ?sl = "rg_slots rg"
  obtain u addr sl d where p: "parse_usb_token token = Inr addr" "u \<in> set devs" "usb_chain u = Some addr"
    and reg: "register_device ans ?sl = (sl, Inr d)"
    and rg': "rg' = rg\<lparr>rg_slots := sl, rg_devices := rg_devices rg @ [\<lparr>cd_dev = d, cd_usb_addr = addr\<rparr>]\<rparr>"
    using add_usb_ok [OF assms] by blast
  obtain B where B: "ans = Registered B" using reg by (cases ans) (simp_all add: register_device_def)
  have "rg_slots (remove_usb u rg') = drop_card sl \<lparr>cd_dev = d, cd_usb_addr = addr\<rparr>"
    "rg_devices (remove_usb u rg') = rg_devices rg" if "\<forall>c \<in> set (rg_devices rg). cd_usb_addr c \<noteq> addr"
    using that p(3) by (simp_all add: remove_usb_def rg' drop_cards_def)
  moreover have "drop_card sl \<lparr>cd_dev = d, cd_usb_addr = addr\<rparr> =
     (let bound = is_ok (snd (bind_card B ?sl)) in
      case (pe_early B, free_slot ?sl) of
        (Some e, _) \<Rightarrow> ?sl
      | (None, Some i) \<Rightarrow>
          if bound then ?sl\<lparr>sl_connected := (sl_connected ?sl)[i := False]\<rparr>
          else ?sl\<lparr>sl_in_use := (sl_in_use ?sl)[i := True]\<rparr>
      | (None, None) \<Rightarrow>
          if bound then ?sl\<lparr>sl_connected := (sl_connected ?sl)[0 := False],
                           sl_in_use := (sl_in_use ?sl)[0 := False]\<rparr>
          else ?sl)"
  proof (cases "pe_early B = None \<and> is_ok (snd (bind_card B ?sl))")
    case True
    then show ?thesis
      using reg claim_and_drop [of _ ?sl addr]
      by (auto simp: register_cases B Let_def split: option.splits)
  next
    case False
    then show ?thesis
      using reg
      by (auto simp: register_cases B Let_def drop_card_def claim_pixel_rate_slot_def free_slot_def
          split: option.splits if_splits)
  qed
  moreover have "rg_devices (remove_usb u rg') = filter (\<lambda>c. cd_usb_addr c \<noteq> addr) (rg_devices rg)"
    by (simp add: remove_usb_def p(3) rg')
  ultimately show ?thesis using p B by (auto simp: Let_def)
qed

text \<open>A dock whose card cannot be registered with DRM costs a slot each time it is plugged in.\<close>

definition demo_docks :: "usb_device list" where
  "demo_docks = [[\<lparr>uh_portnum = 1, uh_busnum = 2\<rparr>, \<lparr>uh_portnum = 0, uh_busnum = 2\<rparr>]]"

definition bad_env :: probe_env where
  "bad_env = good_env\<lparr>pe_reg := Inl ENOMEM\<rparr>"

lemma demo_parse:
  "parse_usb_token [50, 45, 49] = Inr [2, Suc 0]" "find_usb [2, Suc 0] demo_docks = Some (hd demo_docks)"
  by (simp add: parse_usb_token_def parse_u32_def MAX_USB_ADDR_def)
    (simp add: find_usb_def demo_docks_def hop_port_def MAX_USB_ADDR_def numeral_2_eq_2)

lemma demo_bind:
  "pe_early bad_env = None" "\<not> is_ok (snd (bind_card bad_env slots_init))" "free_slot slots_init = Some 0"
  by code_simp+

lemma demo_add:
  "\<exists>rg'. add_usb_device demo_docks (Registered bad_env) (Inr ()) [50, 45, 49] registry_new = (rg', Inr ())"
  by (simp add: add_usb_device_def demo_parse register_cases demo_bind registry_new_def Let_def MAX_CARDS_def)

theorem unplug_undoes_add_witness:
  "\<exists>rg' u. add_usb_device demo_docks (Registered bad_env) (Inr ()) [50, 45, 49] registry_new = (rg', Inr ())
    \<and> rg_devices (remove_usb u rg') = [] \<and> sl_in_use (rg_slots (remove_usb u rg')) ! 0"
proof -
  obtain rg' where a: "add_usb_device demo_docks (Registered bad_env) (Inr ()) [50, 45, 49] registry_new = (rg', Inr ())"
    using demo_add by blast
  from unplug_undoes_add [OF a] obtain u where
    "rg_devices (remove_usb u rg') = []"
    "rg_slots (remove_usb u rg') =
      slots_init\<lparr>sl_in_use := (sl_in_use slots_init)[0 := True]\<rparr>"
    by (auto simp: demo_bind Let_def registry_new_def)
  with a show ?thesis by (intro exI [of _ rg'] exI [of _ u]) (simp add: slots_init_def MAX_CARDS_def)
qed

section \<open>The seventeenth card\<close>

lemma full_all_in_use:
  assumes "cards_inv sl ds" "length ds = MAX_CARDS"
  shows "\<forall>j < MAX_CARDS. sl_in_use sl ! j"
proof -
  have "card (set (slots_of ds)) = MAX_CARDS"
    using assms distinct_card [of "slots_of ds"] by (simp add: cards_inv_def slots_of_def)
  moreover have "set (slots_of ds) \<subseteq> {..<MAX_CARDS}"
    using assms(1) by (auto simp: cards_inv_def)
  ultimately have "set (slots_of ds) = {..<MAX_CARDS}"
    by (intro card_subset_eq) auto
  with assms(1) show ?thesis by (auto simp: cards_inv_def)
qed

text \<open>
  Asking for a card on a present USB device when all sixteen exist fails with \<open>EINVAL\<close> and
  keeps the cards, but not the slot table: the platform device is registered before the count
  is checked, its probe finds no free slot and shares slot 0, and dropping it releases slot 0
  while the card that owns it is alive. That head no longer counts against the shared pixel
  budget, and its slot will be claimed a second time.
\<close>

theorem seventeenth_card_frees_slot:
  assumes "reg_inv rg []" "length (bound_devs (rg_devices rg)) = MAX_CARDS" "MAX_CARDS \<le> length (rg_devices rg)"
    "parse_usb_token token = Inr addr" "find_usb addr devs = Some u"
    "pe_early B = None" "is_ok (snd (bind_card B (rg_slots rg)))"
  shows "\<exists>rg'. add_usb_device devs (Registered B) (Inr ()) token rg = (rg', Inl EINVAL) \<and>
    rg_devices rg' = rg_devices rg \<and> 0 \<in> set (slots_of (bound_devs (rg_devices rg'))) \<and>
    \<not> sl_in_use (rg_slots rg') ! 0 \<and> snd (claim_pixel_rate_slot (rg_slots rg')) = 0 \<and> \<not> reg_inv rg' gs"
proof -
  let ?sl = "rg_slots rg"
  have inv: "cards_inv ?sl (bound_devs (rg_devices rg))" using assms(1) by (simp add: reg_inv_def)
  have full: "\<forall>j < MAX_CARDS. sl_in_use ?sl ! j" using full_all_in_use [OF inv assms(2)] .
  then have f: "free_slot ?sl = None" by (auto simp: free_slot_def find_None_iff)
  define b where "b = \<lparr>bd_dev = probe_connector (snd (evdi_data_new ?sl)), bd_i2c = is_ok (pe_i2c B)\<rparr>"
  define rg' where "rg' = rg\<lparr>rg_slots := ?sl\<lparr>sl_connected := (sl_connected ?sl)[0 := False],
    sl_in_use := (sl_in_use ?sl)[0 := False]\<rparr>\<rparr>"
  have reg: "register_device (Registered B) ?sl = (fst (claim_pixel_rate_slot ?sl), Inr (Some b))"
    using assms(6,7) by (simp add: register_cases b_def Let_def)
  have add: "add_usb_device devs (Registered B) (Inr ()) token rg = (rg', Inl EINVAL)"
    using assms(3-5) claim_and_drop [of b ?sl addr] f
    by (simp add: add_usb_device_def reg Let_def rg'_def b_def)
  have len: "length (sl_in_use ?sl) = MAX_CARDS" using inv by (auto simp: cards_inv_def slots_wf_def)
  then have z: "\<not> sl_in_use (rg_slots rg') ! 0" by (simp add: rg'_def MAX_CARDS_def)
  have c: "0 \<in> set (slots_of (bound_devs (rg_devices rg')))"
    using inv full by (simp add: cards_inv_def rg'_def MAX_CARDS_def)
  then have "\<not> reg_inv rg' gs"
    using z by (auto simp: reg_inv_def cards_inv_def slots_of_append)
  moreover have "snd (claim_pixel_rate_slot (rg_slots rg')) = 0"
  proof -
    have "find (\<lambda>i. \<not> sl_in_use (rg_slots rg') ! i) [0..<MAX_CARDS] = Some 0"
      using z by (simp add: find_upt_Some_iff MAX_CARDS_def)
    then show ?thesis by (simp add: claim_pixel_rate_slot_def)
  qed
  ultimately show ?thesis using add z c by (intro exI [of _ rg']) (simp add: rg'_def)
qed

text \<open>Sixteen generic cards.\<close>

lemma add_generic_good:
  "reg_inv rg [] \<Longrightarrow> length (bound_devs (rg_devices rg)) = length (rg_devices rg)
    \<Longrightarrow> length (rg_devices rg) + n \<le> MAX_CARDS \<Longrightarrow> add_generic (\<lambda>_. Registered good_env) n rg = (rg', r)
    \<Longrightarrow> reg_inv rg' [] \<and> length (bound_devs (rg_devices rg')) = length (rg_devices rg')
        \<and> length (rg_devices rg') = length (rg_devices rg) + n"
proof (induction n arbitrary: rg)
  case (Suc n)
  let ?sl = "rg_slots rg"
  obtain sl d where d: "evdi_data_new ?sl = (sl, d)" by fastforce
  have ok: "is_ok (snd (bind_card good_env ?sl))"
    using probe_complete [of "\<lambda>_. True" d] probe_stores_connector [of "\<lambda>_. True" d]
    by (simp add: bind_card_def platform_probe_def good_env_def d list_all_iff)
  have sl: "fst (claim_pixel_rate_slot ?sl) = sl"
    using d by (simp add: evdi_data_new_def split: prod.splits)
  define b where "b = \<lparr>bd_dev = probe_connector d, bd_i2c = is_ok (pe_i2c good_env)\<rparr>"
  define rg1 where "rg1 = rg\<lparr>rg_slots := sl, rg_devices := rg_devices rg @ [\<lparr>cd_dev = Some b, cd_usb_addr = []\<rparr>]\<rparr>"
  have "register_device (Registered good_env) ?sl = (sl, Inr (Some b))"
    using ok by (simp add: register_cases sl b_def d Let_def) (simp add: good_env_def)
  then have step: "add_generic (\<lambda>_. Registered good_env) n rg1 = (rg', r)"
    using Suc.prems(4) by (simp add: rg1_def)
  have "cards_inv sl (d # bound_devs (rg_devices rg))"
    using cards_inv_probe [OF _ _ d] Suc.prems by (simp add: reg_inv_def)
  then have "reg_inv rg1 []" by (simp add: reg_inv_def rg1_def b_def cards_inv_def slots_of_def)
  from Suc.IH [OF this _ _ step] Suc.prems(2,3) show ?case by (simp add: rg1_def)
qed simp

theorem seventeenth_card_frees_slot_witness:
  "\<exists>rg rg'. length (rg_devices rg) = MAX_CARDS \<and> reg_inv rg [] \<and> \<not> reg_inv rg' [] \<and>
    add_usb_device demo_docks (Registered good_env) (Inr ()) [50, 45, 49] rg = (rg', Inl EINVAL)"
proof -
  obtain rg r where a: "add_generic (\<lambda>_. Registered good_env) MAX_CARDS registry_new = (rg, r)" by fastforce
  from add_generic_good [OF reg_new_inv _ _ a] have rg: "reg_inv rg []" "length (rg_devices rg) = MAX_CARDS"
    "length (bound_devs (rg_devices rg)) = MAX_CARDS" by (simp_all add: registry_new_def)
  moreover have "is_ok (snd (bind_card good_env (rg_slots rg)))"
    using probe_complete [of "\<lambda>_. True"] probe_stores_connector [of "\<lambda>_. True"]
    by (simp add: bind_card_def platform_probe_def good_env_def list_all_iff split: prod.split)
  moreover have "pe_early good_env = None" by (simp add: good_env_def)
  ultimately show ?thesis
    using seventeenth_card_frees_slot [of rg "[50, 45, 49]" "[2, Suc 0]" demo_docks _ good_env "[]"] demo_parse by auto
qed

end
