(* ===== verification/RawRl.thy ===== *)
theory RawRl
  imports Prelude
begin

text \<open>
  The mode-2 (raw / run-length) video encoder of \<open>chimera/vino/video.rs\<close>: packed RGB565 blocks
  against a shadow of the previous frame. The output is the list of slices the code appends, in
  order; appending fails with \<open>ENOMEM\<close> past a capacity, as the kernel's \<open>KVec\<close> does. A decoder
  of the block stream, written from the format, is the specification.
\<close>

definition MAGIC_RAW16 :: u16 where "MAGIC_RAW16 = 0x68af"
definition MAGIC_RLE16 :: u16 where "MAGIC_RLE16 = 0x69af"
definition FRAME_INIT :: bytes where "FRAME_INIT = [0xaf, 0x40, 0x04, 0xaf, 0x40, 0x08]"
definition SYNC :: bytes where "SYNC = [0xaf, 0xa0]"
definition SECTION_CODE :: bytes where
  "SECTION_CODE = [0x01, 0x00, 0x03, 0x00, 0x05, 0x07, 0x07]"
definition MAX_BLOCK_PIXELS :: nat where "MAX_BLOCK_PIXELS = 256"

datatype rl_mode = Raw | Rle | Adaptive

fun mode_index :: "rl_mode \<Rightarrow> nat" where
  "mode_index Raw = 0" | "mode_index Rle = 1" | "mode_index Adaptive = 2"

definition rgb565 :: "u8 \<Rightarrow> u8 \<Rightarrow> u8 \<Rightarrow> u16" where
  "rgb565 r g b =
     push_bit 11 (drop_bit 3 (ucast r)) OR push_bit 5 (drop_bit 2 (ucast g)) OR drop_bit 3 (ucast b)"

definition block_header :: "u16 \<Rightarrow> u32 \<Rightarrow> nat \<Rightarrow> bytes" where
  "block_header magic coord cnt =
     le16 magic @ [ucast (drop_bit 16 coord AND 0xff), ucast (drop_bit 8 coord AND 0xff),
                   ucast (coord AND 0xff), of_nat cnt]"

definition encode_raw :: "u32 \<Rightarrow> u16 list \<Rightarrow> bytes list" where
  "encode_raw coord pix = block_header MAGIC_RAW16 coord (length pix) # map be16 pix"

text \<open>One round of the run loop: up to 255 equal pixels, then the rest.\<close>

fun rle_runs :: "u16 list \<Rightarrow> bytes list" where
  "rle_runs [] = []"
| "rle_runs (v # vs) =
     (let run = 1 + length (takeWhile (\<lambda>p. p = v) (take 254 vs))
      in [of_nat run] # be16 v # rle_runs (drop (run - 1) vs))"

definition encode_rle :: "u32 \<Rightarrow> u16 list \<Rightarrow> bytes list" where
  "encode_rle coord pix = block_header MAGIC_RLE16 coord (length pix) # rle_runs pix"

function run_count :: "u16 list \<Rightarrow> nat" where
  "run_count [] = 0"
| "run_count (v # vs) = 1 + run_count (dropWhile (\<lambda>p. p = v) vs)"
  by pat_completeness auto
termination
  by (relation "measure length") (auto simp: length_dropWhile_le le_imp_less_Suc)

definition encode_run :: "rl_mode \<Rightarrow> u32 \<Rightarrow> u16 list \<Rightarrow> bytes list" where
  "encode_run m coord pix =
     (case m of
        Raw \<Rightarrow> encode_raw coord pix
      | Rle \<Rightarrow> encode_rle coord pix
      | Adaptive \<Rightarrow>
          let l = length pix; c = run_count pix
          in if 2 * l < 3 * c + 1 then encode_raw coord pix else encode_rle coord pix)"

record encoder =
  en_width :: nat
  en_height :: nat
  en_mode :: rl_mode
  en_shadow :: "u16 list"

definition encoder_new :: "nat \<Rightarrow> nat \<Rightarrow> rl_mode \<Rightarrow> encoder" where
  "encoder_new w h m =
     \<lparr>en_width = w, en_height = h, en_mode = m, en_shadow = replicate (w * h) 0\<rparr>"

text \<open>The changed runs of one row: the two inner \<open>while\<close> loops over \<open>x\<close>.\<close>

function run_end :: "(nat \<Rightarrow> bool) \<Rightarrow> nat \<Rightarrow> nat \<Rightarrow> nat" where
  "run_end changed w x = (if x < w \<and> changed x then run_end changed w (x + 1) else x)"
  by pat_completeness auto
termination by (relation "measure (\<lambda>(_, w, x). w - x)") auto

declare run_end.simps [simp del]

lemma run_end_ge: "x \<le> run_end changed w x"
proof (induction changed w x rule: run_end.induct)
  case (1 changed w x)
  then show ?case
    by (cases "x < w \<and> changed x") (auto simp: run_end.simps [of changed w x])
qed

lemma run_end_gt: "x < w \<Longrightarrow> changed x \<Longrightarrow> x < run_end changed w x"
  using run_end_ge [of "x + 1" changed w] by (simp add: run_end.simps [of changed w x])

function row_runs :: "(nat \<Rightarrow> bool) \<Rightarrow> nat \<Rightarrow> nat \<Rightarrow> (nat \<times> nat) list" where
  "row_runs changed w x =
     (if x < w
      then if \<not> changed x then row_runs changed w (x + 1)
           else (let e = run_end changed w x in (x, e) # row_runs changed w e)
      else [])"
  by pat_completeness auto
termination
  by (relation "measure (\<lambda>(_, w, x). w - x)") (auto intro!: diff_less_mono2 run_end_gt)

declare row_runs.simps [simp del]

text \<open>A run in blocks of at most 256 pixels: start and length.\<close>

function run_blocks :: "nat \<Rightarrow> nat \<Rightarrow> (nat \<times> nat) list" where
  "run_blocks p e =
     (if p < e
      then (let n = min (e - p) MAX_BLOCK_PIXELS in (p, n) # run_blocks (p + n) e)
      else [])"
  by pat_completeness auto
termination
  by (relation "measure (\<lambda>(p, e). e - p)") (auto simp: MAX_BLOCK_PIXELS_def)

declare run_blocks.simps [simp del]

text \<open>All the blocks of a frame, as absolute pixel ranges.\<close>

definition frame_blocks :: "encoder \<Rightarrow> u16 list \<Rightarrow> (nat \<times> nat) list" where
  "frame_blocks en cur =
     concat (map (\<lambda>y.
       let row = y * en_width en
       in concat (map (\<lambda>(s, e). map (\<lambda>(p, n). (row + p, n)) (run_blocks s e))
            (row_runs (\<lambda>x. cur ! (row + x) \<noteq> en_shadow en ! (row + x)) (en_width en) 0)))
       [0..<en_height en])"

definition block_coord :: "nat \<Rightarrow> u32" where
  "block_coord i = of_nat (i * 2) AND 0xffffff"

definition frame_pieces :: "encoder \<Rightarrow> u16 list \<Rightarrow> bytes list" where
  "frame_pieces en cur =
     [FRAME_INIT]
     @ concat (map (\<lambda>(i, n). encode_run (en_mode en) (block_coord i) (slice i n cur))
                 (frame_blocks en cur))
     @ (let code = SECTION_CODE ! min (mode_index (en_mode en)) (length SECTION_CODE - 1)
        in [SYNC, [0xaf, 0x20, 0x1f, code], [0xaf, 0x20, 0xff, 0x00], SYNC])"

text \<open>\<open>extend_from_slice\<close> on a vector that may grow to \<open>cap\<close> bytes, and a sequence of them.\<close>

definition extend :: "nat \<Rightarrow> bytes \<Rightarrow> bytes \<Rightarrow> bytes res" where
  "extend cap out xs = (if length out + length xs \<le> cap then Inr (out @ xs) else Inl ENOMEM)"

fun extend_all :: "nat \<Rightarrow> bytes \<Rightarrow> bytes list \<Rightarrow> bytes res" where
  "extend_all cap out [] = Inr out"
| "extend_all cap out (x # xs) = bindR (extend cap out x) (\<lambda>out. extend_all cap out xs)"

text \<open>
  \<open>Encoder::encode_into\<close>. The row loop reads every \<open>cur[row + x]\<close>, so a \<open>cur\<close> shorter than the
  screen panics (if the output has not run out of room before).
\<close>

definition encode_into :: "nat \<Rightarrow> u16 list \<Rightarrow> bytes \<Rightarrow> encoder \<Rightarrow> encoder \<times> bytes res" where
  "encode_into cap cur out en =
     (if length cur < en_width en * en_height en then (en, Inl Panic)
      else case extend_all cap out (frame_pieces en cur) of
        Inl e \<Rightarrow> (en, Inl e)
      | Inr s \<Rightarrow> (en\<lparr>en_shadow := take (length (en_shadow en)) cur\<rparr>, Inr s))"

definition encode :: "nat \<Rightarrow> u16 list \<Rightarrow> encoder \<Rightarrow> encoder \<times> bytes res" where
  "encode cap cur en = encode_into cap cur [] en"

section \<open>The decoder (specification)\<close>

fun dec_raw :: "nat \<Rightarrow> bytes \<Rightarrow> (u16 list \<times> bytes) option" where
  "dec_raw 0 bs = Some ([], bs)"
| "dec_raw (Suc n) (a # b # bs) = map_option (\<lambda>(ps, r). (of_le16 b a # ps, r)) (dec_raw n bs)"
| "dec_raw (Suc n) _ = None"

fun dec_rle :: "nat \<Rightarrow> bytes \<Rightarrow> (u16 list \<times> bytes) option" where
  "dec_rle n bs =
     (if n = 0 then Some ([], bs)
      else case bs of
             r # a # b # bs' \<Rightarrow>
               let run = unat r
               in if run = 0 \<or> n < run then None
                  else map_option (\<lambda>(ps, r). (replicate run (of_le16 b a) @ ps, r))
                         (dec_rle (n - run) bs')
           | _ \<Rightarrow> None)"

declare dec_rle.simps [simp del]

text \<open>Blocks until the first \<open>SYNC\<close>; a block count of 0 means 256. Each block uses one unit of
  fuel; the length of the input is always enough.\<close>

fun dec_blocks :: "nat \<Rightarrow> bytes \<Rightarrow> u16 list \<Rightarrow> (u16 list \<times> bytes) option" where
  "dec_blocks 0 bs fb = None"
| "dec_blocks (Suc f) bs fb =
     (if take 2 bs = SYNC then Some (fb, drop 2 bs)
      else case bs of
             m0 # m1 # c2 # c1 # c0 # k # bs' \<Rightarrow>
               let i = (unat c2 * 65536 + unat c1 * 256 + unat c0) div 2;
                   n = (if k = 0 then 256 else unat k);
                   body = (if of_le16 m0 m1 = MAGIC_RAW16 then dec_raw n bs'
                           else if of_le16 m0 m1 = MAGIC_RLE16 then dec_rle n bs' else None)
               in (case body of
                     None \<Rightarrow> None
                   | Some (ps, rest) \<Rightarrow>
                       if i + length ps \<le> length fb then dec_blocks f rest (put i ps fb) else None)
           | _ \<Rightarrow> None)"

definition decode_frame :: "u16 list \<Rightarrow> bytes \<Rightarrow> (u16 list \<times> bytes) option" where
  "decode_frame fb bs =
     (if take 6 bs = FRAME_INIT then dec_blocks (length bs) (drop 6 bs) fb else None)"

section \<open>Blocks decode\<close>

lemma extend_all_eq:
  "length out \<le> cap \<Longrightarrow> extend_all cap out xs =
     (if length out + length (concat xs) \<le> cap then Inr (out @ concat xs) else Inl ENOMEM)"
  by (induction xs arbitrary: out) (auto simp: extend_def)

lemma of_be16: "be16 v = [a, b] \<Longrightarrow> of_le16 b a = v"
  by (auto simp: be16_def le16_def of_le16_le16)

lemma be16_bytes: "be16 v = [ucast (drop_bit 8 v), ucast v]"
  by (simp add: be16_def le16_def)

lemma dec_raw_ok: "dec_raw (length pix) (concat (map be16 pix) @ rest) = Some (pix, rest)"
  by (induction pix) (simp_all add: be16_bytes of_le16_le16)

lemma takeWhile_replicate:
  "takeWhile (\<lambda>p. p = v) xs = replicate (length (takeWhile (\<lambda>p. p = v) xs)) v"
  by (induction xs) auto

lemma dec_rle_ok: "dec_rle (length pix) (concat (rle_runs pix) @ rest) = Some (pix, rest)"
proof (induction pix rule: rle_runs.induct)
  case 1
  show ?case by (simp add: dec_rle.simps)
next
  case (2 v vs)
  define k where "k = length (takeWhile (\<lambda>p. p = v) (take 254 vs))"
  have k: "k \<le> length vs" "k \<le> 254"
    using length_takeWhile_le [of "\<lambda>p. p = v" "take 254 vs"] by (auto simp: k_def)
  have u: "unat (of_nat (Suc k) :: u8) = Suc k"
    using k by (intro unat_of_nat8) simp
  have "take k vs = takeWhile (\<lambda>p. p = v) (take 254 vs)"
    using takeWhile_eq_take [of "\<lambda>p. p = v" "take 254 vs"] k by (simp add: k_def min_def)
  then have tk: "replicate k v = take k vs"
    using takeWhile_replicate [of v "take 254 vs"] by (simp add: k_def)
  have IH: "dec_rle (length vs - k) (concat (rle_runs (drop k vs)) @ rest) = Some (drop k vs, rest)"
    using 2 [OF refl] by (simp add: k_def)
  have r: "rle_runs (v # vs) = [of_nat (Suc k)] # be16 v # rle_runs (drop k vs)"
    by (simp add: Let_def k_def)
  have "dec_rle (Suc (length vs)) ((of_nat (Suc k) :: u8) # be16 v @ concat (rle_runs (drop k vs)) @ rest)
      = Some (v # take k vs @ drop k vs, rest)"
    using k u IH tk
    by (simp add: dec_rle.simps [of "Suc (length vs)"] be16_bytes of_le16_le16 Let_def)
  then show ?case
    by (simp del: rle_runs.simps of_nat_Suc add: r)
qed

lemma unat_ucast8: "unat (ucast (x :: u32) :: u8) = unat x mod 256"
  by (simp add: unsigned_ucast_eq take_bit_eq_mod)

lemma ucast_ff: "(ucast (x AND 0xff) :: u8) = ucast (x :: u32)"
proof -
  have "x AND 0xff = take_bit 8 x" by (simp add: take_bit_eq_mask mask_eq_exp_minus_1)
  then show ?thesis
    by (simp add: word_unat_eq_iff unat_ucast8 take_bit_eq_mod unat_mod)
qed

lemma unat_drop_bit: "unat (drop_bit k (w :: u32)) = unat w div 2 ^ k"
proof -
  have "take_bit 32 (unat w) = unat w"
    using unsigned_less [of w, where 'a = nat] by (simp add: take_bit_nat_eq_self)
  then show ?thesis unfolding unsigned_drop_bit_eq by (simp add: drop_bit_eq_div)
qed

lemma three_bytes:
  assumes "n < 2 ^ 24"
  shows "n div 2 ^ 16 mod 256 * 65536 + n div 2 ^ 8 mod 256 * 256 + n mod 256 = (n :: nat)"
proof -
  define h where "h = n div 65536"
  define l where "l = n mod 65536"
  have n: "n = h * 65536 + l" by (simp add: h_def l_def)
  have "h < 256" "l < 65536" using assms by (simp_all add: h_def l_def less_mult_imp_div_less)
  have "n div 256 = h * 256 + l div 256" unfolding n by simp
  moreover have "l div 256 < 256" using \<open>l < 65536\<close> by simp
  ultimately have "n div 256 mod 256 = l div 256" by simp
  moreover have "n mod 256 = l mod 256" unfolding n by (simp add: mod_add_left_eq [symmetric])
  moreover have "n div 65536 mod 256 = h" using \<open>h < 256\<close> by (simp add: h_def)
  ultimately show ?thesis by (simp add: n)
qed

lemma coord_bytes:
  assumes "i * 2 < 2 ^ 24"
  shows "(unat (ucast (drop_bit 16 (block_coord i) AND 0xff) :: u8) * 65536 +
     unat (ucast (drop_bit 8 (block_coord i) AND 0xff) :: u8) * 256 +
     unat (ucast (block_coord i AND 0xff) :: u8)) div 2 = i"
proof -
  have "block_coord i = take_bit 24 (of_nat (i * 2))"
    by (simp add: block_coord_def take_bit_eq_mask mask_eq_exp_minus_1)
  then have "unat (block_coord i) = i * 2"
    using assms by (simp add: unat_of_nat take_bit_eq_mod unat_mod del: of_nat_mult)
  then have "unat (drop_bit 16 (block_coord i)) = i * 2 div 2 ^ 16"
    "unat (drop_bit 8 (block_coord i)) = i * 2 div 2 ^ 8" "unat (block_coord i) = i * 2"
    by (simp_all only: unat_drop_bit)
  then have "(unat (ucast (drop_bit 16 (block_coord i) AND 0xff) :: u8) * 65536 +
     unat (ucast (drop_bit 8 (block_coord i) AND 0xff) :: u8) * 256 +
     unat (ucast (block_coord i AND 0xff) :: u8)) = i * 2"
    unfolding ucast_ff unat_ucast8 by (simp only: three_bytes [OF assms])
  then show ?thesis by simp
qed

lemma dec_block_step:
  assumes "i * 2 < 2 ^ 24" "0 < n" "n \<le> 256" "length pix = n" "i + n \<le> length fb"
  shows "dec_blocks (Suc f) (concat (encode_run m (block_coord i) pix) @ rest) fb =
    dec_blocks f rest (put i pix fb)"
proof -
  have k: "(if (of_nat n :: u8) = 0 then 256 else unat (of_nat n :: u8)) = n"
  proof (cases "n = 256")
    case False
    then have "unat (of_nat n :: u8) = n" using assms(3) by (intro unat_of_nat8) simp
    with assms(2) show ?thesis by (metis unat_eq_0 not_gr_zero)
  qed simp
  have raw: "dec_blocks (Suc f) (concat (encode_raw (block_coord i) pix) @ rest) fb =
      dec_blocks f rest (put i pix fb)"
    using k assms(4,5) coord_bytes [OF assms(1)] dec_raw_ok [of pix rest]
    by (simp add: encode_raw_def block_header_def SYNC_def MAGIC_RAW16_def le16_def of_le16_def)
  have rle: "dec_blocks (Suc f) (concat (encode_rle (block_coord i) pix) @ rest) fb =
      dec_blocks f rest (put i pix fb)"
    using k assms(4,5) coord_bytes [OF assms(1)] dec_rle_ok [of pix rest]
    by (simp add: encode_rle_def block_header_def SYNC_def MAGIC_RAW16_def MAGIC_RLE16_def
        le16_def of_le16_def)
  show ?thesis
    using raw rle by (cases m) (simp_all add: encode_run_def Let_def del: dec_blocks.simps)
qed


section \<open>The blocks of a frame\<close>

lemma run_end_spec:
  assumes "x \<le> w"
  shows "x \<le> run_end changed w x \<and> run_end changed w x \<le> w
    \<and> (\<forall>i. x \<le> i \<and> i < run_end changed w x \<longrightarrow> changed i)"
  using assms
proof (induction changed w x rule: run_end.induct)
  case (1 changed w x)
  show ?case
  proof (cases "x < w \<and> changed x")
    case True
    with 1 have "x + 1 \<le> run_end changed w (x + 1) \<and> run_end changed w (x + 1) \<le> w
      \<and> (\<forall>i. x + 1 \<le> i \<and> i < run_end changed w (x + 1) \<longrightarrow> changed i)" by simp
    moreover have "changed i" if "x \<le> i" "i < run_end changed w (x + 1)" for i
      using that True calculation by (cases "i = x") auto
    ultimately show ?thesis using True by (simp add: run_end.simps [of changed w x])
  next
    case False
    with 1 show ?thesis by (auto simp: run_end.simps [of changed w x])
  qed
qed

lemma row_runs_inside:
  "(s, e) \<in> set (row_runs changed w x) \<Longrightarrow> x \<le> s \<and> s < e \<and> e \<le> w \<and> (\<forall>i. s \<le> i \<and> i < e \<longrightarrow> changed i)"
proof (induction changed w x rule: row_runs.induct)
  case (1 changed w x)
  note IH = "1.IH" and mem = "1.prems"
  show ?case
  proof (cases "x < w \<and> changed x")
    case True
    define e' where "e' = run_end changed w x"
    have e': "x < e'" "e' \<le> w" "\<forall>i. x \<le> i \<and> i < e' \<longrightarrow> changed i"
      using run_end_spec [of x w changed] run_end_gt [of x w changed] True by (auto simp: e'_def)
    have "(s, e) = (x, e') \<or> (s, e) \<in> set (row_runs changed w e')"
      using mem True by (simp add: row_runs.simps [of changed w x] Let_def e'_def)
    then show ?thesis
      using IH(2) [OF _ _ e'_def] True e' by fastforce
  next
    case False
    then have "x < w" "\<not> changed x" "(s, e) \<in> set (row_runs changed w (x + 1))"
      using mem by (auto simp: row_runs.simps [of changed w x] split: if_splits)
    then show ?thesis using IH(1) by fastforce
  qed
qed

lemma row_runs_cover:
  "x \<le> i \<Longrightarrow> i < w \<Longrightarrow> changed i \<Longrightarrow> \<exists>(s, e) \<in> set (row_runs changed w x). s \<le> i \<and> i < e"
proof (induction changed w x rule: row_runs.induct)
  case (1 changed w x)
  then have xw: "x < w" by simp
  show ?case
  proof (cases "changed x")
    case True
    define e' where "e' = run_end changed w x"
    have rr: "row_runs changed w x = (x, e') # row_runs changed w e'"
      using xw True by (simp add: row_runs.simps [of changed w x] Let_def e'_def)
    show ?thesis
      using 1(2) [OF xw _ e'_def] 1 True by (cases "i < e'") (auto simp: rr)
  next
    case False
    then have "x + 1 \<le> i" using 1 by (cases "i = x") auto
    then show ?thesis using 1 False xw by (simp add: row_runs.simps [of changed w x])
  qed
qed

lemma run_blocks_inside:
  "(q, n) \<in> set (run_blocks p e) \<Longrightarrow> p \<le> q \<and> q + n \<le> e \<and> 0 < n \<and> n \<le> 256"
proof (induction p e rule: run_blocks.induct)
  case (1 p e)
  define k where "k = min (e - p) MAX_BLOCK_PIXELS"
  have pe: "p < e" using 1(2) by (simp add: run_blocks.simps [of p e] split: if_splits)
  then have rb: "run_blocks p e = (p, k) # run_blocks (p + k) e"
    by (simp add: run_blocks.simps [of p e] Let_def k_def)
  have k: "0 < k" "k \<le> 256" "p + k \<le> e" using pe by (auto simp: k_def MAX_BLOCK_PIXELS_def)
  show ?case
  proof (cases "(q, n) = (p, k)")
    case True
    with k show ?thesis by simp
  next
    case False
    then have "(q, n) \<in> set (run_blocks (p + k) e)" using 1(2) rb by auto
    from 1(1) [OF pe k_def this] show ?thesis using k by simp
  qed
qed

lemma run_blocks_cover:
  "p \<le> i \<Longrightarrow> i < e \<Longrightarrow> \<exists>(q, n) \<in> set (run_blocks p e). q \<le> i \<and> i < q + n"
proof (induction p e rule: run_blocks.induct)
  case (1 p e)
  define k where "k = min (e - p) MAX_BLOCK_PIXELS"
  have pe: "p < e" using 1 by simp
  then have rb: "run_blocks p e = (p, k) # run_blocks (p + k) e"
    by (simp add: run_blocks.simps [of p e] Let_def k_def)
  show ?case
    using 1(1) [OF pe k_def] 1(2,3) by (cases "i < p + k") (auto simp: rb)
qed

definition in_blocks :: "nat \<Rightarrow> (nat \<times> nat) list \<Rightarrow> bool" where
  "in_blocks j bs \<longleftrightarrow> (\<exists>(i, n) \<in> set bs. i \<le> j \<and> j < i + n)"

lemma frame_blocksE:
  assumes "(i, n) \<in> set (frame_blocks en cur)"
  obtains y s e p where "y < en_height en" "i = y * en_width en + p"
    "(s, e) \<in> set (row_runs (\<lambda>x. cur ! (y * en_width en + x) \<noteq> en_shadow en ! (y * en_width en + x))
       (en_width en) 0)"
    "(p, n) \<in> set (run_blocks s e)"
  using assms by (auto simp: frame_blocks_def Let_def)

lemma in_concat_mapI: "y \<in> set xs \<Longrightarrow> x \<in> set (f y) \<Longrightarrow> x \<in> set (concat (map f xs))"
  by auto

lemma frame_blocksI:
  assumes "y < en_height en" "(p, n) \<in> set (run_blocks s e)"
    "(s, e) \<in> set (row_runs (\<lambda>x. cur ! (y * en_width en + x) \<noteq> en_shadow en ! (y * en_width en + x))
       (en_width en) 0)"
  shows "(y * en_width en + p, n) \<in> set (frame_blocks en cur)"
proof -
  have "(y * en_width en + p, n) \<in>
      set (map (\<lambda>(p, n). (y * en_width en + p, n)) (run_blocks s e))"
    using assms(2) by (metis (mono_tags, lifting) case_prod_conv image_eqI set_map)
  then show ?thesis
    unfolding frame_blocks_def Let_def using assms(1,3)
    by (intro in_concat_mapI [of y] in_concat_mapI [of "(s, e)"]) simp_all
qed

lemma row_bound: "y < h \<Longrightarrow> y * w + w \<le> w * (h :: nat)"
proof -
  assume "y < h"
  then have "Suc y * w \<le> h * w" by (intro mult_le_mono1) simp
  then show ?thesis by (simp add: mult.commute)
qed

lemma frame_blocks_inside:
  assumes "(i, n) \<in> set (frame_blocks en cur)"
  shows "0 < n \<and> n \<le> 256 \<and> i + n \<le> en_width en * en_height en
    \<and> (\<forall>j. i \<le> j \<and> j < i + n \<longrightarrow> cur ! j \<noteq> en_shadow en ! j)"
proof -
  obtain y s e p where *: "y < en_height en" "i = y * en_width en + p"
    "(s, e) \<in> set (row_runs (\<lambda>x. cur ! (y * en_width en + x) \<noteq> en_shadow en ! (y * en_width en + x))
       (en_width en) 0)" and b: "(p, n) \<in> set (run_blocks s e)"
    using assms by (rule frame_blocksE)
  have r: "s < e" "e \<le> en_width en"
    and c: "\<And>x. s \<le> x \<Longrightarrow> x < e \<Longrightarrow> cur ! (y * en_width en + x) \<noteq> en_shadow en ! (y * en_width en + x)"
    using row_runs_inside [OF *(3)] by auto
  have p: "s \<le> p" "p + n \<le> e" "0 < n" "n \<le> 256" using run_blocks_inside [OF b] by auto
  have "i + n \<le> en_width en * en_height en"
    using row_bound [OF *(1), of "en_width en"] p r *(2) by linarith
  moreover have "cur ! j \<noteq> en_shadow en ! j" if "i \<le> j" "j < i + n" for j
    using c [of "j - y * en_width en"] that p *(2) by auto
  ultimately show ?thesis using p by blast
qed

lemma frame_blocks_cover:
  assumes "j < en_width en * en_height en" "cur ! j \<noteq> en_shadow en ! j"
  shows "in_blocks j (frame_blocks en cur)"
proof -
  define w where "w = en_width en"
  define y where "y = j div w"
  define x where "x = j mod w"
  have "0 < w" using assms(1) by (cases "w = 0") (auto simp: w_def)
  then have x: "x < w" and j: "j = y * w + x" and y: "y < en_height en"
    using assms(1) by (auto simp: x_def y_def w_def less_mult_imp_div_less mult.commute)
  let ?ch = "\<lambda>x. cur ! (y * w + x) \<noteq> en_shadow en ! (y * w + x)"
  obtain s e where se: "(s, e) \<in> set (row_runs ?ch w 0)" "s \<le> x" "x < e"
    using row_runs_cover [of 0 x w ?ch] x assms(2) j by auto
  obtain p n where pn: "(p, n) \<in> set (run_blocks s e)" "p \<le> x" "x < p + n"
    using run_blocks_cover [of s x e] se by auto
  have "(y * w + p, n) \<in> set (frame_blocks en cur)"
    using frame_blocksI [OF y pn(1), of cur] se(1) by (simp add: w_def)
  then show ?thesis
    unfolding in_blocks_def by (rule bexI [rotated]) (use pn j in simp)
qed

section \<open>Painting the blocks\<close>

definition paint_blocks :: "u16 list \<Rightarrow> (nat \<times> nat) list \<Rightarrow> u16 list \<Rightarrow> u16 list" where
  "paint_blocks cur bs fb = foldl (\<lambda>fb (i, n). put i (slice i n cur) fb) fb bs"

lemma nth_paint_blocks:
  assumes "\<And>i n. (i, n) \<in> set bs \<Longrightarrow> i + n \<le> length fb" "length fb \<le> length cur"
  shows "length (paint_blocks cur bs fb) = length fb"
    and "j < length fb \<Longrightarrow>
      paint_blocks cur bs fb ! j = (if in_blocks j bs then cur ! j else fb ! j)"
proof -
  have "length (paint_blocks cur bs fb) = length fb \<and> (\<forall>j < length fb.
      paint_blocks cur bs fb ! j = (if in_blocks j bs then cur ! j else fb ! j))"
    using assms
  proof (induction bs arbitrary: fb)
    case Nil
    then show ?case by (simp add: paint_blocks_def in_blocks_def)
  next
    case (Cons b bs)
    obtain i n where b: "b = (i, n)" by (cases b)
    let ?fb = "put i (slice i n cur) fb"
    have i: "i + n \<le> length fb" "length (slice i n cur) = n"
      using Cons(2) [of i n] Cons(3) b by auto
    then have l: "length ?fb = length fb" by simp
    have IH: "length (paint_blocks cur bs ?fb) = length ?fb \<and> (\<forall>j < length ?fb.
      paint_blocks cur bs ?fb ! j = (if in_blocks j bs then cur ! j else ?fb ! j))"
      using Cons.prems l by (intro Cons.IH) auto
    have "?fb ! j = (if i \<le> j \<and> j < i + n then cur ! j else fb ! j)" if "j < length fb" for j
      using nth_put [of i "slice i n cur" fb j] that i Cons(3) by auto
    moreover have "in_blocks j (b # bs) \<longleftrightarrow> (i \<le> j \<and> j < i + n) \<or> in_blocks j bs" for j
      by (simp add: in_blocks_def b)
    ultimately show ?case
      using IH l by (simp add: paint_blocks_def b)
  qed
  then show "length (paint_blocks cur bs fb) = length fb"
    and "j < length fb \<Longrightarrow>
      paint_blocks cur bs fb ! j = (if in_blocks j bs then cur ! j else fb ! j)"
    by auto
qed

lemma paint_frame:
  assumes "length cur = en_width en * en_height en" "length (en_shadow en) = length cur"
  shows "paint_blocks cur (frame_blocks en cur) (en_shadow en) = cur"
proof -
  have b: "i + n \<le> length (en_shadow en)" if "(i, n) \<in> set (frame_blocks en cur)" for i n
    using frame_blocks_inside [OF that] assms by simp
  note P = nth_paint_blocks [where bs = "frame_blocks en cur" and fb = "en_shadow en" and cur = cur]
  show ?thesis
  proof (rule nth_equalityI)
    show "length (paint_blocks cur (frame_blocks en cur) (en_shadow en)) = length cur"
      using P(1) b assms by simp
    fix j assume "j < length (paint_blocks cur (frame_blocks en cur) (en_shadow en))"
    then have j: "j < length cur" using P(1) b assms by simp
    then have "paint_blocks cur (frame_blocks en cur) (en_shadow en) ! j =
        (if in_blocks j (frame_blocks en cur) then cur ! j else en_shadow en ! j)"
      using P(2) b assms by simp
    then show "paint_blocks cur (frame_blocks en cur) (en_shadow en) ! j = cur ! j"
      using frame_blocks_cover [of j en cur] j assms
      by (cases "cur ! j = en_shadow en ! j") simp_all
  qed
qed


lemma length_encode_run: "6 \<le> length (concat (encode_run m c pix))"
  by (cases m) (auto simp: encode_run_def encode_raw_def encode_rle_def block_header_def Let_def)

lemma dec_blocks_paint:
  assumes "\<And>i n. (i, n) \<in> set bs \<Longrightarrow> 0 < n \<and> n \<le> 256 \<and> i + n \<le> length fb \<and> i * 2 < 2 ^ 24"
    "length fb \<le> length cur" "length bs < f"
  shows "dec_blocks f
      (concat (concat (map (\<lambda>(i, n). encode_run m (block_coord i) (slice i n cur)) bs)) @ SYNC @ t) fb
    = Some (paint_blocks cur bs fb, t)"
  using assms
proof (induction bs arbitrary: fb f)
  case Nil
  then show ?case by (cases f) (simp_all add: paint_blocks_def SYNC_def)
next
  case (Cons b bs)
  obtain i n where b: "b = (i, n)" by (cases b)
  obtain f' where f: "f = Suc f'" using Cons.prems(3) by (cases f) simp_all
  let ?fb = "put i (slice i n cur) fb"
  have i: "0 < n" "n \<le> 256" "i + n \<le> length fb" "i * 2 < 2 ^ 24"
    using Cons.prems(1) [of i n] b by auto
  then have l: "length (slice i n cur) = n" "length ?fb = length fb"
    using Cons.prems(2) by auto
  have "dec_blocks f' (concat (concat (map (\<lambda>(i, n). encode_run m (block_coord i) (slice i n cur)) bs))
      @ SYNC @ t) ?fb = Some (paint_blocks cur bs ?fb, t)"
    using Cons.prems l f by (intro Cons.IH) auto
  then show ?case
    using dec_block_step [OF i(4,1,2) l(1) i(3), of f' m]
    by (simp add: b f paint_blocks_def del: dec_blocks.simps)
qed

lemma length_pieces_ge:
  "length bs \<le> length (concat (concat (map (\<lambda>(i, n). encode_run m (block_coord i) (slice i n cur)) bs)))"
proof (induction bs)
  case (Cons b bs)
  then show ?case
    using length_encode_run [of m "block_coord (fst b)" "slice (fst b) (snd b) cur"]
    by (cases b) simp
qed simp

definition frame_trailer :: "rl_mode \<Rightarrow> bytes" where
  "frame_trailer m =
     [0xaf, 0x20, 0x1f, SECTION_CODE ! mode_index m, 0xaf, 0x20, 0xff, 0x00] @ SYNC"

lemma concat_frame_pieces:
  "concat (frame_pieces en cur) = FRAME_INIT @
     concat (concat (map (\<lambda>(i, n). encode_run (en_mode en) (block_coord i) (slice i n cur))
       (frame_blocks en cur))) @ SYNC @ frame_trailer (en_mode en)"
  by (cases "en_mode en")
    (simp_all add: frame_pieces_def frame_trailer_def SECTION_CODE_def min_def)

lemma encode_cases:
  assumes "length cur = en_width en * en_height en" "length (en_shadow en) = length cur"
  shows "encode cap cur en =
    (if length (concat (frame_pieces en cur)) \<le> cap
     then (en\<lparr>en_shadow := cur\<rparr>, Inr (concat (frame_pieces en cur))) else (en, Inl ENOMEM))"
  using assms by (simp add: encode_def encode_into_def extend_all_eq)

section \<open>Properties\<close>

text \<open>
  C7. For pictures whose byte offsets fit the 24-bit coordinate of the format, a frame the encoder
  returns decodes, on the shadow the encoder held, to exactly the new
  picture followed by the frame trailer; the encoder's new shadow is that picture and nothing
  else of it changes. A frame that does not fit in memory leaves the encoder as it was.
\<close>

theorem encode_decodes:
  assumes "length cur = en_width en * en_height en" "length (en_shadow en) = length cur"
    "2 * length cur \<le> 2 ^ 24"
  shows "case encode cap cur en of
      (en', Inr bs) \<Rightarrow> en' = en\<lparr>en_shadow := cur\<rparr>
        \<and> decode_frame (en_shadow en) bs = Some (cur, frame_trailer (en_mode en))
    | (en', Inl e) \<Rightarrow> en' = en \<and> e = ENOMEM \<and> cap < length (concat (frame_pieces en cur))"
proof -
  let ?bs = "frame_blocks en cur" and ?all = "concat (frame_pieces en cur)"
  have in_range: "0 < n \<and> n \<le> 256 \<and> i + n \<le> length (en_shadow en) \<and> i * 2 < 2 ^ 24"
    if "(i, n) \<in> set ?bs" for i n
  proof -
    have "0 < n" "n \<le> 256" "i + n \<le> length cur"
      using frame_blocks_inside [OF that] assms(1) by auto
    moreover from this have "i * 2 < 2 ^ 24" using assms(3) by linarith
    ultimately show ?thesis using assms(2) by simp
  qed
  have fuel: "length ?bs < length ?all"
    using length_pieces_ge [of ?bs "en_mode en" cur]
    unfolding concat_frame_pieces by (simp add: FRAME_INIT_def)
  have "take 6 ?all = FRAME_INIT" "drop 6 ?all = concat (concat (map (\<lambda>(i, n).
      encode_run (en_mode en) (block_coord i) (slice i n cur)) ?bs)) @ SYNC @ frame_trailer (en_mode en)"
    unfolding concat_frame_pieces by (simp_all add: FRAME_INIT_def)
  then have "decode_frame (en_shadow en) ?all = Some (cur, frame_trailer (en_mode en))"
    using dec_blocks_paint [OF in_range, of ?bs cur "length ?all"] assms(2) fuel paint_frame [OF assms(1,2)]
    by (simp add: decode_frame_def)
  then show ?thesis
    unfolding encode_cases [OF assms(1,2)] by simp
qed

definition demo_encoder :: encoder where
  "demo_encoder = (encoder_new 3 2 Adaptive)\<lparr>en_shadow := [1, 2, 3, 4, 5, 6]\<rparr>"

theorem encode_decodes_witness:
  "case encode 100 [1, 7, 7, 7, 5, 0] demo_encoder of
      (en', Inr bs) \<Rightarrow> en' = demo_encoder\<lparr>en_shadow := [1, 7, 7, 7, 5, 0]\<rparr>
        \<and> decode_frame (en_shadow demo_encoder) bs
          = Some ([1, 7, 7, 7, 5, 0], frame_trailer (en_mode demo_encoder))
    | (en', Inl e) \<Rightarrow> en' = demo_encoder \<and> e = ENOMEM
        \<and> 100 < length (concat (frame_pieces demo_encoder [1, 7, 7, 7, 5, 0]))"
  by (rule encode_decodes) (simp_all add: demo_encoder_def encoder_new_def)

section \<open>The adaptive choice\<close>

lemma length_raw: "length (concat (encode_raw c pix)) = 6 + 2 * length pix"
proof -
  have "length (concat (map be16 pix)) = 2 * length pix" by (induction pix) simp_all
  then show ?thesis by (simp add: encode_raw_def block_header_def)
qed

lemma rle_size_small:
  "length pix \<le> 255 \<Longrightarrow> length (concat (rle_runs pix)) = 3 * run_count pix"
proof (induction pix rule: run_count.induct)
  case (2 v vs)
  have "take 254 vs = vs" using 2 by simp
  moreover have "drop (length (takeWhile (\<lambda>p. p = v) vs)) vs = dropWhile (\<lambda>p. p = v) vs"
    by (simp add: dropWhile_eq_drop)
  moreover have "length (dropWhile (\<lambda>p. p = v) vs) \<le> 255"
    using 2(2) length_dropWhile_le [of "\<lambda>p. p = v" vs] by simp
  ultimately show ?case using 2(1) by (simp add: Let_def)
qed simp

lemma takeWhile_of_take: "takeWhile P (take n xs) = take (min (length (takeWhile P xs)) n) xs"
  by (induction xs arbitrary: n) (auto simp: take_Cons' min_def)

lemma rle_size:
  assumes "length pix \<le> 256"
  shows "length (concat (rle_runs pix)) = 3 * run_count pix
    \<or> length pix = 256 \<and> run_count pix = 1 \<and> length (concat (rle_runs pix)) = 6"
proof (cases "length pix \<le> 255")
  case True
  then show ?thesis using rle_size_small by blast
next
  case False
  then obtain v vs where pix: "pix = v # vs" and vs: "length vs = 255"
    using assms by (cases pix) auto
  define k where "k = length (takeWhile (\<lambda>p. p = v) vs)"
  have tk: "takeWhile (\<lambda>p. p = v) (take 254 vs) = take (min k 254) vs"
    by (simp add: k_def takeWhile_of_take)
  have kl: "k \<le> 255" using length_takeWhile_le [of "\<lambda>p. p = v" vs] vs by (simp add: k_def)
  have rest: "rle_runs pix = [of_nat (Suc (min k 254))] # be16 v # rle_runs (drop (min k 254) vs)"
    using vs by (simp add: pix Let_def tk)
  have cnt: "run_count pix = 1 + run_count (drop k vs)"
    by (simp add: pix dropWhile_eq_drop k_def)
  show ?thesis
  proof (cases "k \<le> 254")
    case True
    then show ?thesis
      using rest cnt rle_size_small [of "drop k vs"] vs by simp
  next
    case False
    then have k: "k = 255" using kl by simp
    then have "length (drop 254 vs) = 1" using vs by simp
    then obtain u where u: "drop 254 vs = [u]" by (cases "drop 254 vs") simp_all
    show ?thesis
      using rest cnt vs k u by (simp add: pix)
  qed
qed

text \<open>
  On a block of at most 256 pixels the adaptive mode picks the shorter of the two codings.
\<close>

theorem adaptive_shortest:
  assumes "length pix \<le> 256"
  shows "length (concat (encode_run Adaptive c pix)) =
    min (length (concat (encode_run Raw c pix))) (length (concat (encode_run Rle c pix)))"
proof -
  have "length (concat (encode_rle c pix)) = 6 + length (concat (rle_runs pix))"
    by (simp add: encode_rle_def block_header_def)
  then show ?thesis
    using rle_size [OF assms] length_raw [of c pix]
    by (auto simp: encode_run_def Let_def min_def)
qed

theorem adaptive_shortest_witness:
  "length (concat (encode_run Adaptive 0 [5, 5, 5, 9])) =
    min (length (concat (encode_run Raw 0 [5, 5, 5, 9]))) (length (concat (encode_run Rle 0 [5, 5, 5, 9])))"
  by (rule adaptive_shortest) simp

end
