(* ===== verification/Bits.thy ===== *)
theory Bits
  imports Prelude
begin

text \<open>
  The entropy layer of the Vino codec (\<open>chimera/vino/video.rs\<close>, module \<open>wht\<close>): the LSB-first bit
  accumulator \<open>Bits\<close>, the escape code of a signed value, the significance units, and the older
  \<open>Vlc\<close> packer with its code book. What a prefix code promises its clients is the locale
  \<open>prefix_code\<close>, interpreted on the escape code of the DC plane, on that of the AC rows and on the
  significance unit. Rust's \<open>i32\<close> values are integers here; the theory \<open>Wht\<close> bounds them.
\<close>

section \<open>The accumulator\<close>

record bits =
  bt_out :: bytes
  bt_n :: nat

definition bits_new :: bits where "bits_new = \<lparr>bt_out = [], bt_n = 0\<rparr>"

definition put_bit :: "bool \<Rightarrow> bits \<Rightarrow> bits" where
  "put_bit b B =
     (let out = (if bt_n B mod 8 = 0 then bt_out B @ [0] else bt_out B);
          i = bt_n B div 8
      in \<lparr>bt_out = out[i := out ! i OR push_bit (bt_n B mod 8) (of_bool b)], bt_n = bt_n B + 1\<rparr>)"

text \<open>A sequence of calls of \<open>bit\<close>.\<close>

definition put_bits :: "bool list \<Rightarrow> bits \<Rightarrow> bits" where
  "put_bits bs B = fold put_bit bs B"

text \<open>\<open>bit_length\<close>: \<open>checked_ilog2\<close> plus one, 0 for 0.\<close>

fun bit_len :: "nat \<Rightarrow> nat" where
  "bit_len n = (if n = 0 then 0 else 1 + bit_len (n div 2))"

declare bit_len.simps [simp del]

definition mag_category :: "int \<Rightarrow> nat" where
  "mag_category v = bit_len (nat \<bar>v\<bar>)"

text \<open>The \<open>k\<close> low bits of \<open>n\<close>, most significant first: \<open>for i in (0..k).rev() { bit(n >> i) }\<close>.\<close>

definition msb_bits :: "nat \<Rightarrow> nat \<Rightarrow> bool list" where
  "msb_bits k n = map (bit n) (rev [0..<k])"

section \<open>The codes\<close>

text \<open>The bits \<open>Bits::esc\<close> emits, its saturation at the largest category included.\<close>

definition esc_bits :: "nat \<Rightarrow> int \<Rightarrow> bool list" where
  "esc_bits cmax v =
     (if v = 0 then [False]
      else let c = min (mag_category v) cmax;
               off = min (nat \<bar>v\<bar>) (2 ^ c - 1) - 2 ^ (c - 1)
           in replicate c True @ (if c < cmax then [False] else []) @ msb_bits (c - 1) off @ [v > 0])"

definition esc :: "int \<Rightarrow> nat \<Rightarrow> bits \<Rightarrow> bits" where
  "esc v cmax B = put_bits (esc_bits cmax v) B"

definition sync_bits :: "nat \<Rightarrow> bool list" where
  "sync_bits lst =
     [False, False, True, True, True, True, True]
     @ (if lst = 0 then True # replicate 7 False else False # msb_bits 5 (32 - lst))"

definition sync_unit :: "nat \<Rightarrow> bits \<Rightarrow> bits" where
  "sync_unit lst B = put_bits (sync_bits lst) B"

definition cr_bits :: "nat \<Rightarrow> bool list" where
  "cr_bits lst = replicate (bit_len lst) True @ replicate (bit_len lst) False"

definition cb_bits :: "nat \<Rightarrow> bool list" where
  "cb_bits lst =
     (let c = bit_len lst
      in if c = 1 then [True, False]
         else False # replicate c True @ replicate (c - 1) False)"

definition colour_sync_bits :: "nat \<Rightarrow> nat \<Rightarrow> nat \<Rightarrow> bool list" where
  "colour_sync_bits lcr lcb ly =
     (if 0 < lcr then cr_bits lcr else []) @ (if 0 < lcb then cb_bits lcb else []) @ sync_bits ly"

definition colour_sync_unit :: "nat \<Rightarrow> nat \<Rightarrow> nat \<Rightarrow> bits \<Rightarrow> bits" where
  "colour_sync_unit lcr lcb ly B = put_bits (colour_sync_bits lcr lcb ly) B"

section \<open>The code book and its packer\<close>

definition CODEBOOK :: "(nat \<times> nat) list" where
  "CODEBOOK =
     [(0, 1), (1, 3), (5, 3), (3, 5), (19, 5), (11, 5), (27, 5), (7, 7), (71, 7), (39, 7),
      (103, 7), (23, 7), (87, 7), (55, 7), (119, 7), (15, 8), (143, 8), (79, 8), (207, 8),
      (47, 8), (175, 8), (111, 8), (239, 8), (31, 8), (159, 8), (95, 8), (223, 8), (63, 8),
      (191, 8), (127, 8), (255, 9), (511, 9)]"

definition SYNC13 :: bytes where
  "SYNC13 = [0x7c, 0x93, 0x6f, 0xf2, 0x4d, 0xbe, 0xc9, 0x37, 0xf9, 0x26, 0xdf, 0xe4, 0x9b]"

record vlc =
  vl_out :: bytes
  vl_acc :: u32
  vl_nbits :: nat

definition vlc_new :: vlc where "vlc_new = \<lparr>vl_out = [], vl_acc = 0, vl_nbits = 0\<rparr>"

definition vlc_bit :: "bool \<Rightarrow> vlc \<Rightarrow> vlc" where
  "vlc_bit b V =
     (let acc = vl_acc V OR push_bit (vl_nbits V) (of_bool b); n = vl_nbits V + 1
      in if n = 8
         then \<lparr>vl_out = vl_out V @ [ucast (acc AND 0xff)], vl_acc = 0, vl_nbits = 0\<rparr>
         else V\<lparr>vl_acc := acc, vl_nbits := n\<rparr>)"

definition vlc_bits :: "bool list \<Rightarrow> vlc \<Rightarrow> vlc" where
  "vlc_bits bs V = fold vlc_bit bs V"

definition symbol_bits :: "nat \<Rightarrow> bool list" where
  "symbol_bits sy = (case CODEBOOK ! sy of (code, n) \<Rightarrow> map (bit code) [0..<n])"

definition vlc_symbol :: "nat \<Rightarrow> vlc \<Rightarrow> vlc res" where
  "vlc_symbol sy V = (if sy < length CODEBOOK then Inr (vlc_bits (symbol_bits sy) V) else Inl Panic)"

definition coeff_bits :: "int \<Rightarrow> bool list" where
  "coeff_bits q =
     (let c = mag_category q
      in replicate c True @ [False] @ msb_bits (c - 1) (nat \<bar>q\<bar> - 2 ^ (c - 1)) @ [\<not> q < 0])"

definition vlc_coeff :: "int \<Rightarrow> vlc \<Rightarrow> vlc res" where
  "vlc_coeff q V =
     (if q = 0 then vlc_symbol 0 V
      else if 9 \<le> mag_category q then Inl EOVERFLOW
      else Inr (vlc_bits (coeff_bits q) V))"

fun vlc_pad :: "nat \<Rightarrow> u32 \<Rightarrow> nat \<Rightarrow> u32" where
  "vlc_pad n acc 0 = acc"
| "vlc_pad n acc (Suc k) = vlc_pad (n + 1) (acc OR push_bit n 1) k"

definition vlc_finish :: "vlc \<Rightarrow> bytes" where
  "vlc_finish V =
     (if 0 < vl_nbits V
      then vl_out V @ [ucast (vlc_pad (vl_nbits V) (vl_acc V) (8 - vl_nbits V) AND 0xff)]
      else vl_out V)"

section \<open>Prefix codes\<close>

text \<open>Decoding a known number of code words.\<close>

fun dec_many :: "(bool list \<Rightarrow> ('a \<times> bool list) option) \<Rightarrow> nat \<Rightarrow> bool list \<Rightarrow> ('a list \<times> bool list) option"
where
  "dec_many dec 0 bs = Some ([], bs)"
| "dec_many dec (Suc n) bs =
     (case dec bs of
        None \<Rightarrow> None
      | Some (a, r) \<Rightarrow> map_option (\<lambda>(as, r). (a # as, r)) (dec_many dec n r))"

locale prefix_code =
  fixes enc :: "'a \<Rightarrow> bool list"
    and dec :: "bool list \<Rightarrow> ('a \<times> bool list) option"
    and valid :: "'a \<Rightarrow> bool"
  assumes dec_enc: "valid a \<Longrightarrow> dec (enc a @ r) = Some (a, r)"
begin

lemma prefix_free:
  assumes "valid a" "valid b" "enc a @ r = enc b @ s"
  shows "a = b \<and> r = s"
proof -
  have "Some (a, r) = Some (b, s)"
    unfolding dec_enc [OF assms(1), of r, symmetric] dec_enc [OF assms(2), of s, symmetric]
    by (rule arg_cong [OF assms(3)])
  then show ?thesis by simp
qed

lemma dec_many_enc:
  "list_all valid as \<Longrightarrow> dec_many dec (length as) (concat (map enc as) @ r) = Some (as, r)"
  by (induction as) (simp_all add: dec_enc)

lemma concat_inj:
  assumes "list_all valid as" "list_all valid bs" "length as = length bs"
    "concat (map enc as) @ r = concat (map enc bs) @ s"
  shows "as = bs \<and> r = s"
proof -
  have "Some (as, r) = dec_many dec (length as) (concat (map enc as) @ r)"
    by (rule dec_many_enc [OF assms(1), symmetric])
  also have "\<dots> = dec_many dec (length bs) (concat (map enc bs) @ s)"
    unfolding assms(3) by (rule arg_cong [OF assms(4)])
  also have "\<dots> = Some (bs, s)"
    by (rule dec_many_enc [OF assms(2)])
  finally show ?thesis by simp
qed

end

section \<open>Decoders\<close>

definition of_msb :: "bool list \<Rightarrow> nat" where
  "of_msb bs = horner_sum of_bool 2 (rev bs)"

definition dec_esc :: "nat \<Rightarrow> bool list \<Rightarrow> (int \<times> bool list) option" where
  "dec_esc cmax bs =
     (let c = length (takeWhile id (take cmax bs));
          r = drop (if c < cmax then c + 1 else c) bs;
          m = int (2 ^ (c - 1) + of_msb (take (c - 1) r))
      in if c < cmax \<and> length bs \<le> c then None
         else if c = 0 then Some (0, r)
         else if length r < c then None
         else Some (if r ! (c - 1) then m else - m, drop c r))"

definition dec_sync :: "bool list \<Rightarrow> (nat \<times> bool list) option" where
  "dec_sync bs =
     (if take 7 bs = [False, False, True, True, True, True, True] \<and> 13 \<le> length bs
      then if bs ! 7
           then if take 7 (drop 8 bs) = replicate 7 False then Some (0, drop 15 bs) else None
           else Some (32 - of_msb (take 5 (drop 8 bs)), drop 13 bs)
      else None)"

definition saturate :: "nat \<Rightarrow> int \<Rightarrow> int" where
  "saturate cmax v = sgn v * min \<bar>v\<bar> (2 ^ cmax - 1)"

section \<open>Lemmas\<close>

lemma length_msb_bits [simp]: "length (msb_bits k n) = k"
  by (simp add: msb_bits_def)

lemma of_msb_bits: "of_msb (msb_bits k n) = n mod 2 ^ k"
  by (simp add: of_msb_def msb_bits_def rev_map horner_sum_bit_eq_take_bit take_bit_eq_mod)

lemma bit_len_bounds:
  "n < 2 ^ bit_len n \<and> (0 < n \<longrightarrow> 0 < bit_len n \<and> 2 ^ (bit_len n - 1) \<le> n)"
proof (induction n rule: bit_len.induct)
  case (1 n)
  show ?case
  proof (cases "n = 0")
    case False
    then have IH: "n div 2 < 2 ^ bit_len (n div 2)"
      "0 < n div 2 \<longrightarrow> 0 < bit_len (n div 2) \<and> 2 ^ (bit_len (n div 2) - 1) \<le> n div 2"
      using 1 by simp_all
    have "2 ^ bit_len (n div 2) \<le> n"
    proof (cases "n div 2 = 0")
      case True
      then show ?thesis using False by (simp add: bit_len.simps)
    next
      case nz: False
      then obtain k where k: "bit_len (n div 2) = Suc k"
        using IH(2) by (cases "bit_len (n div 2)") simp_all
      then show ?thesis using IH(2) nz by simp
    qed
    moreover have "n < 2 * 2 ^ bit_len (n div 2)" using IH(1) by linarith
    ultimately show ?thesis using False by (simp add: bit_len.simps [of n])
  qed (simp add: bit_len.simps)
qed

lemma bit_len_le: "n < 2 ^ k \<Longrightarrow> bit_len n \<le> k"
proof (cases "n = 0")
  case False
  assume "n < 2 ^ k"
  with False bit_len_bounds [of n] have "(2::nat) ^ (bit_len n - 1) < 2 ^ k" by linarith
  then show ?thesis by (simp add: power_strict_increasing_iff)
qed (simp add: bit_len.simps)

lemma takeWhile_replicate_True:
  "takeWhile id (replicate c True @ False # r) = replicate c True"
  "takeWhile id (replicate c True) = replicate c True"
  by (induction c) simp_all

lemma dec_esc_enc:
  assumes "0 < cmax"
  shows "dec_esc cmax (esc_bits cmax v @ r) = Some (saturate cmax v, r)"
proof (cases "v = 0")
  case True
  with assms show ?thesis
    by (cases cmax) (simp_all add: esc_bits_def dec_esc_def saturate_def)
next
  case False
  define n where "n = nat \<bar>v\<bar>"
  define c where "c = min (bit_len n) cmax"
  define m where "m = min n (2 ^ c - 1)"
  define off where "off = m - 2 ^ (c - 1)"
  have n: "0 < n" "\<bar>v\<bar> = int n" using False by (simp_all add: n_def)
  note L = bit_len_bounds [of n]
  have c: "0 < c" "c \<le> cmax" using n L assms by (auto simp: c_def)
  have p: "(2::nat) ^ c = 2 * 2 ^ (c - 1)" using c(1) by (cases c) simp_all
  have "(2::nat) ^ (c - 1) \<le> 2 ^ (bit_len n - 1)" by (rule power_increasing) (auto simp: c_def)
  then have "2 ^ (c - 1) \<le> n" using L n by (meson order.trans)
  moreover have "(2::nat) ^ (c - 1) \<le> 2 ^ c - 1" using p by simp
  moreover have "m \<le> 2 ^ c - 1" "(0::nat) < 2 ^ c" by (simp_all add: m_def)
  ultimately have m: "2 ^ (c - 1) \<le> m" "m < 2 ^ c"
    unfolding m_def by linarith+
  then have off: "off < 2 ^ (c - 1)" "2 ^ (c - 1) + off = m" using p by (auto simp: off_def)
  have msat: "m = min n (2 ^ cmax - 1)"
  proof (cases "bit_len n \<le> cmax")
    case True
    then have "n < 2 ^ c" using L by (simp add: c_def)
    moreover from this have "n < 2 ^ cmax" using True c(2) by (meson order.strict_trans2 power_increasing one_le_numeral)
    ultimately have "min n (2 ^ c - 1) = n" "min n (2 ^ cmax - 1) = n" by linarith+
    then show ?thesis by (simp add: m_def)
  next
    case False
    then show ?thesis by (simp add: m_def c_def)
  qed
  let ?t = "msb_bits (c - 1) off @ [v > 0] @ r"
  have e: "esc_bits cmax v @ r = replicate c True @ (if c < cmax then [False] else []) @ ?t"
    using False by (simp add: esc_bits_def Let_def mag_category_def n_def c_def m_def off_def)
  have tw: "takeWhile id (take cmax (esc_bits cmax v @ r)) = replicate c True"
  proof (cases "c < cmax")
    case True
    then obtain d where "cmax = Suc (c + d)" by (auto dest: less_imp_Suc_add)
    then have "take cmax (replicate c True @ [False] @ ?t) = replicate c True @ False # take d ?t"
      by simp
    then show ?thesis unfolding e using True by (simp only: if_True takeWhile_replicate_True)
  next
    case False
    then have "cmax = c" using c by simp
    then have "take cmax (replicate c True @ [] @ ?t) = replicate c True" by simp
    then show ?thesis unfolding e using False by (simp only: if_False takeWhile_replicate_True)
  qed
  have d: "drop (if c < cmax then c + 1 else c) (esc_bits cmax v @ r) = ?t"
    by (simp add: e)
  have len: "c < cmax \<longrightarrow> c < length (esc_bits cmax v @ r)" by (simp add: e)
  have t: "take (c - 1) ?t = msb_bits (c - 1) off" "?t ! (c - 1) = (v > 0)" "drop c ?t = r"
    "c \<le> length ?t"
    using c(1) by (simp_all add: nth_append)
  have "2 ^ (c - 1) + of_msb (take (c - 1) ?t) = m" using off unfolding t(1) of_msb_bits by simp
  then have mm: "int (2 ^ (c - 1) + of_msb (take (c - 1) ?t)) = int m" by (rule arg_cong)
  have "dec_esc cmax (esc_bits cmax v @ r) = Some (if v > 0 then int m else - int m, r)"
    unfolding dec_esc_def tw length_replicate d Let_def mm t(2,3)
    using gr_implies_not0 [OF c(1)] len t(4)
    by (cases "c < cmax") (simp_all only: not_less [symmetric] if_False if_True refl simp_thms)
  moreover have "(if v > 0 then int m else - int m) = saturate cmax v"
    using n False unfolding saturate_def msat by (auto simp: sgn_if of_nat_min of_nat_diff)
  ultimately show ?thesis by simp
qed

lemma saturate_id: "\<bar>v\<bar> < 2 ^ cmax \<Longrightarrow> saturate cmax v = v"
  by (auto simp: saturate_def sgn_if min_def)

interpretation dc_code: prefix_code "esc_bits 10" "dec_esc 10" "\<lambda>v. \<bar>v\<bar> < 2 ^ 10"
  by unfold_locales (simp add: dec_esc_enc saturate_id)

interpretation ac_code: prefix_code "esc_bits 9" "dec_esc 9" "\<lambda>v. \<bar>v\<bar> < 2 ^ 9"
  by unfold_locales (simp add: dec_esc_enc saturate_id)

lemma dec_sync_enc:
  assumes "lst < 32"
  shows "dec_sync (sync_bits lst @ r) = Some (lst, r)"
proof -
  have "of_msb (msb_bits 5 (32 - lst)) = 32 - lst" if "0 < lst"
    using that assms by (simp add: of_msb_bits)
  then show ?thesis using assms by (simp add: dec_sync_def sync_bits_def)
qed

interpretation sync_code: prefix_code sync_bits dec_sync "\<lambda>l. l < 32"
  by unfold_locales (rule dec_sync_enc)


section \<open>The accumulator packs\<close>

text \<open>The bits of a byte string, least significant first, and those an accumulator holds.\<close>

definition unpack :: "bytes \<Rightarrow> bool list" where
  "unpack bs = concat (map (\<lambda>b. map (bit b) [0..<8]) bs)"

definition bits_wf :: "bits \<Rightarrow> bool" where
  "bits_wf B \<longleftrightarrow> length (bt_out B) = (bt_n B + 7) div 8
     \<and> (\<forall>i. bt_n B \<le> i \<and> i < 8 * length (bt_out B) \<longrightarrow> \<not> unpack (bt_out B) ! i)"

definition bits_of :: "bits \<Rightarrow> bool list" where
  "bits_of B = take (bt_n B) (unpack (bt_out B))"

lemma length_unpack [simp]: "length (unpack bs) = 8 * length bs"
  by (induction bs) (simp_all add: unpack_def)

lemma unpack_append: "unpack (xs @ ys) = unpack xs @ unpack ys"
  by (simp add: unpack_def)

lemma nth_unpack: "i < 8 * length bs \<Longrightarrow> unpack bs ! i = bit (bs ! (i div 8)) (i mod 8)"
proof (induction bs arbitrary: i)
  case (Cons b bs)
  show ?case
  proof (cases "i < 8")
    case True
    then have "unpack (b # bs) ! i = map (bit b) [0..<8] ! i"
      by (simp add: unpack_def nth_append)
    then show ?thesis using True by (simp add: nth_upt)
  next
    case False
    then have "unpack (b # bs) ! i = unpack bs ! (i - 8)"
      by (simp add: unpack_def nth_append)
    moreover have "i div 8 = Suc ((i - 8) div 8)" "i mod 8 = (i - 8) mod 8"
      using False by (simp_all add: le_div_geq le_mod_geq)
    ultimately show ?thesis using Cons by simp
  qed
qed simp

lemma unpack_eqI:
  assumes "length bs = length cs" "\<And>i. i < 8 * length bs \<Longrightarrow> unpack bs ! i = unpack cs ! i"
  shows "unpack bs = unpack cs"
  using assms by (simp add: list_eq_iff_nth_eq)

text \<open>Storing one bit in a byte string changes that bit only.\<close>

lemma nth_unpack_set:
  assumes "n < 8 * length out" "i < 8 * length out" "\<not> unpack out ! n"
  shows "unpack (out[n div 8 := out ! (n div 8) OR push_bit (n mod 8) (of_bool b)]) ! i
    = (if i = n then b else unpack out ! i)"
proof -
  have d: "n div 8 < length out" "i div 8 < length out" using assms by simp_all
  have "i = n \<longleftrightarrow> i div 8 = n div 8 \<and> i mod 8 = n mod 8" by (metis div_mult_mod_eq)
  then show ?thesis
    using assms d
    by (auto simp: nth_unpack nth_list_update bit_simps of_bool_def split: if_splits)
qed

lemma put_bit_spec:
  assumes "bits_wf B"
  shows "bits_wf (put_bit b B) \<and> bits_of (put_bit b B) = bits_of B @ [b]"
proof -
  define n where "n = bt_n B"
  define out where "out = (if n mod 8 = 0 then bt_out B @ [0] else bt_out B)"
  define out' where "out' = out[n div 8 := out ! (n div 8) OR push_bit (n mod 8) (of_bool b)]"
  have wf: "length (bt_out B) = (n + 7) div 8"
    "\<And>i. n \<le> i \<Longrightarrow> i < 8 * length (bt_out B) \<Longrightarrow> \<not> unpack (bt_out B) ! i"
    using assms by (auto simp: bits_wf_def n_def)
  have len: "length out = n div 8 + 1"
  proof (cases "n mod 8 = 0")
    case True
    then have "(n + 7) div 8 = n div 8" by presburger
    then show ?thesis using True by (simp add: out_def wf)
  next
    case False
    have "n = 8 * (n div 8) + n mod 8" "n mod 8 < 8" by simp_all
    then have "(n + 7) div 8 = n div 8 + 1" using False by linarith
    then show ?thesis using False by (simp add: out_def wf)
  qed
  have n8: "n < 8 * length out" using len by simp
  have old: "unpack out ! i = unpack (bt_out B) ! i" if "i < n" for i
  proof -
    have "i < 8 * length (bt_out B)" using that wf(1) by linarith
    then show ?thesis by (simp add: out_def unpack_append nth_append)
  qed
  have z: "\<not> unpack out ! i" if "n \<le> i" "i < 8 * length out" for i
  proof (cases "i < 8 * length (bt_out B)")
    case True
    then show ?thesis using wf(2) that by (simp add: out_def unpack_append nth_append)
  next
    case False
    then show ?thesis
      using that by (auto simp: out_def unpack_append nth_append nth_unpack split: if_splits)
  qed
  have upd: "unpack out' ! i = (if i = n then b else unpack out ! i)" if "i < 8 * length out" for i
    unfolding out'_def using n8 that z by (intro nth_unpack_set) simp_all
  have put: "put_bit b B = \<lparr>bt_out = out', bt_n = n + 1\<rparr>"
    by (simp add: put_bit_def Let_def out_def out'_def n_def)
  have len': "length out' = length out" by (simp add: out'_def)
  have "bits_wf (put_bit b B)"
    unfolding put bits_wf_def using upd z len len' by auto
  moreover have "bits_of (put_bit b B) = bits_of B @ [b]"
  proof (rule nth_equalityI)
    have "n \<le> 8 * length (bt_out B)" using wf(1) by linarith
    then show "length (bits_of (put_bit b B)) = length (bits_of B @ [b])"
      using n8 by (simp add: put bits_of_def len' n_def [symmetric])
    fix i assume "i < length (bits_of (put_bit b B))"
    then have i: "i < n + 1" "i < 8 * length out" by (simp_all add: put bits_of_def len')
    have ln: "length (bits_of B) = n"
      using wf(1) by (simp add: bits_of_def n_def [symmetric])
    show "bits_of (put_bit b B) ! i = (bits_of B @ [b]) ! i"
    proof (cases "i = n")
      case True
      have "bits_of (put_bit b B) ! i = b"
        using True upd n8 by (simp add: put bits_of_def)
      then show ?thesis using True ln by (simp add: nth_append)
    next
      case False
      then have "i < n" using i by simp
      then show ?thesis
        using upd [of i] old [of i] i(2) ln
        by (simp add: put bits_of_def nth_append n_def [symmetric])
    qed
  qed
  ultimately show ?thesis by simp
qed

lemma put_bits_spec:
  "bits_wf B \<Longrightarrow> bits_wf (put_bits bs B) \<and> bits_of (put_bits bs B) = bits_of B @ bs"
  by (induction bs arbitrary: B) (simp_all add: put_bits_def put_bit_spec)

lemma bits_new_spec [simp]: "bits_wf bits_new" "bits_of bits_new = []"
  by (simp_all add: bits_wf_def bits_of_def bits_new_def)

lemma put_bits_append: "put_bits (xs @ ys) B = put_bits ys (put_bits xs B)"
  by (simp add: put_bits_def)

text \<open>What a finished accumulator's bytes hold: the bits, then zeros.\<close>

lemma unpack_bits:
  "unpack (bt_out (put_bits bs bits_new)) =
     bs @ replicate (8 * ((length bs + 7) div 8) - length bs) False"
proof -
  let ?B = "put_bits bs bits_new"
  have wf: "bits_wf ?B" and bo: "bits_of ?B = bs"
    using put_bits_spec [of bits_new bs] by simp_all
  have n: "bt_n ?B = length bs"
  proof -
    have "bt_n (put_bits bs B) = bt_n B + length bs" for B
      by (induction bs arbitrary: B) (simp_all add: put_bits_def put_bit_def Let_def)
    then show ?thesis by (simp add: bits_new_def)
  qed
  have "unpack (bt_out ?B) = bs @ drop (length bs) (unpack (bt_out ?B))"
    using bo n unfolding bits_of_def by (metis append_take_drop_id)
  moreover have "drop (length bs) (unpack (bt_out ?B)) =
      replicate (8 * ((length bs + 7) div 8) - length bs) False"
    using wf n by (intro nth_equalityI) (auto simp: bits_wf_def)
  ultimately show ?thesis by simp
qed

lemma length_bits: "length (bt_out (put_bits bs bits_new)) = (length bs + 7) div 8"
  using arg_cong [OF unpack_bits [of bs], of length] by simp


text \<open>A region of code words at the head of a byte string decodes; the rest of the string follows.\<close>

context prefix_code
begin

lemma dec_region:
  assumes "list_all valid as"
  shows "dec_many dec (length as) (unpack (bt_out (put_bits (concat (map enc as)) bits_new) @ rest))
    = Some (as, replicate (8 * ((length (concat (map enc as)) + 7) div 8)
        - length (concat (map enc as))) False @ unpack rest)"
  unfolding unpack_append unpack_bits append_assoc by (rule dec_many_enc [OF assms])

end

section \<open>Properties\<close>

lemma esc_fold: "fold (\<lambda>v. esc v cmax) vs B = put_bits (concat (map (esc_bits cmax) vs)) B"
  by (induction vs arbitrary: B) (simp_all add: esc_def put_bits_def)

lemma length_esc_bits: "length (esc_bits cmax v) \<le> 2 * cmax + 1"
  by (auto simp: esc_bits_def Let_def min_def)

lemma length_sync_bits: "length (sync_bits l) \<le> 15"
  by (simp add: sync_bits_def)

lemma length_concat_bound:
  "(\<And>x. x \<in> set xs \<Longrightarrow> length (f x) \<le> k) \<Longrightarrow> length (concat (map f xs)) \<le> k * length xs"
proof (induction xs)
  case (Cons x xs)
  then have "length (f x) \<le> k" "length (concat (map f xs)) \<le> k * length xs" by simp_all
  then show ?case by simp
qed simp

lemma dec_many_saturate:
  assumes "0 < cmax"
  shows "dec_many (dec_esc cmax) (length vs) (concat (map (esc_bits cmax) vs) @ r)
    = Some (map (saturate cmax) vs, r)"
  by (induction vs) (simp_all add: dec_esc_enc assms)

text \<open>
  The bytes written by a sequence of escape codes decode, bit by bit, to the values encoded,
  each saturated at the largest magnitude its category bound allows; what is left is the zero
  padding of the last byte. So a value out of range never desynchronises the codes after it.
\<close>

theorem esc_stream_decodes:
  assumes "0 < cmax"
  shows "\<exists>pad. dec_many (dec_esc cmax) (length vs)
      (unpack (bt_out (fold (\<lambda>v. esc v cmax) vs bits_new)))
    = Some (map (saturate cmax) vs, replicate pad False)"
  unfolding esc_fold unpack_bits dec_many_saturate [OF assms] by blast

theorem esc_stream_decodes_witness:
  "\<exists>pad. dec_many (dec_esc 9) (length [5, 0, - 700, 511 :: int])
      (unpack (bt_out (fold (\<lambda>v. esc v 9) [5, 0, - 700, 511] bits_new)))
    = Some (map (saturate 9) [5, 0, - 700, 511 :: int], replicate pad False)"
  by (rule esc_stream_decodes) simp

lemma bit_len_lasts [simp]: "bit_len 0 = 0" "bit_len (Suc 0) = 1" "bit_len 7 = 3" "bit_len 31 = 5"
  by (simp_all add: bit_len.simps)

definition chroma_bits :: "nat \<Rightarrow> nat \<Rightarrow> bool list" where
  "chroma_bits lcr lcb = (if 0 < lcr then cr_bits lcr else []) @ (if 0 < lcb then cb_bits lcb else [])"

lemma replicate_small:
  "replicate 2 x = [x, x]" "replicate 3 x = [x, x, x]" "replicate 4 x = [x, x, x, x]"
  "replicate 5 x = [x, x, x, x, x]"
  by (simp_all add: numeral_eq_Suc)

lemma field_table:
  "cr_bits (Suc 0) = [True, False]" "cb_bits (Suc 0) = [True, False]"
  "cr_bits 7 = [True, True, True, False, False, False]"
  "cb_bits 7 = [False, True, True, True, False, False]"
  "cr_bits 31 = [True, True, True, True, True, False, False, False, False, False]"
  "cb_bits 31 = [False, True, True, True, True, True, False, False, False, False]"
  by (simp_all add: cr_bits_def cb_bits_def Let_def replicate_small)

text \<open>Reading the chroma fields back, the two colliding ones as (1, 0).\<close>

definition dec_chroma :: "bool list \<Rightarrow> (nat \<times> nat) option" where
  "dec_chroma bs =
     find (\<lambda>(a, b). take (length (chroma_bits a b) + 2) bs = chroma_bits a b @ [False, False])
       [(0, 0), (Suc 0, 0), (7, 0), (31, 0), (0, 7), (0, 31), (Suc 0, Suc 0), (Suc 0, 7), (Suc 0, 31),
        (7, Suc 0), (7, 7), (7, 31), (31, Suc 0), (31, 7), (31, 31)]"

lemma dec_chroma_enc:
  assumes "a \<in> {0, Suc 0, 7, 31}" "b \<in> {0, Suc 0, 7, 31}"
  shows "dec_chroma (chroma_bits a b @ False # False # t) =
    Some (if (a, b) = (0, Suc 0) then (Suc 0, 0) else (a, b))"
  using assms
  by (elim insertE emptyE; hypsubst) (simp_all add: dec_chroma_def chroma_bits_def field_table)

lemma chroma_prefix_free:
  assumes "{a, b, c, d} \<subseteq> {0, Suc 0, 7, 31}"
    "chroma_bits a b @ False # False # t = chroma_bits c d @ False # False # s"
  shows "t = s \<and> ((a, b) = (c, d) \<or> {(a, b), (c, d)} = {(Suc 0, 0), (0, Suc 0)})"
proof -
  have "dec_chroma (chroma_bits a b @ False # False # t) = dec_chroma (chroma_bits c d @ False # False # s)"
    by (rule arg_cong [OF assms(2)])
  then have ab: "(a, b) = (c, d) \<or> (a, b) = (Suc 0, 0) \<and> (c, d) = (0, Suc 0)
      \<or> (a, b) = (0, Suc 0) \<and> (c, d) = (Suc 0, 0)"
    using assms(1) by (simp add: dec_chroma_enc split: if_splits)
  then have "chroma_bits a b = chroma_bits c d"
    by (auto simp: chroma_bits_def field_table)
  then have "t = s" using assms(2) by simp
  then show ?thesis using ab by blast
qed

lemma sync_bits_head:
  obtains t where "sync_bits l @ r = False # False # True # True # True # True # True # t"
  by (simp add: sync_bits_def)

text \<open>
  For the chroma positions the comments name (0, 1, 7, 31), the significance unit of a colour
  block determines its three positions and what follows it, except that "only Cr ends at 1" and
  "only Cb ends at 1" are the same bits: a decoder cannot tell which plane the AC row carries.
\<close>

theorem colour_sync_ambiguity:
  assumes "set [cr, cb, cr', cb'] \<subseteq> {0, 1, 7, 31}" "y < 32" "y' < 32"
  shows "colour_sync_bits cr cb y @ r = colour_sync_bits cr' cb' y' @ r' \<longleftrightarrow>
    y = y' \<and> r = r' \<and> ((cr, cb) = (cr', cb') \<or> {(cr, cb), (cr', cb')} = {(1, 0), (0, 1)})"
proof -
  obtain t where t: "sync_bits y @ r = False # False # True # True # True # True # True # t"
    by (rule sync_bits_head)
  obtain t' where t': "sync_bits y' @ r' = False # False # True # True # True # True # True # t'"
    by (rule sync_bits_head)
  have eq: "t = t' \<longleftrightarrow> y = y' \<and> r = r'"
  proof
    assume "t = t'"
    then have "sync_bits y @ r = sync_bits y' @ r'" using t t' by simp
    then show "y = y' \<and> r = r'" by (rule sync_code.prefix_free [OF assms(2,3)])
  next
    assume "y = y' \<and> r = r'"
    then show "t = t'" using t t' by simp
  qed
  have split: "colour_sync_bits a b l @ s = chroma_bits a b @ (sync_bits l @ s)" for a b l s
    by (simp add: colour_sync_bits_def chroma_bits_def)
  have sub: "{cr, cb, cr', cb'} \<subseteq> {0, Suc 0, 7, 31}"
    using assms(1) by simp
  have "chroma_bits cr cb = chroma_bits cr' cb'"
    if "(cr, cb) = (cr', cb') \<or> {(cr, cb), (cr', cb')} = {(Suc 0, 0), (0, Suc 0)}"
    using that by (auto simp: chroma_bits_def field_table doubleton_eq_iff)
  then have 2: "colour_sync_bits cr cb y @ r = colour_sync_bits cr' cb' y' @ r'"
    if "t = t' \<and> ((cr, cb) = (cr', cb') \<or> {(cr, cb), (cr', cb')} = {(Suc 0, 0), (0, Suc 0)})"
    using that unfolding split t t' by simp
  have 1: "t = t' \<and> ((cr, cb) = (cr', cb') \<or> {(cr, cb), (cr', cb')} = {(Suc 0, 0), (0, Suc 0)})"
    if "colour_sync_bits cr cb y @ r = colour_sync_bits cr' cb' y' @ r'"
    using chroma_prefix_free [OF sub that [unfolded split t t']] by simp
  show ?thesis
    unfolding One_nat_def conj_assoc [symmetric] eq [symmetric] by (rule iffI [OF 1 2])
qed

theorem colour_sync_ambiguity_witness:
  "colour_sync_bits 1 0 5 @ [True] = colour_sync_bits 0 1 5 @ [True] \<longleftrightarrow>
    (5::nat) = 5 \<and> [True] = [True]
    \<and> ((1::nat, 0::nat) = (0, 1) \<or> {(1::nat, 0::nat), (0, 1)} = {(1, 0), (0, 1)})"
  by (rule colour_sync_ambiguity) simp_all

end
