(* ===== verification/Wht.thy ===== *)
theory Wht
  imports Prelude
begin

text \<open>
  The arithmetic of the Vino codec (\<open>chimera/vino/video.rs\<close>, module \<open>wht\<close>): colour transform, 2-D
  Haar wavelet, quantizers. Rust's \<open>i32\<close> is modelled by integers; the lemmas bound every value the
  code computes from 8-bit pixels far below \<open>2 ^ 31\<close>, so nothing wraps.
\<close>

section \<open>Definitions\<close>

definition DIM :: nat where "DIM = 8"
definition PIXELS :: nat where "PIXELS = DIM * DIM"
definition COEFFS :: nat where "COEFFS = 32"

text \<open>\<open>(Y, Cb, Cr)\<close>; the shift is arithmetic.\<close>

definition colour :: "u8 \<Rightarrow> u8 \<Rightarrow> u8 \<Rightarrow> int \<times> int \<times> int" where
  "colour r g b =
     (let r = uint r; g = uint g; b = uint b; cb = r - g; cr = b - g
      in (64 * g + 64 * drop_bit 2 (cb + cr), 64 * cb, 64 * cr))"

definition step_bias :: "nat \<Rightarrow> int \<times> int" where
  "step_bias i =
     (if i = 0 then (16, 8)
      else if i = 1 \<or> i = 2 then (16, 2)
      else if i = 3 then (48, 32)
      else if 4 \<le> i \<and> i \<le> 11 then (4, 0)
      else if i = 12 then (8, 2)
      else if 13 \<le> i \<and> i \<le> 15 then (8, 0)
      else (2, 0))"

definition clamp :: "int \<Rightarrow> int \<Rightarrow> int \<Rightarrow> int" where
  "clamp lo hi v = (if v < lo then lo else if hi < v then hi else v)"

definition quantize :: "int \<Rightarrow> nat \<Rightarrow> int" where
  "quantize coeff i =
     (case step_bias i of (step, bias) \<Rightarrow>
        let q = (\<bar>coeff\<bar> + bias) div step
        in clamp (- 2048) 2047 (if coeff < 0 then - q else q))"

text \<open>
  One Haar step: \<open>(ll, hl, lh, hh)\<close>, each \<open>n/2\<close> by \<open>n/2\<close>. \<open>row_lo\<close> and \<open>row_hi\<close> are the buffers
  of the row pass, indexed \<open>r * h + i\<close> as in the code.
\<close>

definition row_pass :: "(int \<Rightarrow> int \<Rightarrow> int) \<Rightarrow> int list \<Rightarrow> nat \<Rightarrow> int list" where
  "row_pass f src n =
     (let h = n div 2
      in map (\<lambda>k. f (src ! (k div h * n + 2 * (k mod h))) (src ! (k div h * n + 2 * (k mod h) + 1)))
           [0..<n * h])"

definition col_pass :: "(int \<Rightarrow> int \<Rightarrow> int) \<Rightarrow> int list \<Rightarrow> nat \<Rightarrow> int list" where
  "col_pass f l h =
     map (\<lambda>k. f (l ! (2 * (k div h) * h + k mod h)) (l ! ((2 * (k div h) + 1) * h + k mod h)))
       [0..<h * h]"

definition haar2d :: "int list \<Rightarrow> nat \<Rightarrow> int list \<times> int list \<times> int list \<times> int list" where
  "haar2d src n =
     (let h = n div 2; l = row_pass (+) src n; hb = row_pass (-) src n
      in (col_pass (+) l h, col_pass (+) hb h, col_pass (-) l h, col_pass (-) hb h))"

definition transform :: "int list \<Rightarrow> int list" where
  "transform block =
     (case haar2d block DIM of (ll1, hl1, _, _) \<Rightarrow>
      case haar2d ll1 4 of (ll2, hl2, lh2, hh2) \<Rightarrow>
      case haar2d ll2 2 of (ll3, hl3, lh3, hh3) \<Rightarrow>
        map (drop_bit 6)
          ([ll3 ! 0, hl3 ! 0, lh3 ! 0, hh3 ! 0]
           @ map (\<lambda>i. hl2 ! i) [0..<4] @ map (\<lambda>i. lh2 ! i) [0..<4] @ map (\<lambda>i. hh2 ! i) [0..<4]
           @ map (\<lambda>p. hl1 ! (p mod 4 * 4 + p div 4)) [0..<16]))"

text \<open>The reciprocal-multiply DC quantizer of the solid strips, and the rounding one.\<close>

definition quantize_dc :: "nat \<Rightarrow> int \<Rightarrow> int" where
  "quantize_dc plane v =
     (let step = (if plane = 0 then 16 else 64);
          q = drop_bit 16 ((\<bar>v\<bar> + 8) * (65536 div step))
      in if v < 0 then - q else q)"

definition quantize_chroma_ac :: "int \<Rightarrow> int" where
  "quantize_chroma_ac coeff = (let q = \<bar>coeff\<bar> div 16 in if coeff < 0 then - q else q)"

definition quantize_dc_round :: "nat \<Rightarrow> int \<Rightarrow> int" where
  "quantize_dc_round plane v =
     (let step = (if plane = 0 then 16 else 64) in (v + step div 2) div step)"

text \<open>The last position of a nonzero AC coefficient, 0 if none.\<close>

definition last_sig :: "int list \<Rightarrow> nat" where
  "last_sig q = (case find (\<lambda>i. q ! i \<noteq> 0) (rev [1..<COEFFS]) of None \<Rightarrow> 0 | Some i \<Rightarrow> i)"

record quant_block =
  cb_qcr :: "int list"
  cb_qcb :: "int list"
  cb_qy :: "int list"
  cb_lcr :: nat
  cb_lcb :: nat
  cb_ly :: nat

definition quantize_luma :: "int list \<Rightarrow> int list" where
  "quantize_luma t = map (\<lambda>i. quantize (t ! i) i) [0..<COEFFS]"

definition colour_block :: "int list \<Rightarrow> int list \<Rightarrow> int list \<Rightarrow> quant_block" where
  "colour_block cr cb y =
     (let tcr = transform cr; tcb = transform cb; ty = transform y;
          qcr = quantize_dc_round 2 (tcr ! 0) # map (\<lambda>i. quantize_chroma_ac (tcr ! i)) [1..<COEFFS];
          qcb = quantize_dc_round 1 (tcb ! 0) # map (\<lambda>i. quantize_chroma_ac (tcb ! i)) [1..<COEFFS];
          qy = quantize_dc_round 0 (ty ! 0) # map (\<lambda>i. quantize (ty ! i) i) [1..<COEFFS]
      in \<lparr>cb_qcr = qcr, cb_qcb = qcb, cb_qy = qy,
          cb_lcr = last_sig qcr, cb_lcb = last_sig qcb, cb_ly = last_sig qy\<rparr>)"

section \<open>Ranges of the wavelet\<close>

lemma length_row_pass [simp]: "length (row_pass f src n) = n * (n div 2)"
  by (simp add: row_pass_def Let_def)

lemma length_col_pass [simp]: "length (col_pass f l h) = h * h"
  by (simp add: col_pass_def)

text \<open>A list whose entries lie in an interval.\<close>

definition within :: "int \<Rightarrow> int \<Rightarrow> int list \<Rightarrow> bool" where
  "within lo hi xs \<longleftrightarrow> (\<forall>x \<in> set xs. lo \<le> x \<and> x \<le> hi)"

lemma withinD: "within lo hi xs \<Longrightarrow> i < length xs \<Longrightarrow> lo \<le> xs ! i \<and> xs ! i \<le> hi"
  by (simp add: within_def)

lemma row_index:
  assumes "n = 2 * h" "k < n * h"
  shows "k div h * n + 2 * (k mod h) + 1 < n * (n :: nat)"
proof -
  have h: "0 < h" using assms(2) by (cases "h = 0") simp_all
  have "k div h < n" using assms(2) by (simp add: less_mult_imp_div_less)
  then have "Suc (k div h) * n \<le> n * n" by (intro mult_le_mono1) simp
  moreover have "k mod h < h" using h by simp
  ultimately show ?thesis using assms(1) by simp
qed

lemma col_index:
  assumes "k < h * h"
  shows "(2 * (k div h) + 1) * h + k mod h < 2 * h * (h :: nat)"
proof -
  have h: "0 < h" using assms by (cases "h = 0") simp_all
  have "k div h < h" using assms by (simp add: less_mult_imp_div_less)
  then have "(2 * (k div h) + 2) * h \<le> 2 * h * h" by (intro mult_le_mono1) simp
  moreover have "k mod h < h" using h by simp
  ultimately show ?thesis by (simp add: algebra_simps)
qed

lemma within_row_pass:
  assumes "within lo hi src" "length src = n * n" "n = 2 * h"
    "\<And>a b. lo \<le> a \<Longrightarrow> a \<le> hi \<Longrightarrow> lo \<le> b \<Longrightarrow> b \<le> hi \<Longrightarrow> lo' \<le> f a b \<and> f a b \<le> hi'"
  shows "within lo' hi' (row_pass f src n)"
proof -
  have "lo' \<le> x \<and> x \<le> hi'" if "x \<in> set (row_pass f src n)" for x
  proof -
    have nh: "n div 2 = h" using assms(3) by simp
    have "x \<in> (\<lambda>k. f (src ! (k div h * n + 2 * (k mod h))) (src ! (k div h * n + 2 * (k mod h) + 1)))
        ` {0..<n * h}"
      using that by (simp only: row_pass_def Let_def nh set_map set_upt)
    then obtain k where "k \<in> {0..<n * h}"
      and k2: "x = f (src ! (k div h * n + 2 * (k mod h))) (src ! (k div h * n + 2 * (k mod h) + 1))"
      by (rule imageE)
    then have k: "k < n * h" by simp
    have i: "k div h * n + 2 * (k mod h) + 1 < length src"
      using row_index [OF assms(3) k] assms(2) by simp
    show ?thesis
      using withinD [OF assms(1) i] withinD [OF assms(1), of "k div h * n + 2 * (k mod h)"] i assms(4)
      unfolding k2 by simp
  qed
  then show ?thesis by (simp add: within_def)
qed

lemma within_col_pass:
  assumes "within lo hi l" "length l = 2 * h * h"
    "\<And>a b. lo \<le> a \<Longrightarrow> a \<le> hi \<Longrightarrow> lo \<le> b \<Longrightarrow> b \<le> hi \<Longrightarrow> lo' \<le> f a b \<and> f a b \<le> hi'"
  shows "within lo' hi' (col_pass f l h)"
proof -
  have "lo' \<le> x \<and> x \<le> hi'" if "x \<in> set (col_pass f l h)" for x
  proof -
    have "x \<in> (\<lambda>k. f (l ! (2 * (k div h) * h + k mod h)) (l ! ((2 * (k div h) + 1) * h + k mod h)))
        ` {0..<h * h}"
      using that by (simp only: col_pass_def set_map set_upt)
    then obtain k where "k \<in> {0..<h * h}"
      and k2: "x = f (l ! (2 * (k div h) * h + k mod h)) (l ! ((2 * (k div h) + 1) * h + k mod h))"
      by (rule imageE)
    then have k: "k < h * h" by simp
    have i: "(2 * (k div h) + 1) * h + k mod h < length l"
      using col_index [OF k] assms(2) by simp
    then have j: "2 * (k div h) * h + k mod h < length l" by (simp add: algebra_simps)
    show ?thesis
      using withinD [OF assms(1) i] withinD [OF assms(1) j] assms(3) unfolding k2 by simp
  qed
  then show ?thesis by (simp add: within_def)
qed

text \<open>One step: the low band grows by 4, the others are bounded by twice the spread.\<close>

lemma haar2d_within:
  assumes "within lo hi src" "length src = n * n" "n = 2 * h" "haar2d src n = (ll, hl, lh, hh)"
  shows "within (4 * lo) (4 * hi) ll" "length ll = h * h"
    and "within (- 2 * (hi - lo)) (2 * (hi - lo)) hl" "length hl = h * h"
    and "within (- 2 * (hi - lo)) (2 * (hi - lo)) lh" "length lh = h * h"
    and "within (- 2 * (hi - lo)) (2 * (hi - lo)) hh" "length hh = h * h"
proof -
  let ?l = "row_pass (+) src n" and ?b = "row_pass (-) src n"
  have eq: "ll = col_pass (+) ?l h" "hl = col_pass (+) ?b h" "lh = col_pass (-) ?l h"
    "hh = col_pass (-) ?b h"
    using assms(3,4) by (simp_all add: haar2d_def Let_def)
  have l: "within (2 * lo) (2 * hi) ?l" and b: "within (lo - hi) (hi - lo) ?b"
    by (rule within_row_pass [OF assms(1-3)]; linarith)+
  have len: "length ?l = 2 * h * h" "length ?b = 2 * h * h" using assms(3) by simp_all
  show "within (4 * lo) (4 * hi) ll" "within (- 2 * (hi - lo)) (2 * (hi - lo)) lh"
    unfolding eq by (rule within_col_pass [OF l len(1)], simp)+
  show "within (- 2 * (hi - lo)) (2 * (hi - lo)) hl" "within (- 2 * (hi - lo)) (2 * (hi - lo)) hh"
    unfolding eq by (rule within_col_pass [OF b len(2)], simp)+
  show "length ll = h * h" "length hl = h * h" "length lh = h * h" "length hh = h * h"
    by (simp_all add: eq)
qed

lemma length_transform [simp]: "length (transform block) = 32"
  by (simp add: transform_def split: prod.splits)

lemma div64: "64 * lo \<le> x \<Longrightarrow> x \<le> 64 * hi \<Longrightarrow> lo \<le> x div 64 \<and> x div 64 \<le> (hi :: int)"
  by linarith

lemma abs_div64: "\<bar>x :: int\<bar> \<le> B \<Longrightarrow> \<bar>64 * (x div 64)\<bar> \<le> B + 63"
  by linarith

lemma within_abs: "within (- B) B xs \<Longrightarrow> i < length xs \<Longrightarrow> \<bar>xs ! i\<bar> \<le> B"
  using withinD [of "- B" B xs i] by linarith

lemma transform_within:
  assumes "within lo hi block" "length block = 64"
  shows "lo \<le> transform block ! 0 \<and> transform block ! 0 \<le> hi"
    and "i \<in> {1..3} \<Longrightarrow> \<bar>64 * (transform block ! i)\<bar> \<le> 32 * (hi - lo) + 63"
    and "i \<in> {4..15} \<Longrightarrow> \<bar>64 * (transform block ! i)\<bar> \<le> 8 * (hi - lo) + 63"
    and "i \<in> {16..31} \<Longrightarrow> \<bar>64 * (transform block ! i)\<bar> \<le> 2 * (hi - lo) + 63"
proof -
  obtain ll1 hl1 lh1 hh1 where 1: "haar2d block DIM = (ll1, hl1, lh1, hh1)"
    by (metis prod_cases4)
  obtain ll2 hl2 lh2 hh2 where 2: "haar2d ll1 4 = (ll2, hl2, lh2, hh2)"
    by (metis prod_cases4)
  obtain ll3 hl3 lh3 hh3 where 3: "haar2d ll2 2 = (ll3, hl3, lh3, hh3)"
    by (metis prod_cases4)
  have "length block = DIM * DIM" "DIM = 2 * 4" using assms(2) by (simp_all add: DIM_def)
  note b1 = haar2d_within [OF assms(1) this 1, simplified]
  have "length ll1 = 4 * 4" using b1(2) by simp
  note b2 = haar2d_within [OF b1(1) this _ 2, of 2, simplified]
  have "length ll2 = 2 * 2" using b2(2) by simp
  note b3 = haar2d_within [OF b2(1) this _ 3, of 1, simplified]
  define A where "A = [ll3 ! 0, hl3 ! 0, lh3 ! 0, hh3 ! 0]"
  define B where "B = hl2 @ lh2 @ hh2"
  define C where "C = map (\<lambda>p. hl1 ! (p mod 4 * 4 + p div 4)) [0..<16]"
  have t: "transform block = map (drop_bit 6) (A @ B @ C)"
    using map_nth [of hl2] map_nth [of lh2] map_nth [of hh2] b2(4,6,8)
    by (simp only: transform_def 1 2 3 prod.case A_def B_def C_def append_assoc)
  have len: "length A = 4" "length B = 12" "length C = 16"
    using b2(4,6,8) by (simp_all add: A_def B_def C_def)
  have nth: "transform block ! i = (A @ B @ C) ! i div 64" if "i < 32" for i
    using that len by (simp add: t drop_bit_eq_div nth_map [of i "A @ B @ C"] del: map_append)
  show "lo \<le> transform block ! 0 \<and> transform block ! 0 \<le> hi"
    using withinD [OF b3(1), of 0] b3(2) div64 [of lo "ll3 ! 0" hi] by (simp add: nth A_def)
  show "\<bar>64 * (transform block ! i)\<bar> \<le> 32 * (hi - lo) + 63" if "i \<in> {1..3}"
  proof -
    have "i = 1 \<or> i = 2 \<or> i = 3" using that by auto
    moreover have "within (- (32 * (hi - lo))) (32 * (hi - lo)) [hl3 ! 0, lh3 ! 0, hh3 ! 0]"
      using withinD [OF b3(3), of 0] withinD [OF b3(5), of 0] withinD [OF b3(7), of 0] b3(4,6,8)
      by (simp add: within_def)
    from within_abs [OF this, of "i - 1"] have "\<bar>(A @ B @ C) ! i\<bar> \<le> 32 * (hi - lo)"
      using calculation by (auto simp: A_def)
    ultimately show ?thesis using abs_div64 nth [of i] by auto
  qed
  show "\<bar>64 * (transform block ! i)\<bar> \<le> 8 * (hi - lo) + 63" if "i \<in> {4..15}"
  proof -
    have "within (- (8 * (hi - lo))) (8 * (hi - lo)) B"
      using b2(3,5,7) by (auto simp: within_def B_def)
    moreover have "i - 4 < length B" "(A @ B @ C) ! i = B ! (i - 4)"
      using that len by (auto simp: nth_append)
    ultimately have "\<bar>(A @ B @ C) ! i\<bar> \<le> 8 * (hi - lo)"
      using within_abs by metis
    then show ?thesis using abs_div64 nth [of i] that by auto
  qed
  show "\<bar>64 * (transform block ! i)\<bar> \<le> 2 * (hi - lo) + 63" if "i \<in> {16..31}"
  proof -
    have "p mod 4 * 4 + p div 4 < length hl1" if "p < 16" for p :: nat
    proof -
      have "p div 4 < 4" "p mod 4 < 4" using that by (simp_all add: less_mult_imp_div_less)
      then show ?thesis using b1(4) by simp
    qed
    then have "within (- (2 * (hi - lo))) (2 * (hi - lo)) C"
      using b1(3) unfolding C_def within_def by simp
    moreover have "i - 16 < length C" "(A @ B @ C) ! i = C ! (i - 16)"
      using that len by (auto simp: nth_append)
    ultimately have "\<bar>(A @ B @ C) ! i\<bar> \<le> 2 * (hi - lo)"
      using within_abs by metis
    then show ?thesis using abs_div64 nth [of i] that by auto
  qed
qed

section \<open>Pixels\<close>

lemma colour_range:
  "\<exists>y cb cr. colour r g b = (y, cb, cr) \<and> 0 \<le> y \<and> y \<le> 16320 \<and> \<bar>cb\<bar> \<le> 16320 \<and> \<bar>cr\<bar> \<le> 16320"
proof -
  have arith: "0 \<le> 64 * y + 64 * ((x - y + (z - y)) div 4)
      \<and> 64 * y + 64 * ((x - y + (z - y)) div 4) \<le> 16320
      \<and> \<bar>64 * (x - y)\<bar> \<le> 16320 \<and> \<bar>64 * (z - y)\<bar> \<le> 16320"
    if "0 \<le> x" "x \<le> 255" "0 \<le> y" "y \<le> 255" "0 \<le> z" "z \<le> 255" for x y z :: int
  proof -
    have "64 * y + 64 * ((x - y + (z - y)) div 4) = 64 * ((x + z + 2 * y) div 4)"
      using div_mult_self1 [of 4 "x - y + (z - y)" y] by (simp add: algebra_simps)
    moreover have "0 \<le> (x + z + 2 * y) div 4" "(x + z + 2 * y) div 4 \<le> 255"
      using that by linarith+
    moreover have "\<bar>64 * (x - y)\<bar> \<le> 16320" "\<bar>64 * (z - y)\<bar> \<le> 16320"
      using that by (simp_all add: abs_le_iff)
    ultimately show ?thesis by linarith
  qed
  have u: "uint v \<le> 255" for v :: u8
    using uint_bounded [of v] by simp
  show ?thesis
    unfolding colour_def Let_def drop_bit_eq_div
    using arith [of "uint r" "uint g" "uint b"] u by simp
qed

lemma abs_quantize:
  assumes "step_bias i = (s, b)"
  shows "\<bar>quantize c i\<bar> \<le> (\<bar>c\<bar> + b) div s"
proof -
  have "0 \<le> b" "0 < s" using assms by (auto simp: step_bias_def split: if_splits)
  then have "0 \<le> (\<bar>c\<bar> + b) div s" by (simp add: pos_imp_zdiv_nonneg_iff)
  moreover have "\<bar>clamp (- 2048) 2047 (if c < 0 then - q else q)\<bar> \<le> q" if "0 \<le> q" for q
    using that by (simp add: clamp_def)
  ultimately show ?thesis by (simp add: quantize_def assms Let_def del: abs_le_iff)
qed

text \<open>Each coefficient of a luma block fits the category bound of its code.\<close>

lemma quantize_luma_range:
  assumes "within 0 16320 block" "length block = 64" "i < 32"
  shows "\<bar>quantize (transform block ! i) i\<bar> < (if i = 0 then 2 ^ 10 else 2 ^ 9)"
proof -
  note T = transform_within [OF assms(1,2)]
  define t where "t = transform block ! i"
  obtain s b where sb: "step_bias i = (s, b)" by (cases "step_bias i")
  note q = abs_quantize [OF sb, of t]
  consider "i = 0" | "i \<in> {1, 2}" | "i = 3" | "i \<in> {4..11}" | "i = 12" | "i \<in> {13..15}" | "i \<in> {16..31}"
    using assms(3) by force
  then show ?thesis
  proof cases
    case 1
    then have "s = 16" "b = 8" "\<bar>t\<bar> \<le> 16320" using sb T(1) by (simp_all add: step_bias_def t_def)
    then show ?thesis using q 1 t_def by simp
  next
    case 2
    then have "s = 16" "b = 2" "\<bar>t\<bar> \<le> 8160" using sb T(2) [of i] by (auto simp: step_bias_def t_def)
    then show ?thesis using q 2 t_def by auto
  next
    case 3
    then have "s = 48" "b = 32" "\<bar>t\<bar> \<le> 8160" using sb T(2) [of i] by (auto simp: step_bias_def t_def)
    then show ?thesis using q 3 t_def by auto
  next
    case 4
    then have "s = 4" "b = 0" "\<bar>t\<bar> \<le> 2040" using sb T(3) [of i] by (auto simp: step_bias_def t_def)
    then show ?thesis using q 4 t_def by auto
  next
    case 5
    then have "s = 8" "b = 2" "\<bar>t\<bar> \<le> 2040" using sb T(3) [of i] by (auto simp: step_bias_def t_def)
    then show ?thesis using q 5 t_def by auto
  next
    case 6
    then have "s = 8" "b = 0" "\<bar>t\<bar> \<le> 2040" using sb T(3) [of i] by (auto simp: step_bias_def t_def)
    then show ?thesis using q 6 t_def by auto
  next
    case 7
    then have "s = 2" "b = 0" "\<bar>t\<bar> \<le> 510" using sb T(4) [of i] by (auto simp: step_bias_def t_def)
    then show ?thesis using q 7 t_def by auto
  qed
qed


section \<open>Uniform blocks\<close>

lemma map_const_upt: "(\<And>k. k < n \<Longrightarrow> f k = c) \<Longrightarrow> map f [0..<n] = replicate n c"
  by (intro nth_equalityI) simp_all

lemma row_pass_uniform:
  assumes "n = 2 * h"
  shows "row_pass f (replicate (n * n) v) n = replicate (n * h) (f v v)"
proof -
  have nh: "n div 2 = h" using assms by simp
  show ?thesis
    unfolding row_pass_def Let_def nh
  proof (rule map_const_upt)
    fix k assume "k < n * h"
    note i = row_index [OF assms this]
    then have "k div h * n + 2 * (k mod h) < n * n" by (rule Suc_lessD [unfolded Suc_eq_plus1])
    then show "f (replicate (n * n) v ! (k div h * n + 2 * (k mod h)))
        (replicate (n * n) v ! (k div h * n + 2 * (k mod h) + 1)) = f v v"
      using i by (simp only: nth_replicate)
  qed
qed

lemma col_pass_uniform: "col_pass f (replicate (2 * h * h) v) h = replicate (h * h) (f v v)"
  unfolding col_pass_def
proof (rule map_const_upt)
  fix k assume "k < h * h"
  note i = col_index [OF this]
  then have "2 * (k div h) * h + k mod h < 2 * h * h" by (simp add: algebra_simps)
  then show "f (replicate (2 * h * h) v ! (2 * (k div h) * h + k mod h))
      (replicate (2 * h * h) v ! ((2 * (k div h) + 1) * h + k mod h)) = f v v"
    using i by (simp only: nth_replicate)
qed

lemma haar2d_uniform:
  assumes "n = 2 * h"
  shows "haar2d (replicate (n * n) v) n =
    (replicate (h * h) (4 * v), replicate (h * h) 0, replicate (h * h) 0, replicate (h * h) 0)"
proof -
  have h: "n div 2 = h" and nh: "n * h = 2 * h * h" using assms by simp_all
  show ?thesis
    unfolding haar2d_def Let_def row_pass_uniform [OF assms] h nh col_pass_uniform by simp
qed

lemma transform_uniform: "transform (replicate 64 v) = v # replicate 31 0"
proof -
  have 1: "haar2d (replicate 64 v) DIM = (replicate 16 (4 * v), replicate 16 0, replicate 16 0, replicate 16 0)"
    using haar2d_uniform [of 8 4 v] by (simp add: DIM_def)
  have 2: "haar2d (replicate 16 w) 4 = (replicate 4 (4 * w), replicate 4 0, replicate 4 0, replicate 4 0)" for w
    using haar2d_uniform [of 4 2 w] by simp
  have 3: "haar2d (replicate 4 w) 2 = ([4 * w], [0], [0], [0])" for w
    using haar2d_uniform [of 2 1 w] by simp
  have band: "map (\<lambda>p. replicate 16 (0::int) ! (p mod 4 * 4 + p div 4)) [0..<16] = replicate 16 0"
  proof (rule map_const_upt)
    fix p :: nat assume "p < 16"
    then have "p div 4 < 4" "p mod 4 < 4" by (simp_all add: less_mult_imp_div_less)
    then have "p mod 4 * 4 + p div 4 < 16" by linarith
    then show "replicate 16 (0::int) ! (p mod 4 * 4 + p div 4) = 0" by simp
  qed
  have m: "map (\<lambda>i. replicate 4 (0::int) ! i) [0..<4] = replicate 4 0"
    by (rule map_const_upt) simp
  show ?thesis
    unfolding transform_def 1 2 3 prod.case band m
    by (simp add: drop_bit_eq_div flip: replicate_add replicate_Suc)
qed

end
