(* ===== verification/Strip.thy ===== *)
theory Strip
  imports Bits Wht
begin

text \<open>
  The strip layouts of the Vino codec (\<open>chimera/vino/video.rs\<close>, module \<open>wht\<close>): a 64 by 16 pixel
  strip of 16 blocks becomes a 16-byte header, the significance units, the DC plane and the two AC
  rows. Buffers are byte lists; \<open>put\<close> is \<open>copy_from_slice\<close> into a range.
\<close>

definition SOLID_DC_BIT :: nat where "SOLID_DC_BIT = 368"
definition SOLID_DC_CMAX :: nat where "SOLID_DC_CMAX = 10"
definition SOLID_DC_MINPAD :: nat where "SOLID_DC_MINPAD = 61"
definition AC_CMAX :: nat where "AC_CMAX = 9"

definition SOLID_MAIN :: bytes where
  "SOLID_MAIN =
     [0x01, 0x28, 0, 0, 0, 0, 0, 0, 0, 0, 0x3a, 0, 0x3a, 0, 0, 0,
      0xfc, 0x00, 0x7e, 0x00, 0x3f, 0x80, 0x1f, 0xc0, 0x0f, 0xe0, 0x07, 0xf0, 0x03, 0xf8, 0x01, 0xfc,
      0x00, 0x7e, 0x00, 0x3f, 0x80, 0x1f, 0xc0, 0x0f, 0xe0, 0x07, 0xf0, 0x03, 0xf8, 0x01]"

definition STRIP_BLOCKS_X :: nat where "STRIP_BLOCKS_X = 8"
definition STRIP_ROW_BLOCKS :: nat where "STRIP_ROW_BLOCKS = 8"
definition STRIP_BLOCKS :: nat where "STRIP_BLOCKS = 16"
definition STRIP_W :: nat where "STRIP_W = STRIP_BLOCKS_X * DIM"
definition STRIP_H :: nat where "STRIP_H = 2 * DIM"

definition div_ceil :: "nat \<Rightarrow> nat \<Rightarrow> nat" where "div_ceil a b = (a + b - 1) div b"

definition round_even :: "nat \<Rightarrow> nat" where "round_even n = n + n mod 2"

section \<open>Solid strips\<close>

definition esc_len :: "int \<Rightarrow> nat \<Rightarrow> nat" where
  "esc_len v cmax =
     (if v = 0 then 1
      else let c = mag_category v in c + (if c < cmax then 1 else 0) + (c - 1) + 1)"

text \<open>The closure \<open>push\<close>: OR one bit into the buffer at a running position.\<close>

definition push_at :: "bool \<Rightarrow> bytes \<times> nat \<Rightarrow> bytes \<times> nat" where
  "push_at b = (\<lambda>(out, pos).
     (out[pos div 8 := out ! (pos div 8) OR push_bit (pos mod 8) (of_bool b)], pos + 1))"

text \<open>The escape as \<open>solid_strip\<close> writes it, without saturation.\<close>

definition solid_esc_bits :: "int \<Rightarrow> bool list" where
  "solid_esc_bits q =
     (if q = 0 then [False]
      else let c = mag_category q; off = nat \<bar>q\<bar> - 2 ^ (c - 1)
           in replicate c True @ (if c < SOLID_DC_CMAX then [False] else [])
              @ msb_bits (c - 1) off @ [q > 0])"

definition solid_strip :: "u16 \<Rightarrow> u16 \<Rightarrow> int \<Rightarrow> int \<Rightarrow> int \<Rightarrow> bytes" where
  "solid_strip x y ydc cbdc crdc =
     (let qs = [quantize_dc 2 crdc, quantize_dc 1 cbdc, quantize_dc 0 ydc];
          esc = esc_len (qs ! 0) SOLID_DC_CMAX + esc_len (qs ! 1) SOLID_DC_CMAX
                + esc_len (qs ! 2) SOLID_DC_CMAX;
          need = div_ceil (SOLID_DC_BIT + esc + SOLID_DC_MINPAD) 8;
          payload = need + need mod 2;
          len = payload + 2;
          l2 = of_nat (len - 2) :: u16;
          out = zeros len;
          out = put 0 SOLID_MAIN out;
          out = put 2 (le16 x) out;
          out = put 4 (le16 y) out;
          out = put 10 (le16 l2) out;
          out = put 12 (le16 l2) out
      in fst (fold push_at (concat (map solid_esc_bits qs)) (out, SOLID_DC_BIT)))"

section \<open>Luma strips\<close>

definition strip_head :: "u16 \<Rightarrow> u16 \<Rightarrow> nat \<Rightarrow> nat \<Rightarrow> bytes \<Rightarrow> bytes" where
  "strip_head x y w18 w1c out =
     (let out = out[0 := 0x01, 1 := 0x28];
          out = put 2 (le16 x) out;
          out = put 4 (le16 y) out;
          out = put 10 (le16 (of_nat w18)) out
      in put 12 (le16 (of_nat w1c)) out)"

text \<open>Positions \<open>1..=l\<close> of a block: a run bit for a zero, else the magnitude escape.\<close>

definition block_ac_bits :: "int list \<Rightarrow> nat \<Rightarrow> bool list" where
  "block_ac_bits q l =
     concat (map (\<lambda>i. if q ! i = 0 then [False] else esc_bits AC_CMAX (q ! i)) [1..<l + 1])"

definition block_ac :: "bits \<Rightarrow> int list \<Rightarrow> nat \<Rightarrow> bits" where
  "block_ac B q l = put_bits (block_ac_bits q l) B"

definition ac_strip :: "int list \<Rightarrow> u16 \<Rightarrow> u16 \<Rightarrow> bytes" where
  "ac_strip coeff x y =
     (let q = quantize_luma coeff;
          l = last_sig q;
          sync = bt_out (((sync_unit l) ^^ 16) bits_new);
          dc = bt_out (put_bits (replicate 45 False)
                 (esc (q ! 0) SOLID_DC_CMAX (esc 0 SOLID_DC_CMAX (esc 0 SOLID_DC_CMAX bits_new))));
          row = bt_out (((\<lambda>B. block_ac B q l) ^^ 8) bits_new);
          sync_b = length sync;
          rb = length row + length row mod 2;
          w18 = 16 + sync_b + 10;
          w1c = w18 + rb;
          len = w1c + rb + 2;
          out = strip_head x y w18 w1c (zeros len);
          out = put 16 sync out;
          out = put (16 + sync_b) dc out;
          out = put w18 row out;
          out = put w1c row out
      in put (len - 2) (le16 (of_nat (len - 2))) out)"

text \<open>The DPCM plane: the previous DCs are the loop's state.\<close>

fun dc_plane :: "bits \<Rightarrow> int \<times> int \<times> int \<Rightarrow> (int \<times> int \<times> int) list \<Rightarrow> bits" where
  "dc_plane B p [] = B"
| "dc_plane B (pcr, pcb, py) ((cr, cb, y) # dcs) =
     dc_plane (esc (y - py) SOLID_DC_CMAX (esc (cb - pcb) SOLID_DC_CMAX (esc (cr - pcr) SOLID_DC_CMAX B)))
       (cr, cb, y) dcs"

definition strip :: "int list list \<Rightarrow> u16 \<Rightarrow> u16 \<Rightarrow> bytes" where
  "strip blocks x y =
     (let q = map quantize_luma blocks;
          lasts = map last_sig q;
          dcb = dc_plane bits_new (0, 0, 0) (map (\<lambda>c. (0, 0, c ! 0)) q)
      in if \<not> list_ex (\<lambda>l. l \<noteq> 0) lasts
         then let l2 = round_even (div_ceil (SOLID_DC_BIT + bt_n dcb) 8) + 2;
                  len = l2 + 2;
                  out = put 0 SOLID_MAIN (zeros len);
                  out = put 2 (le16 x) out;
                  out = put 4 (le16 y) out;
                  out = put 10 (le16 (of_nat l2)) out;
                  out = put 12 (le16 (of_nat l2)) out;
                  out = put 46 (bt_out dcb) out
              in put (len - 2) (le16 (of_nat l2)) out
         else let sync = bt_out (fold sync_unit lasts bits_new);
                  row0 = bt_out (fold (\<lambda>(c, l) B. block_ac B c l) (take STRIP_ROW_BLOCKS (zip q lasts)) bits_new);
                  row1 = bt_out (fold (\<lambda>(c, l) B. block_ac B c l) (drop STRIP_ROW_BLOCKS (zip q lasts)) bits_new);
                  sync_b = length sync;
                  dc_b = round_even (length (bt_out dcb)) + 2;
                  r0 = round_even (length row0);
                  r1 = round_even (length row1);
                  w18 = 16 + sync_b + dc_b;
                  w1c = w18 + r0;
                  len = w1c + r1 + 2;
                  out = strip_head x y w18 w1c (zeros len);
                  out = put 16 sync out;
                  out = put (16 + sync_b) (bt_out dcb) out;
                  out = put w18 row0 out
              in put w1c row1 out)"

section \<open>Colour strips\<close>

definition colour_block_ac_bits :: "quant_block \<Rightarrow> bool list" where
  "colour_block_ac_bits b =
     block_ac_bits (cb_qcr b) (cb_lcr b) @ block_ac_bits (cb_qcb b) (cb_lcb b)
     @ block_ac_bits (cb_qy b) (cb_ly b)"

definition colour_block_ac :: "quant_block \<Rightarrow> bits \<Rightarrow> bits" where
  "colour_block_ac b B = put_bits (colour_block_ac_bits b) B"

definition colour_strip :: "quant_block list \<Rightarrow> u16 \<Rightarrow> u16 \<Rightarrow> bytes" where
  "colour_strip blocks x y =
     (let sync = bt_out (fold (\<lambda>b. colour_sync_unit (cb_lcr b) (cb_lcb b) (cb_ly b)) blocks bits_new);
          dcb = bt_out (dc_plane bits_new (0, 0, 0)
                  (map (\<lambda>b. (cb_qcr b ! 0, cb_qcb b ! 0, cb_qy b ! 0)) blocks));
          row0 = bt_out (fold colour_block_ac (take STRIP_ROW_BLOCKS blocks) bits_new);
          row1 = bt_out (fold colour_block_ac (drop STRIP_ROW_BLOCKS blocks) bits_new);
          sync_b = length sync;
          dc_b = round_even (length dcb) + 2;
          r0 = round_even (length row0);
          r1 = round_even (length row1);
          w18 = 16 + sync_b + dc_b;
          w1c = w18 + r0;
          len = w1c + r1;
          out = strip_head x y w18 w1c (zeros len);
          out = put 16 sync out;
          out = put (16 + sync_b) dcb out;
          out = put w18 row0 out
      in put w1c row1 out)"

section \<open>Frames of luma\<close>

definition block_coeffs :: "bytes \<Rightarrow> nat \<Rightarrow> nat \<Rightarrow> nat \<Rightarrow> int list" where
  "block_coeffs luma stride ox oy =
     transform (map (\<lambda>k. 64 * uint (luma ! ((oy + k div DIM) * stride + (ox + k mod DIM)))) [0..<PIXELS])"

definition luma_strip :: "bytes \<Rightarrow> nat \<Rightarrow> nat \<Rightarrow> nat \<Rightarrow> bytes" where
  "luma_strip luma width px py =
     strip (map (\<lambda>k. block_coeffs luma width (px + k mod STRIP_BLOCKS_X * DIM)
                       (py + k div STRIP_BLOCKS_X * DIM)) [0..<STRIP_BLOCKS])
       (of_nat px) (of_nat py)"

text \<open>The second pass: the tail of each strip becomes the length of the next one.\<close>

fun forward_tails :: "bytes list \<Rightarrow> bytes list" where
  "forward_tails (s # t # ss) =
     put (length s - 2) (le16 (of_nat (length t - 2))) s # forward_tails (t # ss)"
| "forward_tails ss = ss"

text \<open>\<open>encode_frame\<close>; a luma buffer shorter than the frame is an index panic.\<close>

definition encode_frame :: "bytes \<Rightarrow> nat \<Rightarrow> nat \<Rightarrow> bytes res" where
  "encode_frame luma width height =
     (if width mod (STRIP_BLOCKS_X * DIM) \<noteq> 0 \<or> height mod (2 * DIM) \<noteq> 0 then Inl EINVAL
      else if length luma < width * height then Inl Panic
      else Inr (concat (forward_tails
             (concat (map (\<lambda>sy. map (\<lambda>sx. luma_strip luma width (sx * STRIP_BLOCKS_X * DIM) (sy * 2 * DIM))
                              [0..<width div (STRIP_BLOCKS_X * DIM)])
                        [0..<height div (2 * DIM)])))))"

end
