(* ===== verification/StripLaws.thy ===== *)
theory StripLaws
  imports Strip
begin

text \<open>
  The strip layouts hold what they were built from: a decoder written from the layout recovers the
  quantized coefficients of every block, for solid and for AC strips alike, and the colour strips
  decode region by region.
\<close>

section \<open>Regions as bit lists\<close>

lemma esc_zero: "esc_bits cmax 0 = [False]"
  by (simp add: esc_bits_def)

definition ac_values :: "int list \<Rightarrow> nat \<Rightarrow> int list" where
  "ac_values q l = map ((!) q) [1..<l + 1]"

lemma length_ac_values [simp]: "length (ac_values q l) = l"
  by (simp add: ac_values_def)

lemma nth_ac_values: "i < l \<Longrightarrow> ac_values q l ! i = q ! Suc i"
  by (simp add: ac_values_def del: upt_Suc)

lemma block_ac_bits_values: "block_ac_bits q l = concat (map (esc_bits 9) (ac_values q l))"
proof -
  have "(if q ! i = 0 then [False] else esc_bits AC_CMAX (q ! i)) = esc_bits 9 (q ! i)" for i
    by (simp add: esc_zero AC_CMAX_def)
  then show ?thesis by (simp add: block_ac_bits_def ac_values_def o_def)
qed

fun residuals :: "int \<times> int \<times> int \<Rightarrow> (int \<times> int \<times> int) list \<Rightarrow> int list" where
  "residuals p [] = []"
| "residuals (pcr, pcb, py) ((cr, cb, y) # ds) =
     [cr - pcr, cb - pcb, y - py] @ residuals (cr, cb, y) ds"

lemma dc_plane_bits: "dc_plane B p ds = put_bits (concat (map (esc_bits 10) (residuals p ds))) B"
  by (induction p ds arbitrary: B rule: residuals.induct)
    (simp_all add: esc_def SOLID_DC_CMAX_def put_bits_append [symmetric] put_bits_def)

lemma length_residuals [simp]: "length (residuals p ds) = 3 * length ds"
  by (induction p ds rule: residuals.induct) simp_all

lemma fold_sync: "fold sync_unit ls B = put_bits (concat (map sync_bits ls)) B"
  by (induction ls arbitrary: B) (simp_all add: sync_unit_def put_bits_def)

lemma fold_block_ac:
  "fold (\<lambda>(c, l) B. block_ac B c l) cls B =
     put_bits (concat (map (esc_bits 9) (concat (map (\<lambda>(c, l). ac_values c l) cls)))) B"
  by (induction cls arbitrary: B) (auto simp: block_ac_def block_ac_bits_values put_bits_def)

lemma bt_n_put_bits: "bt_n (put_bits bs B) = bt_n B + length bs"
  by (induction bs arbitrary: B) (simp_all add: put_bits_def put_bit_def Let_def)

section \<open>Buffers as concatenations\<close>

lemma put_zeros:
  assumes "off = length xs + k" "k + length vs \<le> n"
  shows "put off vs (xs @ zeros n) = xs @ zeros k @ vs @ zeros (n - k - length vs)"
  using assms by (simp add: put_def zeros_def flip: replicate_add)

definition head :: "u16 \<Rightarrow> u16 \<Rightarrow> nat \<Rightarrow> nat \<Rightarrow> bytes" where
  "head x y a b =
     [0x01, 0x28] @ le16 x @ le16 y @ [0, 0, 0, 0] @ le16 (of_nat a) @ le16 (of_nat b) @ [0, 0]"

lemma length_head [simp]: "length (head x y a b) = 16"
  by (simp add: head_def)

lemma strip_head_eq:
  assumes "16 \<le> n"
  shows "strip_head x y a b (zeros n) = head x y a b @ zeros (n - 16)"
proof -
  have "zeros n = replicate 16 0 @ zeros (n - 16)"
    using assms by (simp add: zeros_def flip: replicate_add)
  then show ?thesis
    by (simp add: strip_head_def head_def put_def le16_def numeral_eq_Suc)
qed

lemma rd16_head:
  assumes "a < 65536" "b < 65536"
  shows "rd16 (head x y a b @ r) 2 = x" "rd16 (head x y a b @ r) 4 = y"
    "unat (rd16 (head x y a b @ r) 10) = a" "unat (rd16 (head x y a b @ r) 12) = b"
  using assms
  by (simp_all add: head_def rd16_def le16_def of_le16_le16 nth_Cons' unat_of_nat16)


definition flat_sync :: bytes where "flat_sync = drop 16 SOLID_MAIN"

text \<open>The constant main frame of a solid strip is sixteen flat significance units.\<close>

lemma flat_sync_bits: "bt_out (put_bits (concat (map sync_bits (replicate 16 0))) bits_new) = flat_sync"
  by code_simp

lemma solid_head:
  assumes "46 \<le> n"
  shows "put 12 (le16 (of_nat b)) (put 10 (le16 (of_nat a)) (put 4 (le16 y) (put 2 (le16 x)
      (put 0 SOLID_MAIN (zeros n))))) = head x y a b @ flat_sync @ zeros (n - 46)"
proof -
  have l: "length SOLID_MAIN = 46" by (simp add: SOLID_MAIN_def)
  have "put 0 SOLID_MAIN (zeros n) = SOLID_MAIN @ zeros (n - 46)"
    using assms l by (simp add: put_def zeros_def)
  also have "\<dots> = take 16 SOLID_MAIN @ flat_sync @ zeros (n - 46)"
    by (simp add: flat_sync_def)
  also have "take 16 SOLID_MAIN = [0x01, 0x28, 0, 0, 0, 0, 0, 0, 0, 0, 0x3a, 0, 0x3a, 0, 0, 0]"
    by (simp add: SOLID_MAIN_def)
  finally show ?thesis
    by (simp add: put_def head_def le16_def numeral_eq_Suc)
qed

text \<open>A strip with \<open>k\<close> spare bytes (and at most one of padding) at its end: header, significance units, DC plane, the two rows, at the offsets of the header.\<close>

definition strip_shape ::
  "nat \<Rightarrow> bytes \<Rightarrow> u16 \<Rightarrow> u16 \<Rightarrow> bytes \<Rightarrow> bytes \<Rightarrow> bytes \<Rightarrow> bytes \<Rightarrow> bool" where
  "strip_shape k out x y sync dcb row0 row1 \<longleftrightarrow> (\<exists>w18 w1c z1 z2 z3.
     out = head x y w18 w1c @ sync @ dcb @ z1 @ row0 @ z2 @ row1 @ z3
     \<and> w18 = 16 + length sync + length dcb + length z1
     \<and> w1c = w18 + length row0 + length z2
     \<and> length z1 \<le> 3 \<and> length z2 \<le> 1 \<and> k \<le> length z3 \<and> length z3 \<le> k + 1)"

lemma round_even_ge: "n \<le> round_even n" "round_even n \<le> n + 1" "even (round_even n)"
  by (auto simp: round_even_def)

lemma ac_shape:
  fixes sync dcb row0 row1 :: bytes
  defines "w18 \<equiv> 16 + length sync + (round_even (length dcb) + 2)"
  defines "w1c \<equiv> w18 + round_even (length row0)"
  assumes "n = w1c + round_even (length row1) + k"
  shows "strip_shape k (put w1c row1 (put w18 row0 (put (16 + length sync) dcb (put 16 sync
      (strip_head x y w18 w1c (zeros n)))))) x y sync dcb row0 row1"
proof -
  have n: "16 \<le> n" using assms by simp
  note ge = round_even_ge(1) [of "length dcb"] round_even_ge(1) [of "length row0"]
    round_even_ge(1) [of "length row1"]
  let ?h = "head x y w18 w1c"
  define z1 where "z1 = zeros (w18 - 16 - length sync - length dcb)"
  define z2 where "z2 = zeros (round_even (length row0) - length row0)"
  have 1: "put 16 sync (?h @ zeros (n - 16)) = (?h @ sync) @ zeros (n - 16 - length sync)"
    using put_zeros [of 16 ?h 0 sync "n - 16"] n assms ge by (simp add: zeros_def)
  have 2: "put (16 + length sync) dcb ((?h @ sync) @ zeros (n - 16 - length sync))
      = (?h @ sync @ dcb) @ zeros (n - 16 - length sync - length dcb)"
    using put_zeros [of "16 + length sync" "?h @ sync" 0 dcb "n - 16 - length sync"] assms ge
    by (simp add: zeros_def)
  have 3: "put w18 row0 ((?h @ sync @ dcb) @ zeros (n - 16 - length sync - length dcb))
      = (?h @ sync @ dcb @ z1 @ row0) @ zeros (n - w18 - length row0)"
    using put_zeros [of w18 "?h @ sync @ dcb" "length z1" row0 "n - 16 - length sync - length dcb"] assms ge
    by (simp add: z1_def)
  have 4: "put w1c row1 ((?h @ sync @ dcb @ z1 @ row0) @ zeros (n - w18 - length row0))
      = ?h @ sync @ dcb @ z1 @ row0 @ z2 @ row1 @ zeros (n - w1c - length row1)"
    using put_zeros [of w1c "?h @ sync @ dcb @ z1 @ row0" "length z2" row1 "n - w18 - length row0"] assms ge
    by (simp add: z1_def z2_def)
  have "w18 = 16 + length sync + length dcb + length z1" "w1c = w18 + length row0 + length z2"
    "length z1 \<le> 3" "length z2 \<le> 1" "k \<le> length (zeros (n - w1c - length row1))"
    "length (zeros (n - w1c - length row1)) \<le> k + 1"
    using ge round_even_ge(2) [of "length dcb"] round_even_ge(2) [of "length row0"]
      round_even_ge(2) [of "length row1"] assms
    by (simp_all add: z1_def z2_def)
  then show ?thesis
    unfolding strip_head_eq [OF n] 1 2 3 4 strip_shape_def by blast
qed


text \<open>The regions \<open>strip\<close> writes for its blocks.\<close>

definition luma_dcs :: "int list list \<Rightarrow> int list" where
  "luma_dcs qs = residuals (0, 0, 0) (map (\<lambda>c. (0, 0, c ! 0)) qs)"

definition row_values :: "int list list \<Rightarrow> int list" where
  "row_values qs = concat (map (\<lambda>c. ac_values c (last_sig c)) qs)"

definition region :: "('a \<Rightarrow> bool list) \<Rightarrow> 'a list \<Rightarrow> bytes" where
  "region enc as = bt_out (put_bits (concat (map enc as)) bits_new)"

lemma length_region: "length (region enc as) = (length (concat (map enc as)) + 7) div 8"
  by (simp add: region_def length_bits)

lemma ac_values_0 [simp]: "ac_values q 0 = []"
  by (simp add: ac_values_def)

lemma zip_map_self: "zip xs (map f xs) = map (\<lambda>x. (x, f x)) xs"
  by (induction xs) simp_all

lemma length_flat_sync [simp]: "length flat_sync = 30"
  by (simp add: flat_sync_def SOLID_MAIN_def)

lemma strip_solid_bytes:
  assumes q: "q = map quantize_luma blocks" and z: "\<And>c. c \<in> set q \<Longrightarrow> last_sig c = 0"
  defines "D \<equiv> region (esc_bits 10) (luma_dcs q)"
  defines "l2 \<equiv> 48 + round_even (length D)"
  shows "strip blocks x y =
    head x y l2 l2 @ flat_sync @ D @ zeros (l2 - 46 - length D) @ le16 (of_nat l2)"
proof -
  define dcb where "dcb = dc_plane bits_new (0, 0, 0) (map (\<lambda>c. (0, 0, c ! 0)) q)"
  have dcb: "dcb = put_bits (concat (map (esc_bits 10) (luma_dcs q))) bits_new"
    by (simp add: dcb_def dc_plane_bits luma_dcs_def)
  have D: "bt_out dcb = D" by (simp add: dcb region_def D_def)
  define n where "n = bt_n dcb"
  have "n = length (concat (map (esc_bits 10) (luma_dcs q)))"
    by (simp add: n_def dcb bt_n_put_bits) (simp add: bits_new_def)
  then have "length D = (n + 7) div 8"
    by (simp only: D [symmetric] dcb length_bits)
  moreover have "div_ceil (SOLID_DC_BIT + n) 8 = 46 + (n + 7) div 8"
    by (simp add: div_ceil_def SOLID_DC_BIT_def)
  moreover have "(46 + k) mod 2 = k mod 2" for k :: nat by presburger
  ultimately have l2: "round_even (div_ceil (SOLID_DC_BIT + n) 8) + 2 = l2"
    by (simp add: l2_def round_even_def)
  note ge = round_even_ge(1) [of "length D"]
  have "46 \<le> l2 + 2" by (simp add: l2_def)
  note sh = solid_head [OF this]
  have no_ac: "\<not> list_ex (\<lambda>l. l \<noteq> 0) (map last_sig q)" using z by (simp add: list_ex_iff)
  have s: "strip blocks x y = put (l2 + 2 - 2) (le16 (of_nat l2)) (put 46 D
      (head x y l2 l2 @ flat_sync @ zeros (l2 + 2 - 46)))"
    using no_ac unfolding strip_def Let_def q [symmetric] dcb_def [symmetric] n_def [symmetric] l2 D
    by (simp only: sh simp_thms if_True not_False_eq_True)
  have 1: "put 46 D ((head x y l2 l2 @ flat_sync) @ zeros (l2 + 2 - 46))
      = (head x y l2 l2 @ flat_sync) @ zeros 0 @ D @ zeros (l2 + 2 - 46 - 0 - length D)"
    by (rule put_zeros) (use ge in \<open>simp_all add: l2_def\<close>)
  have 2: "put (l2 + 2 - 2) (le16 (of_nat l2)) ((head x y l2 l2 @ flat_sync @ D) @ zeros (l2 + 2 - 46 - length D))
      = (head x y l2 l2 @ flat_sync @ D) @ zeros (l2 - 46 - length D) @ le16 (of_nat l2)
        @ zeros (l2 + 2 - 46 - length D - (l2 - 46 - length D) - 2)"
    using put_zeros [of "l2 + 2 - 2" "head x y l2 l2 @ flat_sync @ D" "l2 - 46 - length D"
        "le16 (of_nat l2)" "l2 + 2 - 46 - length D"] ge
    by (simp add: l2_def)
  have "l2 + 2 - 46 - length D - (l2 - 46 - length D) - 2 = 0" "zeros 0 = []"
    using ge by (simp_all add: l2_def zeros_def)
  then show ?thesis
    unfolding s using 1 2 by simp
qed

lemma strip_has_shape:
  assumes "length blocks = 16" and q: "q = map quantize_luma blocks"
  shows "strip_shape 2 (strip blocks x y) x y (region sync_bits (map last_sig q))
    (region (esc_bits 10) (luma_dcs q)) (region (esc_bits 9) (row_values (take 8 q)))
    (region (esc_bits 9) (row_values (drop 8 q)))"
proof (cases "list_ex (\<lambda>l. l \<noteq> 0) (map last_sig q)")
  case True
  define dcb where "dcb = dc_plane bits_new (0, 0, 0) (map (\<lambda>c. (0, 0, c ! 0)) q)"
  have dc: "bt_out dcb = region (esc_bits 10) (luma_dcs q)"
    by (simp add: dcb_def dc_plane_bits luma_dcs_def region_def)
  have rows: "bt_out (fold (\<lambda>(c, l) B. block_ac B c l) (map (\<lambda>c. (c, last_sig c)) qs) bits_new)
      = region (esc_bits 9) (row_values qs)" for qs
    unfolding fold_block_ac region_def row_values_def by (simp add: o_def)
  have "strip blocks x y =
      (let sync = region sync_bits (map last_sig q);
           row0 = region (esc_bits 9) (row_values (take 8 q));
           row1 = region (esc_bits 9) (row_values (drop 8 q));
           w18 = 16 + length sync + (round_even (length (bt_out dcb)) + 2);
           w1c = w18 + round_even (length row0)
       in put w1c row1 (put w18 row0 (put (16 + length sync) (bt_out dcb) (put 16 sync
            (strip_head x y w18 w1c (zeros (w1c + round_even (length row1) + 2)))))))"
    using True unfolding strip_def Let_def q [symmetric] dcb_def [symmetric] zip_map_self
      take_map drop_map rows STRIP_ROW_BLOCKS_def fold_sync region_def [symmetric]
    by (simp only: simp_thms if_False)
  then show ?thesis
    unfolding Let_def dc by (simp only: ac_shape)
next
  case False
  then have z: "last_sig c = 0" if "c \<in> set q" for c using that by (auto simp: list_ex_iff)
  then have "map last_sig q = replicate (length q) 0"
    by (simp add: map_replicate_const [symmetric] cong: map_cong)
  then have l: "map last_sig q = replicate 16 0" using assms by simp
  have r: "row_values (take 8 q) = []" "row_values (drop 8 q) = []"
    using z by (auto simp: row_values_def dest: in_set_takeD in_set_dropD)
  have f: "region sync_bits (map last_sig q) = flat_sync"
    by (simp only: l region_def flat_sync_bits)
  define D where "D = region (esc_bits 10) (luma_dcs q)"
  define l2 where "l2 = 48 + round_even (length D)"
  define k where "k = l2 - 46 - length D"
  have "strip blocks x y = head x y l2 l2 @ flat_sync @ D @ zeros k @ [] @ [] @ [] @ le16 (of_nat l2)"
    using strip_solid_bytes [OF q z] by (simp add: D_def l2_def k_def)
  moreover have "l2 = 16 + length flat_sync + length D + length (zeros k)" "k \<le> 3"
    using round_even_ge(1,2) [of "length D"] by (simp_all add: k_def l2_def)
  ultimately have "strip_shape 2 (strip blocks x y) x y flat_sync D [] []"
    unfolding strip_shape_def by (intro exI [of _ l2] exI [of _ "zeros k"] exI [of _ "[]"] exI) auto
  then show ?thesis
    unfolding f D_def r by (simp add: region_def bits_new_def put_bits_def)
qed

section \<open>The decoder (specification)\<close>

fun split_lens :: "nat list \<Rightarrow> 'a list \<Rightarrow> 'a list list" where
  "split_lens [] xs = []"
| "split_lens (n # ns) xs = take n xs # split_lens ns (drop n xs)"

fun undo_dpcm :: "int \<Rightarrow> int list \<Rightarrow> int list" where
  "undo_dpcm p (_ # _ # r # rs) = (p + r) # undo_dpcm (p + r) rs"
| "undo_dpcm p rs = []"

definition rebuild :: "nat list \<Rightarrow> int list \<Rightarrow> int list list \<Rightarrow> int list list" where
  "rebuild ls dcs acs = map (\<lambda>(l, dc, ac). dc # ac @ replicate (31 - l) 0) (zip ls (zip dcs acs))"

definition dec_strip :: "bytes \<Rightarrow> (u16 \<times> u16 \<times> int list list) option" where
  "dec_strip bs =
     (case dec_many dec_sync 16 (unpack (drop 16 bs)) of
        None \<Rightarrow> None
      | Some (ls, r) \<Rightarrow>
          let sync_b = (8 * (length bs - 16) - length r + 7) div 8 in
          case dec_many (dec_esc 10) 48 (unpack (drop (16 + sync_b) bs)) of
            None \<Rightarrow> None
          | Some (res, _) \<Rightarrow>
              case dec_many (dec_esc 9) (sum_list (take 8 ls)) (unpack (drop (unat (rd16 bs 10)) bs)) of
                None \<Rightarrow> None
              | Some (v0, _) \<Rightarrow>
                  case dec_many (dec_esc 9) (sum_list (drop 8 ls)) (unpack (drop (unat (rd16 bs 12)) bs)) of
                    None \<Rightarrow> None
                  | Some (v1, _) \<Rightarrow>
                      Some (rd16 bs 2, rd16 bs 4,
                        rebuild ls (undo_dpcm 0 res)
                          (split_lens (take 8 ls) v0 @ split_lens (drop 8 ls) v1)))"

lemma undo_dpcm_luma:
  "undo_dpcm p (residuals (0, 0, p) (map (\<lambda>c. (0, 0, c ! 0)) qs)) = map (\<lambda>c. c ! 0) qs"
  by (induction qs arbitrary: p) simp_all

lemma split_row_values:
  "split_lens (map last_sig qs) (row_values qs) = map (\<lambda>c. ac_values c (last_sig c)) qs"
  by (induction qs) (simp_all add: row_values_def ac_values_def)

lemma length_row_values: "length (row_values qs) = sum_list (map last_sig qs)"
  by (induction qs) (simp_all add: row_values_def ac_values_def)

lemma last_sig_bound: "last_sig q < 32"
proof -
  have "i < 32" if "find P (rev [1..<COEFFS]) = Some i" for P i
    using find_SomeD [OF that] by (simp add: COEFFS_def)
  then show ?thesis unfolding last_sig_def by (auto split: option.splits)
qed

lemma find_rev_upt_None:
  "find P (rev [1..<m]) = Some l \<Longrightarrow> l < i \<Longrightarrow> i < m \<Longrightarrow> \<not> P i"
proof (induction m)
  case (Suc m)
  then show ?case by (cases "m = 0") (auto split: if_splits simp: less_Suc_eq)
qed simp

lemma last_sig_zero:
  assumes "last_sig q < i" "i < 32"
  shows "q ! i = 0"
proof (cases "find (\<lambda>i. q ! i \<noteq> 0) (rev [1..<COEFFS])")
  case None
  then have "\<forall>j \<in> set [1..<32]. q ! j = 0"
    by (simp add: find_None_iff COEFFS_def)
  then show ?thesis using assms by simp
next
  case (Some l)
  then have "last_sig q = l" by (simp add: last_sig_def)
  with assms find_rev_upt_None [OF Some, of i] show ?thesis by (simp add: COEFFS_def)
qed

lemma quantized_block_eq:
  assumes "length q = 32"
  shows "q ! 0 # ac_values q (last_sig q) @ replicate (31 - last_sig q) 0 = q"
proof (rule nth_equalityI)
  have l: "last_sig q < 32" by (rule last_sig_bound)
  then show "length (q ! 0 # ac_values q (last_sig q) @ replicate (31 - last_sig q) 0) = length q"
    by (simp add: assms)
  fix i assume "i < length (q ! 0 # ac_values q (last_sig q) @ replicate (31 - last_sig q) 0)"
  then have i: "i < 32" using l by simp
  show "(q ! 0 # ac_values q (last_sig q) @ replicate (31 - last_sig q) 0) ! i = q ! i"
  proof (cases "i \<le> last_sig q")
    case True
    then show ?thesis by (cases i) (simp_all add: nth_ac_values nth_append)
  next
    case False
    then show ?thesis
      using i last_sig_zero [of q i] by (cases i) (auto simp: nth_append)
  qed
qed

lemma rebuild_quantized:
  assumes "\<And>c. c \<in> set qs \<Longrightarrow> length c = 32"
  shows "rebuild (map last_sig qs) (map (\<lambda>c. c ! 0) qs) (map (\<lambda>c. ac_values c (last_sig c)) qs) = qs"
  using assms
proof (induction qs)
  case (Cons c qs)
  then show ?case using quantized_block_eq [of c] by (simp add: rebuild_def)
qed (simp add: rebuild_def)

text \<open>A byte string of this shape decodes to the coefficients its regions code.\<close>

lemma region_length:
  "list_all (\<lambda>l. l < 32) ls \<Longrightarrow> length (region sync_bits ls) \<le> 2 * length ls + 1"
  "length (region (esc_bits 10) vs) \<le> 3 * length vs + 1"
  "length (region (esc_bits 9) vs) \<le> 3 * length vs + 1"
proof -
  have "length (concat (map (esc_bits 10) vs)) \<le> 21 * length vs"
    "length (concat (map (esc_bits 9) vs)) \<le> 21 * length vs"
    by (rule length_concat_bound, rule order.trans [OF length_esc_bits], simp)+
  then show "length (region (esc_bits 10) vs) \<le> 3 * length vs + 1"
    "length (region (esc_bits 9) vs) \<le> 3 * length vs + 1"
    unfolding length_region by linarith+
  have "length (concat (map sync_bits ls)) \<le> 15 * length ls"
    by (rule length_concat_bound) (rule length_sync_bits)
  then show "length (region sync_bits ls) \<le> 2 * length ls + 1"
    unfolding length_region by linarith
qed

lemma dec_shape:
  assumes shape: "strip_shape k out x y (region sync_bits ls) (region (esc_bits 10) dcs)
      (region (esc_bits 9) v0) (region (esc_bits 9) v1)"
    and ls: "length ls = 16" "list_all (\<lambda>l. l < 32) ls"
    and dcs: "length dcs = 48" "list_all (\<lambda>v. \<bar>v\<bar> < 2 ^ 10) dcs"
    and v0: "length v0 = sum_list (take 8 ls)" "list_all (\<lambda>v. \<bar>v\<bar> < 2 ^ 9) v0"
    and v1: "length v1 = sum_list (drop 8 ls)" "list_all (\<lambda>v. \<bar>v\<bar> < 2 ^ 9) v1"
  shows "dec_strip out = Some (x, y, rebuild ls (undo_dpcm 0 dcs)
      (split_lens (take 8 ls) v0 @ split_lens (drop 8 ls) v1))"
proof -
  let ?S = "region sync_bits ls" and ?D = "region (esc_bits 10) dcs"
    and ?R0 = "region (esc_bits 9) v0" and ?R1 = "region (esc_bits 9) v1"
  obtain a b z1 z2 z3 where out: "out = head x y a b @ ?S @ ?D @ z1 @ ?R0 @ z2 @ ?R1 @ z3"
    and a: "a = 16 + length ?S + length ?D + length z1" and b: "b = a + length ?R0 + length z2"
    and z: "length z1 \<le> 3" "length z2 \<le> 1"
    using shape unfolding strip_shape_def by blast
  have "sum_list (take 8 ls) \<le> sum_list ls"
    by (metis append_take_drop_id le_add1 sum_list_append)
  moreover have "sum_list ls \<le> 31 * length ls" using ls(2) by (induction ls) auto
  ultimately have "b < 65536"
    using region_length(1) [OF ls(2)] region_length(2) [of dcs] region_length(3) [of v0] ls(1) dcs(1) v0(1) z
    unfolding a b by linarith
  then have ab: "a < 65536" "b < 65536" using b by simp_all
  note hd = rd16_head [OF ab, of x y "?S @ ?D @ z1 @ ?R0 @ z2 @ ?R1 @ z3"]
  define t where "t = ?D @ z1 @ ?R0 @ z2 @ ?R1 @ z3"
  have d16: "drop 16 out = ?S @ t" by (simp add: out t_def)
  have sync: "dec_many dec_sync 16 (unpack (drop 16 out)) =
      Some (ls, replicate (8 * length ?S - length (concat (map sync_bits ls))) False @ unpack t)"
    using sync_code.dec_region [OF ls(2), of t] ls(1) unfolding d16 length_region by (simp add: region_def)
  define r where "r = replicate (8 * length ?S - length (concat (map sync_bits ls))) False @ unpack t"
  have "length (concat (map sync_bits ls)) \<le> 8 * length ?S" unfolding length_region by simp
  then have sb: "(8 * (length out - 16) - length r + 7) div 8 = length ?S"
    by (simp add: r_def out t_def length_region)
  have dD: "drop (16 + length ?S) out = ?D @ z1 @ ?R0 @ z2 @ ?R1 @ z3"
    by (simp add: out)
  have D: "\<exists>s. dec_many (dec_esc 10) 48 (unpack (drop (16 + length ?S) out)) = Some (dcs, s)"
    using dc_code.dec_region [OF dcs(2), folded region_def] dcs(1) unfolding dD by simp
  have "drop a out = ?R0 @ z2 @ ?R1 @ z3" by (simp add: out a)
  then have R0: "\<exists>s. dec_many (dec_esc 9) (sum_list (take 8 ls)) (unpack (drop a out)) = Some (v0, s)"
    using ac_code.dec_region [OF v0(2), folded region_def] unfolding v0(1) [symmetric] by simp
  have "drop b out = ?R1 @ z3" by (simp add: out a b)
  then have R1: "\<exists>s. dec_many (dec_esc 9) (sum_list (drop 8 ls)) (unpack (drop b out)) = Some (v1, s)"
    using ac_code.dec_region [OF v1(2), folded region_def] unfolding v1(1) [symmetric] by simp
  show ?thesis
    using D R0 R1 hd unfolding dec_strip_def sync r_def [symmetric]
    by (auto simp: Let_def sb out [symmetric])
qed


section \<open>Strips of 8-bit pixels\<close>

lemma last_sig_all: "list_all (\<lambda>l. l < 32) (map last_sig qs)"
  by (simp add: list_all_iff last_sig_bound)

lemma residuals_bound:
  assumes "0 \<le> p" "p \<le> 1020" "\<And>c. c \<in> set qs \<Longrightarrow> 0 \<le> c ! 0 \<and> c ! 0 \<le> 1020"
  shows "list_all (\<lambda>v. \<bar>v\<bar> < 2 ^ 10) (residuals (0, 0, p) (map (\<lambda>c. (0, 0, c ! 0)) qs))"
  using assms
proof (induction qs arbitrary: p)
  case (Cons c qs)
  then have "0 \<le> c ! 0 \<and> c ! 0 \<le> 1020" by simp
  then have "\<bar>c ! 0 - p\<bar> < 2 ^ 10" using Cons.prems(1,2) by (simp add: abs_less_iff)
  then show ?case using Cons by simp
qed simp

lemma row_values_bound:
  assumes "\<And>c i. c \<in> set qs \<Longrightarrow> 0 < i \<Longrightarrow> i < 32 \<Longrightarrow> \<bar>c ! i\<bar> < 2 ^ 9"
  shows "list_all (\<lambda>v. \<bar>v\<bar> < 2 ^ 9) (row_values qs)"
proof -
  have "\<bar>v\<bar> < 2 ^ 9" if c: "c \<in> set qs" and v: "v \<in> set (ac_values c (last_sig c))" for c v
  proof -
    obtain i where "i \<in> set [1..<last_sig c + 1]" "v = c ! i"
      using v unfolding ac_values_def by auto
    then have "0 < i" "i < 32" "v = c ! i" using last_sig_bound [of c] by auto
    then show ?thesis using assms [OF c, of i] by simp
  qed
  then show ?thesis by (auto simp: row_values_def list_all_iff)
qed

text \<open>What is needed of the quantized blocks: 16 of them, each within its category bounds.\<close>

lemma strip_decodes:
  assumes "length blocks = 16" and q: "q = map quantize_luma blocks"
    and dc: "\<And>c. c \<in> set q \<Longrightarrow> 0 \<le> c ! 0 \<and> c ! 0 \<le> 1020"
    and ac: "\<And>c i. c \<in> set q \<Longrightarrow> 0 < i \<Longrightarrow> i < 32 \<Longrightarrow> \<bar>c ! i\<bar> < 2 ^ 9"
    and out: "strip_shape k out x y (region sync_bits (map last_sig q))
      (region (esc_bits 10) (luma_dcs q)) (region (esc_bits 9) (row_values (take 8 q)))
      (region (esc_bits 9) (row_values (drop 8 q)))"
  shows "dec_strip out = Some (x, y, q)"
proof -
  have len: "length q = 16" using assms(1) q by simp
  have c32: "length c = 32" if "c \<in> set q" for c
    using that by (auto simp: q quantize_luma_def COEFFS_def)
  have "split_lens (map last_sig (take 8 q)) (row_values (take 8 q))
      @ split_lens (map last_sig (drop 8 q)) (row_values (drop 8 q))
      = map (\<lambda>c. ac_values c (last_sig c)) q"
    unfolding split_row_values by (simp flip: map_append)
  then have "rebuild (map last_sig q) (undo_dpcm 0 (luma_dcs q))
      (split_lens (take 8 (map last_sig q)) (row_values (take 8 q))
       @ split_lens (drop 8 (map last_sig q)) (row_values (drop 8 q))) = q"
    unfolding luma_dcs_def undo_dpcm_luma take_map drop_map
    using rebuild_quantized [of q] c32 by simp
  moreover have "dec_strip out = Some (x, y, rebuild (map last_sig q) (undo_dpcm 0 (luma_dcs q))
      (split_lens (take 8 (map last_sig q)) (row_values (take 8 q))
       @ split_lens (drop 8 (map last_sig q)) (row_values (drop 8 q))))"
  proof (rule dec_shape [OF out])
    show "list_all (\<lambda>v. \<bar>v\<bar> < 2 ^ 10) (luma_dcs q)"
      unfolding luma_dcs_def by (rule residuals_bound) (use dc in auto)
    show "list_all (\<lambda>v. \<bar>v\<bar> < 2 ^ 9) (row_values (take 8 q))"
      by (rule row_values_bound) (blast intro: ac dest: in_set_takeD)
    show "list_all (\<lambda>v. \<bar>v\<bar> < 2 ^ 9) (row_values (drop 8 q))"
      by (rule row_values_bound) (blast intro: ac dest: in_set_dropD)
  qed (simp_all add: len last_sig_all luma_dcs_def length_row_values take_map drop_map)
  ultimately show ?thesis by simp
qed

definition luma_quantized :: "bytes \<Rightarrow> nat \<Rightarrow> nat \<Rightarrow> nat \<Rightarrow> int list list" where
  "luma_quantized luma width px py =
     map (\<lambda>k. quantize_luma (block_coeffs luma width (px + k mod 8 * 8) (py + k div 8 * 8))) [0..<16]"

lemma block_coeffs_range:
  "\<exists>px. block_coeffs luma s ox oy = transform px \<and> within 0 16320 px \<and> length px = 64"
proof -
  have u: "uint v \<le> 255" for v :: u8
    using uint_bounded [of v] by simp
  show ?thesis
    unfolding block_coeffs_def by (intro exI conjI, rule refl)
      (auto simp: within_def PIXELS_def DIM_def u order.trans [OF _ u])
qed

lemma luma_quantized_bounds:
  assumes "c \<in> set (luma_quantized luma w px py)"
  shows "0 \<le> c ! 0 \<and> c ! 0 \<le> 1020" and "0 < i \<Longrightarrow> i < 32 \<Longrightarrow> \<bar>c ! i\<bar> < 2 ^ 9"
proof -
  obtain px where c: "c = quantize_luma (transform px)" "within 0 16320 px" "length px = 64"
    using assms block_coeffs_range unfolding luma_quantized_def by (auto, metis)
  have n: "c ! i = quantize (transform px ! i) i" if "i < 32" for i
    using that by (simp add: c quantize_luma_def COEFFS_def)
  have "0 \<le> transform px ! 0 \<and> transform px ! 0 \<le> 16320" by (rule transform_within(1) [OF c(2,3)])
  then show "0 \<le> c ! 0 \<and> c ! 0 \<le> 1020"
  proof -
    assume "0 \<le> transform px ! 0 \<and> transform px ! 0 \<le> 16320"
    then have "0 \<le> (transform px ! 0 + 8) div 16" "(transform px ! 0 + 8) div 16 \<le> 1020"
      by linarith+
    then show ?thesis
      using transform_within(1) [OF c(2,3)] by (simp add: n quantize_def step_bias_def clamp_def Let_def)
  qed
  show "\<bar>c ! i\<bar> < 2 ^ 9" if "0 < i" "i < 32"
    using quantize_luma_range [OF c(2,3) that(2)] that by (simp add: n)
qed


lemma luma_strip_shape:
  "strip_shape 2 (luma_strip luma w px py) (of_nat px) (of_nat py)
    (region sync_bits (map last_sig (luma_quantized luma w px py)))
    (region (esc_bits 10) (luma_dcs (luma_quantized luma w px py)))
    (region (esc_bits 9) (row_values (take 8 (luma_quantized luma w px py))))
    (region (esc_bits 9) (row_values (drop 8 (luma_quantized luma w px py))))"
  unfolding luma_strip_def
  by (rule strip_has_shape) (simp_all add: luma_quantized_def STRIP_BLOCKS_def STRIP_BLOCKS_X_def DIM_def)

text \<open>The last two bytes of a strip are not read: the forward hint may overwrite them.\<close>

lemma strip_shape_tail:
  assumes "strip_shape 2 out x y sync dcb row0 row1"
  shows "strip_shape 2 (put (length out - 2) (le16 t) out) x y sync dcb row0 row1"
    and "2 \<le> length out"
proof -
  obtain a b z1 z2 z3 where o: "out = head x y a b @ sync @ dcb @ z1 @ row0 @ z2 @ row1 @ z3"
    and r: "a = 16 + length sync + length dcb + length z1" "b = a + length row0 + length z2"
      "length z1 \<le> 3" "length z2 \<le> 1" and z3: "2 \<le> length z3" "length z3 \<le> 2 + 1"
    using assms unfolding strip_shape_def by blast
  define z4 where "z4 = take (length z3 - 2) z3 @ le16 t"
  have "put (length out - 2) (le16 t) out = head x y a b @ sync @ dcb @ z1 @ row0 @ z2 @ row1 @ z4"
    using z3 by (simp add: o put_def z4_def)
  moreover have "2 \<le> length z4" "length z4 \<le> 2 + 1" using z3 by (simp_all add: z4_def)
  ultimately show "strip_shape 2 (put (length out - 2) (le16 t) out) x y sync dcb row0 row1"
    using r unfolding strip_shape_def by blast
  show "2 \<le> length out" using z3 by (simp add: o)
qed

lemma luma_shape_decodes:
  assumes "strip_shape 2 out (of_nat px) (of_nat py)
    (region sync_bits (map last_sig (luma_quantized luma w px py)))
    (region (esc_bits 10) (luma_dcs (luma_quantized luma w px py)))
    (region (esc_bits 9) (row_values (take 8 (luma_quantized luma w px py))))
    (region (esc_bits 9) (row_values (drop 8 (luma_quantized luma w px py))))"
  shows "dec_strip out = Some (of_nat px, of_nat py, luma_quantized luma w px py)"
proof (rule strip_decodes [OF _ _ _ _ assms])
  show "luma_quantized luma w px py =
      map quantize_luma (map (\<lambda>k. block_coeffs luma w (px + k mod 8 * 8) (py + k div 8 * 8)) [0..<16])"
    by (simp add: luma_quantized_def)
  show "\<bar>c ! i\<bar> < 2 ^ 9" if "c \<in> set (luma_quantized luma w px py)" "0 < i" "i < 32" for c i
    by (rule luma_quantized_bounds(2) [OF that])
qed (simp_all add: luma_quantized_bounds)

text \<open>
  C30. Every luma strip \<open>encode_frame\<close> builds from 8-bit pixels, solid or not, decodes to exactly
  its position and the quantized coefficients of its sixteen blocks: the header offsets fit their
  16-bit fields, no value saturates its code, and the regions do not overlap.
\<close>

theorem luma_strip_decodes:
  "dec_strip (luma_strip luma w px py) = Some (of_nat px, of_nat py, luma_quantized luma w px py)"
  by (rule luma_shape_decodes) (rule luma_strip_shape)

definition luma_tiles :: "nat \<Rightarrow> nat \<Rightarrow> (nat \<times> nat) list" where
  "luma_tiles w h = concat (map (\<lambda>sy. map (\<lambda>sx. (sx * 64, sy * 16)) [0..<w div 64]) [0..<h div 16])"

lemma forward_tails_spec:
  assumes "list_all2 (\<lambda>s (px, py). strip_shape 2 s (of_nat px) (of_nat py)
    (region sync_bits (map last_sig (luma_quantized luma w px py)))
    (region (esc_bits 10) (luma_dcs (luma_quantized luma w px py)))
    (region (esc_bits 9) (row_values (take 8 (luma_quantized luma w px py))))
    (region (esc_bits 9) (row_values (drop 8 (luma_quantized luma w px py))))) ss ts"
  shows "map dec_strip (forward_tails ss) =
      map (\<lambda>(px, py). Some (of_nat px, of_nat py, luma_quantized luma w px py)) ts
    \<and> map length (forward_tails ss) = map length ss
    \<and> map (\<lambda>s. drop (length s - 2) s) (butlast (forward_tails ss))
      = map (\<lambda>n. le16 (of_nat (n - 2))) (tl (map length ss))"
  using assms
proof (induction ss arbitrary: ts rule: forward_tails.induct)
  case (1 s t ss)
  obtain px py us where ts: "ts = (px, py) # us" using 1(2) by (cases ts) auto
  have "strip_shape 2 s (of_nat px) (of_nat py)
    (region sync_bits (map last_sig (luma_quantized luma w px py)))
    (region (esc_bits 10) (luma_dcs (luma_quantized luma w px py)))
    (region (esc_bits 9) (row_values (take 8 (luma_quantized luma w px py))))
    (region (esc_bits 9) (row_values (drop 8 (luma_quantized luma w px py))))"
    using 1(2) by (simp add: ts)
  note sh = strip_shape_tail [OF this]
  have d: "dec_strip (put (length s - 2) (le16 (of_nat (length t - 2))) s)
      = Some (of_nat px, of_nat py, luma_quantized luma w px py)"
    by (rule luma_shape_decodes) (rule sh(1))
  have l: "length (put (length s - 2) (le16 v) s) = length s" for v
    using sh(2) by simp
  have dr: "drop (length s - 2) (put (length s - 2) (le16 v) s) = le16 v" for v
    using sh(2) by (simp add: put_def)
  have IH: "map dec_strip (forward_tails (t # ss)) =
      map (\<lambda>(px, py). Some (of_nat px, of_nat py, luma_quantized luma w px py)) us
    \<and> map length (forward_tails (t # ss)) = map length (t # ss)
    \<and> map (\<lambda>s. drop (length s - 2) s) (butlast (forward_tails (t # ss)))
      = map (\<lambda>n. le16 (of_nat (n - 2))) (tl (map length (t # ss)))"
    using 1(2) by (intro 1(1)) (simp add: ts)
  moreover have "forward_tails (t # ss) \<noteq> []" using IH by (metis list.map_disc_iff list.simps(3))
  ultimately show ?case
    by (simp add: ts d l dr)
next
  case "2_1"
  then show ?case by simp
next
  case "2_2"
  then show ?case by (auto simp: list_all2_Cons1 luma_shape_decodes)
qed

text \<open>
  C22. \<open>encode_frame\<close> returns one strip per 64 by 16 tile, in raster order; each decodes to its tile's
  position and quantized blocks, and ends in the length hint of the strip that follows. It fails
  only on a frame that is not a whole number of tiles, or panics on a luma buffer that is too short.
\<close>

theorem encode_frame_decodes:
  "case encode_frame luma w h of
     Inr out \<Rightarrow> \<exists>ss. out = concat ss
       \<and> map dec_strip ss = map (\<lambda>(px, py). Some (of_nat px, of_nat py, luma_quantized luma w px py))
           (luma_tiles w h)
       \<and> map (\<lambda>s. drop (length s - 2) s) (butlast ss)
           = map (\<lambda>t. le16 (of_nat (length t - 2))) (tl ss)
   | Inl e \<Rightarrow> if \<not> (w mod 64 = 0 \<and> h mod 16 = 0) then e = EINVAL
       else e = Panic \<and> length luma < w * h"
proof -
  define ss where "ss = concat (map (\<lambda>sy. map (\<lambda>sx. luma_strip luma w (sx * 64) (sy * 16)) [0..<w div 64])
      [0..<h div 16])"
  have ss: "ss = map (\<lambda>(px, py). luma_strip luma w px py) (luma_tiles w h)"
    by (simp add: ss_def luma_tiles_def map_concat o_def)
  have "list_all2 (\<lambda>s (px, py). strip_shape 2 s (of_nat px) (of_nat py)
    (region sync_bits (map last_sig (luma_quantized luma w px py)))
    (region (esc_bits 10) (luma_dcs (luma_quantized luma w px py)))
    (region (esc_bits 9) (row_values (take 8 (luma_quantized luma w px py))))
    (region (esc_bits 9) (row_values (drop 8 (luma_quantized luma w px py))))) ss (luma_tiles w h)"
    unfolding ss by (auto simp: list_all2_conv_all_nth luma_strip_shape split: prod.split)
  note F = forward_tails_spec [OF this]
  have e: "encode_frame luma w h = (if w mod 64 \<noteq> 0 \<or> h mod 16 \<noteq> 0 then Inl EINVAL
      else if length luma < w * h then Inl Panic else Inr (concat (forward_tails ss)))"
    by (simp add: encode_frame_def ss_def STRIP_BLOCKS_X_def DIM_def mult.assoc)
  have "map (\<lambda>t. le16 (of_nat (length t - 2))) (tl (forward_tails ss)) =
      map (\<lambda>n. le16 (of_nat (n - 2))) (tl (map length (forward_tails ss)))"
    by (simp add: map_tl o_def)
  then have "map (\<lambda>s. drop (length s - 2) s) (butlast (forward_tails ss)) =
      map (\<lambda>t. le16 (of_nat (length t - 2))) (tl (forward_tails ss))"
    using F by simp
  then show ?thesis
    unfolding e using F by auto
qed


section \<open>Solid strips\<close>

text \<open>Writing bits into a zeroed buffer at a byte boundary is what the accumulator does.\<close>

lemma push_at_put_bit:
  assumes "bits_wf B" "length (bt_out (put_bit b B)) \<le> m"
  shows "push_at b (pre @ bt_out B @ zeros (m - length (bt_out B)), 8 * length pre + bt_n B) =
    (pre @ bt_out (put_bit b B) @ zeros (m - length (bt_out (put_bit b B))),
     8 * length pre + bt_n (put_bit b B))"
proof -
  define n where "n = bt_n B"
  define out where "out = bt_out B"
  have len: "length out = (n + 7) div 8" using assms(1) by (simp add: bits_wf_def n_def out_def)
  have i: "(8 * length pre + n) div 8 = length pre + n div 8" "(8 * length pre + n) mod 8 = n mod 8"
    by simp_all
  show ?thesis
  proof (cases "n mod 8 = 0")
    case True
    then have "length out = n div 8" using len by presburger
    moreover obtain m' where "m - length out = Suc m'"
      using assms(2) True by (cases "m - length out") (simp_all add: put_bit_def Let_def n_def out_def)
    moreover from this have "m - Suc (length out) = m'" by simp
    ultimately show ?thesis
      using True by (simp add: push_at_def put_bit_def Let_def i n_def [symmetric] out_def [symmetric]
          zeros_def nth_append list_update_append)
  next
    case False
    then have "n div 8 < length out" using len by presburger
    then show ?thesis
      using False by (simp add: push_at_def put_bit_def Let_def i n_def [symmetric] out_def [symmetric]
          nth_append list_update_append)
  qed
qed

lemma bits_new_fields [simp]: "bt_out bits_new = []" "bt_n bits_new = 0"
  by (simp_all add: bits_new_def)

lemma put_bit_grows: "length (bt_out B) \<le> length (bt_out (put_bit b B))"
  by (simp add: put_bit_def Let_def)

lemma put_bits_grow: "length (bt_out B) \<le> length (bt_out (put_bits bs B))"
proof (induction bs arbitrary: B)
  case (Cons b bs)
  show ?case
    using Cons [of "put_bit b B"] put_bit_grows [of B b] by (simp add: put_bits_def)
qed (simp add: put_bits_def)

lemma push_all_put_bits:
  assumes "bits_wf B" "length (bt_out (put_bits bs B)) \<le> m"
  shows "fst (fold push_at bs (pre @ bt_out B @ zeros (m - length (bt_out B)), 8 * length pre + bt_n B)) =
    pre @ bt_out (put_bits bs B) @ zeros (m - length (bt_out (put_bits bs B)))"
  using assms
proof (induction bs arbitrary: B)
  case (Cons b bs)
  have eq: "put_bits (b # bs) B = put_bits bs (put_bit b B)" by (simp add: put_bits_def)
  have "length (bt_out (put_bit b B)) \<le> m"
    using Cons.prems(2) put_bits_grow [of "put_bit b B" bs] by (simp add: eq)
  with Cons show ?case
    by (simp add: eq push_at_put_bit put_bit_spec)
qed (simp add: put_bits_def)

lemma put_bits_zeros:
  "bits_wf B \<Longrightarrow> \<exists>k. bt_out (put_bits (replicate n False) B) = bt_out B @ zeros k"
proof (induction n arbitrary: B)
  case 0
  show ?case by (simp add: put_bits_def zeros_def)
next
  case (Suc n)
  have "\<exists>k. bt_out (put_bit False B) = bt_out B @ zeros k"
  proof (cases "bt_n B mod 8 = 0")
    case True
    then show ?thesis
      by (intro exI [of _ 1]) (simp add: put_bit_def Let_def zeros_def)
  next
    case False
    then show ?thesis
      by (intro exI [of _ 0]) (simp add: put_bit_def Let_def zeros_def)
  qed
  then obtain k where k: "bt_out (put_bit False B) = bt_out B @ zeros k" by blast
  obtain j where "bt_out (put_bits (replicate n False) (put_bit False B)) = bt_out (put_bit False B) @ zeros j"
    using Suc put_bit_spec by blast
  then show ?case
    using k by (intro exI [of _ "k + j"]) (simp add: put_bits_def zeros_def replicate_add)
qed

lemma solid_esc_eq:
  assumes "\<bar>q\<bar> < 2 ^ 10"
  shows "solid_esc_bits q = esc_bits 10 q" and "esc_len q 10 = length (esc_bits 10 q)"
proof -
  have n: "nat \<bar>q\<bar> < 2 ^ 10" using assms by simp
  have c: "mag_category q \<le> 10" unfolding mag_category_def by (rule bit_len_le [OF n])
  have m: "nat \<bar>q\<bar> < 2 ^ mag_category q"
    using bit_len_bounds [of "nat \<bar>q\<bar>"] by (simp add: mag_category_def)
  have pos: "0 < mag_category q" if "q \<noteq> 0"
    using that bit_len_bounds [of "nat \<bar>q\<bar>"] by (simp add: mag_category_def)
  have "min (mag_category q) 10 = mag_category q" using c by simp
  moreover have "min (nat \<bar>q\<bar>) (2 ^ mag_category q - 1) = nat \<bar>q\<bar>" using m by linarith
  ultimately show "solid_esc_bits q = esc_bits 10 q"
    by (simp add: solid_esc_bits_def esc_bits_def SOLID_DC_CMAX_def Let_def)
  show "esc_len q 10 = length (esc_bits 10 q)"
    using c pos m by (cases "q = 0") (simp_all add: esc_len_def esc_bits_def Let_def min_def)
qed

lemma quantize_dc_luma:
  assumes "\<bar>v\<bar> \<le> 16320"
  shows "quantize_dc 0 v = quantize v 0" "\<bar>quantize v 0\<bar> < 2 ^ 10"
proof -
  define k where "k = (\<bar>v\<bar> + 8) div 16"
  have k: "(\<bar>v\<bar> + 8) * 4096 div 65536 = k"
    unfolding k_def using div_mult_mult2 [of 4096 "\<bar>v\<bar> + 8" 16] by simp
  have dc: "quantize_dc 0 v = (if v < 0 then - k else k)"
  proof -
    have "(65536::int) div 16 = 4096" "(2::int) ^ 16 = 65536" by simp_all
    then show ?thesis unfolding quantize_dc_def Let_def drop_bit_eq_div by (simp only: refl if_True k)
  qed
  have q: "quantize v 0 = clamp (- 2048) 2047 (if v < 0 then - k else k)"
    by (simp add: quantize_def step_bias_def k_def Let_def)
  have "0 \<le> k" "k \<le> 1020" using assms unfolding k_def by linarith+
  then show "quantize_dc 0 v = quantize v 0" "\<bar>quantize v 0\<bar> < 2 ^ 10"
    unfolding dc q by (simp_all add: clamp_def)
qed

lemma solid_strip_eq:
  assumes "\<bar>v\<bar> \<le> 16320"
  defines "q \<equiv> quantize v 0"
  defines "B \<equiv> region (esc_bits 10) [0, 0, q]"
  defines "l2 \<equiv> 48 + round_even ((length (esc_bits 10 q) + 54) div 8)"
  shows "solid_strip x y v 0 0 = head x y l2 l2 @ flat_sync @ B @ zeros (l2 + 2 - 46 - length B)"
proof -
  have z: "quantize_dc 2 0 = 0" "quantize_dc 1 0 = 0" by (simp_all add: quantize_dc_def Let_def)
  note qd = quantize_dc_luma [OF assms(1)]
  have e: "esc_len q 10 = length (esc_bits 10 q)" "solid_esc_bits q = esc_bits 10 q"
    "esc_len 0 10 = 1" "solid_esc_bits 0 = esc_bits 10 0"
    using solid_esc_eq [of q] solid_esc_eq [of 0] qd(2) by (simp_all add: q_def esc_zero)
  define m where "m = length (esc_bits 10 q)"
  have need: "div_ceil (368 + (1 + 1 + m) + SOLID_DC_MINPAD) 8 = 48 + (m + 54) div 8"
    by (simp add: div_ceil_def SOLID_DC_MINPAD_def)
  have par: "(48 + k) mod 2 = k mod 2" for k :: nat by presburger
  have bits: "concat (map solid_esc_bits [0, 0, q]) = concat (map (esc_bits 10) [0, 0, q])"
    using e by simp
  have lB: "length B = (m + 9) div 8" by (simp add: B_def length_region m_def esc_zero)
  have len: "48 + (m + 54) div 8 + (48 + (m + 54) div 8) mod 2 + 2 = l2 + 2"
    by (simp add: l2_def m_def par round_even_def)
  have g46: "46 \<le> l2 + 2" by (simp add: l2_def)
  have s: "solid_strip x y v 0 0 = fst (fold push_at (concat (map (esc_bits 10) [0, 0, q]))
      (head x y l2 l2 @ flat_sync @ zeros (l2 + 2 - 46), 368))"
  proof -
    have "esc_len ([0, 0, q] ! 0) 10 + esc_len ([0, 0, q] ! 1) 10 + esc_len ([0, 0, q] ! 2) 10
        = 1 + 1 + m" by (simp add: e m_def)
    moreover have "l2 + 2 - 2 = l2" by simp
    ultimately show ?thesis
      unfolding solid_strip_def z qd(1) q_def [symmetric] Let_def bits SOLID_DC_CMAX_def SOLID_DC_BIT_def
      by (simp only: need len solid_head [OF g46])
  qed
  have fl: "8 * length (head x y l2 l2 @ flat_sync) = 368"
    by (simp add: flat_sync_def SOLID_MAIN_def)
  have "length B \<le> l2 + 2 - 46" unfolding lB l2_def using round_even_ge(1) [of "(m + 54) div 8"]
    by (simp add: m_def)
  then show ?thesis
    unfolding s using push_all_put_bits [of bits_new "concat (map (esc_bits 10) [0, 0, q])" "l2 + 2 - 46"
      "head x y l2 l2 @ flat_sync"] fl
    by (simp add: bits_new_fields B_def region_def)
qed

lemma concat_replicate_single: "concat (replicate n [x]) = replicate n x"
  by (induction n) simp_all

lemma find_none_sig: "(\<And>i. 0 < i \<Longrightarrow> i < 32 \<Longrightarrow> q ! i = 0) \<Longrightarrow> last_sig q = 0"
proof -
  assume z: "\<And>i. 0 < i \<Longrightarrow> i < 32 \<Longrightarrow> q ! i = 0"
  have "find (\<lambda>i. q ! i \<noteq> 0) (rev [1..<COEFFS]) = None"
    unfolding find_None_iff COEFFS_def using z by auto
  then show ?thesis by (simp add: last_sig_def)
qed

lemma quantize_uniform:
  "quantize_luma (transform (replicate 64 v)) ! 0 = quantize v 0"
  "last_sig (quantize_luma (transform (replicate 64 v))) = 0"
proof -
  have n: "quantize_luma (transform (replicate 64 v)) ! i = quantize ((v # replicate 31 0) ! i) i"
    if "i < 32" for i
    using that by (simp add: quantize_luma_def transform_uniform COEFFS_def)
  show "quantize_luma (transform (replicate 64 v)) ! 0 = quantize v 0" by (simp add: n)
  have "quantize 0 i = 0" if "0 < i" for i
    using that by (auto simp: quantize_def step_bias_def clamp_def Let_def)
  then show "last_sig (quantize_luma (transform (replicate 64 v))) = 0"
    by (intro find_none_sig) (simp add: n nth_Cons')
qed

text \<open>The 45 residuals of 15 repeated blocks add only zero bits.\<close>

lemma uniform_bits:
  "concat (map (esc_bits 10) (luma_dcs (replicate 16 c))) =
     concat (map (esc_bits 10) [0, 0, c ! 0]) @ replicate 45 False"
proof -
  have res: "residuals (0, 0, d) (replicate n (0, 0, d)) = replicate (3 * n) 0" for d :: int and n
    by (induction n) (simp_all add: numeral_eq_Suc)
  have "luma_dcs (replicate 16 c) = [0, 0, c ! 0] @ residuals (0, 0, c ! 0) (replicate 15 (0, 0, c ! 0))"
    by (simp add: luma_dcs_def map_replicate numeral_eq_Suc)
  also have "\<dots> = [0, 0, c ! 0] @ replicate 45 0" unfolding res by simp
  finally show ?thesis
    by (simp add: esc_zero map_replicate concat_replicate_single)
qed

lemma uniform_bits_length:
  "length (concat (map (esc_bits 10) (luma_dcs (replicate 16 c)))) = length (esc_bits 10 (c ! 0)) + 47"
  unfolding uniform_bits by (simp add: esc_zero)

lemma put_append_end:
  "length xs = n \<Longrightarrow> length vs = length ys \<Longrightarrow> put n vs (xs @ ys) = xs @ vs"
  by (simp add: put_def)

lemma uniform_region:
  "\<exists>k. region (esc_bits 10) (luma_dcs (replicate 16 c)) = region (esc_bits 10) [0, 0, c ! 0] @ zeros k"
proof -
  show ?thesis
    unfolding region_def uniform_bits using put_bits_zeros put_bits_spec
    by (simp only: put_bits_append) (metis bits_new_spec(1))
qed


text \<open>
  C20. The two encoders of a flat achromatic strip agree: the general \<open>strip\<close> on sixteen uniform
  blocks of level \<open>v\<close> writes the bytes of \<open>solid_strip\<close> on that level, apart from the two tail bytes,
  where it puts the length hint \<open>L - 2\<close>.
\<close>

theorem solid_strip_agrees:
  assumes "\<bar>v\<bar> \<le> 16320"
  shows "strip (replicate 16 (transform (replicate 64 v))) x y =
    (let s = solid_strip x y v 0 0 in put (length s - 2) (le16 (of_nat (length s - 2))) s)"
proof -
  define c where "c = quantize_luma (transform (replicate 64 v))"
  have c: "c ! 0 = quantize v 0" "last_sig c = 0" by (simp_all add: c_def quantize_uniform)
  have q: "replicate 16 c = map quantize_luma (replicate 16 (transform (replicate 64 v)))"
    by (simp add: c_def)
  define B where "B = region (esc_bits 10) [0, 0, quantize v 0]"
  define D where "D = region (esc_bits 10) (luma_dcs (replicate 16 c))"
  obtain k where k: "D = B @ zeros k"
    using uniform_region [of c] unfolding D_def B_def c(1) by blast
  define l2 where "l2 = 48 + round_even (length D)"
  have strip: "strip (replicate 16 (transform (replicate 64 v))) x y =
      head x y l2 l2 @ flat_sync @ D @ zeros (l2 - 46 - length D) @ le16 (of_nat l2)"
    unfolding l2_def D_def by (rule strip_solid_bytes [OF q]) (use c in auto)
  have "length D = (length (esc_bits 10 (quantize v 0)) + 54) div 8"
    using uniform_bits_length [of c] by (simp add: D_def length_region c)
  then have l2': "48 + round_even ((length (esc_bits 10 (quantize v 0)) + 54) div 8) = l2"
    by (simp add: l2_def)
  have le: "length D \<le> l2 - 46 - 2" using round_even_ge(1) [of "length D"] by (simp add: l2_def)
  have solid: "solid_strip x y v 0 0 = head x y l2 l2 @ flat_sync @ B @ zeros (l2 + 2 - 46 - length B)"
    using solid_strip_eq [OF assms] unfolding l2' B_def by simp
  define m where "m = l2 - 46 - length B"
  have lk: "length B + k + 48 \<le> l2" using le k by (simp add: l2_def)
  then have m: "l2 + 2 - 46 - length B = m + 2" by (simp add: m_def)
  have len: "length (solid_strip x y v 0 0) = l2 + 2" using lk by (simp add: solid)
  have BD: "B @ zeros m = D @ zeros (l2 - 46 - length D)"
    using lk by (simp add: k m_def zeros_def flip: replicate_add)
  have "zeros (m + 2) = zeros m @ zeros 2" unfolding zeros_def by (rule replicate_add)
  then have "solid_strip x y v 0 0 = (head x y l2 l2 @ flat_sync @ (B @ zeros m)) @ zeros 2"
    unfolding solid m by simp
  moreover have "length (head x y l2 l2 @ flat_sync @ (B @ zeros m)) = l2"
    using lk by (simp add: m_def)
  ultimately have "put l2 (le16 (of_nat l2)) (solid_strip x y v 0 0) =
      (head x y l2 l2 @ flat_sync @ (B @ zeros m)) @ le16 (of_nat l2)"
    using put_append_end [of "head x y l2 l2 @ flat_sync @ (B @ zeros m)" l2 "le16 (of_nat l2)" "zeros 2"]
    by (simp only: length_codecs length_zeros)
  then have "put l2 (le16 (of_nat l2)) (solid_strip x y v 0 0) =
      head x y l2 l2 @ flat_sync @ D @ zeros (l2 - 46 - length D) @ le16 (of_nat l2)"
    unfolding BD by simp
  then show ?thesis unfolding strip Let_def len by simp
qed

theorem solid_strip_agrees_witness:
  "strip (replicate 16 (transform (replicate 64 8192))) 64 16 =
    (let s = solid_strip 64 16 8192 0 0 in put (length s - 2) (le16 (of_nat (length s - 2))) s)"
  by (rule solid_strip_agrees) simp

end
