(* ===== verification/Records.thy ===== *)
theory Records
  imports Strip
begin

text \<open>
  Whole colour frames (\<open>chimera/vino/video.rs\<close>): gathering the blocks of a strip from a pixel source,
  the full and the damage-limited frame, and the EP08 record framing of the strips into USB
  transfers. The pixel closure \<open>px\<close> is a function of the coordinates; allocation succeeds.
\<close>

type_synonym pixels = "nat \<Rightarrow> nat \<Rightarrow> u8 \<times> u8 \<times> u8"

definition colour_plane :: "(int \<times> int \<times> int \<Rightarrow> int) \<Rightarrow> nat \<Rightarrow> nat \<Rightarrow> pixels \<Rightarrow> int list" where
  "colour_plane sel ox oy px =
     map (\<lambda>i. case px (ox + i mod DIM) (oy + i div DIM) of (r, g, b) \<Rightarrow> sel (colour r g b)) [0..<PIXELS]"

definition colour_strip_blocks :: "nat \<Rightarrow> nat \<Rightarrow> pixels \<Rightarrow> quant_block list" where
  "colour_strip_blocks ox oy px =
     map (\<lambda>k. let bx = k mod STRIP_BLOCKS_X; by' = k div STRIP_BLOCKS_X;
                   x = ox + bx * DIM; y = oy + by' * DIM
               in colour_block (colour_plane (\<lambda>(_, _, cr). cr) x y px)
                    (colour_plane (\<lambda>(_, cb, _). cb) x y px) (colour_plane (\<lambda>(y, _, _). y) x y px))
       [0..<STRIP_BLOCKS]"

definition frame_strip :: "pixels \<Rightarrow> nat \<times> nat \<Rightarrow> bytes" where
  "frame_strip px = (\<lambda>(sx, sy). colour_strip (colour_strip_blocks sx sy px) (of_nat sx) (of_nat sy))"

section \<open>Records\<close>

definition PREFIX :: nat where "PREFIX = 8"
definition TRAILER :: nat where "TRAILER = 4"
definition GAP :: nat where "GAP = 4"
definition SIZE_CAP :: nat where "SIZE_CAP = 0x4000"
definition CHUNK :: nat where "CHUNK = 65024"

definition strip_y :: "bytes \<Rightarrow> u16" where "strip_y s = rd16 s 4"

text \<open>
  The inner loop: strips of the band \<open>y0\<close>, while the record (\<open>len\<close> bytes so far) stays within the
  cap; the first strip is always taken. Returns the strips taken and those left.
\<close>

fun band :: "u16 \<Rightarrow> nat \<Rightarrow> nat \<Rightarrow> bytes list \<Rightarrow> bytes list \<times> bytes list" where
  "band y0 n len [] = ([], [])"
| "band y0 n len (s # ss) =
     (if strip_y s = y0
      then if 0 < n \<and> SIZE_CAP < len + 2 + length s + TRAILER then ([], s # ss)
           else (case band y0 (n + 1) (len + 2 + length s) ss of (b, r) \<Rightarrow> (s # b, r))
      else ([], s # ss))"

text \<open>One record, with the gap that follows it.\<close>

definition record_bytes :: "bytes list \<Rightarrow> bytes" where
  "record_bytes ss =
     (let body = concat (map (\<lambda>s. le16 (of_nat (length s)) @ s) ss);
          len = 8 + PREFIX + length body + TRAILER
      in [0, 0] @ le16 (of_nat len) @ le32 4 @ zeros PREFIX @ body @ zeros TRAILER @ zeros GAP)"

lemma band_shorter: "band y0 n len ss = (b, r) \<Longrightarrow> length r \<le> length ss"
proof (induction y0 n len ss arbitrary: b r rule: band.induct)
  case (2 y0 n len s ss)
  then show ?case by (fastforce split: if_splits prod.splits)
qed simp

lemma band_first:
  assumes "band (strip_y s) 0 len (s # ss) = (b, r)"
  shows "length r < Suc (length ss)"
proof -
  obtain b' where "band (strip_y s) 1 (len + 2 + length s) ss = (b', r)"
    using assms by (auto split: prod.splits)
  then show ?thesis using band_shorter by fastforce
qed

function records :: "bytes list \<Rightarrow> bytes list" where
  "records [] = []"
| "records (s # ss) =
     (case band (strip_y s) 0 (8 + PREFIX) (s # ss) of (b, r) \<Rightarrow> record_bytes b # records r)"
  by pat_completeness auto
termination
  by (relation "measure length") (auto simp del: band.simps dest!: sym [THEN band_first])

declare records.simps [simp del]

text \<open>The end offsets of the records in the stream.\<close>

fun record_ends :: "nat \<Rightarrow> bytes list \<Rightarrow> nat list" where
  "record_ends off [] = []"
| "record_ends off (r # rs) = (off + length r) # record_ends (off + length r) rs"

text \<open>The chunking loop: a transfer is closed before the record that would exceed \<open>CHUNK\<close>.\<close>

fun chunk_loop :: "bytes \<Rightarrow> nat \<Rightarrow> nat \<Rightarrow> nat list \<Rightarrow> bytes list" where
  "chunk_loop stream off start [] =
     (if start < length stream then [slice start (length stream - start) stream] else [])"
| "chunk_loop stream off start (e # es) =
     (if start \<noteq> off \<and> CHUNK < e - start
      then slice start (off - start) stream # chunk_loop stream e off es
      else chunk_loop stream e start es)"

definition frame_records :: "bytes list \<Rightarrow> bytes list" where
  "frame_records strips =
     (let rs = records strips; stream = concat rs
      in chunk_loop stream 0 0 (record_ends 0 rs))"

section \<open>Frames\<close>

definition tiles :: "nat \<Rightarrow> nat \<Rightarrow> (nat \<times> nat) list" where
  "tiles width height =
     concat (map (\<lambda>sy. map (\<lambda>sx. (sx * STRIP_W, sy * STRIP_H)) [0..<width div STRIP_W])
       [0..<height div STRIP_H])"

definition colour_frame_ep08 :: "nat \<Rightarrow> nat \<Rightarrow> u32 \<Rightarrow> pixels \<Rightarrow> (bytes list \<times> u32) res" where
  "colour_frame_ep08 width height seq0 px =
     (if width mod STRIP_W \<noteq> 0 \<or> height mod STRIP_H \<noteq> 0 then Inl EINVAL
      else Inr (frame_records (map (frame_strip px) (tiles width height)), seq0))"

type_synonym clip = "nat \<times> nat \<times> nat \<times> nat"

definition clip_hits :: "clip list \<Rightarrow> nat \<times> nat \<Rightarrow> bool" where
  "clip_hits clips = (\<lambda>(sx, sy).
     list_ex (\<lambda>(x0, y0, x1, y1). sx < x1 \<and> x0 < sx + STRIP_W \<and> sy < y1 \<and> y0 < sy + STRIP_H) clips)"

definition colour_frame_ep08_damage ::
  "nat \<Rightarrow> nat \<Rightarrow> u32 \<Rightarrow> clip list \<Rightarrow> pixels \<Rightarrow> (bytes list \<times> u32) res" where
  "colour_frame_ep08_damage width height seq0 clips px =
     (if width mod STRIP_W \<noteq> 0 \<or> height mod STRIP_H \<noteq> 0 then Inl EINVAL
      else Inr (frame_records (map (frame_strip px) (filter (clip_hits clips) (tiles width height))), seq0))"

section \<open>The transport header\<close>

definition EP08_HDR_LEN :: nat where "EP08_HDR_LEN = 16"

definition write_ep08_header :: "bytes \<Rightarrow> nat \<Rightarrow> u32 \<Rightarrow> bytes res" where
  "write_ep08_header hdr payload_len seq =
     (let size = payload_len + 12
      in if 65535 < size then Inl EOVERFLOW
         else if length hdr < 16 then Inl Panic
         else Inr (put 12 (le32 seq) (put 10 (le16 0) (put 8 (le16 0x30) (put 4 (le32 4)
                (put 2 (le16 (of_nat size)) (hdr[0 := 0, 1 := 0])))))))"

end
