(* ===== verification/ColourLaws.thy ===== *)
theory ColourLaws
  imports StripLaws Records
begin

text \<open>
  Colour strips and the gathering of their blocks: the layout of a colour strip, its decoding once
  the significance of its blocks is known, what saturates and what cannot, and the bound on the
  length of a strip that the record framing relies on.
\<close>

section \<open>Layout\<close>

definition block_sync :: "quant_block \<Rightarrow> bool list" where
  "block_sync b = colour_sync_bits (cb_lcr b) (cb_lcb b) (cb_ly b)"

definition block_acs :: "quant_block \<Rightarrow> int list" where
  "block_acs b = ac_values (cb_qcr b) (cb_lcr b) @ ac_values (cb_qcb b) (cb_lcb b)
     @ ac_values (cb_qy b) (cb_ly b)"

definition block_dcs :: "quant_block list \<Rightarrow> int list" where
  "block_dcs bs = residuals (0, 0, 0) (map (\<lambda>b. (cb_qcr b ! 0, cb_qcb b ! 0, cb_qy b ! 0)) bs)"

lemma fold_colour_sync:
  "fold (\<lambda>b. colour_sync_unit (cb_lcr b) (cb_lcb b) (cb_ly b)) bs B =
     put_bits (concat (map block_sync bs)) B"
  by (induction bs arbitrary: B) (simp_all add: colour_sync_unit_def block_sync_def put_bits_def)

lemma fold_colour_ac:
  "fold colour_block_ac bs B = put_bits (concat (map (esc_bits 9) (concat (map block_acs bs)))) B"
  by (induction bs arbitrary: B)
    (simp_all add: colour_block_ac_def colour_block_ac_bits_def block_ac_bits_values block_acs_def put_bits_def)

lemma colour_strip_shape:
  "strip_shape 0 (colour_strip bs x y) x y (region block_sync bs) (region (esc_bits 10) (block_dcs bs))
    (region (esc_bits 9) (concat (map block_acs (take 8 bs))))
    (region (esc_bits 9) (concat (map block_acs (drop 8 bs))))"
proof -
  have "colour_strip bs x y =
      (let sync = region block_sync bs; dcb = region (esc_bits 10) (block_dcs bs);
           row0 = region (esc_bits 9) (concat (map block_acs (take 8 bs)));
           row1 = region (esc_bits 9) (concat (map block_acs (drop 8 bs)));
           w18 = 16 + length sync + (round_even (length dcb) + 2);
           w1c = w18 + round_even (length row0)
       in put w1c row1 (put w18 row0 (put (16 + length sync) dcb (put 16 sync
            (strip_head x y w18 w1c (zeros (w1c + round_even (length row1))))))))"
    unfolding colour_strip_def fold_colour_sync fold_colour_ac dc_plane_bits STRIP_ROW_BLOCKS_def
      region_def block_dcs_def Let_def ..
  then show ?thesis
    unfolding Let_def by (simp only: ac_shape [where k = 0] add_0_right)
qed

section \<open>Lengths\<close>

definition lasts_ok :: "quant_block \<Rightarrow> bool" where
  "lasts_ok b \<longleftrightarrow> cb_lcr b < 32 \<and> cb_lcb b < 32 \<and> cb_ly b < 32"

lemma length_block_sync: "lasts_ok b \<Longrightarrow> length (block_sync b) \<le> 35"
proof -
  assume "lasts_ok b"
  then have "bit_len (cb_lcr b) \<le> 5" "bit_len (cb_lcb b) \<le> 5"
    by (simp_all add: lasts_ok_def bit_len_le)
  then show ?thesis
    using length_sync_bits [of "cb_ly b"]
    by (auto simp: block_sync_def colour_sync_bits_def cr_bits_def cb_bits_def Let_def)
qed

lemma length_block_acs: "lasts_ok b \<Longrightarrow> length (block_acs b) \<le> 93"
  by (simp add: block_acs_def lasts_ok_def)

lemma length_acs:
  "list_all lasts_ok bs \<Longrightarrow> length (concat (map block_acs bs)) \<le> 93 * length bs"
  by (rule length_concat_bound) (simp add: list_all_iff length_block_acs)

lemma region_esc9: "length (region (esc_bits 9) vs) \<le> (19 * length vs + 7) div 8"
proof -
  have "length (concat (map (esc_bits 9) vs)) \<le> 19 * length vs"
    by (rule length_concat_bound) (use length_esc_bits [of 9] in simp)
  then show ?thesis unfolding length_region by (simp add: div_le_mono)
qed

lemma region_sizes:
  assumes "length bs = 16" "list_all lasts_ok bs"
  shows "length (region block_sync bs) \<le> 70" "length (region (esc_bits 10) (block_dcs bs)) \<le> 126"
    and "length (region (esc_bits 9) (concat (map block_acs (take 8 bs)))) \<le> 1767"
    and "length (region (esc_bits 9) (concat (map block_acs (drop 8 bs)))) \<le> 1767"
proof -
  have "length (concat (map block_sync bs)) \<le> 35 * length bs"
    by (rule length_concat_bound) (use assms(2) in \<open>simp add: list_all_iff length_block_sync\<close>)
  then show "length (region block_sync bs) \<le> 70" using assms(1) unfolding length_region by simp
  have "length (concat (map (esc_bits 10) (block_dcs bs))) \<le> 21 * length (block_dcs bs)"
    by (rule length_concat_bound) (use length_esc_bits [of 10] in simp)
  then show "length (region (esc_bits 10) (block_dcs bs)) \<le> 126"
    using assms(1) unfolding length_region by (simp add: block_dcs_def)
  have "length (concat (map block_acs (take 8 bs))) \<le> 744" "length (concat (map block_acs (drop 8 bs))) \<le> 744"
    using length_acs [of "take 8 bs"] length_acs [of "drop 8 bs"] assms
    by (auto simp: list_all_iff dest: in_set_takeD in_set_dropD)
  then show "length (region (esc_bits 9) (concat (map block_acs (take 8 bs)))) \<le> 1767"
    "length (region (esc_bits 9) (concat (map block_acs (drop 8 bs)))) \<le> 1767"
    using region_esc9 [of "concat (map block_acs (take 8 bs))"]
      region_esc9 [of "concat (map block_acs (drop 8 bs))"] by linarith+
qed

lemma shape_length:
  assumes "strip_shape k out x y sync dcb row0 row1"
  shows "length out \<le> 16 + length sync + length dcb + length row0 + length row1 + k + 5"
  using assms by (auto simp: strip_shape_def)

lemma shape_y: 
  assumes "strip_shape k out x y sync dcb row0 row1"
    "16 + length sync + length dcb + length row0 + 4 < 65536"
  shows "rd16 out 4 = y" "rd16 out 2 = x"
proof -
  obtain a b r where o: "out = head x y a b @ r" and "b \<le> 16 + length sync + length dcb + length row0 + 4" "a \<le> b"
    using assms(1) unfolding strip_shape_def by fastforce
  then have "a < 65536" "b < 65536" using assms(2) by simp_all
  then show "rd16 out 4 = y" "rd16 out 2 = x" unfolding o by (rule rd16_head)+
qed

lemma colour_strip_facts:
  assumes "length bs = 16" "list_all lasts_ok bs"
  shows "length (colour_strip bs x y) \<le> 3751" "strip_y (colour_strip bs x y) = y"
proof -
  note sz = region_sizes [OF assms]
  show "length (colour_strip bs x y) \<le> 3751"
    using shape_length [OF colour_strip_shape, of bs x y] sz by simp
  show "strip_y (colour_strip bs x y) = y"
    unfolding strip_y_def by (rule shape_y(1) [OF colour_strip_shape]) (use sz in simp)
qed


section \<open>Blocks of 8-bit pixels\<close>

lemma plane_range:
  "within 0 16320 (colour_plane (\<lambda>(y, _, _). y) ox oy px)"
  "within (- 16320) 16320 (colour_plane (\<lambda>(_, cb, _). cb) ox oy px)"
  "within (- 16320) 16320 (colour_plane (\<lambda>(_, _, cr). cr) ox oy px)"
proof -
  have "0 \<le> (case colour r g b of (y, _, _) \<Rightarrow> y) \<and> (case colour r g b of (y, _, _) \<Rightarrow> y) \<le> 16320"
    "\<bar>case colour r g b of (_, cb, _) \<Rightarrow> cb\<bar> \<le> 16320"
    "\<bar>case colour r g b of (_, _, cr) \<Rightarrow> cr\<bar> \<le> 16320" for r g b
    using colour_range [of r g b] by auto
  then show "within 0 16320 (colour_plane (\<lambda>(y, _, _). y) ox oy px)"
    "within (- 16320) 16320 (colour_plane (\<lambda>(_, cb, _). cb) ox oy px)"
    "within (- 16320) 16320 (colour_plane (\<lambda>(_, _, cr). cr) ox oy px)"
    by (auto simp: colour_plane_def within_def abs_le_iff split: prod.splits)
      (metis abs_le_iff minus_le_iff old.prod.case)+
qed

lemma length_plane [simp]: "length (colour_plane sel ox oy px) = 64"
  by (simp add: colour_plane_def PIXELS_def DIM_def)

lemma length_strip_blocks [simp]: "length (colour_strip_blocks ox oy px) = 16"
  by (simp add: colour_strip_blocks_def STRIP_BLOCKS_def)

lemma strip_blockE:
  assumes "b \<in> set (colour_strip_blocks ox oy px)"
  obtains x y where "b = colour_block (colour_plane (\<lambda>(_, _, cr). cr) x y px)
    (colour_plane (\<lambda>(_, cb, _). cb) x y px) (colour_plane (\<lambda>(y, _, _). y) x y px)"
  using assms by (auto simp: colour_strip_blocks_def Let_def)

lemma colour_block_lasts: "lasts_ok (colour_block cr cb y)"
  by (simp add: colour_block_def Let_def lasts_ok_def last_sig_bound)

lemma strip_blocks_lasts: "list_all lasts_ok (colour_strip_blocks ox oy px)"
  unfolding list_all_iff using strip_blockE colour_block_lasts by metis

text \<open>DCs fit the DC code; luma AC values fit the AC code; chroma AC values may not.\<close>

lemma colour_block_ranges:
  assumes "within (- 16320) 16320 cr" "within (- 16320) 16320 cb" "within 0 16320 y"
    "length cr = 64" "length cb = 64" "length y = 64"
  defines "b \<equiv> colour_block cr cb y"
  shows "\<bar>cb_qcr b ! 0\<bar> \<le> 255" "\<bar>cb_qcb b ! 0\<bar> \<le> 255" "0 \<le> cb_qy b ! 0" "cb_qy b ! 0 \<le> 1020"
    and "0 < i \<Longrightarrow> i < 32 \<Longrightarrow> \<bar>cb_qy b ! i\<bar> < 2 ^ 9"
proof -
  have chroma: "\<bar>quantize_dc_round p v\<bar> \<le> 255" if "- 16320 \<le> v \<and> v \<le> 16320" "0 < p" for p v
    using that by (simp add: quantize_dc_round_def Let_def) linarith
  show "\<bar>cb_qcr b ! 0\<bar> \<le> 255" "\<bar>cb_qcb b ! 0\<bar> \<le> 255"
    using chroma [OF transform_within(1) [OF assms(1,4)]] chroma [OF transform_within(1) [OF assms(2,5)]]
    by (simp_all add: b_def colour_block_def Let_def)
  show "0 \<le> cb_qy b ! 0" "cb_qy b ! 0 \<le> 1020"
    using transform_within(1) [OF assms(3,6)]
    by (simp_all add: b_def colour_block_def Let_def quantize_dc_round_def) linarith+
  show "\<bar>cb_qy b ! i\<bar> < 2 ^ 9" if "0 < i" "i < 32"
    using quantize_luma_range [OF assms(3,6) that(2)] that
    by (cases i) (simp_all add: b_def colour_block_def Let_def COEFFS_def del: upt_Suc)
qed

lemma residuals_bound3:
  assumes "\<bar>pcr\<bar> \<le> 255" "\<bar>pcb\<bar> \<le> 255" "0 \<le> py" "py \<le> 1020"
    "\<And>cr cb y. (cr, cb, y) \<in> set ds \<Longrightarrow> \<bar>cr\<bar> \<le> 255 \<and> \<bar>cb\<bar> \<le> 255 \<and> 0 \<le> y \<and> y \<le> 1020"
  shows "list_all (\<lambda>v. \<bar>v\<bar> < 2 ^ 10) (residuals (pcr, pcb, py) ds)"
  using assms
proof (induction ds arbitrary: pcr pcb py)
  case (Cons d ds)
  obtain cr cb y where d: "d = (cr, cb, y)" by (cases d)
  have r: "\<bar>cr\<bar> \<le> 255" "\<bar>cb\<bar> \<le> 255" "0 \<le> y" "y \<le> 1020" using Cons.prems(5) [of cr cb y] d by auto
  have "\<bar>cr - pcr\<bar> < 2 ^ 10" "\<bar>cb - pcb\<bar> < 2 ^ 10" "\<bar>y - py\<bar> < 2 ^ 10"
    using r Cons.prems(1-4) by (simp_all add: abs_less_iff abs_le_iff)
  moreover have "list_all (\<lambda>v. \<bar>v\<bar> < 2 ^ 10) (residuals (cr, cb, y) ds)"
    using r Cons.prems(5) by (intro Cons.IH) auto
  ultimately show ?case by (simp add: d)
qed simp

lemma strip_blocks_dcs: "list_all (\<lambda>v. \<bar>v\<bar> < 2 ^ 10) (block_dcs (colour_strip_blocks ox oy px))"
  unfolding block_dcs_def
proof (rule residuals_bound3)
  fix cr cb y
  assume "(cr, cb, y) \<in> set (map (\<lambda>b. (cb_qcr b ! 0, cb_qcb b ! 0, cb_qy b ! 0))
      (colour_strip_blocks ox oy px))"
  then obtain b where b: "b \<in> set (colour_strip_blocks ox oy px)"
    and eq: "cr = cb_qcr b ! 0" "cb = cb_qcb b ! 0" "y = cb_qy b ! 0" by auto
  obtain u v where "b = colour_block (colour_plane (\<lambda>(_, _, cr). cr) u v px)
      (colour_plane (\<lambda>(_, cb, _). cb) u v px) (colour_plane (\<lambda>(y, _, _). y) u v px)"
    using b by (rule strip_blockE)
  then show "\<bar>cr\<bar> \<le> 255 \<and> \<bar>cb\<bar> \<le> 255 \<and> 0 \<le> y \<and> y \<le> 1020"
    using colour_block_ranges(1-4) [OF plane_range(3,2,1)] by (simp add: eq)
qed simp_all

text \<open>
  A decoder that knows the significance of the blocks: position, DC residuals, and the values of
  the two rows.
\<close>

definition dec_colour_strip ::
  "quant_block list \<Rightarrow> bytes \<Rightarrow> (u16 \<times> u16 \<times> int list \<times> int list \<times> int list) option" where
  "dec_colour_strip bs out =
     (let sync_b = (length (concat (map block_sync bs)) + 7) div 8;
          n0 = length (concat (map block_acs (take 8 bs)));
          n1 = length (concat (map block_acs (drop 8 bs)))
      in case (dec_many (dec_esc 10) (3 * length bs) (unpack (drop (16 + sync_b) out)),
               dec_many (dec_esc 9) n0 (unpack (drop (unat (rd16 out 10)) out)),
               dec_many (dec_esc 9) n1 (unpack (drop (unat (rd16 out 12)) out))) of
           (Some (dcs, _), Some (v0, _), Some (v1, _)) \<Rightarrow> Some (rd16 out 2, rd16 out 4, dcs, v0, v1)
         | _ \<Rightarrow> None)"

definition block_acs_sent :: "quant_block \<Rightarrow> int list" where
  "block_acs_sent b = map (saturate 9) (ac_values (cb_qcr b) (cb_lcr b) @ ac_values (cb_qcb b) (cb_lcb b))
     @ ac_values (cb_qy b) (cb_ly b)"

lemma region_saturates:
  "0 < cmax \<Longrightarrow> \<exists>s. dec_many (dec_esc cmax) (length vs) (unpack (region (esc_bits cmax) vs @ rest))
    = Some (map (saturate cmax) vs, s)"
  unfolding region_def unpack_append unpack_bits append_assoc by (simp add: dec_many_saturate)

lemma saturate_acs:
  assumes "b \<in> set (colour_strip_blocks ox oy px)"
  shows "map (saturate 9) (block_acs b) = block_acs_sent b"
proof -
  obtain u v where b: "b = colour_block (colour_plane (\<lambda>(_, _, cr). cr) u v px)
      (colour_plane (\<lambda>(_, cb, _). cb) u v px) (colour_plane (\<lambda>(y, _, _). y) u v px)"
    using assms by (rule strip_blockE)
  have "\<bar>cb_qy b ! i\<bar> < 2 ^ 9" if "0 < i" "i < 32" for i
    using colour_block_ranges(5) [OF plane_range(3,2,1) _ _ _ that] by (simp add: b)
  moreover have "cb_ly b < 32" using colour_block_lasts unfolding b lasts_ok_def by blast
  ultimately have "\<bar>w\<bar> < 2 ^ 9" if "w \<in> set (ac_values (cb_qy b) (cb_ly b))" for w
    using that unfolding ac_values_def by auto
  then have "map (saturate 9) (ac_values (cb_qy b) (cb_ly b)) = ac_values (cb_qy b) (cb_ly b)"
    by (intro map_idI saturate_id)
  then show ?thesis by (simp add: block_acs_def block_acs_sent_def)
qed

lemma concat_saturate:
  "(\<And>b. b \<in> set bs \<Longrightarrow> map (saturate 9) (block_acs b) = block_acs_sent b) \<Longrightarrow>
    map (saturate 9) (concat (map block_acs bs)) = concat (map block_acs_sent bs)"
  by (induction bs) simp_all

text \<open>
  C23. The colour strip of any 16 blocks of 8-bit pixels carries, at the offsets of its header, its
  position, the exact DC residuals of the three planes, and the AC values of both rows: the luma
  values exactly, the chroma values saturated at 511.
\<close>

theorem colour_strip_decodes:
  "let bs = colour_strip_blocks ox oy px
   in dec_colour_strip bs (colour_strip bs x y) =
     Some (x, y, block_dcs bs, concat (map block_acs_sent (take 8 bs)),
       concat (map block_acs_sent (drop 8 bs)))"
proof -
  define b where "b = colour_strip_blocks ox oy px"
  define out where "out = colour_strip b x y"
  let ?S = "region block_sync b" and ?D = "region (esc_bits 10) (block_dcs b)"
    and ?R0 = "region (esc_bits 9) (concat (map block_acs (take 8 b)))"
    and ?R1 = "region (esc_bits 9) (concat (map block_acs (drop 8 b)))"
  have len: "length b = 16" "list_all lasts_ok b" by (simp_all add: b_def strip_blocks_lasts)
  obtain w18 w1c z1 z2 z3 where o: "out = head x y w18 w1c @ ?S @ ?D @ z1 @ ?R0 @ z2 @ ?R1 @ z3"
    and w18: "w18 = 16 + length ?S + length ?D + length z1" and w1c: "w1c = w18 + length ?R0 + length z2"
    and z: "length z1 \<le> 3" "length z2 \<le> 1"
    using colour_strip_shape [of b x y] unfolding strip_shape_def out_def by blast
  have w: "w18 < 65536" "w1c < 65536" using region_sizes [OF len] z by (simp_all add: w18 w1c)
  note hd = rd16_head [OF w, of x y "?S @ ?D @ z1 @ ?R0 @ z2 @ ?R1 @ z3", folded o]
  have sat: "map (saturate 9) (concat (map block_acs (take 8 b))) = concat (map block_acs_sent (take 8 b))"
    "map (saturate 9) (concat (map block_acs (drop 8 b))) = concat (map block_acs_sent (drop 8 b))"
    by (rule concat_saturate, rule saturate_acs,
        auto simp: b_def dest: in_set_takeD in_set_dropD)+
  have dD: "drop (16 + length ?S) out = ?D @ z1 @ ?R0 @ z2 @ ?R1 @ z3"
    and d0: "drop w18 out = ?R0 @ z2 @ ?R1 @ z3" and d1: "drop w1c out = ?R1 @ z3"
    by (simp_all add: o w18 w1c)
  have "length (block_dcs b) = 3 * length b" by (simp add: block_dcs_def)
  then obtain s where 1: "dec_many (dec_esc 10) (3 * length b) (unpack (drop (16 + length ?S) out))
      = Some (block_dcs b, s)"
    using dc_code.dec_region [OF strip_blocks_dcs [of ox oy px], folded region_def b_def] unfolding dD by metis
  obtain s0 where 2: "dec_many (dec_esc 9) (length (concat (map block_acs (take 8 b)))) (unpack (drop w18 out))
      = Some (concat (map block_acs_sent (take 8 b)), s0)"
    using region_saturates [of 9 "concat (map block_acs (take 8 b))" "z2 @ ?R1 @ z3"] unfolding d0 sat by auto
  obtain s1 where 3: "dec_many (dec_esc 9) (length (concat (map block_acs (drop 8 b)))) (unpack (drop w1c out))
      = Some (concat (map block_acs_sent (drop 8 b)), s1)"
    using region_saturates [of 9 "concat (map block_acs (drop 8 b))" z3] unfolding d1 sat by auto
  show ?thesis
    unfolding b_def [symmetric] out_def [symmetric] dec_colour_strip_def Let_def hd
      length_region [symmetric, of block_sync] 1 2 3 by simp
qed


section \<open>Chroma out of range\<close>

text \<open>
  Two blocks of saturated colours, red beside green and red above green. The chroma step codes the
  first at 1020, twice what the AC code can carry; the second ends at position 2, which shares its
  significance field with position 3.
\<close>

definition red_green :: pixels where
  "red_green = (\<lambda>x y. if x mod 8 < 4 then (255, 0, 0) else (0, 255, 0))"

definition red_over_green :: pixels where
  "red_over_green = (\<lambda>x y. if y mod 8 < 4 then (255, 0, 0) else (0, 255, 0))"

lemma red_green_colour:
  "colour 255 0 0 = (4032, 16320, 0)" "colour 0 255 0 = (8128, - 16320, - 16320)"
  by code_simp+

lemma chroma_examples:
  "colour_plane (\<lambda>(_, cb, _). cb) 0 0 red_green =
     map (\<lambda>i. if i mod 8 < 4 then 16320 else - 16320) [0..<64]"
  "colour_plane (\<lambda>(_, cb, _). cb) 0 0 red_over_green =
     map (\<lambda>i. if i div 8 < 4 then 16320 else - 16320) [0..<64]"
  unfolding colour_plane_def PIXELS_def DIM_def red_green_def red_over_green_def
  by (rule map_cong; simp add: red_green_colour)+

lemma chroma_out_of_range:
  "cb_qcb (colour_strip_blocks 0 0 red_green ! 0) ! 1 = 1020"
  "cb_lcb (colour_strip_blocks 0 0 red_over_green ! 0) = 2"
proof -
  have first: "colour_strip_blocks 0 0 px ! 0 = colour_block (colour_plane (\<lambda>(_, _, cr). cr) 0 0 px)
      (colour_plane (\<lambda>(_, cb, _). cb) 0 0 px) (colour_plane (\<lambda>(y, _, _). y) 0 0 px)" for px
    by (simp add: colour_strip_blocks_def STRIP_BLOCKS_def Let_def)
  have "quantize_chroma_ac (transform (map (\<lambda>i::nat. if i mod 8 < 4 then 16320 else - 16320) [0..<64]) ! 1)
      = 1020"
    by code_simp
  then show "cb_qcb (colour_strip_blocks 0 0 red_green ! 0) ! 1 = 1020"
    by (simp add: first colour_block_def Let_def chroma_examples COEFFS_def del: upt_Suc)
  have "(let t = transform (map (\<lambda>i::nat. if i div 8 < 4 then 16320 else - 16320) [0..<64])
      in last_sig (quantize_dc_round 1 (t ! 0) # map (\<lambda>i. quantize_chroma_ac (t ! i)) [1..<COEFFS])) = 2"
    by code_simp
  then show "cb_lcb (colour_strip_blocks 0 0 red_over_green ! 0) = 2"
    by (simp add: first colour_block_def Let_def chroma_examples)
qed

end
