(* ===== verification/RecordLaws.thy ===== *)
theory RecordLaws
  imports ColourLaws
begin

text \<open>
  The record framing is lossless and never splits a record: every USB transfer walks, on its own, to
  a group of strips, the groups together are the strips in order. For whole frames this gives one
  strip per 64 by 16 tile, and for the damage-limited frame every tile a clip touches.
\<close>

section \<open>A reader of the record stream (specification)\<close>

function dec_body :: "bytes \<Rightarrow> bytes list option" where
  "dec_body bs =
     (if bs = [] then Some []
      else if length bs < 2 then None
      else let n = unat (rd16 bs 0)
           in if length bs < 2 + n then None
              else map_option ((#) (take n (drop 2 bs))) (dec_body (drop (2 + n) bs)))"
  by pat_completeness auto
termination by (relation "measure length") auto

declare dec_body.simps [simp del]

function dec_records :: "bytes \<Rightarrow> bytes list option" where
  "dec_records bs =
     (if bs = [] then Some []
      else if length bs < 24 then None
      else let n = unat (rd16 bs 2)
           in if n < 20 \<or> length bs < n + 4 \<or> rd32 bs 4 \<noteq> 4 then None
              else case dec_body (slice 16 (n - 20) bs) of
                     None \<Rightarrow> None
                   | Some ss \<Rightarrow> map_option ((@) ss) (dec_records (drop (n + 4) bs)))"
  by pat_completeness auto
termination by (relation "measure length") auto

declare dec_records.simps [simp del]

definition body :: "bytes list \<Rightarrow> bytes" where
  "body ss = concat (map (\<lambda>s. le16 (of_nat (length s)) @ s) ss)"

lemma body_simps [simp]: "body [] = []" "body (s # ss) = le16 (of_nat (length s)) @ s @ body ss"
  by (simp_all add: body_def)

lemma le16_nonempty [simp]: "le16 w \<noteq> []"
  by (simp add: le16_def)

lemma dec_body_enc: "length (body ss) < 65536 \<Longrightarrow> dec_body (body ss) = Some ss"
proof (induction ss)
  case Nil
  show ?case by (simp add: dec_body.simps)
next
  case (Cons s ss)
  then have "unat (rd16 (le16 (of_nat (length s)) @ s @ body ss) 0) = length s"
    by (simp add: unat_of_nat16)
  moreover have "drop 2 (le16 (of_nat (length s)) @ s @ body ss) = s @ body ss" by simp
  ultimately show ?case
    using Cons by (subst dec_body.simps) (simp add: Let_def)
qed

definition valid_band :: "bytes list \<Rightarrow> bool" where
  "valid_band ss \<longleftrightarrow> 20 + length (body ss) < 65536"

lemma record_bytes_eq:
  "record_bytes ss = [0, 0] @ le16 (of_nat (20 + length (body ss))) @ le32 4 @ zeros 8 @ body ss @ zeros 8"
  by (simp add: record_bytes_def body_def [symmetric] PREFIX_def TRAILER_def GAP_def Let_def zeros_def
      flip: replicate_add)

lemma length_record_bytes: "length (record_bytes ss) = 24 + length (body ss)"
  by (simp add: record_bytes_eq)

lemma dec_records_enc:
  assumes "valid_band ss"
  shows "dec_records (record_bytes ss @ rest) = map_option ((@) ss) (dec_records rest)"
proof -
  define n where "n = 20 + length (body ss)"
  let ?r = "record_bytes ss @ rest"
  have n: "n < 65536" using assms by (simp add: valid_band_def n_def)
  have r: "?r = ([0, 0] @ le16 (of_nat n) @ le32 4 @ zeros 8) @ body ss @ zeros 8 @ rest"
    by (simp add: record_bytes_eq n_def)
  have "of_le32 4 0 0 0 = (4 :: u32)" using of_le32_le32 [of 4] by simp
  then have "rd16 ?r 2 = of_nat n" "rd32 ?r 4 = 4"
    unfolding r by (simp_all add: rd16_def rd32_def le16_def le32_def of_le16_le16 of_le32_le32 nth_Cons')
  moreover have "slice 16 (n - 20) ?r = body ss" unfolding r by (simp add: slice_def n_def)
  moreover have "drop (n + 4) ?r = rest"
    by (simp add: n_def length_record_bytes)
  moreover have "dec_body (body ss) = Some ss" using n by (intro dec_body_enc) (simp add: n_def)
  moreover have "unat (of_nat n :: u16) = n" by (rule unat_of_nat16 [OF n])
  moreover have "?r \<noteq> []" "length ?r = n + 4 + length rest" "20 \<le> n"
    by (simp_all add: length_record_bytes n_def flip: length_0_conv)
  ultimately show ?thesis
    by (subst dec_records.simps) (simp add: Let_def del: append_is_Nil_conv length_append)
qed

lemma dec_records_group:
  "list_all valid_band bs \<Longrightarrow> dec_records (concat (map record_bytes bs)) = Some (concat bs)"
proof (induction bs)
  case Nil
  show ?case by (simp add: dec_records.simps)
qed (simp add: dec_records_enc)

section \<open>Bands\<close>

lemma band_spec:
  assumes "band y0 n len ss = (b, r)"
  shows "b @ r = ss" and "list_all (\<lambda>s. strip_y s = y0) b"
    and "b \<noteq> [] \<Longrightarrow> len + length (body b) + 4 \<le> SIZE_CAP \<or> n = 0 \<and> length b = 1"
proof -
  have "b @ r = ss \<and> list_all (\<lambda>s. strip_y s = y0) b
      \<and> (b \<noteq> [] \<longrightarrow> len + length (body b) + 4 \<le> SIZE_CAP \<or> n = 0 \<and> length b = 1)"
    using assms
  proof (induction y0 n len ss arbitrary: b r rule: band.induct)
    case (2 y0 n len s ss)
    show ?case
    proof (cases "strip_y s = y0 \<and> \<not> (0 < n \<and> SIZE_CAP < len + 2 + length s + TRAILER)")
      case True
      obtain b' where b': "band y0 (n + 1) (len + 2 + length s) ss = (b', r)" "b = s # b'"
        using "2.prems" True by (auto split: prod.splits)
      have "b' @ r = ss \<and> list_all (\<lambda>s. strip_y s = y0) b'
        \<and> (b' \<noteq> [] \<longrightarrow> len + 2 + length s + length (body b') + 4 \<le> SIZE_CAP)"
        using "2.IH" [OF _ _ b'(1)] True by auto
      then show ?thesis
        using True b'(2) by (cases "b' = []") (auto simp: TRAILER_def)
    next
      case False
      then show ?thesis using "2.prems" by (auto split: if_splits)
    qed
  qed simp
  then show "b @ r = ss" and "list_all (\<lambda>s. strip_y s = y0) b"
    and "b \<noteq> [] \<Longrightarrow> len + length (body b) + 4 \<le> SIZE_CAP \<or> n = 0 \<and> length b = 1"
    by auto
qed

text \<open>The records of a list of strips: bands of strips, in order, each small enough.\<close>

lemma records_bands_y:
  assumes "list_all (\<lambda>s. length s \<le> m) ss" "SIZE_CAP \<le> m + 22"
  shows "\<exists>bs. records ss = map record_bytes bs \<and> concat bs = ss
    \<and> list_all (\<lambda>b. b \<noteq> [] \<and> length (body b) \<le> m + 2 \<and> list_all (\<lambda>s. strip_y s = strip_y (hd b)) b) bs"
  using assms(1)
proof (induction ss rule: records.induct)
  case 1
  show ?case by (intro exI [of _ "[]"]) (simp add: records.simps)
next
  case (2 s ss)
  obtain b r where br: "band (strip_y s) 0 (8 + PREFIX) (s # ss) = (b, r)"
    by (cases "band (strip_y s) 0 (8 + PREFIX) (s # ss)")
  note sp = band_spec [OF br]
  have b: "b \<noteq> []" "hd b = s" using br by (auto split: prod.splits)
  have "length (body b) \<le> m + 2"
  proof (cases "length b = 1")
    case True
    then have "b = [s]" using b by (cases b) auto
    then show ?thesis using "2.prems" by simp
  next
    case False
    then show ?thesis using sp(3) b assms(2) by (simp add: PREFIX_def)
  qed
  moreover have "list_all (\<lambda>s. length s \<le> m) r"
    using "2.prems" sp(1) by (metis list_all_append)
  then obtain bs where "records r = map record_bytes bs" "concat bs = r"
    "list_all (\<lambda>b. b \<noteq> [] \<and> length (body b) \<le> m + 2 \<and> list_all (\<lambda>s. strip_y s = strip_y (hd b)) b) bs"
    using "2.IH" [OF br [symmetric]] by blast
  ultimately show ?case
    using sp(1,2) b br by (intro exI [of _ "b # bs"]) (simp add: records.simps)
qed

lemma records_bands:
  assumes "list_all (\<lambda>s. length s \<le> m) ss" "SIZE_CAP \<le> m + 22"
  shows "\<exists>bs. records ss = map record_bytes bs \<and> concat bs = ss
    \<and> list_all (\<lambda>b. b \<noteq> [] \<and> length (body b) \<le> m + 2) bs"
  using records_bands_y [OF assms] unfolding list_all_iff by blast

section \<open>Chunks\<close>

fun chunks :: "bytes \<Rightarrow> bytes list \<Rightarrow> bytes list" where
  "chunks cur [] = (if cur = [] then [] else [cur])"
| "chunks cur (r # rs) =
     (if cur \<noteq> [] \<and> CHUNK < length cur + length r then cur # chunks r rs else chunks (cur @ r) rs)"

text \<open>The loop over offsets into the stream is that loop over the records.\<close>

lemma chunk_loop_chunks:
  assumes "stream = pre @ cur @ concat rs"
  shows "chunk_loop stream (length pre + length cur) (length pre)
    (record_ends (length pre + length cur) rs) = chunks cur rs"
  using assms
proof (induction rs arbitrary: pre cur)
  case Nil
  then show ?case by (simp add: slice_def)
next
  case (Cons r rs)
  show ?case
  proof (cases "cur \<noteq> [] \<and> CHUNK < length cur + length r")
    case True
    have "chunk_loop stream (length (pre @ cur) + length r) (length (pre @ cur))
        (record_ends (length (pre @ cur) + length r) rs) = chunks r rs"
      by (rule Cons.IH) (simp add: Cons.prems)
    moreover have "slice (length pre) (length cur) stream = cur"
      by (simp add: Cons.prems slice_def)
    ultimately show ?thesis using True by (simp add: add.assoc)
  next
    case False
    have "chunk_loop stream (length pre + length (cur @ r)) (length pre)
        (record_ends (length pre + length (cur @ r)) rs) = chunks (cur @ r) rs"
      by (rule Cons.IH) (simp add: Cons.prems)
    then show ?thesis using False by (auto simp: add.assoc)
  qed
qed

lemma chunks_groups:
  assumes "\<forall>b \<in> set bs. length (record_bytes b) \<le> M" "CHUNK \<le> M"
    "length (concat (map record_bytes cb)) \<le> M"
  shows "\<exists>gs. chunks (concat (map record_bytes cb)) (map record_bytes bs) = map (\<lambda>g. concat (map record_bytes g)) gs
    \<and> concat gs = cb @ bs \<and> list_all (\<lambda>g. g \<noteq> [] \<and> length (concat (map record_bytes g)) \<le> M) gs"
  using assms(1,3)
proof (induction bs arbitrary: cb)
  case Nil
  show ?case
  proof (cases "cb = []")
    case True
    then show ?thesis by (intro exI [of _ "[]"]) simp
  next
    case False
    then have "concat (map record_bytes cb) \<noteq> []"
      using length_record_bytes [of "hd cb"] by (cases cb) auto
    then show ?thesis using False Nil by (intro exI [of _ "[cb]"]) simp
  qed
next
  case (Cons b bs)
  let ?c = "concat (map record_bytes cb)"
  show ?case
  proof (cases "?c \<noteq> [] \<and> CHUNK < length ?c + length (record_bytes b)")
    case True
    obtain gs where "chunks (concat (map record_bytes [b])) (map record_bytes bs)
        = map (\<lambda>g. concat (map record_bytes g)) gs" "concat gs = [b] @ bs"
      "list_all (\<lambda>g. g \<noteq> [] \<and> length (concat (map record_bytes g)) \<le> M) gs"
      using Cons.IH [of "[b]"] Cons.prems by auto
    moreover have "cb \<noteq> []" using True by auto
    ultimately show ?thesis
      using True Cons.prems by (intro exI [of _ "cb # gs"]) simp
  next
    case False
    have "length (concat (map record_bytes (cb @ [b]))) \<le> M"
    proof (cases "?c = []")
      case True
      then show ?thesis using Cons.prems by (simp del: concat_eq_Nil_conv)
    next
      case False': False
      then show ?thesis using False assms(2) by (simp del: concat_eq_Nil_conv)
    qed
    then obtain gs where "chunks (concat (map record_bytes (cb @ [b]))) (map record_bytes bs)
        = map (\<lambda>g. concat (map record_bytes g)) gs" "concat gs = (cb @ [b]) @ bs"
      "list_all (\<lambda>g. g \<noteq> [] \<and> length (concat (map record_bytes g)) \<le> M) gs"
      using Cons.IH [of "cb @ [b]"] Cons.prems by auto
    then show ?thesis using False by (intro exI [of _ gs]) (auto simp del: concat_eq_Nil_conv)
  qed
qed

lemma concat_map_concat: "concat (map concat xss) = concat (concat xss)"
  by (induction xss) simp_all

lemma frame_records_groups:
  assumes "list_all (\<lambda>s. length s \<le> m) ss" "SIZE_CAP \<le> m + 22" "m \<le> 65513"
  shows "\<exists>groups. concat groups = ss \<and> map dec_records (frame_records ss) = map Some groups
    \<and> list_all (\<lambda>t. t \<noteq> [] \<and> length t \<le> max CHUNK (m + 26)) (frame_records ss)"
proof -
  obtain bs where bs: "records ss = map record_bytes bs" "concat bs = ss"
    "list_all (\<lambda>b. b \<noteq> [] \<and> length (body b) \<le> m + 2) bs"
    using records_bands [OF assms(1,2)] by blast
  have f: "frame_records ss = chunks [] (map record_bytes bs)"
    using chunk_loop_chunks [of "concat (map record_bytes bs)" "[]" "[]" "map record_bytes bs"]
    by (simp add: frame_records_def Let_def bs(1))
  have "\<forall>b \<in> set bs. length (record_bytes b) \<le> max CHUNK (m + 26)"
    using bs(3) by (auto simp: list_all_iff length_record_bytes)
  then obtain gs where gs: "frame_records ss = map (\<lambda>g. concat (map record_bytes g)) gs" "concat gs = bs"
    "list_all (\<lambda>g. g \<noteq> [] \<and> length (concat (map record_bytes g)) \<le> max CHUNK (m + 26)) gs"
    using chunks_groups [of bs "max CHUNK (m + 26)" "[]"] f by auto
  have valid: "list_all valid_band g" if "g \<in> set gs" for g
    using that bs(3) assms(3) gs(2) by (fastforce simp: list_all_iff valid_band_def)
  have "map dec_records (frame_records ss) = map Some (map concat gs)"
    using dec_records_group [OF valid] by (simp add: gs(1))
  moreover have "concat (map concat gs) = ss"
    unfolding concat_map_concat gs(2) by (rule bs(2))
  moreover have "list_all (\<lambda>t. t \<noteq> [] \<and> length t \<le> max CHUNK (m + 26)) (frame_records ss)"
  proof -
    have "concat (map record_bytes g) \<noteq> []" if "g \<noteq> []" for g
      using that length_record_bytes [of "hd g"] by (cases g) auto
    then show ?thesis using gs(3) by (auto simp: gs(1) list_all_iff)
  qed
  ultimately show ?thesis by blast
qed


section \<open>Properties\<close>

text \<open>
  C9. Whatever strips are framed (each with its 6-byte position, and at most 65513 bytes so that a
  record's 16-bit size can hold it), every transfer is a whole number of records and reads back to its own group of strips;
  the groups together are all the strips, in order. No transfer is empty, and none exceeds 65539
  bytes (65024 unless a single record does).
\<close>

theorem frame_records_roundtrip:
  assumes "list_all (\<lambda>s. 6 \<le> length s \<and> length s \<le> 65513) strips"
  shows "\<exists>groups. concat groups = strips \<and> map dec_records (frame_records strips) = map Some groups
    \<and> list_all (\<lambda>t. t \<noteq> [] \<and> length t \<le> 65539) (frame_records strips)"
proof -
  have "list_all (\<lambda>s. length s \<le> 65513) strips" using assms by (simp add: list_all_iff)
  from frame_records_groups [OF this] show ?thesis by (simp add: SIZE_CAP_def CHUNK_def)
qed

theorem frame_records_roundtrip_witness:
  "\<exists>groups. concat groups = [[1, 40, 0, 0, 0, 0, 7], [1, 40, 64, 0, 0, 0], [1, 40, 0, 0, 16, 0]]
    \<and> map dec_records (frame_records [[1, 40, 0, 0, 0, 0, 7], [1, 40, 64, 0, 0, 0], [1, 40, 0, 0, 16, 0]])
      = map Some groups
    \<and> list_all (\<lambda>t. t \<noteq> [] \<and> length t \<le> 65539)
        (frame_records [[1, 40, 0, 0, 0, 0, 7], [1, 40, 64, 0, 0, 0], [1, 40, 0, 0, 16, 0]])"
  by (rule frame_records_roundtrip) simp

lemma frame_strip_length: "length (frame_strip px t) \<le> 16362"
proof (cases t)
  case (Pair sx sy)
  then show ?thesis
    using colour_strip_facts(1) [OF length_strip_blocks strip_blocks_lasts, of sx sy px "of_nat sx" "of_nat sy"]
    by (simp add: frame_strip_def)
qed

lemma frame_records_strips:
  "\<exists>groups. concat groups = map (frame_strip px) ts
    \<and> map dec_records (frame_records (map (frame_strip px) ts)) = map Some groups
    \<and> list_all (\<lambda>t. t \<noteq> [] \<and> length t \<le> 65024) (frame_records (map (frame_strip px) ts))"
  using frame_records_groups [of 16362 "map (frame_strip px) ts"] frame_strip_length
  by (simp add: list_all_iff SIZE_CAP_def CHUNK_def)

lemma tiles_facts:
  assumes "w mod 64 = 0" "h mod 16 = 0"
  shows "distinct (tiles w h)"
    and "set (tiles w h) = {(x, y). x < w \<and> y < h \<and> x mod 64 = 0 \<and> y mod 16 = 0}"
proof -
  obtain m n where wh: "w = 64 * m" "h = 16 * n"
    using assms by (auto elim!: dvdE simp: mod_eq_0_iff_dvd)
  have t: "tiles w h = concat (map (\<lambda>sy. map (\<lambda>sx. (sx * 64, sy * 16)) [0..<m]) [0..<n])"
    by (simp add: tiles_def wh STRIP_W_def STRIP_H_def STRIP_BLOCKS_X_def DIM_def)
  show "distinct (tiles w h)"
  proof (cases "m = 0")
    case True
    then have "tiles w h = []" by (simp add: t)
    then show ?thesis by simp
  next
    case False
    then show ?thesis
      unfolding t by (intro distinct_concat) (auto simp: distinct_map inj_on_def)
  qed
  have "(x, y) \<in> set (tiles w h)" if "x < w" "y < h" "x mod 64 = 0" "y mod 16 = 0" for x y
  proof -
    have "x div 64 < m" "y div 16 < n" "x div 64 * 64 = x" "y div 16 * 16 = y"
      using that div_mult_mod_eq [of x 64] div_mult_mod_eq [of y 16]
      by (simp_all add: wh less_mult_imp_div_less mult.commute)
    then show ?thesis unfolding t by force
  qed
  then show "set (tiles w h) = {(x, y). x < w \<and> y < h \<and> x mod 64 = 0 \<and> y mod 16 = 0}"
    by (auto simp: t [unfolded wh] wh)
qed

lemmas tile_sizes = STRIP_W_def STRIP_H_def STRIP_BLOCKS_X_def DIM_def

text \<open>
  C24. A colour frame is refused with \<open>EINVAL\<close> exactly when its size is not a whole number of 64 by 16
  tiles. Otherwise each of its USB transfers has at most 65024 bytes and reads back, record by
  record, to strips; together they are the strip of every tile, once, in raster order. The sequence
  number is returned unchanged.
\<close>

theorem colour_frame_wire:
  "case colour_frame_ep08 w h seq0 px of
     Inl e \<Rightarrow> e = EINVAL \<and> \<not> (w mod 64 = 0 \<and> h mod 16 = 0)
   | Inr (frames, seq) \<Rightarrow> seq = seq0 \<and> w mod 64 = 0 \<and> h mod 16 = 0
       \<and> (\<exists>groups. map dec_records frames = map Some groups
            \<and> concat groups = map (frame_strip px) (tiles w h))
       \<and> list_all (\<lambda>t. t \<noteq> [] \<and> length t \<le> 65024) frames
       \<and> distinct (tiles w h)
       \<and> set (tiles w h) = {(x, y). x < w \<and> y < h \<and> x mod 64 = 0 \<and> y mod 16 = 0}"
  using frame_records_strips [of px "tiles w h"] tiles_facts [of w h]
  by (auto simp: colour_frame_ep08_def tile_sizes)

text \<open>
  C4. The damage-limited frame carries, in raster order, exactly the tiles its clips hit; every tile
  that holds a damaged pixel of the screen is among them, and with a clip that covers the screen it
  is the full frame.
\<close>

theorem damage_frame_sound:
  "case colour_frame_ep08_damage w h seq0 clips px of
     Inl e \<Rightarrow> e = EINVAL \<and> colour_frame_ep08 w h seq0 px = Inl EINVAL
   | Inr (frames, seq) \<Rightarrow> seq = seq0
       \<and> (\<exists>groups. map dec_records frames = map Some groups
            \<and> concat groups = map (frame_strip px) (filter (clip_hits clips) (tiles w h)))
       \<and> (\<Union>(x0, y0, x1, y1) \<in> set clips.
             {(x div 64 * 64, y div 16 * 16) |x y. x0 \<le> x \<and> x < min x1 w \<and> y0 \<le> y \<and> y < min y1 h})
          \<subseteq> set (filter (clip_hits clips) (tiles w h))
       \<and> (colour_frame_ep08_damage w h seq0 ((0, 0, w, h) # clips) px = colour_frame_ep08 w h seq0 px)"
proof (cases "w mod 64 = 0 \<and> h mod 16 = 0")
  case True
  have full: "filter (clip_hits ((0, 0, w, h) # clips)) (tiles w h) = tiles w h"
  proof (rule filter_True, rule ballI)
    fix t assume "t \<in> set (tiles w h)"
    then have "fst t < w \<and> snd t < h"
      using tiles_facts [of w h] True by auto
    then show "clip_hits ((0, 0, w, h) # clips) t"
      by (cases t) (simp add: clip_hits_def tile_sizes)
  qed
  have "(x div 64 * 64, y div 16 * 16) \<in> set (filter (clip_hits clips) (tiles w h))"
    if c: "(x0, y0, x1, y1) \<in> set clips" and xy: "x0 \<le> x" "x < min x1 w" "y0 \<le> y" "y < min y1 h"
    for x0 y0 x1 y1 x y
  proof -
    have "(x div 64 * 64, y div 16 * 16) \<in> set (tiles w h)"
    proof -
      have "x div 64 * 64 \<le> x" "y div 16 * 16 \<le> y" by simp_all
      then have "x div 64 * 64 < w" "y div 16 * 16 < h" using xy by linarith+
      then show ?thesis
        using tiles_facts [of w h] True by simp
    qed
    moreover have "x div 64 * 64 \<le> x" "x < x div 64 * 64 + 64" "y div 16 * 16 \<le> y" "y < y div 16 * 16 + 16"
      using dividend_less_div_times [of 64 x] dividend_less_div_times [of 16 y] by (simp_all add: add.commute)
    then have "x div 64 * 64 < x1" "x0 < x div 64 * 64 + 64" "y div 16 * 16 < y1" "y0 < y div 16 * 16 + 16"
      using xy by linarith+
    then have "clip_hits clips (x div 64 * 64, y div 16 * 16)"
      using c unfolding clip_hits_def list_ex_iff
      by (auto simp: tile_sizes intro!: bexI [of _ "(x0, y0, x1, y1)"])
    ultimately show ?thesis by simp
  qed
  then show ?thesis
    using True full frame_records_strips [of px "filter (clip_hits clips) (tiles w h)"]
    by (auto simp: colour_frame_ep08_damage_def colour_frame_ep08_def tile_sizes)
next
  case False
  then show ?thesis
    by (auto simp: colour_frame_ep08_damage_def colour_frame_ep08_def tile_sizes)
qed

end
