(* ===== verification/Ake.thy ===== *)
theory Ake
  imports Proto
begin

text \<open>
  The HDCP 2.2 message layer: the byte-exact builders the kernel driver runs
  (\<open>chimera/vino/ake.rs\<close>), the userspace oracle's builders (\<open>vino-driver/hdcp_msgs.rs\<close>), and
  the typed message parser and receiver certificate of \<open>vino-hdcp\<close>. Fixed-size array
  parameters (\<open>&[u8; 8]\<close>) are byte lists whose length the theorems assume.
\<close>

section \<open>Message ids (ake.rs \<open>mod id\<close>, kernel-shim bindings)\<close>

definition AKE_INIT :: u8 where "AKE_INIT = 2"
definition AKE_SEND_CERT :: u8 where "AKE_SEND_CERT = 3"
definition AKE_NO_STORED_KM :: u8 where "AKE_NO_STORED_KM = 4"
definition AKE_SEND_RRX :: u8 where "AKE_SEND_RRX = 0x06"
definition AKE_SEND_H_PRIME :: u8 where "AKE_SEND_H_PRIME = 7"
definition AKE_SEND_PAIRING_INFO :: u8 where "AKE_SEND_PAIRING_INFO = 8"
definition LC_INIT :: u8 where "LC_INIT = 9"
definition LC_SEND_L_PRIME :: u8 where "LC_SEND_L_PRIME = 10"
definition SKE_SEND_EKS :: u8 where "SKE_SEND_EKS = 11"
definition REPEATERAUTH_SEND_RECEIVERID_LIST :: u8 where "REPEATERAUTH_SEND_RECEIVERID_LIST = 12"
definition REPEATERAUTH_SEND_ACK :: u8 where "REPEATERAUTH_SEND_ACK = 15"
definition REPEATERAUTH_STREAM_MANAGE :: u8 where "REPEATERAUTH_STREAM_MANAGE = 16"
definition REPEATERAUTH_STREAM_READY :: u8 where "REPEATERAUTH_STREAM_READY = 17"
definition AKE_TRANSMITTER_INFO :: u8 where "AKE_TRANSMITTER_INFO = 0x13"

lemmas ake_ids = AKE_INIT_def AKE_SEND_CERT_def AKE_NO_STORED_KM_def AKE_SEND_RRX_def
  AKE_SEND_H_PRIME_def AKE_SEND_PAIRING_INFO_def LC_INIT_def LC_SEND_L_PRIME_def
  SKE_SEND_EKS_def REPEATERAUTH_SEND_RECEIVERID_LIST_def REPEATERAUTH_SEND_ACK_def
  REPEATERAUTH_STREAM_MANAGE_def REPEATERAUTH_STREAM_READY_def AKE_TRANSMITTER_INFO_def

section \<open>The kernel builders (ake.rs)\<close>

definition ake_body :: "nat \<Rightarrow> u16 \<Rightarrow> u32 \<Rightarrow> u8 \<Rightarrow> bytes" where
  "ake_body body_len sub_size hdcp_seq msg_id =
     (let b = zeros body_len;
          b = put 0 (le16 sub_size) b;
          b = put 2 (le16 0x0010) b;
          b = put 4 (le32 hdcp_seq) b;
          b = put 22 (le32 0x00000030) b
      in b[27 := msg_id])"

definition SUB_HDCP :: u16 where "SUB_HDCP = 0x04"

definition wrap :: "u16 \<Rightarrow> u32 \<Rightarrow> bytes \<Rightarrow> bytes" where
  "wrap sub_len_dw sq bdy = push_frame_with [] 0x04 SUB_HDCP sub_len_dw sq bdy"

definition session_init_ack :: "u32 \<Rightarrow> u32 \<Rightarrow> bytes" where
  "session_init_ack hdcp_seq sq =
     (let b = zeros 32;
          b = put 0 (le16 0x0014) b;
          b = put 2 (le16 0x0076) b;
          b = put 4 (le32 hdcp_seq) b
      in wrap 0x000a sq b)"

definition ake_init :: "u32 \<Rightarrow> u32 \<Rightarrow> bytes \<Rightarrow> bytes \<Rightarrow> bytes" where
  "ake_init hdcp_seq sq rtx tx_caps =
     (let b = ake_body 48 0x0022 hdcp_seq AKE_INIT;
          b = put 28 rtx b;
          b = put 36 tx_caps b
      in wrap 0x000c sq b)"

definition ake_transmitter_info :: "u32 \<Rightarrow> u32 \<Rightarrow> bytes" where
  "ake_transmitter_info hdcp_seq sq =
     (let b = ake_body 48 0x001f hdcp_seq AKE_TRANSMITTER_INFO;
          b = put 28 [0x00, 0x06, 0x02, 0x00, 0x02] b
      in wrap 0x000f sq b)"

definition ake_no_stored_km :: "u32 \<Rightarrow> u32 \<Rightarrow> bytes \<Rightarrow> bytes" where
  "ake_no_stored_km hdcp_seq sq ekpub_km =
     (let b = ake_body 160 0x009a hdcp_seq AKE_NO_STORED_KM;
          b = put 28 ekpub_km b
      in wrap 0x0004 sq b)"

definition lc_init :: "u32 \<Rightarrow> u32 \<Rightarrow> bytes \<Rightarrow> bytes" where
  "lc_init hdcp_seq sq rn =
     (let b = ake_body 48 0x0022 hdcp_seq LC_INIT;
          b = put 28 rn b
      in wrap 0x000c sq b)"

definition ske_send_eks :: "u32 \<Rightarrow> u32 \<Rightarrow> bytes \<Rightarrow> bytes \<Rightarrow> bytes" where
  "ske_send_eks hdcp_seq sq edkey_ks riv =
     (let b = ake_body 64 0x0032 hdcp_seq SKE_SEND_EKS;
          b = put 28 edkey_ks b;
          b = put 44 riv b
      in wrap 0x000c sq b)"

definition repeater_auth_send_ack :: "u32 \<Rightarrow> u32 \<Rightarrow> bytes \<Rightarrow> bytes" where
  "repeater_auth_send_ack hdcp_seq sq v =
     (let b = ake_body 48 0x002a hdcp_seq REPEATERAUTH_SEND_ACK;
          b = put 28 v b
      in wrap 0x0004 sq b)"

definition repeater_auth_stream_manage :: "u32 \<Rightarrow> u32 \<Rightarrow> bool \<Rightarrow> bytes" where
  "repeater_auth_stream_manage hdcp_seq sq type0 =
     (let b = ake_body 48 0x002d hdcp_seq REPEATERAUTH_STREAM_MANAGE;
          b = put 32 [0x02, 0, 0, 0] b;
          (s0, s1) = (if type0 then (0x00, 0x00) else (0x04, 0x05));
          b = put 36 [s0, 0, 0, 0] b;
          b = b[43 := s1]
      in wrap 0x0001 sq b)"

definition ake_parse_in :: "bytes \<Rightarrow> (u8 \<times> bytes) option" where
  "ake_parse_in bdy = (if length bdy < 10 then None else Some (bdy ! 9, drop 10 bdy))"

section \<open>The userspace oracle (hdcp_msgs.rs)\<close>

text \<open>The constants \<open>msg_type::DATA\<close> and \<open>sub_id::DATA_HDCP\<close> of \<open>vino-driver/src/lib.rs\<close>.\<close>

definition MSG_DATA :: u32 where "MSG_DATA = 0x04"
definition DATA_HDCP :: u16 where "DATA_HDCP = 0x04"

definition data_frame :: "u16 \<Rightarrow> u32 \<Rightarrow> bytes \<Rightarrow> frame" where
  "data_frame dw dlm_seq bdy =
     \<lparr>fr_msg_type = MSG_DATA, fr_sub_id = DATA_HDCP, fr_sub_len_dw = dw, fr_seq = dlm_seq,
      fr_body = bdy\<rparr>"

definition build_hdcp_out :: "u32 \<Rightarrow> u32 \<Rightarrow> u8 \<Rightarrow> bytes \<Rightarrow> frame" where
  "build_hdcp_out hdcp_seq dlm_seq msg_id payload =
     (let unpadded = 28 + length payload;
          body_len = ((unpadded + 15) div 16) * 16;
          sub_size = of_nat (body_len - 14);
          bdy = zeros body_len;
          bdy = put 0 (le16 sub_size) bdy;
          bdy = put 2 (le16 0x0010) bdy;
          bdy = put 4 (le32 hdcp_seq) bdy;
          bdy = put 22 (le32 0x00000030) bdy;
          bdy = bdy[27 := msg_id];
          bdy = put 28 payload bdy
      in data_frame (of_nat (body_len div 4)) dlm_seq bdy)"

definition parse_hdcp_in :: "bytes \<Rightarrow> (u8 \<times> bytes) option" where
  "parse_hdcp_in bdy = (if length bdy < 10 then None else Some (bdy ! 9, drop 10 bdy))"

definition d_ake_init :: "u32 \<Rightarrow> u32 \<Rightarrow> bytes \<Rightarrow> bytes \<Rightarrow> frame" where
  "d_ake_init hdcp_seq dlm_seq rtx tx_caps =
     build_hdcp_out hdcp_seq dlm_seq 0x02 (pad_to 12 (rtx @ tx_caps))"

definition d_ake_transmitter_info :: "u32 \<Rightarrow> u32 \<Rightarrow> frame" where
  "d_ake_transmitter_info hdcp_seq dlm_seq =
     (let bdy = zeros 48;
          bdy = put 0 (le16 0x001f) bdy;
          bdy = put 2 (le16 0x0010) bdy;
          bdy = put 4 (le32 hdcp_seq) bdy;
          bdy = put 22 (le32 0x00000030) bdy;
          bdy = bdy[27 := 0x13, 28 := 0x00, 29 := 0x06, 30 := 0x02, 31 := 0x00, 32 := 0x02]
      in data_frame 0x000f dlm_seq bdy)"

definition d_ake_no_stored_km :: "u32 \<Rightarrow> u32 \<Rightarrow> bytes \<Rightarrow> frame" where
  "d_ake_no_stored_km hdcp_seq dlm_seq ekpub_km =
     (let bdy = zeros 160;
          bdy = put 0 (le16 0x009a) bdy;
          bdy = put 2 (le16 0x0010) bdy;
          bdy = put 4 (le32 hdcp_seq) bdy;
          bdy = put 22 (le32 0x00000030) bdy;
          bdy = bdy[27 := 0x04];
          bdy = put 28 ekpub_km bdy
      in data_frame 0x0004 dlm_seq bdy)"

definition d_ake_stored_km :: "u32 \<Rightarrow> u32 \<Rightarrow> bytes \<Rightarrow> bytes \<Rightarrow> frame" where
  "d_ake_stored_km hdcp_seq dlm_seq ekh_km m =
     (let payload = zeros 32;
          payload = put 0 ekh_km payload;
          payload = put 16 m payload
      in build_hdcp_out hdcp_seq dlm_seq 0x05 payload)"

definition d_lc_init :: "u32 \<Rightarrow> u32 \<Rightarrow> bytes \<Rightarrow> frame" where
  "d_lc_init hdcp_seq dlm_seq rn =
     (let bdy = zeros 48;
          bdy = put 0 (le16 0x0022) bdy;
          bdy = put 2 (le16 0x0010) bdy;
          bdy = put 4 (le32 hdcp_seq) bdy;
          bdy = put 22 (le32 0x00000030) bdy;
          bdy = bdy[27 := 0x09];
          bdy = put 28 rn bdy
      in data_frame 0x000c dlm_seq bdy)"

definition d_repeater_auth_send_ack :: "u32 \<Rightarrow> u32 \<Rightarrow> bytes \<Rightarrow> frame" where
  "d_repeater_auth_send_ack hdcp_seq dlm_seq v =
     (let bdy = zeros 48;
          bdy = put 0 (le16 0x002a) bdy;
          bdy = put 2 (le16 0x0010) bdy;
          bdy = put 4 (le32 hdcp_seq) bdy;
          bdy = put 22 (le32 0x00000030) bdy;
          bdy = bdy[27 := 0x0f];
          bdy = put 28 v bdy
      in data_frame 0x0004 dlm_seq bdy)"

definition d_repeater_auth_stream_manage :: "u32 \<Rightarrow> u32 \<Rightarrow> frame" where
  "d_repeater_auth_stream_manage hdcp_seq dlm_seq =
     (let bdy = zeros 64;
          bdy = put 0 (le16 0x0032) bdy;
          bdy = put 2 (le16 0x0010) bdy;
          bdy = put 4 (le32 hdcp_seq) bdy;
          bdy = put 22 (le32 0x00000030) bdy;
          bdy = bdy[27 := 0x10, 31 := 0x00, 32 := 0x02, 33 := 0x00, 34 := 0x04]
      in data_frame 0x000c dlm_seq bdy)"

definition d_repeater_auth_stream_manage_2 :: "u32 \<Rightarrow> u32 \<Rightarrow> frame" where
  "d_repeater_auth_stream_manage_2 hdcp_seq dlm_seq =
     (let bdy = zeros 48;
          bdy = put 0 (le16 0x002d) bdy;
          bdy = put 2 (le16 0x0010) bdy;
          bdy = put 4 (le32 hdcp_seq) bdy;
          bdy = put 22 (le32 0x00000030) bdy;
          bdy = bdy[27 := 0x10];
          bdy = put 32 [0x02, 0, 0, 0] bdy;
          bdy = put 36 [0x04, 0, 0, 0] bdy;
          bdy = bdy[43 := 0x05]
      in data_frame 0x0001 dlm_seq bdy)"

definition d_ske_send_eks :: "u32 \<Rightarrow> u32 \<Rightarrow> bytes \<Rightarrow> bytes \<Rightarrow> frame" where
  "d_ske_send_eks hdcp_seq dlm_seq edkey_ks riv =
     (let bdy = zeros 64;
          bdy = put 0 (le16 0x0032) bdy;
          bdy = put 2 (le16 0x0010) bdy;
          bdy = put 4 (le32 hdcp_seq) bdy;
          bdy = put 22 (le32 0x00000030) bdy;
          bdy = bdy[27 := 0x0b];
          bdy = put 28 edkey_ks bdy;
          bdy = put 44 riv bdy
      in data_frame 0x000c dlm_seq bdy)"

section \<open>Typed messages (vino-hdcp messages.rs)\<close>

datatype MessageId =
    AkeInit | AkeSendCert | AkeNoStoredKm | AkeStoredKm | AkeSendRrx | AkeSendHPrime
  | AkeSendPairingInfo | LcInit | LcSendLPrime | SkeSendEks | RepeaterAuthSendReceiverIdList
  | RepeaterAuthSendAck | RepeaterAuthStreamManage | RepeaterAuthStreamReady
  | ReceiverAuthStatus | AkeTransmitterInfo | AkeReceiverInfo

text \<open>The discriminants of the \<open>repr(u8)\<close> enum.\<close>

fun id_u8 :: "MessageId \<Rightarrow> u8" where
  "id_u8 AkeInit = 0x02"
| "id_u8 AkeSendCert = 0x03"
| "id_u8 AkeNoStoredKm = 0x04"
| "id_u8 AkeStoredKm = 0x05"
| "id_u8 AkeSendRrx = 0x06"
| "id_u8 AkeSendHPrime = 0x07"
| "id_u8 AkeSendPairingInfo = 0x08"
| "id_u8 LcInit = 0x09"
| "id_u8 LcSendLPrime = 0x0a"
| "id_u8 SkeSendEks = 0x0b"
| "id_u8 RepeaterAuthSendReceiverIdList = 0x0c"
| "id_u8 RepeaterAuthSendAck = 0x0f"
| "id_u8 RepeaterAuthStreamManage = 0x10"
| "id_u8 RepeaterAuthStreamReady = 0x11"
| "id_u8 ReceiverAuthStatus = 0x12"
| "id_u8 AkeTransmitterInfo = 0x13"
| "id_u8 AkeReceiverInfo = 0x14"

definition id_from_u8 :: "u8 \<Rightarrow> MessageId option" where
  "id_from_u8 v =
     (if v = 0x02 then Some AkeInit
      else if v = 0x03 then Some AkeSendCert
      else if v = 0x04 then Some AkeNoStoredKm
      else if v = 0x05 then Some AkeStoredKm
      else if v = 0x06 then Some AkeSendRrx
      else if v = 0x07 then Some AkeSendHPrime
      else if v = 0x08 then Some AkeSendPairingInfo
      else if v = 0x09 then Some LcInit
      else if v = 0x0a then Some LcSendLPrime
      else if v = 0x0b then Some SkeSendEks
      else if v = 0x0c then Some RepeaterAuthSendReceiverIdList
      else if v = 0x0f then Some RepeaterAuthSendAck
      else if v = 0x10 then Some RepeaterAuthStreamManage
      else if v = 0x11 then Some RepeaterAuthStreamReady
      else if v = 0x12 then Some ReceiverAuthStatus
      else if v = 0x13 then Some AkeTransmitterInfo
      else if v = 0x14 then Some AkeReceiverInfo
      else None)"

datatype HdcpMessage =
    MAkeInit bytes bytes
  | MAkeSendCert bytes bytes bytes
  | MAkeNoStoredKm bytes
  | MAkeSendHPrime bytes
  | MAkeSendPairingInfo bytes
  | MUnknown u8 bytes

definition msg_from_bytes :: "bytes \<Rightarrow> HdcpMessage option" where
  "msg_from_bytes buf =
     (if buf = [] then None
      else let i = hd buf; payload = tl buf
        in case id_from_u8 i of
             None \<Rightarrow> None
           | Some AkeInit \<Rightarrow>
               if length payload < 11 then None
               else Some (MAkeInit (slice 0 8 payload) (slice 8 3 payload))
           | Some AkeSendCert \<Rightarrow>
               if length payload < 533 then None
               else Some (MAkeSendCert (slice 0 522 payload) (slice 522 8 payload)
                            (slice 530 3 payload))
           | Some AkeNoStoredKm \<Rightarrow> Some (MAkeNoStoredKm payload)
           | Some AkeSendHPrime \<Rightarrow>
               if length payload < 32 then None else Some (MAkeSendHPrime (slice 0 32 payload))
           | Some AkeSendPairingInfo \<Rightarrow>
               if length payload < 16 then None
               else Some (MAkeSendPairingInfo (slice 0 16 payload))
           | Some _ \<Rightarrow> Some (MUnknown i payload))"

section \<open>The receiver certificate (vino-hdcp cert.rs)\<close>

record receiver_cert =
  rc_receiver_id :: bytes
  rc_modulus :: bytes
  rc_exponent :: bytes
  rc_reserved :: bytes
  rc_signature :: bytes

datatype cert_error = Truncated nat | BadReserved bytes

definition cert_from_bytes :: "bytes \<Rightarrow> cert_error + receiver_cert" where
  "cert_from_bytes b =
     (if length b < 522 then Inl (Truncated (length b))
      else let reserved = slice 136 2 b
        in if reserved \<noteq> [0, 0] then Inl (BadReserved reserved)
           else Inr \<lparr>rc_receiver_id = slice 0 5 b, rc_modulus = slice 5 128 b,
                     rc_exponent = slice 133 3 b, rc_reserved = reserved,
                     rc_signature = slice 138 384 b\<rparr>)"

end
