(* ===== verification/AkeLaws.thy ===== *)
theory AkeLaws
  imports Ake
begin

text \<open>
  Laws of the HDCP message layer: a reader of the format recovers every message of the kernel's
  builders, and the userspace oracle's put the same bytes on the wire but for one message it lacks; the
  typed parser returns exactly the message the bytes spell; the receiver certificate is split
  without loss.
\<close>

section \<open>Writes into a message body\<close>

lemma put_append:
  assumes "off + length us + length vs \<le> length xs"
  shows "put off (us @ vs) xs = put (off + length us) vs (put off us xs)"
  using assms by (intro nth_equalityI) (auto simp: nth_put nth_append)

lemma put_single: "off < length xs \<Longrightarrow> put off [v] xs = xs[off := v]"
  by (intro nth_equalityI) (auto simp: nth_put nth_list_update)

lemma put_Cons:
  "off + length vs < length xs \<Longrightarrow> put off (v # vs) xs = put (Suc off) vs (xs[off := v])"
  using put_append [of off "[v]" vs xs] by (simp add: put_single)

lemma put_Nil [simp]: "put off [] xs = xs"
  by (simp add: put_def)

lemma put_same: "off < length xs \<Longrightarrow> xs ! off = v \<Longrightarrow> put off [v] xs = xs"
  by (auto simp: put_single)

lemma length_ake_body [simp, byte_simps]: "28 \<le> n \<Longrightarrow> length (ake_body n ss hs mid) = n"
  by (simp add: ake_body_def Let_def)

lemma nth_ake_body_payload: "28 \<le> i \<Longrightarrow> i < n \<Longrightarrow> ake_body n ss hs mid ! i = 0"
  by (simp add: ake_body_def Let_def nth_put)

lemma wrap_encode: "wrap dw sq b = frame_encode (data_frame dw sq b)"
  by (simp add: wrap_def push_frame_with_eq_encode data_frame_def SUB_HDCP_def MSG_DATA_def
      DATA_HDCP_def)

text \<open>The oracle's generic builder on a payload that pads to \<open>n\<close> bytes of body.\<close>

lemma build_hdcp_out_body:
  assumes "(28 + length p + 15) div 16 * 16 = n"
  shows "build_hdcp_out hs sq mid p =
    data_frame (of_nat (n div 4)) sq (put 28 p (ake_body n (of_nat (n - 14)) hs mid))"
  unfolding build_hdcp_out_def ake_body_def Let_def assms ..

section \<open>Two implementations, one wire format\<close>

lemma ake_init_agree:
  assumes "length rtx = 8" "length caps = 3"
  shows "ake_init hs sq rtx caps = frame_encode (d_ake_init hs sq rtx caps)"
proof -
  let ?b = "ake_body 48 0x22 hs AKE_INIT"
  have p: "pad_to 12 (rtx @ caps) = (rtx @ caps) @ [0]"
    using assms by (simp add: pad_to_def)
  have "put 28 (pad_to 12 (rtx @ caps)) ?b = put 39 [0] (put 36 caps (put 28 rtx ?b))"
    using assms by (simp add: p put_append)
  also have "\<dots> = put 36 caps (put 28 rtx ?b)"
    using assms by (intro put_same) (simp_all add: nth_put nth_ake_body_payload)
  finally show ?thesis
    using assms
    by (simp add: ake_init_def d_ake_init_def wrap_encode Let_def AKE_INIT_def
        build_hdcp_out_body [of _ 48])
qed

lemma ake_transmitter_info_agree:
  "ake_transmitter_info hs sq = frame_encode (d_ake_transmitter_info hs sq)"
  by (simp add: ake_transmitter_info_def d_ake_transmitter_info_def wrap_encode Let_def
      ake_body_def ake_ids put_Cons)

lemma put_agree:
  "ake_no_stored_km hs sq e = frame_encode (d_ake_no_stored_km hs sq e)"
  "lc_init hs sq rn = frame_encode (d_lc_init hs sq rn)"
  "ske_send_eks hs sq ek riv = frame_encode (d_ske_send_eks hs sq ek riv)"
  "repeater_auth_send_ack hs sq v = frame_encode (d_repeater_auth_send_ack hs sq v)"
  "repeater_auth_stream_manage hs sq False = frame_encode (d_repeater_auth_stream_manage_2 hs sq)"
  by (simp_all add: ake_no_stored_km_def d_ake_no_stored_km_def lc_init_def d_lc_init_def
      ske_send_eks_def d_ske_send_eks_def repeater_auth_send_ack_def d_repeater_auth_send_ack_def
      repeater_auth_stream_manage_def d_repeater_auth_stream_manage_2_def wrap_encode Let_def
      ake_body_def ake_ids)

section \<open>What the receiver of a host message reads\<close>

text \<open>
  The seven messages a transmitter sends, as values; the types of the byte arrays the builders
  take; what each side puts on the wire for them. The oracle has no Type 0 variant of
  \<open>RepeaterAuth_Stream_Manage\<close>.
\<close>

datatype host_message =
    HInit bytes bytes
  | HTransmitterInfo
  | HNoStoredKm bytes
  | HLcInit bytes
  | HSkeEks bytes bytes
  | HSendAck bytes
  | HStreamManage bool

fun sized :: "host_message \<Rightarrow> bool" where
  "sized (HInit rtx caps) \<longleftrightarrow> length rtx = 8 \<and> length caps = 3"
| "sized (HNoStoredKm e) \<longleftrightarrow> length e = 128"
| "sized (HLcInit rn) \<longleftrightarrow> length rn = 8"
| "sized (HSkeEks ek riv) \<longleftrightarrow> length ek = 16 \<and> length riv = 8"
| "sized (HSendAck v) \<longleftrightarrow> length v = 16"
| "sized _ \<longleftrightarrow> True"

fun kernel_bytes :: "host_message \<Rightarrow> u32 \<Rightarrow> u32 \<Rightarrow> bytes" where
  "kernel_bytes (HInit rtx caps) hs sq = ake_init hs sq rtx caps"
| "kernel_bytes HTransmitterInfo hs sq = ake_transmitter_info hs sq"
| "kernel_bytes (HNoStoredKm e) hs sq = ake_no_stored_km hs sq e"
| "kernel_bytes (HLcInit rn) hs sq = lc_init hs sq rn"
| "kernel_bytes (HSkeEks ek riv) hs sq = ske_send_eks hs sq ek riv"
| "kernel_bytes (HSendAck v) hs sq = repeater_auth_send_ack hs sq v"
| "kernel_bytes (HStreamManage type0) hs sq = repeater_auth_stream_manage hs sq type0"

fun oracle_frame :: "host_message \<Rightarrow> u32 \<Rightarrow> u32 \<Rightarrow> frame" where
  "oracle_frame (HInit rtx caps) hs sq = d_ake_init hs sq rtx caps"
| "oracle_frame HTransmitterInfo hs sq = d_ake_transmitter_info hs sq"
| "oracle_frame (HNoStoredKm e) hs sq = d_ake_no_stored_km hs sq e"
| "oracle_frame (HLcInit rn) hs sq = d_lc_init hs sq rn"
| "oracle_frame (HSkeEks ek riv) hs sq = d_ske_send_eks hs sq ek riv"
| "oracle_frame (HSendAck v) hs sq = d_repeater_auth_send_ack hs sq v"
| "oracle_frame (HStreamManage type0) hs sq = d_repeater_auth_stream_manage_2 hs sq"

text \<open>
  The reader of the format, written from neither side: a data frame whose two length fields
  account for its body, the fixed markers, the transaction counter at 4, the message id at 27 and
  the payload of that message at its own offsets.
\<close>

definition read_payload :: "u8 \<Rightarrow> bytes \<Rightarrow> host_message option" where
  "read_payload i b =
     (if i = 0x02 then Some (HInit (slice 28 8 b) (slice 36 3 b))
      else if i = 0x13 then (if slice 28 5 b = [0, 6, 2, 0, 2] then Some HTransmitterInfo else None)
      else if i = 0x04 then Some (HNoStoredKm (slice 28 128 b))
      else if i = 0x09 then Some (HLcInit (slice 28 8 b))
      else if i = 0x0b then Some (HSkeEks (slice 28 16 b) (slice 44 8 b))
      else if i = 0x0f then Some (HSendAck (slice 28 16 b))
      else if i = 0x10 \<and> slice 32 4 b = [2, 0, 0, 0] then
        (if slice 36 8 b = [4, 0, 0, 0, 0, 0, 0, 5] then Some (HStreamManage False)
         else if slice 36 8 b = zeros 8 then Some (HStreamManage True) else None)
      else None)"

definition read_host :: "bytes \<Rightarrow> (u32 \<times> u32 \<times> host_message) option" where
  "read_host w = (case frame_decode w of None \<Rightarrow> None | Some f \<Rightarrow>
     (let b = fr_body f in
      if fr_msg_type f = 4 \<and> fr_sub_id f = 4 \<and> rd16 b 2 = 0x10 \<and> rd32 b 22 = 0x30
         \<and> unat (rd16 b 0) + unat (fr_sub_len_dw f) + 2 = length b
      then map_option (\<lambda>m. (rd32 b 4, fr_seq f, m)) (read_payload (b ! 27) b)
      else None))"

definition ake_head :: "u16 \<Rightarrow> u32 \<Rightarrow> u8 \<Rightarrow> bytes" where
  "ake_head ss hs mid = le16 ss @ le16 0x10 @ le32 hs @ zeros 14 @ le32 0x30 @ [0, mid]"

lemma length_ake_head [simp]: "length (ake_head ss hs mid) = 28"
  by (simp add: ake_head_def)

lemma put_prefix:
  "length h \<le> i \<Longrightarrow> i + length us \<le> length h + length xs
    \<Longrightarrow> put i us (h @ xs) = h @ put (i - length h) us xs"
  by (simp add: put_def Suc_diff_le)

lemma bytes_ex: "\<exists>a b. le16 w = [a, b]" "\<exists>a b c d. le32 v = [a, b, c, d]"
  by (simp_all add: le16_def le32_def)

lemma ake_body_head:
  assumes "28 \<le> n"
  shows "ake_body n ss hs mid = ake_head ss hs mid @ zeros (n - 28)"
proof -
  have z: "zeros n = zeros 28 @ zeros (n - 28)"
    using assms by (simp add: zeros_def flip: replicate_add)
  obtain a0 a1 b0 b1 c0 c1 c2 c3 d0 d1 d2 d3 where
    "le16 ss = [a0, a1]" "le16 0x10 = [b0, b1]" "le32 hs = [c0, c1, c2, c3]" "le32 0x30 = [d0, d1, d2, d3]"
    using bytes_ex by meson
  then show ?thesis
    unfolding ake_body_def Let_def z
    by (simp add: put_def zeros_def eval_nat_numeral ake_head_def)
qed

lemma rd_at:
  "length xs = n \<Longrightarrow> rd16 (xs @ le16 w @ ys) n = w"
  "length xs = n \<Longrightarrow> rd32 (xs @ le32 v @ ys) n = v"
  by (auto simp: rd16_append_right rd32_append_right)

lemma head_reads:
  "rd16 (ake_head ss hs mid @ xs) 0 = ss" "rd16 (ake_head ss hs mid @ xs) 2 = 0x10"
  "rd32 (ake_head ss hs mid @ xs) 4 = hs" "rd32 (ake_head ss hs mid @ xs) 22 = 0x30"
  "(ake_head ss hs mid @ xs) ! 27 = mid"
  using rd_at(1) [of "le16 ss" 2 "0x10"] rd_at(2) [of "le16 ss @ le16 0x10" 4 hs]
    rd_at(2) [of "le16 ss @ le16 0x10 @ le32 hs @ zeros 14" 22 "0x30"]
  by (simp_all add: ake_head_def nth_append)

text \<open>Each kernel message as its head, its payload and its padding.\<close>

lemma kernel_bodies:
  "length rtx = 8 \<Longrightarrow> length caps = 3 \<Longrightarrow> ake_init hs sq rtx caps
     = frame_encode (data_frame 12 sq (ake_head 0x22 hs 0x02 @ rtx @ caps @ zeros 9))"
  "ake_transmitter_info hs sq
     = frame_encode (data_frame 15 sq (ake_head 0x1f hs 0x13 @ [0, 6, 2, 0, 2] @ zeros 15))"
  "length e = 128 \<Longrightarrow> ake_no_stored_km hs sq e
     = frame_encode (data_frame 4 sq (ake_head 0x9a hs 0x04 @ e @ zeros 4))"
  "length rn = 8 \<Longrightarrow> lc_init hs sq rn
     = frame_encode (data_frame 12 sq (ake_head 0x22 hs 0x09 @ rn @ zeros 12))"
  "length ek = 16 \<Longrightarrow> length riv = 8 \<Longrightarrow> ske_send_eks hs sq ek riv
     = frame_encode (data_frame 12 sq (ake_head 0x32 hs 0x0b @ ek @ riv @ zeros 12))"
  "length v = 16 \<Longrightarrow> repeater_auth_send_ack hs sq v
     = frame_encode (data_frame 4 sq (ake_head 0x2a hs 0x0f @ v @ zeros 4))"
  "repeater_auth_stream_manage hs sq t
     = frame_encode (data_frame 1 sq (ake_head 0x2d hs 0x10 @ [0, 0, 0, 0, 2, 0, 0, 0]
         @ (if t then zeros 8 else [4, 0, 0, 0, 0, 0, 0, 5]) @ zeros 4))"
  unfolding ake_init_def ake_transmitter_info_def ake_no_stored_km_def lc_init_def ske_send_eks_def
    repeater_auth_send_ack_def repeater_auth_stream_manage_def Let_def wrap_encode ake_ids
  subgoal by (simp add: ake_body_head put_prefix) (simp add: put_def zeros_def)
  subgoal by (simp add: ake_body_head put_prefix) (simp add: put_def zeros_def eval_nat_numeral)
  subgoal by (simp add: ake_body_head put_prefix) (simp add: put_def zeros_def)
  subgoal by (simp add: ake_body_head put_prefix) (simp add: put_def zeros_def)
  subgoal by (simp add: ake_body_head put_prefix) (simp add: put_def zeros_def)
  subgoal by (simp add: ake_body_head put_prefix) (simp add: put_def zeros_def)
  subgoal by (simp add: ake_body_head put_prefix) (simp add: put_def zeros_def eval_nat_numeral list_update_append)
  done

lemma read_host_data:
  assumes "length p \<le> 60000"
  shows "read_host (frame_encode (data_frame dw sq (ake_head ss hs mid @ p)) @ rest) =
    (if unat ss + unat dw = 26 + length p
     then map_option (\<lambda>m. (hs, sq, m)) (read_payload mid (ake_head ss hs mid @ p)) else None)"
  using assms
  by (auto simp: read_host_def frame_decode_encode data_frame_def MSG_DATA_def DATA_HDCP_def head_reads Let_def)

lemma slice_head [simp]:
  "28 \<le> i \<Longrightarrow> slice i n (ake_head ss hs mid @ p) = slice (i - 28) n p"
  by (simp add: slice_def)

lemma slice_exact:
  "length vs = n \<Longrightarrow> slice 0 n (vs @ ys) = vs"
  "length us = i \<Longrightarrow> length vs = n \<Longrightarrow> slice i n (us @ vs @ ys) = vs"
  by (auto simp: slice_def)

lemma zeros_8: "zeros 8 = [0, 0, 0, 0, 0, 0, 0, 0]"
  by (simp add: zeros_def eval_nat_numeral)

lemma kernel_reads: "sized m \<Longrightarrow> read_host (kernel_bytes m hs sq @ rest) = Some (hs, sq, m)"
  by (cases m)
    (simp_all add: kernel_bodies read_host_data read_payload_def slice_exact,
     simp_all add: slice_def zeros_8)

text \<open>
  C27. What a receiver of the format reads off the kernel driver's bytes, for every transaction
  counter, sequence number and argument of the right size and whatever follows on the wire, is
  those two numbers and the message itself: no two messages are confused and no argument byte is
  lost. The userspace oracle's frames are those bytes, for every message but
  \<open>RepeaterAuth_Stream_Manage\<close> with the Type 0 content stream, which the oracle does not have: there
  the bytes differ, and the oracle's are read as the Type 1 message.
\<close>

theorem ake_builders_agree:
  assumes "sized m"
  shows "read_host (kernel_bytes m hs sq @ rest) = Some (hs, sq, m)
    \<and> read_host (frame_encode (oracle_frame m hs sq) @ rest)
        = Some (hs, sq, if m = HStreamManage True then HStreamManage False else m)
    \<and> (kernel_bytes m hs sq = frame_encode (oracle_frame m hs sq) \<longleftrightarrow> m \<noteq> HStreamManage True)"
proof -
  have eq: "frame_encode (oracle_frame m hs sq)
      = kernel_bytes (if m = HStreamManage True then HStreamManage False else m) hs sq"
    using assms ake_init_agree by (cases m) (auto simp: ake_transmitter_info_agree put_agree)
  have "kernel_bytes (HStreamManage True) hs sq \<noteq> kernel_bytes (HStreamManage False) hs sq"
    using kernel_reads [of "HStreamManage True" hs sq "[]"] kernel_reads [of "HStreamManage False" hs sq "[]"]
    by auto
  then show ?thesis using assms kernel_reads [of _ hs sq rest] by (auto simp: eq)
qed

theorem ake_builders_agree_witness:
  "read_host (kernel_bytes (HSkeEks (replicate 16 7) [1, 2, 3, 4, 5, 6, 7, 8]) 6 0)
     = Some (6, 0, HSkeEks (replicate 16 7) [1, 2, 3, 4, 5, 6, 7, 8])
   \<and> kernel_bytes (HStreamManage True) 7 0 \<noteq> frame_encode (oracle_frame (HStreamManage True) 7 0)"
  using ake_builders_agree [of "HSkeEks (replicate 16 7) [1, 2, 3, 4, 5, 6, 7, 8]" 6 0 "[]"]
    ake_builders_agree [of "HStreamManage True" 7 0 "[]"] by simp

section \<open>The typed parser\<close>

lemma id_from_u8_iff: "id_from_u8 v = Some m \<longleftrightarrow> id_u8 m = v"
proof
  show "id_from_u8 v = Some m \<Longrightarrow> id_u8 m = v"
    by (auto simp: id_from_u8_def split: if_splits)
  show "id_u8 m = v \<Longrightarrow> id_from_u8 v = Some m"
    by (cases m) (auto simp: id_from_u8_def)
qed

text \<open>
  The specification: the shortest payload of each id, the shape a parsed message must have, and
  the bytes it stands for.
\<close>

fun min_payload :: "MessageId \<Rightarrow> nat" where
  "min_payload AkeInit = 11"
| "min_payload AkeSendCert = 533"
| "min_payload AkeSendHPrime = 32"
| "min_payload AkeSendPairingInfo = 16"
| "min_payload _ = 0"

fun msg_typed :: "HdcpMessage \<Rightarrow> bool" where
  "msg_typed (MAkeInit rtx caps) \<longleftrightarrow> length rtx = 8 \<and> length caps = 3"
| "msg_typed (MAkeSendCert c rrx caps) \<longleftrightarrow> length c = 522 \<and> length rrx = 8 \<and> length caps = 3"
| "msg_typed (MAkeNoStoredKm _) \<longleftrightarrow> True"
| "msg_typed (MAkeSendHPrime h) \<longleftrightarrow> length h = 32"
| "msg_typed (MAkeSendPairingInfo e) \<longleftrightarrow> length e = 16"
| "msg_typed (MUnknown i _) \<longleftrightarrow> i \<in> id_u8 ` {AkeStoredKm, AkeSendRrx, LcInit, LcSendLPrime,
     SkeSendEks, RepeaterAuthSendReceiverIdList, RepeaterAuthSendAck, RepeaterAuthStreamManage,
     RepeaterAuthStreamReady, ReceiverAuthStatus, AkeTransmitterInfo, AkeReceiverInfo}"

fun msg_bytes :: "HdcpMessage \<Rightarrow> bytes" where
  "msg_bytes (MAkeInit rtx caps) = 2 # rtx @ caps"
| "msg_bytes (MAkeSendCert c rrx caps) = 3 # c @ rrx @ caps"
| "msg_bytes (MAkeNoStoredKm e) = 4 # e"
| "msg_bytes (MAkeSendHPrime h) = 7 # h"
| "msg_bytes (MAkeSendPairingInfo e) = 8 # e"
| "msg_bytes (MUnknown i b) = i # b"

lemma slice_join: "a + n \<le> length xs \<Longrightarrow> slice a n xs @ slice (a + n) k xs = slice a (n + k) xs"
  by (simp add: slice_def take_add add.commute [of n a])

text \<open>
  The part of a payload a message takes: all of it for the ids of variable length, the leading
  \<open>min_payload\<close> bytes for the four ids with a fixed layout.
\<close>

definition payload_taken :: "MessageId \<Rightarrow> bytes \<Rightarrow> bytes" where
  "payload_taken k p = (if min_payload k = 0 then p else take (min_payload k) p)"

lemma msg_from_bytes_short:
  assumes "\<nexists>k p. buf = id_u8 k # p \<and> min_payload k \<le> length p"
  shows "msg_from_bytes buf = None"
proof (cases buf)
  case (Cons i p)
  show ?thesis
  proof (cases "id_from_u8 i")
    case (Some k)
    with assms Cons have "i = id_u8 k" "length p < min_payload k"
      by (auto simp: id_from_u8_iff not_le [symmetric])
    with Some Cons show ?thesis by (cases k) (simp_all add: msg_from_bytes_def)
  qed (simp add: msg_from_bytes_def Cons)
qed (simp add: msg_from_bytes_def)

lemma msg_from_bytes_bytes:
  assumes "min_payload k \<le> length p"
  shows "msg_from_bytes (id_u8 k # p) = Some m \<longleftrightarrow> msg_typed m \<and> msg_bytes m = id_u8 k # payload_taken k p"
proof -
  have t11: "take 11 p = slice 0 8 p @ slice 8 3 p"
    using slice_join [of 0 8 p 3] by (cases "8 \<le> length p") (simp_all add: slice_def)
  have t533: "take 533 p = slice 0 522 p @ slice 522 8 p @ slice 530 3 p" if "533 \<le> length p"
    using slice_join [of 0 522 p 8, symmetric] slice_join [of 0 530 p 3, symmetric] that
    by (simp add: slice_def)
  have t: "slice 0 n p = take n p" for n by (simp add: slice_def)
  show ?thesis
  proof (cases k)
    case AkeInit
    with assms show ?thesis
      by (cases m) (auto simp: msg_from_bytes_def id_from_u8_def payload_taken_def t11)
  next
    case AkeSendCert
    with assms show ?thesis
      by (cases m) (auto simp: msg_from_bytes_def id_from_u8_def payload_taken_def t533)
  qed (use assms in \<open>cases m; auto simp: msg_from_bytes_def id_from_u8_def payload_taken_def t\<close>)+
qed

text \<open>
  C28. The typed HDCP parser is exact: it returns a message precisely when the first byte is one
  of the seventeen message ids and the payload is long enough for that id, and then the one
  message that has the field lengths of its constructor and whose id and fields, in order, are
  those bytes: all of the payload for the ids of variable length, its fixed leading part for the
  others.
\<close>

theorem msg_from_bytes_typed:
  "msg_from_bytes buf = Some m \<longleftrightarrow> msg_typed m
     \<and> (\<exists>k p. buf = id_u8 k # p \<and> min_payload k \<le> length p \<and> msg_bytes m = id_u8 k # payload_taken k p)"
proof (cases "\<exists>k p. buf = id_u8 k # p \<and> min_payload k \<le> length p")
  case True
  then obtain k p where kp: "buf = id_u8 k # p" "min_payload k \<le> length p" by blast
  then have "j = k" if "id_u8 j = id_u8 k" for j
    using that id_from_u8_iff [of "id_u8 k" j] id_from_u8_iff [of "id_u8 k" k] by simp
  then show ?thesis using kp msg_from_bytes_bytes [of k p m] by auto
next
  case False
  then show ?thesis using msg_from_bytes_short [OF False] by auto
qed

section \<open>The receiver certificate\<close>

definition cert_bytes :: "receiver_cert \<Rightarrow> bytes" where
  "cert_bytes c = rc_receiver_id c @ rc_modulus c @ rc_exponent c @ rc_reserved c @ rc_signature c"

text \<open>A parsed certificate splits its 522 bytes without loss or overlap.\<close>

lemma cert_from_bytes_exact:
  "case cert_from_bytes b of
     Inr c \<Rightarrow> cert_bytes c = take 522 b \<and> rc_reserved c = [0, 0]
       \<and> map length [rc_receiver_id c, rc_modulus c, rc_exponent c, rc_signature c] = [5, 128, 3, 384]
   | Inl (Truncated n) \<Rightarrow> n = length b \<and> n < 522
   | Inl (BadReserved r) \<Rightarrow> r = slice 136 2 b \<and> r \<noteq> [0, 0]"
  using slice_join [of 0 5 b 128, symmetric] slice_join [of 0 133 b 3, symmetric]
    slice_join [of 0 136 b 2, symmetric] slice_join [of 0 138 b 384, symmetric]
  by (auto simp: cert_from_bytes_def cert_bytes_def Let_def slice_def [of 0])

end
