(* ===== verification/CpMsg.thy ===== *)
theory CpMsg
  imports Proto
begin

text \<open>
  The inner plaintext messages of the encrypted control plane (\<open>chimera/vino/cp.rs\<close>): header
  and padding, the heartbeat / query / EDID requests, set-mode and the in-place timing patch,
  DDC/CI forwarding, the cursor messages and the per-head set-up tables. A builder that draws
  host-random bytes takes them as its last argument (\<open>rng::fill\<close> of a fixed-size buffer).
\<close>

section \<open>Header and padding\<close>

definition cp_header :: "bytes \<Rightarrow> u16 \<Rightarrow> u16 \<Rightarrow> u16 \<Rightarrow> bytes" where
  "cp_header out i sub counter = out @ le16 i @ le16 sub @ le16 counter @ [0, 0]"

text \<open>\<open>pad_to\<close> is the prelude's: push zeroes while the vector is shorter than \<open>len\<close>.\<close>

section \<open>Queries\<close>

definition heartbeat :: "u16 \<Rightarrow> bytes" where
  "heartbeat counter =
     (let b = cp_header [] 0x16 0x75 counter;
          b = pad_to 22 b;
          b = b @ [0x10, 0x27]
      in pad_to 32 b)"

definition stream_commit :: "u16 \<Rightarrow> u8 \<Rightarrow> bytes \<Rightarrow> bytes" where
  "stream_commit counter head token =
     (let b = cp_header [] 0x16 0x4c counter;
          b = pad_to 22 b;
          b = b @ [if head = 0 then 0 else 1];
          b = b @ [0]
      in b @ token)"

definition random_tail_msg :: "u16 \<Rightarrow> u16 \<Rightarrow> u16 \<Rightarrow> bytes \<Rightarrow> bytes" where
  "random_tail_msg i sub counter tail =
     (let b = cp_header [] i sub counter;
          b = pad_to 22 b
      in b @ tail)"

definition device_query_req :: "u16 \<Rightarrow> u16 \<Rightarrow> bytes \<Rightarrow> bytes" where
  "device_query_req counter sub tail = random_tail_msg 0x14 sub counter tail"

definition edid_engage_req :: "u16 \<Rightarrow> bytes \<Rightarrow> bytes" where
  "edid_engage_req counter tail = random_tail_msg 0x16 0x0023 counter tail"

definition edid_readiness_kick :: "u16 \<Rightarrow> bytes" where
  "edid_readiness_kick counter =
     (let b = cp_header [] 0x16 0x4b counter;
          b = pad_to 22 b;
          b = b @ [0x10, 0x27]
      in pad_to 32 b)"

definition get_edid_req_sub :: "u16 \<Rightarrow> u16 \<Rightarrow> bytes \<Rightarrow> bytes" where
  "get_edid_req_sub counter sub tail =
     (let b = cp_header [] 0x15 sub counter;
          b = pad_to 22 b
      in b @ tail)"

definition get_edid_req :: "u16 \<Rightarrow> bytes \<Rightarrow> bytes" where
  "get_edid_req counter tail = get_edid_req_sub counter 0x21 tail"

section \<open>Timings and set-mode\<close>

record timing =
  tm_hactive :: u16
  tm_hblank :: u16
  tm_hsync_front :: u16
  tm_hsync_width :: u16
  tm_vactive :: u16
  tm_vblank :: u16
  tm_vsync_front :: u16
  tm_vsync_width :: u16
  tm_refresh_hz :: u16
  tm_pixel_clock_10khz :: u16
  tm_field42 :: u16

definition UHD_60 :: timing where
  "UHD_60 = \<lparr>tm_hactive = 3840, tm_hblank = 160, tm_hsync_front = 48, tm_hsync_width = 32,
     tm_vactive = 2160, tm_vblank = 62, tm_vsync_front = 3, tm_vsync_width = 5,
     tm_refresh_hz = 60, tm_pixel_clock_10khz = 0xd040, tm_field42 = 0x0604\<rparr>"

definition set_mode :: "u16 \<Rightarrow> timing \<Rightarrow> bytes" where
  "set_mode counter t =
     (let b = cp_header [] 0x48 0x22 counter;
          b = pad_to 20 b;
          b = b @ be32 2;
          b = pad_to 26 b;
          b = foldl (\<lambda>b v. b @ le16 v) b
            [tm_hactive t, tm_hblank t, tm_hsync_front t, tm_hsync_width t,
             tm_vactive t, tm_vblank t, tm_vsync_front t, tm_vsync_width t,
             tm_field42 t, tm_refresh_hz t, 0x4000, 0x6000];
          b = pad_to 58 b;
          b = b @ le16 0x0080;
          b = b @ le16 0x00ff;
          b = pad_to 66 b;
          b = b @ le16 0x0800;
          b = pad_to 70 b;
          b = b @ le16 (tm_pixel_clock_10khz t)
      in pad_to 96 b)"

text \<open>The closure \<open>put\<close> of \<open>apply_edid_timing\<close>: two byte stores.\<close>

definition put16 :: "nat \<Rightarrow> u16 \<Rightarrow> bytes \<Rightarrow> bytes" where
  "put16 off v b = b[off := ucast v, off + 1 := ucast (drop_bit 8 v)]"

definition apply_edid_timing :: "bytes \<Rightarrow> timing \<Rightarrow> bytes" where
  "apply_edid_timing plain t =
     (if length plain < 72 then plain
      else let p = put16 26 (tm_hactive t) plain;
               p = put16 28 (tm_hblank t) p;
               p = put16 30 (tm_hsync_front t) p;
               p = put16 32 (tm_hsync_width t) p;
               p = put16 34 (tm_vactive t) p;
               p = put16 36 (tm_vblank t) p;
               p = put16 38 (tm_vsync_front t) p;
               p = put16 40 (tm_vsync_width t) p;
               p = put16 44 (tm_refresh_hz t) p
           in put16 70 (tm_pixel_clock_10khz t) p)"

text \<open>
  \<open>DisplayMode\<close> is the kernel's; the model holds the fields its accessors return, \<open>clock\<close> and
  \<open>vrefresh\<close> as \<open>i32\<close>.
\<close>

record drm_mode =
  dm_hdisplay :: u16
  dm_hsync_start :: u16
  dm_hsync_end :: u16
  dm_htotal :: u16
  dm_vdisplay :: u16
  dm_vsync_start :: u16
  dm_vsync_end :: u16
  dm_vtotal :: u16
  dm_clock :: i32
  dm_vrefresh :: i32

definition sat_sub :: "u16 \<Rightarrow> u16 \<Rightarrow> u16" where
  "sat_sub a b = (if b \<le> a then a - b else 0)"

text \<open>\<open>(clock / 10).clamp(0, u16::MAX)\<close>: Rust's division of \<open>i32\<close> truncates toward zero.\<close>

definition clock_10khz :: "i32 \<Rightarrow> u16" where
  "clock_10khz c =
     (let q = sgn (sint c) * (\<bar>sint c\<bar> div 10)
      in of_int (max 0 (min q 65535)))"

definition timing_from_drm_mode :: "drm_mode \<Rightarrow> timing" where
  "timing_from_drm_mode m =
     \<lparr>tm_hactive = dm_hdisplay m,
      tm_hblank = sat_sub (dm_htotal m) (dm_hdisplay m),
      tm_hsync_front = sat_sub (dm_hsync_start m) (dm_hdisplay m),
      tm_hsync_width = sat_sub (dm_hsync_end m) (dm_hsync_start m),
      tm_vactive = dm_vdisplay m,
      tm_vblank = sat_sub (dm_vtotal m) (dm_vdisplay m),
      tm_vsync_front = sat_sub (dm_vsync_start m) (dm_vdisplay m),
      tm_vsync_width = sat_sub (dm_vsync_end m) (dm_vsync_start m),
      tm_refresh_hz = ucast (dm_vrefresh m),
      tm_pixel_clock_10khz = clock_10khz (dm_clock m),
      tm_field42 = 0x0600\<rparr>"

section \<open>DDC/CI\<close>

definition VCP_BRIGHTNESS :: u8 where "VCP_BRIGHTNESS = 0x10"
definition VCP_CONTRAST :: u8 where "VCP_CONTRAST = 0x12"
definition VCP_POWER_MODE :: u8 where "VCP_POWER_MODE = 0xd6"
definition POWER_ON :: u16 where "POWER_ON = 0x01"
definition POWER_OFF :: u16 where "POWER_OFF = 0x04"
definition CP_DDCCI_I2C_ADDR :: u8 where "CP_DDCCI_I2C_ADDR = 0x37"

definition ddc_ci_set_vcp :: "u8 \<Rightarrow> u16 \<Rightarrow> bytes" where
  "ddc_ci_set_vcp vcp value =
     (let bdy = [0x51, 0x84, 0x03, vcp, ucast (drop_bit 8 value), ucast value];
          chk = foldl (XOR) 0x6e bdy
      in bdy @ [chk])"

definition ddc_forward :: "u16 \<Rightarrow> u8 \<Rightarrow> bytes \<Rightarrow> bytes" where
  "ddc_forward counter addr payload =
     (let b = cp_header [] 0x15 0x22 counter;
          b = pad_to 20 b;
          b = b @ [addr, of_nat (length payload)];
          b = b @ payload
      in pad_to 32 b)"

definition ddc_set_vcp :: "u16 \<Rightarrow> u8 \<Rightarrow> u16 \<Rightarrow> bytes" where
  "ddc_set_vcp counter vcp value = ddc_forward counter CP_DDCCI_I2C_ADDR (ddc_ci_set_vcp vcp value)"

section \<open>The cursor\<close>

definition cursor_header :: "u16 \<Rightarrow> u16 \<Rightarrow> u16 \<Rightarrow> u8 \<Rightarrow> bytes" where
  "cursor_header i sub counter head =
     (let b = cp_header [] i sub counter;
          b = pad_to 22 b;
          b = b @ [0x02]
      in b @ [head])"

definition cursor_create :: "u16 \<Rightarrow> u8 \<Rightarrow> u16 \<Rightarrow> u16 \<Rightarrow> bytes" where
  "cursor_create counter head w h =
     (let b = cursor_header 0x1b 0x42 counter head;
          b = b @ le16 w;
          b = b @ le16 h
      in pad_to 32 b)"

definition cursor_move :: "u16 \<Rightarrow> u8 \<Rightarrow> u16 \<Rightarrow> u16 \<Rightarrow> bytes" where
  "cursor_move counter head x y =
     (let b = cursor_header 0x1a 0x43 counter head;
          b = b @ le16 x;
          b = b @ le16 y
      in pad_to 32 b)"

text \<open>
  \<open>usize\<close> has \<open>usize_bits\<close> bits (32 or 64 on the targets); a product that does not fit is
  \<open>None\<close>, as \<open>checked_mul\<close> returns.
\<close>

definition checked_mul :: "nat \<Rightarrow> nat \<Rightarrow> nat \<Rightarrow> nat option" where
  "checked_mul usize_bits a b = (if a * b < 2 ^ usize_bits then Some (a * b) else None)"

definition cursor_image :: "nat \<Rightarrow> u16 \<Rightarrow> u8 \<Rightarrow> u16 \<Rightarrow> u16 \<Rightarrow> bytes \<Rightarrow> bytes res" where
  "cursor_image usize_bits counter head w h bgra =
     (let expected = Option.bind (checked_mul usize_bits (unat w) (unat h))
            (\<lambda>n. checked_mul usize_bits n 4)
      in if expected \<noteq> Some (length bgra) then Inl EINVAL
         else let b = cursor_header 0x401c 0x41 counter head;
                  b = pad_to 32 b
              in Inr (b @ bgra))"

section \<open>Wire header fields and set-up tables\<close>

definition aux_for_id :: "u16 \<Rightarrow> nat \<Rightarrow> u16" where
  "aux_for_id i body_len =
     (if i = 0x14 then 0x0a
      else if i = 0x15 then 0x09
      else if i = 0x16 then 0x08
      else if i = 0x19 then 0x05
      else if i = 0x1a then 0x04
      else if i = 0x1b then 0x03
      else if i = 0x1c then 0x02
      else if i = 0x1f then 0x0f
      else if i = 0x22 then 0x0c
      else if i = 0x26 then 0x08
      else if i = 0x2a then 0x04
      else if i = 0x32 then 0x0c
      else if i = 0x48 then 0x06
      else if i = 0x9a then 0x04
      else of_nat (body_len div 4))"

definition CP_SETUP_PER_HEAD :: "(u16 \<times> u16 \<times> nat) list" where
  "CP_SETUP_PER_HEAD =
    [(0x0022, 0x0010, 48), (0x001f, 0x0010, 48), (0x009a, 0x0010, 160), (0x0022, 0x0010, 48),
     (0x0032, 0x0010, 64), (0x002a, 0x0010, 48), (0x0026, 0x0010, 48), (0x0014, 0x0030, 32),
     (0x0019, 0x0031, 32)]"

text \<open>\<open>head + 1\<close> on a \<open>u8\<close> panics at 255 in a checked build; the model returns \<open>Panic\<close>.\<close>

definition stream_manage_restatement :: "u16 \<Rightarrow> u8 \<Rightarrow> bytes \<Rightarrow> bytes res" where
  "stream_manage_restatement counter head tail =
     (if head = 255 then Inl Panic
      else let b = zeros 48;
               b = put 0 (le16 0x0026) b;
               b = put 2 (le16 0x0010) b;
               b = put 4 (le16 counter) b;
               b = b[23 := head + 1];
               b = b[27 := 0x10];
               b = put 32 (le32 1) b;
               b = put 36 (le32 (ucast head + 8)) b
           in Inr (put 40 tail b))"

definition CP_SETUP_FINALIZE :: "(u16 \<times> u16 \<times> u8) list" where
  "CP_SETUP_FINALIZE =
    [(0x0016, 0x004c, 0), (0x0015, 0x004a, 0), (0x0016, 0x004c, 0), (0x0016, 0x004c, 1),
     (0x0015, 0x004a, 1)]"

definition VIDEO_ARM_BURST :: "(u32 \<times> u16 \<times> u16 \<times> nat) list" where
  "VIDEO_ARM_BURST =
    [(2, 0x0008, 0x0000, 16), (2, 0x0018, 0x0000, 16), (4, 0x0008, 0x000a, 16),
     (4, 0x0018, 0x000a, 16), (2, 0x0000, 0x0000, 16), (2, 0x0010, 0x0000, 16),
     (4, 0x0000, 0x0004, 16), (4, 0x0010, 0x0004, 16), (4, 0x0008, 0x000e, 1104),
     (4, 0x0018, 0x000e, 1104)]"

definition video_arm_plaintext_body :: "nat \<Rightarrow> u16 \<Rightarrow> bytes" where
  "video_arm_plaintext_body i h =
     (let b = zeros 16
      in if i = 0 then put 2 (le16 0x0006) (put 0 (le16 (0x0008 + h)) b)
         else if i = 1 then put 2 (le16 0x0016) (put 0 (le16 (0x0008 + h)) b)
         else if i = 4 then put 0 (le16 h) b
         else if i = 5 then put 2 (le16 0x0010) (put 0 (le16 h) b)
         else b)"

definition video_arm_plain_frame :: "u16 \<Rightarrow> bytes \<Rightarrow> bytes" where
  "video_arm_plain_frame sub bdy =
     (let f = zeros 32;
          f = put 2 (le16 0x001c) f;
          f = put 4 (le32 2) f;
          f = put 8 (le16 sub) f
      in put 16 bdy f)"

end
