(* ===== verification/Edid.thy ===== *)
theory Edid
  imports CpMsg
begin

text \<open>
  EDID parsing in \<open>chimera/vino/cp.rs\<close>: the base-block check, the 18-byte detailed timing
  descriptor, and the search for the preferred timing.
\<close>

definition EDID_MAGIC :: bytes where
  "EDID_MAGIC = [0x00, 0xff, 0xff, 0xff, 0xff, 0xff, 0xff, 0x00]"

definition edid_valid :: "bytes \<Rightarrow> bool" where
  "edid_valid edid \<longleftrightarrow>
     128 \<le> length edid \<and> take 8 edid = EDID_MAGIC \<and> foldl (+) 0 (take 128 edid) = 0"

text \<open>\<open>hi(v, lo)\<close> and the refresh rate, on \<open>u32\<close>.\<close>

definition hi_lo :: "u8 \<Rightarrow> u8 \<Rightarrow> u16" where
  "hi_lo v lo = push_bit 8 (ucast v) OR ucast lo"

definition dtd_refresh :: "u16 \<Rightarrow> u16 \<Rightarrow> u16 \<Rightarrow> u16" where
  "dtd_refresh pclk ht vt =
     (let htotal = ucast ht :: u32; vtotal = ucast vt :: u32
      in if htotal \<noteq> 0 \<and> vtotal \<noteq> 0
         then ucast ((ucast pclk * 10000 + (htotal * vtotal) div 2) div (htotal * vtotal))
         else 0)"

definition parse_dtd :: "bytes \<Rightarrow> timing option" where
  "parse_dtd d =
     (if length d < 18 then None
      else let pclk = rd16 d 0
        in if pclk = 0 then None
           else let hactive = hi_lo (drop_bit 4 (d ! 4) AND 0xf) (d ! 2);
                    hblank = hi_lo (d ! 4 AND 0xf) (d ! 3);
                    vactive = hi_lo (drop_bit 4 (d ! 7) AND 0xf) (d ! 5);
                    vblank = hi_lo (d ! 7 AND 0xf) (d ! 6);
                    hsync_front = push_bit 8 (ucast (drop_bit 6 (d ! 11) AND 3)) OR ucast (d ! 8);
                    hsync_width = push_bit 8 (ucast (drop_bit 4 (d ! 11) AND 3)) OR ucast (d ! 9);
                    vsync_front = push_bit 4 (ucast (drop_bit 2 (d ! 11) AND 3))
                      OR ucast (drop_bit 4 (d ! 10) AND 0xf);
                    vsync_width = push_bit 4 (ucast (d ! 11 AND 3)) OR ucast (d ! 10 AND 0xf)
                in Some \<lparr>tm_hactive = hactive, tm_hblank = hblank, tm_hsync_front = hsync_front,
                     tm_hsync_width = hsync_width, tm_vactive = vactive, tm_vblank = vblank,
                     tm_vsync_front = vsync_front, tm_vsync_width = vsync_width,
                     tm_refresh_hz = dtd_refresh pclk (hactive + hblank) (vactive + vblank),
                     tm_pixel_clock_10khz = pclk, tm_field42 = 0x0600\<rparr>)"

text \<open>The two searches of \<open>timing_from_edid\<close>: base-block slots, then the CTA-861 extension.\<close>

fun first_dtd :: "bytes \<Rightarrow> nat list \<Rightarrow> timing option" where
  "first_dtd edid [] = None"
| "first_dtd edid (off # offs) =
     (if off + 18 \<le> length edid
      then case parse_dtd (slice off 18 edid) of
             Some t \<Rightarrow> Some t
           | None \<Rightarrow> first_dtd edid offs
      else first_dtd edid offs)"

function cta_dtd :: "bytes \<Rightarrow> nat \<Rightarrow> timing option" where
  "cta_dtd ext off =
     (if off + 18 \<le> 127
      then case parse_dtd (slice off 18 ext) of
             Some t \<Rightarrow> Some t
           | None \<Rightarrow> cta_dtd ext (off + 18)
      else None)"
  by pat_completeness auto
termination by (relation "measure (\<lambda>(ext, off). 127 - off)") auto

declare cta_dtd.simps [simp del]

definition timing_from_edid :: "bytes \<Rightarrow> timing option" where
  "timing_from_edid edid =
     (if \<not> edid_valid edid then None
      else case first_dtd edid [54, 72, 90, 108] of
             Some t \<Rightarrow> Some t
           | None \<Rightarrow>
               (if 1 \<le> unat (edid ! 126) \<and> 256 \<le> length edid
                then let ext = slice 128 128 edid
                     in if ext ! 0 = 0x02
                        then let start = unat (ext ! 2)
                             in if 4 \<le> start then cta_dtd ext start else None
                        else None
                else None))"

end
