(* ===== verification/Crypto.thy ===== *)
theory Crypto
  imports Prelude
begin

text \<open>
  The crypto shim of the rig (\<open>chimera/src/kshim.rs\<close>): the AES-CMAC it writes out over the
  single-block cipher, and the raw RSA operation. The block cipher, SHA-256, HMAC and the
  modular power come from third-party crates; they are the fields of \<open>prims\<close>, a parameter of
  every definition that uses them. The laws are the equality of the index-driven \<open>aes_cmac\<close>
  with the recursive definition of RFC 4493, and what \<open>dbl\<close> computes on 128-bit words.
\<close>

record prims =
  pr_aes :: "bytes \<Rightarrow> bytes \<Rightarrow> bytes"
  pr_sha256 :: "bytes \<Rightarrow> bytes"
  pr_hmac :: "bytes \<Rightarrow> bytes \<Rightarrow> bytes"
  pr_modpow :: "nat \<Rightarrow> nat \<Rightarrow> nat \<Rightarrow> nat"

text \<open>The sizes the crates' types give: a 16-byte block, 32-byte digests.\<close>

definition prims_sized :: "prims \<Rightarrow> bool" where
  "prims_sized P \<longleftrightarrow> (\<forall>k b. length (pr_aes P k b) = 16) \<and> (\<forall>m. length (pr_sha256 P m) = 32)
     \<and> (\<forall>k m. length (pr_hmac P k m) = 32)"

lemma prims_sizedD [simp]:
  assumes "prims_sized P"
  shows "length (pr_aes P k b) = 16" "length (pr_sha256 P m) = 32" "length (pr_hmac P k m) = 32"
  using assms by (simp_all add: prims_sized_def)

section \<open>Chunks\<close>

text \<open>\<open>xs.chunks(n)\<close>: consecutive pieces of \<open>n\<close>, the last possibly shorter.\<close>

function chunks_of :: "nat \<Rightarrow> 'a list \<Rightarrow> 'a list list" where
  "chunks_of n xs = (if n = 0 \<or> xs = [] then [] else take n xs # chunks_of n (drop n xs))"
  by pat_completeness auto
termination by (relation "measure (\<lambda>(n, xs). length xs)") auto

declare chunks_of.simps [simp del]

lemma chunks_Nil [simp]: "chunks_of n [] = []"
  by (simp add: chunks_of.simps)

lemma chunks_step: "0 < n \<Longrightarrow> xs \<noteq> [] \<Longrightarrow> chunks_of n xs = take n xs # chunks_of n (drop n xs)"
  by (subst chunks_of.simps) simp

lemma concat_chunks: "0 < n \<Longrightarrow> concat (chunks_of n xs) = xs"
  by (induction n xs rule: chunks_of.induct) (subst chunks_of.simps, auto)

section \<open>AES-CMAC (kshim crypto)\<close>

definition dbl :: "bytes \<Rightarrow> bytes" where
  "dbl b =
     (let msb = drop_bit 7 (b ! 0);
          o1 = map (\<lambda>i. if i + 1 < 16 then push_bit 1 (b ! i) OR drop_bit 7 (b ! (i + 1))
                       else push_bit 1 (b ! i)) [0..<16]
      in if msb = 1 then xor_at 15 0x87 o1 else o1)"

definition aes_cmac :: "prims \<Rightarrow> bytes \<Rightarrow> bytes \<Rightarrow> bytes" where
  "aes_cmac P key data =
     (let l = pr_aes P key (zeros 16);
          k1 = dbl l;
          k2 = dbl k1;
          complete = data \<noteq> [] \<and> length data mod 16 = 0;
          nblocks = (if data = [] then 1 else (length data + 15) div 16);
          last_off = (nblocks - 1) * 16;
          mlast = (if complete
            then map (\<lambda>i. data ! (last_off + i) XOR k1 ! i) [0..<16]
            else let rem = (if data = [] then [] else drop last_off data);
                     padded = put 0 rem (zeros 16);
                     padded = padded[length rem := 0x80]
                 in map (\<lambda>i. padded ! i XOR k2 ! i) [0..<16]);
          x = foldl (\<lambda>x j. pr_aes P key (map (\<lambda>i. x ! i XOR data ! (j * 16 + i)) [0..<16]))
                (zeros 16) [0..<nblocks - 1];
          x = map (\<lambda>i. x ! i XOR mlast ! i) [0..<16]
      in pr_aes P key x)"

section \<open>Raw RSA (kshim crypto)\<close>

definition from_bytes_be :: "bytes \<Rightarrow> nat" where
  "from_bytes_be bs = foldl (\<lambda>a b. a * 256 + unat b) 0 bs"

text \<open>\<open>to_bytes_be\<close>: no leading zero byte, and one zero byte for zero.\<close>

fun digits_be :: "nat \<Rightarrow> bytes" where
  "digits_be n = (if n = 0 then [] else digits_be (n div 256) @ [of_nat (n mod 256)])"

declare digits_be.simps [simp del]

definition to_bytes_be :: "nat \<Rightarrow> bytes" where
  "to_bytes_be n = (if n = 0 then [0] else digits_be n)"

text \<open>\<open>out_len\<close> is the length of the caller's output buffer, which is returned filled.\<close>

definition rsa_pubkey_encrypt :: "prims \<Rightarrow> bytes \<Rightarrow> bytes \<Rightarrow> bytes \<Rightarrow> nat \<Rightarrow> bytes res" where
  "rsa_pubkey_encrypt P modulus exponent input out_len =
     (let n = from_bytes_be modulus;
          e = from_bytes_be exponent;
          m = from_bytes_be input;
          c = pr_modpow P m e n;
          bs = to_bytes_be c
      in if length bs > out_len then Inl EINVAL
         else Inr (replicate (out_len - length bs) 0 @ bs))"

section \<open>The definition of RFC 4493\<close>

text \<open>CBC over the blocks, the last one masked with a subkey, padded when it is short.\<close>

fun cmac_blocks :: "prims \<Rightarrow> bytes \<Rightarrow> bytes \<Rightarrow> bytes \<Rightarrow> bytes \<Rightarrow> bytes list \<Rightarrow> bytes" where
  "cmac_blocks P key k1 k2 x (b # b' # bs) =
     cmac_blocks P key k1 k2 (pr_aes P key (xor_bytes x b)) (b' # bs)"
| "cmac_blocks P key k1 k2 x [b] =
     pr_aes P key (xor_bytes x
       (if length b = 16 then xor_bytes b k1 else xor_bytes (pad_to 16 (b @ [0x80])) k2))"
| "cmac_blocks P key k1 k2 x [] = pr_aes P key (xor_bytes x (xor_bytes (pad_to 16 [0x80]) k2))"

definition cmac :: "prims \<Rightarrow> bytes \<Rightarrow> bytes \<Rightarrow> bytes" where
  "cmac P key data =
     (let k1 = dbl (pr_aes P key (zeros 16)) in cmac_blocks P key k1 (dbl k1) (zeros 16) (chunks_of 16 data))"

lemma length_dbl [simp]: "length (dbl b) = 16"
  by (simp add: dbl_def Let_def)

lemma xor_map_nth:
  assumes "length xs = n" "off + n \<le> length ys"
  shows "map (\<lambda>i. xs ! i XOR ys ! (off + i)) [0..<n] = xor_bytes xs (slice off n ys)"
  using assms by (intro nth_equalityI) auto

lemma xor_map_nth0:
  "length xs = n \<Longrightarrow> length ys = n \<Longrightarrow> map (\<lambda>i. xs ! i XOR ys ! i) [0..<n] = xor_bytes xs ys"
  by (intro nth_equalityI) auto

text \<open>The fold over block indices is the walk over the blocks.\<close>

lemma foldl_cbc_chunks:
  assumes "\<forall>k b. length (pr_aes P k b) = 16" "length x = 16" "16 * n \<le> length data"
  shows "foldl (\<lambda>x j. pr_aes P key (map (\<lambda>i. x ! i XOR data ! (j * 16 + i)) [0..<16])) x [0..<n]
    = foldl (\<lambda>x b. pr_aes P key (xor_bytes x b)) x (map (\<lambda>j. slice (j * 16) 16 data) [0..<n])"
  using assms
proof (induction n)
  case (Suc n)
  have len: "length (foldl (\<lambda>x b. pr_aes P key (xor_bytes x b)) x ys) = 16" for ys
    using Suc.prems by (induction ys rule: rev_induct) auto
  from Suc show ?case
    by (simp add: xor_map_nth [OF len] len)
qed simp

lemma cmac_blocks_snoc:
  "cmac_blocks P key k1 k2 x (bs @ [b]) =
     cmac_blocks P key k1 k2 (foldl (\<lambda>x b. pr_aes P key (xor_bytes x b)) x bs) [b]"
proof (induction bs arbitrary: x)
  case (Cons a bs)
  then show ?case by (cases "bs @ [b]") auto
qed simp

lemma chunks_split:
  assumes "0 < m" "m * 16 - 16 < length data" "length data \<le> m * 16"
  shows "chunks_of 16 data = map (\<lambda>j. slice (j * 16) 16 data) [0..<m - 1] @ [drop ((m - 1) * 16) data]"
  using assms
proof (induction m arbitrary: data)
  case (Suc m)
  show ?case
  proof (cases "m = 0")
    case True
    with Suc.prems show ?thesis by (subst chunks_step) auto
  next
    case False
    have "chunks_of 16 data = take 16 data # chunks_of 16 (drop 16 data)"
      using Suc.prems False by (intro chunks_step) auto
    also have "chunks_of 16 (drop 16 data) =
        map (\<lambda>j. slice (j * 16) 16 (drop 16 data)) [0..<m - 1] @ [drop ((m - 1) * 16) (drop 16 data)]"
      using Suc.prems False by (intro Suc.IH) auto
    also have "map (\<lambda>j. slice (j * 16) 16 (drop 16 data)) [0..<m - 1]
        = map (\<lambda>j. slice (j * 16) 16 data) (map Suc [0..<m - 1])"
      by (simp add: slice_def add.commute)
    also have "map Suc [0..<m - 1] = [1..<m]"
      using False by (simp add: map_Suc_upt)
    also have "drop ((m - 1) * 16) (drop 16 data) = drop (m * 16) data"
      using False by (cases m) (simp_all add: add.commute)
    finally show ?thesis
      using False by (simp add: upt_rec [of 0 m] slice_def)
  qed
qed simp

lemma mlast_complete:
  assumes "off + 16 = length data"
  shows "map (\<lambda>i. data ! (off + i) XOR k ! i) [0..<16] = xor_bytes (drop off data) (take 16 k)
    \<or> length k < 16"
  using assms by (auto intro!: nth_equalityI)

lemma mlast_padded:
  assumes "length rem < 16" "length k = 16"
  shows "map (\<lambda>i. (put 0 rem (zeros 16))[length rem := 0x80] ! i XOR k ! i) [0..<16]
    = xor_bytes (pad_to 16 (rem @ [0x80])) k"
proof (rule nth_equalityI)
  fix i assume "i < length (map (\<lambda>i. (put 0 rem (zeros 16))[length rem := 0x80] ! i XOR k ! i) [0..<16])"
  then have i: "i < 16" by simp
  have "(put 0 rem (zeros 16))[length rem := 0x80] ! i = pad_to 16 (rem @ [0x80]) ! i"
    using assms i by (auto simp: nth_list_update nth_put nth_pad_to nth_append)
  with assms i show "map (\<lambda>i. (put 0 rem (zeros 16))[length rem := 0x80] ! i XOR k ! i) [0..<16] ! i
      = xor_bytes (pad_to 16 (rem @ [0x80])) k ! i"
    by simp
qed (use assms in simp)

lemma foldl_length16:
  "\<forall>k b. length (pr_aes P k b) = 16 \<Longrightarrow> length x = 16 \<Longrightarrow>
     length (foldl (\<lambda>x b. pr_aes P key (xor_bytes x b)) x ys) = 16"
  by (induction ys rule: rev_induct) auto

lemma aes_cmac_eq:
  assumes aes: "\<forall>k b. length (pr_aes P k b) = 16"
  shows "aes_cmac P key data = cmac P key data"
proof (cases "data = []")
  case True
  have "xor_bytes (zeros 16) (xor_bytes (pad_to 16 [0x80]) k)
      = map (\<lambda>i. zeros 16 ! i XOR map (\<lambda>i. (put 0 [] (zeros 16))[length ([] :: bytes) := 0x80] ! i XOR k ! i) [0..<16] ! i) [0..<16]"
    if "length k = 16" for k
    using mlast_padded [of "[]" k] that xor_map_nth0 [of "zeros 16" 16 "xor_bytes (pad_to 16 [0x80]) k"]
    by simp
  with True show ?thesis
    by (simp add: aes_cmac_def cmac_def Let_def)
next
  case False
  define m where "m = (length data + 15) div 16"
  define k1 where "k1 = dbl (pr_aes P key (zeros 16))"
  define rest where "rest = drop ((m - 1) * 16) data"
  define X where "X = foldl (\<lambda>x b. pr_aes P key (xor_bytes x b)) (zeros 16)
    (map (\<lambda>j. slice (j * 16) 16 data) [0..<m - 1])"
  have m: "0 < m" "m * 16 - 16 < length data" "length data \<le> m * 16"
    using False by (auto simp: m_def) (cases data; simp; linarith)+
  have X: "length X = 16"
    using aes by (simp add: X_def foldl_length16)
  have rl: "length rest = length data - (m - 1) * 16" "0 < length rest" "length rest \<le> 16"
    using m by (auto simp: rest_def diff_mult_distrib)
  have full: "length data mod 16 = 0 \<longleftrightarrow> length rest = 16"
    using m rl by (auto simp: diff_mult_distrib) presburger+
  have spec: "cmac P key data = cmac_blocks P key k1 (dbl k1) X [rest]"
    using cmac_blocks_snoc chunks_split [OF m]
    by (simp add: cmac_def Let_def k1_def X_def rest_def)
  have loop: "foldl (\<lambda>x j. pr_aes P key (map (\<lambda>i. x ! i XOR data ! (j * 16 + i)) [0..<16]))
      (zeros 16) [0..<m - 1] = X"
    unfolding X_def using aes m by (intro foldl_cbc_chunks) auto
  have last: "(if length data mod 16 = 0
      then map (\<lambda>i. data ! ((m - 1) * 16 + i) XOR k1 ! i) [0..<16]
      else map (\<lambda>i. (put 0 rest (zeros 16))[length rest := 0x80] ! i XOR dbl k1 ! i) [0..<16])
    = (if length rest = 16 then xor_bytes rest k1 else xor_bytes (pad_to 16 (rest @ [0x80])) (dbl k1))"
  proof (cases "length rest = 16")
    case True
    then show ?thesis
      using full rl by (auto simp: rest_def k1_def intro!: nth_equalityI)
  next
    case False
    then show ?thesis
      using full rl mlast_padded [of rest "dbl k1"] by simp
  qed
  have "aes_cmac P key data = pr_aes P key (map (\<lambda>i. X ! i XOR
      (if length rest = 16 then xor_bytes rest k1
       else xor_bytes (pad_to 16 (rest @ [0x80])) (dbl k1)) ! i) [0..<16])"
    using False unfolding aes_cmac_def Let_def
    by (simp only: if_False simp_thms loop k1_def [symmetric] m_def [symmetric] rest_def [symmetric] last)
  also have "\<dots> = pr_aes P key (xor_bytes X
      (if length rest = 16 then xor_bytes rest k1
       else xor_bytes (pad_to 16 (rest @ [0x80])) (dbl k1)))"
    using X rl by (subst xor_map_nth0) (auto simp: k1_def)
  finally show ?thesis by (simp add: spec)
qed

section \<open>Doubling\<close>

text \<open>\<open>dbl\<close> multiplies by \<open>x\<close> in the field of RFC 4493: shift left, reduce by \<open>0x87\<close>.\<close>

definition word_of_be :: "bytes \<Rightarrow> 128 word" where
  "word_of_be bs = foldl (\<lambda>w b. push_bit 8 w OR ucast b) 0 bs"

lemma bit_u8_less: "bit (v :: u8) k \<Longrightarrow> k < 8"
  using bit_imp_le_length [of v k] by simp

lemma bit_word_of_be:
  "length bs \<le> 16 \<Longrightarrow> bit (word_of_be bs) n \<longleftrightarrow>
     n div 8 < length bs \<and> bit (bs ! (length bs - 1 - n div 8)) (n mod 8)"
proof (induction bs arbitrary: n rule: rev_induct)
  case Nil
  then show ?case by (simp add: word_of_be_def)
next
  case (snoc b bs)
  have step: "word_of_be (bs @ [b]) = push_bit 8 (word_of_be bs) OR ucast b"
    by (simp add: word_of_be_def)
  show ?case
  proof (cases "n < 8")
    case True
    then show ?thesis by (auto simp: step bit_simps)
  next
    case False
    then have n: "n div 8 = Suc ((n - 8) div 8)" "n mod 8 = (n - 8) mod 8"
      by (simp_all add: le_div_geq le_mod_geq)
    have "bit (word_of_be (bs @ [b])) n \<longleftrightarrow> n < 128 \<and> bit (word_of_be bs) (n - 8)"
      using False by (auto simp: step bit_simps dest: bit_u8_less)
    also have "\<dots> \<longleftrightarrow> (n - 8) div 8 < length bs \<and> bit (bs ! (length bs - 1 - (n - 8) div 8)) (n mod 8)"
      using snoc by (auto simp: n(2))
    finally show ?thesis
      using n(1) by (auto simp: nth_append)
  qed
qed

lemma word_of_be_xor_last:
  assumes "length bs = 16"
  shows "word_of_be (xor_at 15 m bs) = word_of_be bs XOR ucast m"
proof (rule bit_eqI)
  fix n
  show "bit (word_of_be (xor_at 15 m bs)) n = bit (word_of_be bs XOR ucast m) n"
  proof (cases "n < 8")
    case True
    then show ?thesis using assms by (simp add: bit_word_of_be bit_simps xor_at_def)
  next
    case False
    then have "15 - n div 8 \<noteq> 15 \<or> 16 \<le> n div 8" by auto
    then show ?thesis
      using assms False by (auto simp: bit_word_of_be bit_simps xor_at_def dest: bit_u8_less)
  qed
qed

lemma word_of_be_shl:
  assumes "length b = 16"
  shows "word_of_be (map (\<lambda>i. if i + 1 < 16 then push_bit 1 (b ! i) OR drop_bit 7 (b ! (i + 1))
      else push_bit 1 (b ! i)) [0..<16]) = push_bit 1 (word_of_be b)" (is "word_of_be ?o = _")
proof (rule bit_word_eqI)
  fix n assume "n < LENGTH(128)"
  then have n: "n < 128" by simp
  show "bit (word_of_be ?o) n = bit (push_bit 1 (word_of_be b)) n"
  proof (cases "n mod 8 = 0")
    case True
    then obtain q where q: "n = 8 * q" by (auto simp: mod_eq_0_iff_dvd)
    show ?thesis
    proof (cases "q = 0")
      case True
      then show ?thesis using assms q by (simp add: bit_word_of_be bit_simps del: push_bit_Suc)
    next
      case False
      then have d: "(8 * q - 1) div 8 = q - 1" "(8 * q - 1) mod 8 = 7"
        by (cases q; simp)+
      have "Suc (15 - q) = 16 - q" "q - Suc 0 < 16" using n q by simp_all
      then show ?thesis
        using assms q n False by (simp add: bit_word_of_be bit_simps d [unfolded One_nat_def] del: push_bit_Suc)
    qed
  next
    case False
    then have e: "n - 1 = (n mod 8 - 1) + 8 * (n div 8)"
      using mult_div_mod_eq [of 8 n] by linarith
    have "n mod 8 - 1 < 8"
      using mod_less_divisor [of 8 n] by linarith
    then have d: "(n - 1) div 8 = n div 8" "(n - 1) mod 8 = n mod 8 - 1"
      unfolding e by simp_all
    have "0 < n" using False by (cases n) auto
    then show ?thesis
      using assms n False by (auto simp: bit_word_of_be bit_simps d [unfolded One_nat_def] simp del: push_bit_Suc
          dest: bit_u8_less)
  qed
qed

definition gf_double :: "128 word \<Rightarrow> 128 word" where
  "gf_double w = push_bit 1 w XOR (if bit w 127 then 0x87 else 0)"

lemma word_of_be_dbl:
  assumes "length b = 16"
  shows "word_of_be (dbl b) = gf_double (word_of_be b)"
proof -
  have "drop_bit 7 (b ! 0) = 1 \<longleftrightarrow> bit (b ! 0) 7"
  proof
    assume "drop_bit 7 (b ! 0) = 1"
    then have "bit (drop_bit 7 (b ! 0)) 0" by simp
    then show "bit (b ! 0) 7" by (simp add: bit_simps)
  next
    assume "bit (b ! 0) 7"
    then show "drop_bit 7 (b ! 0) = 1"
      by (intro bit_eqI) (auto simp: bit_simps dest: bit_u8_less)
  qed
  moreover have "bit (word_of_be b) 127 \<longleftrightarrow> bit (b ! 0) 7"
    using assms by (simp add: bit_word_of_be)
  ultimately show ?thesis
    using word_of_be_shl [OF assms] by (simp add: dbl_def Let_def word_of_be_xor_last gf_double_def)
qed

section \<open>AES-CMAC\<close>

text \<open>
  C25. The shim's AES-CMAC is RFC 4493's: whatever the block cipher, the index-driven loop
  computes the CBC walk over the message's blocks with the last one masked by the first subkey
  when it is full and padded and masked by the second one when it is short or empty, the
  subkeys being the doublings in the 128-bit field of the encryption of zero.
\<close>

theorem aes_cmac_rfc4493:
  assumes "\<forall>k b. length (pr_aes P k b) = 16"
  shows "\<exists>k1 k2. aes_cmac P key data = cmac_blocks P key k1 k2 (zeros 16) (chunks_of 16 data)
    \<and> word_of_be k1 = gf_double (word_of_be (pr_aes P key (zeros 16)))
    \<and> word_of_be k2 = gf_double (word_of_be k1)"
proof (intro exI conjI)
  let ?k1 = "dbl (pr_aes P key (zeros 16))"
  show "aes_cmac P key data = cmac_blocks P key ?k1 (dbl ?k1) (zeros 16) (chunks_of 16 data)"
    using aes_cmac_eq [OF assms, of key data] by (simp add: cmac_def Let_def)
  show "word_of_be ?k1 = gf_double (word_of_be (pr_aes P key (zeros 16)))"
    using assms by (simp add: word_of_be_dbl)
  show "word_of_be (dbl ?k1) = gf_double (word_of_be ?k1)"
    by (simp add: word_of_be_dbl)
qed

text \<open>A cipher that is not AES, to run the code on: it XORs the block with the padded key.\<close>

definition toy_prims :: prims where
  "toy_prims = \<lparr>pr_aes = \<lambda>k b. take 16 (xor_bytes (pad_to 16 b) (pad_to 16 k)),
     pr_sha256 = \<lambda>m. take 32 (pad_to 32 m), pr_hmac = \<lambda>k m. take 32 (pad_to 32 (k @ m)),
     pr_modpow = \<lambda>m e n. m ^ e mod n\<rparr>"

lemma toy_prims_sized: "prims_sized toy_prims"
  by (simp add: prims_sized_def toy_prims_def)

theorem aes_cmac_rfc4493_witness:
  "\<exists>k1 k2. aes_cmac toy_prims [1] [2, 3] = cmac_blocks toy_prims [1] k1 k2 (zeros 16) [[2, 3]]
    \<and> word_of_be k2 = gf_double (word_of_be k1)"
proof -
  have s: "\<forall>k b. length (pr_aes toy_prims k b) = 16"
    by (simp add: toy_prims_def)
  have c: "chunks_of 16 [2, 3 :: u8] = [[2, 3]]"
    by (simp add: chunks_step)
  obtain k1 k2 where "aes_cmac toy_prims [1] [2, 3] =
      cmac_blocks toy_prims [1] k1 k2 (zeros 16) (chunks_of 16 [2, 3])"
    and "word_of_be k2 = gf_double (word_of_be k1)"
    using aes_cmac_rfc4493 [OF s] by metis
  then show ?thesis unfolding c by (intro exI conjI)
qed

end
