(* ===== verification/CpLaws.thy ===== *)
theory CpLaws
  imports Edid Crypto
begin

text \<open>
  Laws of the control-plane messages and of the EDID parser: where each field of a set-mode
  message lies, that patching a captured one in place is building a new one, the DDC/CI
  checksum, and that a detailed timing descriptor is read back exactly.
\<close>

section \<open>Message layout\<close>

lemma length_cp_header [simp]: "length (cp_header b i sub c) = length b + 8"
  by (simp add: cp_header_def)

lemma pad_to_append: "pad_to n xs = xs @ zeros (n - length xs)"
  by (simp add: pad_to_def zeros_def)

lemma length_messages:
  "length (heartbeat c) = 32" "length (edid_readiness_kick c) = 32"
  "length (cursor_create c h x y) = 32" "length (cursor_move c h x y) = 32"
  "length (set_mode c t) = 96"
  "length tail = 10 \<Longrightarrow> length (random_tail_msg i sub c tail) = 32"
  "length token = 8 \<Longrightarrow> length (stream_commit c h token) = 32"
  by (simp_all add: heartbeat_def edid_readiness_kick_def cursor_create_def cursor_move_def
      cursor_header_def set_mode_def random_tail_msg_def stream_commit_def Let_def)

text \<open>The set-mode message as one concatenation.\<close>

lemma set_mode_eq:
  "set_mode c t = cp_header [] 0x48 0x22 c @ zeros 12 @ be32 2 @ zeros 2 @
     le16 (tm_hactive t) @ le16 (tm_hblank t) @ le16 (tm_hsync_front t) @ le16 (tm_hsync_width t) @
     le16 (tm_vactive t) @ le16 (tm_vblank t) @ le16 (tm_vsync_front t) @ le16 (tm_vsync_width t) @
     le16 (tm_field42 t) @ le16 (tm_refresh_hz t) @ le16 0x4000 @ le16 0x6000 @ zeros 8 @
     le16 0x0080 @ le16 0x00ff @ zeros 4 @ le16 0x0800 @ zeros 2 @
     le16 (tm_pixel_clock_10khz t) @ zeros 24"
  by (simp add: set_mode_def Let_def pad_to_append)

lemma put16_put: "off + 2 \<le> length b \<Longrightarrow> put16 off v b = put off (le16 v) b"
  unfolding put16_def le16_def
  by (rule nth_equalityI) (auto simp: nth_put nth_list_update less_Suc_eq nth_Cons')

lemma put_at: "length us = off \<Longrightarrow> length vs = length ws \<Longrightarrow> put off ws (us @ vs @ xs) = us @ ws @ xs"
  by (simp add: put_def)

text \<open>
  C32. Patching equals rebuilding: overwriting the EDID-derived fields of a set-mode message in
  place gives, byte for byte, the set-mode message of the new timing with the captured message's
  \<open>field42\<close>; so the counter, the constants and the length never change.
\<close>

theorem apply_edid_timing_set_mode:
  "apply_edid_timing (set_mode c t0) t = set_mode c (t\<lparr>tm_field42 := tm_field42 t0\<rparr>)"
proof -
  define H where "H = cp_header [] 0x48 0x22 c @ zeros 12 @ be32 2 @ zeros 2"
  define T where "T = zeros 24"
  define M where "M = le16 0x4000 @ le16 0x6000 @ zeros 8 @
     le16 0x0080 @ le16 0x00ff @ zeros 4 @ le16 0x0800 @ zeros 2"
  have len: "length H = 26" "length T = 24" "length M = 24"
    by (simp_all add: H_def T_def M_def)
  have sm: "set_mode c t = H @ le16 (tm_hactive t) @ le16 (tm_hblank t) @ le16 (tm_hsync_front t) @
     le16 (tm_hsync_width t) @ le16 (tm_vactive t) @ le16 (tm_vblank t) @ le16 (tm_vsync_front t) @
     le16 (tm_vsync_width t) @ le16 (tm_field42 t) @ le16 (tm_refresh_hz t) @ M @
     le16 (tm_pixel_clock_10khz t) @ T" for t
    by (simp only: set_mode_eq H_def T_def M_def append_assoc)
  have p: "off + 2 \<le> length b \<Longrightarrow> put16 off v b = take off b @ le16 v @ drop (off + 2) b" for off v b
    by (simp add: put16_put put_def)
  show ?thesis
    unfolding apply_edid_timing_def Let_def sm
    using len by (simp add: p)
qed

lemma ddc_checksum:
  "foldl (XOR) 0x6e (ddc_ci_set_vcp vcp v) = 0"
  by (simp add: ddc_ci_set_vcp_def Let_def xor.assoc [symmetric])

lemma ddc_forward_layout:
  assumes "length payload < 256"
  shows "drop 20 (ddc_forward c addr payload) = [addr, of_nat (length payload)] @ payload @
      zeros (10 - length payload)"
    and "length (ddc_forward c addr payload) = max 32 (22 + length payload)"
  using assms by (simp_all add: ddc_forward_def Let_def pad_to_append)

section \<open>Detailed timing descriptors\<close>

text \<open>The EDID 1.4 encoding of a timing, and what its packed fields can hold.\<close>

definition dtd_bytes :: "timing \<Rightarrow> bytes" where
  "dtd_bytes t = le16 (tm_pixel_clock_10khz t) @
     [ucast (tm_hactive t), ucast (tm_hblank t),
      push_bit 4 (ucast (drop_bit 8 (tm_hactive t))) OR ucast (drop_bit 8 (tm_hblank t)),
      ucast (tm_vactive t), ucast (tm_vblank t),
      push_bit 4 (ucast (drop_bit 8 (tm_vactive t))) OR ucast (drop_bit 8 (tm_vblank t)),
      ucast (tm_hsync_front t), ucast (tm_hsync_width t),
      push_bit 4 (ucast (tm_vsync_front t)) OR take_bit 4 (ucast (tm_vsync_width t)),
      push_bit 6 (ucast (drop_bit 8 (tm_hsync_front t))) OR
      push_bit 4 (ucast (drop_bit 8 (tm_hsync_width t))) OR
      push_bit 2 (ucast (drop_bit 4 (tm_vsync_front t))) OR ucast (drop_bit 4 (tm_vsync_width t)),
      0, 0, 0, 0, 0, 0]"

definition dtd_fits :: "timing \<Rightarrow> bool" where
  "dtd_fits t \<longleftrightarrow> tm_pixel_clock_10khz t \<noteq> 0 \<and> tm_hactive t < 2 ^ 12 \<and> tm_hblank t < 2 ^ 12
     \<and> tm_vactive t < 2 ^ 12 \<and> tm_vblank t < 2 ^ 12 \<and> tm_hsync_front t < 2 ^ 10
     \<and> tm_hsync_width t < 2 ^ 10 \<and> tm_vsync_front t < 2 ^ 6 \<and> tm_vsync_width t < 2 ^ 6
     \<and> tm_field42 t = 0x0600
     \<and> tm_refresh_hz t = dtd_refresh (tm_pixel_clock_10khz t)
         (tm_hactive t + tm_hblank t) (tm_vactive t + tm_vblank t)"

lemma bit_u16_bound:
  assumes "(w :: u16) < 2 ^ k" "k < 16" "bit w n"
  shows "n < k"
proof (rule ccontr)
  assume "\<not> n < k"
  have "(2 :: nat) ^ k < 65536"
    using assms(2) power_strict_increasing [of k 16 "2 :: nat"] by simp
  then have "unat ((2 :: u16) ^ k) = 2 ^ k"
    using unat_of_nat16 [of "2 ^ k"] by simp
  then have "unat w < 2 ^ k"
    using assms(1) by (simp add: word_less_nat_alt)
  then have "take_bit k w = w"
    by (simp add: word_unat_eq_iff unsigned_take_bit_eq take_bit_nat_eq_self)
  then have "bit (take_bit k w) n" using assms(3) by simp
  with \<open>\<not> n < k\<close> show False by (simp add: bit_simps)
qed

lemma and_masks: "(w :: u8) AND 0xf = take_bit 4 w" "(w :: u8) AND 3 = take_bit 2 w"
  by (simp_all add: take_bit_eq_mask mask_numeral)

lemma hi_lo_split:
  assumes "h < 2 ^ 12"
  shows "push_bit 8 (ucast (take_bit 4 (ucast (drop_bit 8 h) :: u8))) OR ucast (ucast h :: u8) = (h :: u16)"
proof -
  have b: "bit h n \<Longrightarrow> n < 12" for n using bit_u16_bound [OF assms] by simp
  show ?thesis by (rule bit_word_eqI) (auto simp: bit_simps; (drule b)?; simp)
qed

lemma lo10_split:
  assumes "h < 2 ^ 10"
  shows "push_bit 8 (ucast (take_bit 2 (ucast (drop_bit 8 h) :: u8))) OR ucast (ucast h :: u8) = (h :: u16)"
proof -
  have b: "bit h n \<Longrightarrow> n < 10" for n using bit_u16_bound [OF assms] by simp
  show ?thesis by (rule bit_word_eqI) (auto simp: bit_simps; (drule b)?; simp)
qed

lemma lo6_split:
  assumes "h < 2 ^ 6"
  shows "push_bit 4 (ucast (take_bit 2 (ucast (drop_bit 4 h) :: u8))) OR
      ucast (take_bit 4 (ucast h :: u8)) = (h :: u16)"
proof -
  have b: "bit h n \<Longrightarrow> n < 6" for n using bit_u16_bound [OF assms] by simp
  show ?thesis by (rule bit_word_eqI) (auto simp: bit_simps; (drule b)?; simp)
qed

lemma small_hi:
  assumes "(h :: u16) < 2 ^ (s + k)" "s + k < 16"
  shows "take_bit k (ucast (drop_bit s h) :: u8) = ucast (drop_bit s h)"
proof -
  have b: "bit h n \<Longrightarrow> n < s + k" for n using bit_u16_bound [OF assms] by simp
  show ?thesis by (rule bit_word_eqI) (auto simp: bit_simps; (drule b)?; simp)
qed

lemma take_bit_no_bit: "take_bit k b = (b :: u8) \<Longrightarrow> k \<le> n \<Longrightarrow> \<not> bit b n"
  by (metis bit_take_bit_iff not_le)

text \<open>Reading the packed bytes 4, 7, 10 and 11 back.\<close>

lemma unpack_nibbles:
  fixes a b :: u8
  assumes "take_bit 4 b = b"
  shows "take_bit 4 (drop_bit 4 (push_bit 4 a OR b)) = take_bit 4 a"
    and "take_bit 4 (push_bit 4 a OR b) = b"
  by (rule bit_word_eqI; auto simp: bit_simps take_bit_no_bit [OF assms])+

lemma unpack_pairs:
  fixes a b c d :: u8
  assumes "take_bit 2 b = b" "take_bit 2 c = c" "take_bit 2 d = d"
  shows "take_bit 2 (drop_bit 6 (push_bit 6 a OR push_bit 4 b OR push_bit 2 c OR d)) = take_bit 2 a"
    and "take_bit 2 (drop_bit 4 (push_bit 6 a OR push_bit 4 b OR push_bit 2 c OR d)) = b"
    and "take_bit 2 (drop_bit 2 (push_bit 6 a OR push_bit 4 b OR push_bit 2 c OR d)) = c"
    and "take_bit 2 (push_bit 6 a OR push_bit 4 b OR push_bit 2 c OR d) = d"
  by (rule bit_word_eqI; auto simp: bit_simps take_bit_no_bit [OF assms(1)]
      take_bit_no_bit [OF assms(2)] take_bit_no_bit [OF assms(3)])+

lemma dtd_bytes_reads:
  "rd16 (dtd_bytes t @ rest) 0 = tm_pixel_clock_10khz t"
  "map ((!) (dtd_bytes t @ rest)) [2..<12] = drop 2 (take 12 (dtd_bytes t))"
  by (simp_all add: dtd_bytes_def upt_rec le16_def rd16_def of_le16_le16)

text \<open>Every timing the descriptor format can hold is read back exactly.\<close>

lemma parse_dtd_bytes:
  assumes "dtd_fits t"
  shows "parse_dtd (dtd_bytes t @ rest) = Some t"
proof -
  let ?d = "dtd_bytes t @ rest"
  note f = assms [unfolded dtd_fits_def]
  have h: "take_bit 4 (ucast (drop_bit 8 (tm_hactive t)) :: u8) = ucast (drop_bit 8 (tm_hactive t))"
    "take_bit 4 (ucast (drop_bit 8 (tm_hblank t)) :: u8) = ucast (drop_bit 8 (tm_hblank t))"
    "take_bit 4 (ucast (drop_bit 8 (tm_vblank t)) :: u8) = ucast (drop_bit 8 (tm_vblank t))"
    using f small_hi [of _ 8 4] by simp_all
  have w: "take_bit 2 (ucast (drop_bit 8 (tm_hsync_width t)) :: u8) = ucast (drop_bit 8 (tm_hsync_width t))"
    "take_bit 2 (ucast (drop_bit 4 (tm_vsync_front t)) :: u8) = ucast (drop_bit 4 (tm_vsync_front t))"
    "take_bit 2 (ucast (drop_bit 4 (tm_vsync_width t)) :: u8) = ucast (drop_bit 4 (tm_vsync_width t))"
    using f small_hi [of _ 8 2] small_hi [of _ 4 2] by simp_all
  have len: "18 \<le> length ?d" by (simp add: dtd_bytes_def)
  have r: "rd16 ?d 0 = tm_pixel_clock_10khz t" by (rule dtd_bytes_reads)
  have b: "?d ! 2 = ucast (tm_hactive t)" "?d ! 3 = ucast (tm_hblank t)"
    "?d ! 4 = push_bit 4 (ucast (drop_bit 8 (tm_hactive t))) OR ucast (drop_bit 8 (tm_hblank t))"
    "?d ! 5 = ucast (tm_vactive t)" "?d ! 6 = ucast (tm_vblank t)"
    "?d ! 7 = push_bit 4 (ucast (drop_bit 8 (tm_vactive t))) OR ucast (drop_bit 8 (tm_vblank t))"
    "?d ! 8 = ucast (tm_hsync_front t)" "?d ! 9 = ucast (tm_hsync_width t)"
    "?d ! 10 = push_bit 4 (ucast (tm_vsync_front t)) OR take_bit 4 (ucast (tm_vsync_width t))"
    "?d ! 11 = push_bit 6 (ucast (drop_bit 8 (tm_hsync_front t))) OR
      push_bit 4 (ucast (drop_bit 8 (tm_hsync_width t))) OR
      push_bit 2 (ucast (drop_bit 4 (tm_vsync_front t))) OR ucast (drop_bit 4 (tm_vsync_width t))"
    by (simp_all add: dtd_bytes_def le16_def)
  have v4: "take_bit 4 (take_bit 4 (ucast (tm_vsync_width t)) :: u8) = take_bit 4 (ucast (tm_vsync_width t))"
    by simp
  note u = unpack_nibbles [OF h(2)] unpack_nibbles [OF h(3)] unpack_nibbles [OF v4] unpack_pairs [OF w]
  have fields:
    "hi_lo (drop_bit 4 (?d ! 4) AND 0xf) (?d ! 2) = tm_hactive t"
    "hi_lo (?d ! 4 AND 0xf) (?d ! 3) = tm_hblank t"
    "hi_lo (drop_bit 4 (?d ! 7) AND 0xf) (?d ! 5) = tm_vactive t"
    "hi_lo (?d ! 7 AND 0xf) (?d ! 6) = tm_vblank t"
    using f hi_lo_split [of "tm_hactive t"] hi_lo_split [of "tm_vactive t"]
      hi_lo_split [of "tm_hblank t"] hi_lo_split [of "tm_vblank t"]
    by (simp_all only: hi_lo_def b and_masks u h)
  have syncs:
    "push_bit 8 (ucast (drop_bit 6 (?d ! 11) AND 3)) OR ucast (?d ! 8) = tm_hsync_front t"
    "push_bit 8 (ucast (drop_bit 4 (?d ! 11) AND 3)) OR ucast (?d ! 9) = tm_hsync_width t"
    "push_bit 4 (ucast (drop_bit 2 (?d ! 11) AND 3)) OR ucast (drop_bit 4 (?d ! 10) AND 0xf) = tm_vsync_front t"
    "push_bit 4 (ucast (?d ! 11 AND 3)) OR ucast (?d ! 10 AND 0xf) = tm_vsync_width t"
    using f lo10_split [of "tm_hsync_front t"] lo10_split [of "tm_hsync_width t"]
      lo6_split [of "tm_vsync_front t"] lo6_split [of "tm_vsync_width t"]
    by (simp_all only: b and_masks u w)
  show ?thesis
    using f len unfolding parse_dtd_def Let_def r fields syncs by simp
qed

lemma first_dtd_skip:
  "list_all (\<lambda>off. parse_dtd (slice off 18 edid) = None) pre \<Longrightarrow>
     first_dtd edid (pre @ offs) = first_dtd edid offs"
  by (induction pre) auto

text \<open>
  The preferred timing is found: in an EDID that passes the base-block check, when one of the
  four descriptor slots holds the encoding of a timing and every earlier slot holds a monitor
  descriptor (pixel clock zero), that timing is returned, every field exact.
\<close>

theorem preferred_timing_found:
  assumes "edid_valid edid" "dtd_fits t" "k < 4"
    "slice (54 + 18 * k) 18 edid = dtd_bytes t"
    "list_all (\<lambda>j. rd16 edid (54 + 18 * j) = 0) [0..<k]"
  shows "timing_from_edid edid = Some t"
proof -
  have len: "128 \<le> length edid" using assms(1) by (simp add: edid_valid_def)
  have none: "parse_dtd (slice (54 + 18 * j) 18 edid) = None" if "j < k" for j
  proof -
    have "rd16 (slice (54 + 18 * j) 18 edid) 0 = rd16 edid (54 + 18 * j)"
      using len that assms(3) by (simp add: rd16_def)
    then show ?thesis
      using that assms(5) by (simp add: parse_dtd_def list_all_iff)
  qed
  have some: "parse_dtd (slice (54 + 18 * k) 18 edid) = Some t"
    using parse_dtd_bytes [OF assms(2), of "[]"] assms(4) by simp
  have "first_dtd edid (map (\<lambda>j. 54 + 18 * j) ([0..<k] @ k # [Suc k..<4])) = Some t"
    using none some len assms(3) by (simp add: first_dtd_skip list_all_iff)
  moreover have "[0..<k] @ k # [Suc k..<4] = [0..<4]"
    using assms(3) upt_add_eq_append [of 0 k "4 - k"] upt_conv_Cons [of k 4] by simp
  ultimately have "first_dtd edid (map (\<lambda>j. 54 + 18 * j) [0..<4]) = Some t"
    by (simp only:)
  moreover have "map (\<lambda>j. 54 + 18 * j) [0..<4] = [54, 72, 90, 108 :: nat]"
    by (simp add: upt_rec)
  ultimately have "first_dtd edid [54, 72, 90, 108] = Some t"
    by (simp only:)
  then show ?thesis using assms(1) by (simp add: timing_from_edid_def)
qed

theorem preferred_timing_found_witness:
  "timing_from_edid (EDID_MAGIC @ zeros 46 @ zeros 18 @ dtd_bytes (UHD_60\<lparr>tm_field42 := 0x0600\<rparr>)
      @ zeros 37 @ [179]) = Some (UHD_60\<lparr>tm_field42 := 0x0600\<rparr>)"
proof -
  let ?t = "UHD_60\<lparr>tm_field42 := 0x0600\<rparr>"
  let ?e = "EDID_MAGIC @ zeros 46 @ zeros 18 @ dtd_bytes ?t @ zeros 37 @ [179]"
  have d: "dtd_bytes ?t = [64, 208, 0, 160, 240, 112, 62, 128, 48, 32, 53, 0, 0, 0, 0, 0, 0, 0]"
    by (simp add: dtd_bytes_def UHD_60_def le16_def)
  have sum0: "foldl (+) (a :: u8) (zeros n) = a" for a n
    by (induction n) (simp_all add: zeros_def)
  have v: "edid_valid ?e"
    by (simp add: edid_valid_def d EDID_MAGIC_def sum0)
  have f: "dtd_fits ?t"
    by (simp add: dtd_fits_def UHD_60_def dtd_refresh_def Let_def)
  show ?thesis
  proof (rule preferred_timing_found [OF v f, of 1])
    show "slice (54 + 18 * 1) 18 ?e = dtd_bytes ?t"
      by (simp add: slice_def d EDID_MAGIC_def)
    show "list_all (\<lambda>j. rd16 ?e (54 + 18 * j) = 0) [0..<1]"
      by (simp add: rd16_def EDID_MAGIC_def nth_append of_le16_def)
  qed simp
qed

end
