(* ===== verification/Seal.thy ===== *)
theory Seal
  imports CpMsg Crypto
begin

text \<open>
  Sealing and opening control-plane frames (\<open>chimera/vino/cp.rs\<close>): the AES-CTR content cipher,
  the Dl3Cmac tag, the host-to-dock seals and the decoders of the dock's replies, each trying
  the plausible IN nonces in the code's order. \<open>P\<close> holds the crates' primitives.
\<close>

section \<open>Keys and nonces\<close>

definition CP_KEY_WHITEN :: bytes where
  "CP_KEY_WHITEN = [0x26, 0xab, 0xee, 0x38, 0x93, 0xd0, 0xc4, 0x32,
     0x61, 0x43, 0xa4, 0xbf, 0x5b, 0x45, 0xd6, 0xec]"

definition cp_session_key :: "bytes \<Rightarrow> bytes" where
  "cp_session_key ske_ks = xor_bytes ske_ks CP_KEY_WHITEN"

definition in_riv :: "bytes \<Rightarrow> bytes" where
  "in_riv out_riv = xor_at 7 0x01 out_riv"

section \<open>The content cipher\<close>

text \<open>
  \<open>chunks(16).enumerate()\<close>: block \<open>i\<close> is XORed with the encryption of
  \<open>riv || 0 || BE32(seq + i)\<close>, the counter wrapping at \<open>u32\<close>. The same loop is written out in
  \<open>seal_livemac\<close>, \<open>seal_stream\<close> and \<open>open_in\<close>.
\<close>

definition ctr_iv :: "bytes \<Rightarrow> u32 \<Rightarrow> nat \<Rightarrow> bytes" where
  "ctr_iv riv sq i = put 12 (be32 (sq + of_nat i)) (put 0 riv (zeros 16))"

fun ctr_chunks :: "prims \<Rightarrow> bytes \<Rightarrow> bytes \<Rightarrow> u32 \<Rightarrow> nat \<Rightarrow> bytes list \<Rightarrow> bytes" where
  "ctr_chunks P key riv sq i [] = []"
| "ctr_chunks P key riv sq i (c # cs) =
     xor_bytes c (pr_aes P key (ctr_iv riv sq i)) @ ctr_chunks P key riv sq (Suc i) cs"

definition ctr_xor :: "prims \<Rightarrow> bytes \<Rightarrow> bytes \<Rightarrow> u32 \<Rightarrow> bytes \<Rightarrow> bytes" where
  "ctr_xor P key riv sq xs = ctr_chunks P key riv sq 0 (chunks_of 16 xs)"

definition open_in :: "prims \<Rightarrow> bytes \<Rightarrow> bytes \<Rightarrow> u32 \<Rightarrow> bytes \<Rightarrow> bytes" where
  "open_in P ks riv sq ct = ctr_xor P ks riv sq ct"

section \<open>Seals\<close>

definition dl3cmac_tag :: "prims \<Rightarrow> bytes \<Rightarrow> bytes \<Rightarrow> u64 \<Rightarrow> bytes \<Rightarrow> bytes" where
  "dl3cmac_tag P ks riv wire_seq ciphertext =
     (let mac_nonce = xor_at 0 0x80 riv
      in aes_cmac P ks (mac_nonce @ be64 wire_seq @ ciphertext))"

definition seal_livemac :: "prims \<Rightarrow> bytes \<Rightarrow> bytes \<Rightarrow> bytes \<Rightarrow> bytes \<Rightarrow> bytes res" where
  "seal_livemac P ks riv hdr content_pt =
     (if length hdr < 16 then Inl Panic
      else let sq = rd32 hdr 12;
               ct = ctr_xor P ks riv sq content_pt;
               tag = dl3cmac_tag P ks riv (ucast sq) ct
           in Inr (take 16 hdr @ ct @ tag))"

text \<open>The 16-byte wire header of the CP frames.\<close>

definition cp_wire_header :: "u16 \<Rightarrow> u16 \<Rightarrow> u16 \<Rightarrow> u32 \<Rightarrow> bytes" where
  "cp_wire_header sz sub aux sq =
     (let hdr = zeros 16;
          hdr = put 2 (le16 sz) hdr;
          hdr = put 4 (le32 4) hdr;
          hdr = put 8 (le16 sub) hdr;
          hdr = put 10 (le16 aux) hdr
      in put 12 (le32 sq) hdr)"

definition seal_interactive :: "prims \<Rightarrow> bytes \<Rightarrow> bytes \<Rightarrow> u16 \<Rightarrow> u32 \<Rightarrow> bytes \<Rightarrow> bytes res" where
  "seal_interactive P ks riv i wire_seq content =
     (let body_len = length content + 16;
          sz = of_nat ((16 + body_len) - 4);
          aux = aux_for_id i body_len
      in seal_livemac P ks riv (cp_wire_header sz 0x24 aux wire_seq) content)"

definition seal_video_arm ::
    "prims \<Rightarrow> bytes \<Rightarrow> bytes \<Rightarrow> u16 \<Rightarrow> u16 \<Rightarrow> u32 \<Rightarrow> bytes \<Rightarrow> bytes res" where
  "seal_video_arm P key riv sub aux sq content =
     (let body_len = length content + 16;
          sz = of_nat ((16 + body_len) - 4)
      in seal_livemac P key riv (cp_wire_header sz sub aux sq) content)"

definition seal_stream :: "prims \<Rightarrow> bytes \<Rightarrow> bytes \<Rightarrow> u16 \<Rightarrow> u32 \<Rightarrow> bytes \<Rightarrow> bytes" where
  "seal_stream P key riv wsub sq inner =
     (let ct = ctr_xor P key riv sq inner;
          i = (if 2 \<le> length inner then rd16 inner 0 else 0)
      in push_frame_with [] 0x04 wsub (aux_for_id i (length ct)) sq ct)"

definition seal :: "prims \<Rightarrow> bytes \<Rightarrow> bytes \<Rightarrow> u32 \<Rightarrow> bytes \<Rightarrow> bytes" where
  "seal P ks riv sq inner = seal_stream P ks riv 0x24 sq inner"

section \<open>Decoders\<close>

definition is_known_sub :: "u16 \<Rightarrow> bool" where
  "is_known_sub sub \<longleftrightarrow> sub \<in> set [0x00, 0x04, 0x0b, 0x0c, 0x10, 0x20, 0x21, 0x22, 0x24, 0x25,
     0x2a, 0x30, 0x41, 0x42, 0x43, 0x45, 0x75, 0x84, 0x86]"

definition reply_info :: "prims \<Rightarrow> bytes \<Rightarrow> bytes \<Rightarrow> bytes \<Rightarrow> (u16 \<times> u16 \<times> u16) option" where
  "reply_info P ks out_riv wire =
     (if length wire \<le> 16 then None
      else let sq = rd32 wire 12;
               head = slice 16 (min (length wire) 32 - 16) wire;
               inner = open_in P ks (in_riv out_riv) sq head
           in if length inner < 6 then None
              else Some (rd16 inner 0, rd16 inner 2, rd16 inner 4))"

text \<open>The IN nonces of the nested loops \<open>for base in [raw, flipped] \{ for h in 0..2 \}\<close>.\<close>

definition in_rivs :: "bytes \<Rightarrow> bytes list" where
  "in_rivs out_riv =
     (let raw = in_riv out_riv; flipped = xor_at 7 0x01 raw
      in concat (map (\<lambda>base. [base, xor_at 0 0x80 base]) [raw, flipped]))"

text \<open>A loop over the nonces that returns at the first success.\<close>

fun first_riv :: "(bytes \<Rightarrow> 'a option) \<Rightarrow> bytes list \<Rightarrow> 'a option" where
  "first_riv f [] = None"
| "first_riv f (r # rs) = (case f r of Some a \<Rightarrow> Some a | None \<Rightarrow> first_riv f rs)"

definition ack_header :: "bytes \<Rightarrow> (u16 \<times> u16 \<times> u16) option" where
  "ack_header pt =
     (if length pt < 8 then None
      else let i = rd16 pt 0; sub = rd16 pt 2; ctr = rd16 pt 4; pad = rd16 pt 6
           in if i < 0x400 \<and> is_known_sub sub \<and> pad = 0 then Some (i, sub, ctr) else None)"

definition verify_in_ack :: "prims \<Rightarrow> bytes \<Rightarrow> bytes \<Rightarrow> bytes \<Rightarrow> (u16 \<times> u16 \<times> u16) option" where
  "verify_in_ack P ks out_riv wire =
     (if length wire \<le> 16 \<or> rd16 wire 8 \<noteq> 0x45 then None
      else let sq = rd32 wire 12;
               head = slice 16 (min (length wire) 32 - 16) wire
           in first_riv (\<lambda>riv. ack_header (open_in P ks riv sq head)) (in_rivs out_riv))"

text \<open>
  \<open>decode_any\<close>: the four variants in the order of its table, the first of the best scores kept.
  The tag is the variant's name in the table.
\<close>

definition riv_variants :: "bytes \<Rightarrow> (string \<times> bytes) list" where
  "riv_variants out_riv =
     (let out0 = out_riv; in0 = in_riv out_riv; out1 = xor_at 0 0x80 out0; in1 = xor_at 0 0x80 in0
      in [(''out/h0'', out0), (''in/h0'', in0), (''out/h1'', out1), (''in/h1'', in1)])"

definition decode_score :: "bytes \<Rightarrow> int" where
  "decode_score pt =
     (if is_known_sub (rd16 pt 2) then 50 else 0) + (if rd16 pt 6 = 0 then 10 else 0)
       + (if rd16 pt 4 < 0x400 then 5 else 0)"

type_synonym decoded = "string \<times> u16 \<times> u16 \<times> u16 \<times> bytes"

definition decode_step ::
    "prims \<Rightarrow> bytes \<Rightarrow> u32 \<Rightarrow> bytes \<Rightarrow> (int \<times> decoded) option \<Rightarrow> string \<times> bytes \<Rightarrow> (int \<times> decoded) option"
  where
  "decode_step P ks sq head best v =
     (case v of (tag, riv) \<Rightarrow>
        let pt = open_in P ks riv sq head
        in if length pt < 8 then best
           else let sc = decode_score pt;
                    better = (case best of None \<Rightarrow> True | Some (b, _) \<Rightarrow> b < sc);
                    sample = put 0 (take (min (length pt) 24) pt) (zeros 24)
                in if better
                   then Some (sc, tag, rd16 pt 0, rd16 pt 2, rd16 pt 4, sample)
                   else best)"

definition decode_any :: "prims \<Rightarrow> bytes \<Rightarrow> bytes \<Rightarrow> bytes \<Rightarrow> decoded option" where
  "decode_any P ks out_riv wire =
     (if length wire \<le> 16 then None
      else let sq = rd32 wire 12;
               head = slice 16 (min (length wire) 48 - 16) wire
           in map_option snd (foldl (decode_step P ks sq head) None (riv_variants out_riv)))"

definition edid_poll_progress :: "prims \<Rightarrow> bytes \<Rightarrow> bytes \<Rightarrow> bytes \<Rightarrow> nat option" where
  "edid_poll_progress P wire ks out_riv =
     (if length wire \<le> 16 \<or> rd16 wire 8 \<noteq> 0x45 then None
      else let sq = rd32 wire 12;
               inner = open_in P ks (in_riv out_riv) sq (drop 16 wire)
           in if length inner < 8 then None
              else if rd16 inner 0 \<noteq> 0x44 \<or> rd16 inner 2 \<noteq> 0x20 then None
              else Some (length (filter (\<lambda>b. b \<noteq> 0) (drop 8 inner))))"

definition EDID_OFF :: nat where "EDID_OFF = 22"

definition edid_of_inner :: "bytes \<Rightarrow> bytes option" where
  "edid_of_inner inner =
     (if length inner < EDID_OFF + 128 then None
      else if (rd16 inner 0 \<noteq> 0x94 \<and> rd16 inner 0 \<noteq> 0x194) \<or> rd16 inner 2 \<noteq> 0x21 then None
      else let edid = drop EDID_OFF inner
           in if take 8 edid \<noteq> [0x00, 0xff, 0xff, 0xff, 0xff, 0xff, 0xff, 0x00] then None
              else Some (take (min ((1 + unat (edid ! 126)) * 128) (length edid)) edid))"

definition parse_edid_from_reply :: "prims \<Rightarrow> bytes \<Rightarrow> bytes \<Rightarrow> bytes \<Rightarrow> bytes option" where
  "parse_edid_from_reply P ks out_riv wire =
     (if length wire \<le> 16 \<or> rd16 wire 8 \<noteq> 0x45 then None
      else let sq = rd32 wire 12; bdy = drop 16 wire
           in first_riv (\<lambda>riv. edid_of_inner (open_in P ks riv sq bdy)) (in_rivs out_riv))"

definition ready_of_inner :: "bytes \<Rightarrow> bool option" where
  "ready_of_inner inner =
     (if length inner < 27 then None
      else if rd16 inner 0 \<noteq> 0x44 \<or> rd16 inner 2 \<noteq> 0x20 then None
      else Some (inner ! 26 AND 0x80 \<noteq> 0))"

definition edid_poll_ready :: "prims \<Rightarrow> bytes \<Rightarrow> bytes \<Rightarrow> bytes \<Rightarrow> bool option" where
  "edid_poll_ready P ks out_riv wire =
     (if length wire \<le> 16 \<or> rd16 wire 8 \<noteq> 0x45 then None
      else let sq = rd32 wire 12; bdy = drop 16 wire
           in first_riv (\<lambda>riv. ready_of_inner (open_in P ks riv sq bdy)) (in_rivs out_riv))"

end
