(* ===== verification/SealLaws.thy ===== *)
theory SealLaws
  imports Seal Edid
begin

text \<open>
  Laws of the control-plane seal: the content cipher is a position-wise XOR and its own inverse,
  a sealed frame opens to its content and carries the tag of its ciphertext, and the reply
  decoders find what the dock sealed under the IN nonce.
\<close>

section \<open>The content cipher is an involution\<close>

lemma ctr_chunks_length:
  assumes "prims_sized P" "list_all (\<lambda>c. length c \<le> 16) cs"
  shows "length (ctr_chunks P key riv sq i cs) = length (concat cs)"
  using assms(2) by (induction cs arbitrary: i) (auto simp: assms(1))

lemma chunks_of_le: "list_all (\<lambda>c. length c \<le> n) (chunks_of n xs)"
  by (induction n xs rule: chunks_of.induct) (subst chunks_of.simps, auto)

lemma length_ctr_xor [simp]: "prims_sized P \<Longrightarrow> length (ctr_xor P key riv sq xs) = length xs"
  using ctr_chunks_length [OF _ chunks_of_le] concat_chunks [of 16 xs] by (simp add: ctr_xor_def)

lemma nth_ctr_chunks:
  assumes P: "prims_sized P" and "j < length xs"
  shows "ctr_chunks P key riv sq i (chunks_of 16 xs) ! j =
    xs ! j XOR pr_aes P key (ctr_iv riv sq (i + j div 16)) ! (j mod 16)"
  using assms(2)
proof (induction "16 :: nat" xs arbitrary: i j rule: chunks_of.induct)
  case (1 xs)
  have c: "chunks_of 16 xs = take 16 xs # chunks_of 16 (drop 16 xs)"
    using "1.prems" by (intro chunks_step) auto
  show ?case
  proof (cases "j < 16")
    case True
    then show ?thesis using "1.prems" P by (simp add: c nth_append)
  next
    case False
    then have "ctr_chunks P key riv sq i (chunks_of 16 xs) ! j =
        ctr_chunks P key riv sq (Suc i) (chunks_of 16 (drop 16 xs)) ! (j - 16)"
      using "1.prems" P by (simp add: c nth_append)
    also have "\<dots> = drop 16 xs ! (j - 16) XOR
        pr_aes P key (ctr_iv riv sq (Suc i + (j - 16) div 16)) ! ((j - 16) mod 16)"
      using "1.prems" False by (intro "1.hyps") auto
    finally show ?thesis
      using False "1.prems" by (simp add: le_div_geq le_mod_geq)
  qed
qed

lemma nth_ctr_xor:
  "prims_sized P \<Longrightarrow> j < length xs \<Longrightarrow> ctr_xor P key riv sq xs ! j =
     xs ! j XOR pr_aes P key (ctr_iv riv sq (j div 16)) ! (j mod 16)"
  by (simp add: ctr_xor_def nth_ctr_chunks)

lemma ctr_xor_involution [simp]:
  "prims_sized P \<Longrightarrow> ctr_xor P key riv sq (ctr_xor P key riv sq xs) = xs"
  by (intro nth_equalityI) (auto simp: nth_ctr_xor xor.assoc)

lemma ctr_xor_take:
  "prims_sized P \<Longrightarrow> ctr_xor P key riv sq (take n xs) = take n (ctr_xor P key riv sq xs)"
  by (intro nth_equalityI) (auto simp: nth_ctr_xor)

text \<open>Opening a prefix of the ciphertext opens a prefix of the content.\<close>

lemma open_in_append:
  assumes "prims_sized P"
  shows "take (length pt) (open_in P ks riv sq (ctr_xor P ks riv sq pt @ rest)) = pt"
  using assms
  by (simp add: open_in_def flip: ctr_xor_take)

section \<open>Nonces and keys\<close>

lemma in_riv_involution [simp]: "in_riv (in_riv riv) = riv"
  by (simp add: in_riv_def)

lemma in_rivs_eq:
  "in_rivs riv = [in_riv riv, xor_at 0 0x80 (in_riv riv), riv, xor_at 0 0x80 riv]"
  by (simp add: in_rivs_def in_riv_def Let_def)

text \<open>Both ends whiten with the same constant, so either recovers the other's key.\<close>

lemma cp_session_key_involution:
  "length k = 16 \<Longrightarrow> cp_session_key (cp_session_key k) = k"
  by (simp add: cp_session_key_def xor_bytes_cancel CP_KEY_WHITEN_def)

section \<open>Sealed frames\<close>

lemma cp_wire_header_eq:
  "cp_wire_header sz sub aux sq = [0, 0] @ le16 sz @ le32 4 @ le16 sub @ le16 aux @ le32 sq"
  by (simp add: cp_wire_header_def put_def zeros_def le16_def le32_def Let_def numeral_eq_Suc)

lemma rd32_cp_wire_header [simp]: "rd32 (cp_wire_header sz sub aux sq) 12 = sq"
  by (simp add: cp_wire_header_eq rd32_def le16_def le32_def of_le32_le32 nth_Cons')

lemma length_cp_wire_header [simp]: "length (cp_wire_header sz sub aux sq) = 16"
  by (simp add: cp_wire_header_eq)

text \<open>
  A sealed frame is the encoding of one data frame: header, ciphertext and tag, with the given
  \<open>sub\<close>, \<open>aux\<close> and counter.
\<close>

lemma seal_video_arm_frame:
  assumes "prims_sized P"
  shows "seal_video_arm P key riv sub aux sq content =
    Inr (frame_encode \<lparr>fr_msg_type = 4, fr_sub_id = sub, fr_sub_len_dw = aux, fr_seq = sq,
      fr_body = ctr_xor P key riv sq content @
        dl3cmac_tag P key riv (ucast sq) (ctr_xor P key riv sq content)\<rparr>)"
proof -
  let ?ct = "ctr_xor P key riv sq content"
  let ?tag = "dl3cmac_tag P key riv (ucast sq) ?ct"
  have t: "length ?tag = 16"
    using assms by (simp add: dl3cmac_tag_def aes_cmac_def Let_def)
  then have len: "16 + length (?ct @ ?tag) - 4 = (16 + (length content + 16)) - 4"
    using assms by simp
  have "seal_video_arm P key riv sub aux sq content =
      Inr (cp_wire_header (of_nat ((16 + (length content + 16)) - 4)) sub aux sq @ ?ct @ ?tag)"
    by (simp add: seal_video_arm_def seal_livemac_def Let_def)
  then show ?thesis
    by (simp only: cp_wire_header_eq frame_encode_def Let_def frame.simps len append_assoc)
qed

lemma seal_interactive_arm:
  "seal_interactive P ks riv i sq content =
     seal_video_arm P ks riv 0x24 (aux_for_id i (length content + 16)) sq content"
  by (simp add: seal_interactive_def seal_video_arm_def Let_def)

text \<open>
  C3. Encrypt-then-MAC on the wire: an interactive control-plane frame whose size fits its 16-bit
  field (a content of at most 65507 bytes) decodes to a type-4,
  sub-0x24 frame with the id's \<open>aux\<close> constant and the caller's counter; its body is the
  ciphertext followed by the 16-byte tag of exactly that ciphertext under the frame's counter,
  and opening the ciphertext with the same key, nonce and counter gives the content back.
\<close>

theorem sealed_frame_opens:
  assumes "prims_sized P" "length content \<le> 65507"
  shows "case seal_interactive P ks riv i sq content of
      Inl e \<Rightarrow> False
    | Inr wire \<Rightarrow> (case frame_decode wire of
          None \<Rightarrow> False
        | Some fr \<Rightarrow> (let ct = take (length content) (fr_body fr)
            in fr_msg_type fr = 4 \<and> fr_sub_id fr = 0x24 \<and> fr_seq fr = sq
              \<and> fr_sub_len_dw fr = aux_for_id i (length content + 16)
              \<and> open_in P ks riv (fr_seq fr) ct = content
              \<and> drop (length content) (fr_body fr) = dl3cmac_tag P ks riv (ucast (fr_seq fr)) ct
              \<and> length (fr_body fr) = length content + 16))"
proof -
  have t: "length (dl3cmac_tag P ks riv w ct) = 16" for w ct
    using assms by (simp add: dl3cmac_tag_def aes_cmac_def Let_def)
  let ?fr = "\<lparr>fr_msg_type = 4, fr_sub_id = 0x24,
    fr_sub_len_dw = aux_for_id i (length content + 16), fr_seq = sq,
    fr_body = ctr_xor P ks riv sq content @
      dl3cmac_tag P ks riv (ucast sq) (ctr_xor P ks riv sq content)\<rparr>"
  have "frame_decode (frame_encode ?fr) = Some ?fr"
    using frame_decode_encode [of ?fr "[]"] assms t by simp
  then show ?thesis
    using assms t
    by (simp add: seal_interactive_arm seal_video_arm_frame Let_def open_in_def)
qed

theorem sealed_frame_opens_witness:
  "\<exists>wire fr. seal_interactive toy_prims (zeros 16) (zeros 8) 0x16 3 (heartbeat 7) = Inr wire
     \<and> frame_decode wire = Some fr \<and> fr_sub_len_dw fr = 8
     \<and> open_in toy_prims (zeros 16) (zeros 8) 3 (take 32 (fr_body fr)) = heartbeat 7"
proof -
  have l: "length (heartbeat 7) = 32"
    by (simp add: heartbeat_def cp_header_def Let_def)
  have a: "aux_for_id 0x16 48 = 8"
    by (simp add: aux_for_id_def)
  show ?thesis
    using sealed_frame_opens [OF toy_prims_sized, where content = "heartbeat 7" and ks = "zeros 16"
        and riv = "zeros 8" and i = 22 and sq = 3] l a
    by (auto simp: Let_def split: sum.splits option.splits)
qed

section \<open>Replies\<close>

lemma frame_encode_reads:
  "rd16 (frame_encode f) 8 = fr_sub_id f" "rd32 (frame_encode f) 12 = fr_seq f"
  "drop 16 (frame_encode f) = fr_body f"
  using frame_encode_fields [of f "[]"] frame_encode_body [of "length (fr_body f)" f "[]"]
  by (simp_all add: slice_def)

lemma rd16_take: "i + 2 \<le> n \<Longrightarrow> i + 2 \<le> length xs \<Longrightarrow> rd16 (take n xs) i = rd16 xs i"
  by (simp add: rd16_def)

lemma edid_of_inner_found:
  assumes "take (length inner) pt = inner" "inner = pre @ edid @ post" "length pre = 22"
    "rd16 pre 0 \<in> {0x94, 0x194}" "rd16 pre 2 = 0x21" "take 8 edid = EDID_MAGIC"
    "length edid = (1 + unat (edid ! 126)) * 128"
  shows "edid_of_inner pt = Some edid"
proof -
  obtain junk where pt: "pt = inner @ junk"
    using assms(1) by (metis append_take_drop_id)
  have "128 \<le> length edid" using assms(7) by simp
  moreover have "rd16 pt 0 = rd16 pre 0" "rd16 pt 2 = rd16 pre 2"
    using assms(2,3) by (simp_all add: pt rd16_append_left)
  moreover have d: "drop 22 pt = edid @ post @ junk"
    using assms(2,3) by (simp add: pt)
  moreover have "min ((1 + unat (edid ! 126)) * 128) (length (edid @ post @ junk)) = length edid"
    by (simp only: assms(7) [symmetric] length_append)
  moreover have "length pt = 22 + length edid + length post + length junk"
    using assms(2,3) by (simp add: pt)
  ultimately show ?thesis
    using assms(3-6)
    by (simp add: edid_of_inner_def EDID_OFF_def EDID_MAGIC_def nth_append Let_def d)
qed

text \<open>
  C26. A dock reply that carries an EDID is found whole: when the dock seals an EDID message
  (id 0x94 or 0x194, sub 0x21, EDID at offset 22) under the IN nonce, the parser returns exactly
  the EDID with all the extension blocks it announces, whatever padding and tag follow it and
  although the parser decrypts the tag too.
\<close>

theorem edid_reply_found:
  assumes "prims_sized P" "length pre = 22" "rd16 pre 0 \<in> {0x94, 0x194}" "rd16 pre 2 = 0x21"
    "take 8 edid = EDID_MAGIC" "length edid = (1 + unat (edid ! 126)) * 128"
  shows "parse_edid_from_reply P ks riv (frame_encode \<lparr>fr_msg_type = ty, fr_sub_id = 0x45,
      fr_sub_len_dw = aux, fr_seq = sq,
      fr_body = ctr_xor P ks (in_riv riv) sq (pre @ edid @ post) @ tag\<rparr>) = Some edid"
proof -
  let ?in = "pre @ edid @ post"
  let ?body = "ctr_xor P ks (in_riv riv) sq ?in @ tag"
  have "take (length ?in) (open_in P ks (in_riv riv) sq ?body) = ?in"
    by (rule open_in_append [OF assms(1)])
  then have "edid_of_inner (open_in P ks (in_riv riv) sq ?body) = Some edid"
    by (rule edid_of_inner_found [OF _ refl assms(2-6)])
  then show ?thesis
    using assms(2)
    by (simp add: parse_edid_from_reply_def frame_encode_reads in_rivs_eq Let_def assms(1))
qed

theorem edid_reply_found_witness:
  "\<exists>wire. parse_edid_from_reply toy_prims (zeros 16) (zeros 8) wire = Some (EDID_MAGIC @ zeros 120)"
proof -
  let ?pre = "cp_header [] 0x194 0x21 5 @ zeros 14"
  have f: "length ?pre = 22" "rd16 ?pre 0 \<in> {0x94, 0x194}" "rd16 ?pre 2 = 0x21"
    by (simp_all add: cp_header_def rd16_append_right)
  have e: "take 8 (EDID_MAGIC @ zeros 120) = EDID_MAGIC"
    "length (EDID_MAGIC @ zeros 120) = (1 + unat ((EDID_MAGIC @ zeros 120) ! 126)) * 128"
    by (simp_all add: EDID_MAGIC_def nth_append)
  show ?thesis
    using edid_reply_found [OF toy_prims_sized f e] by (intro exI)
qed

lemma first_riv_Some: "first_riv f rs = Some a \<Longrightarrow> \<exists>r \<in> set rs. f r = Some a"
  by (induction rs) (auto split: option.splits)

lemma first_riv_None: "first_riv f rs = None \<longleftrightarrow> (\<forall>r \<in> set rs. f r = None)"
  by (induction rs) (auto split: option.splits)

text \<open>
  An acknowledgement the dock seals under any of the four IN nonces is counted, and what is
  counted decrypts under one of them to a small id, a known sub and a zero pad.
\<close>

lemma ack_header_found:
  assumes "take 8 pt = cp_header [] i sub ctr" "i < 0x400" "is_known_sub sub"
  shows "ack_header pt = Some (i, sub, ctr)"
proof -
  have l: "8 \<le> length pt"
    using arg_cong [OF assms(1), of length] by (simp add: cp_header_def)
  have "rd16 pt j = rd16 (take 8 pt) j" if "j + 2 \<le> 8" for j
    using that l by (simp add: rd16_take)
  then show ?thesis
    using assms l
    by (simp add: ack_header_def cp_header_def rd16_append_right Let_def)
      (simp add: rd16_def le16_def of_le16_le16 of_le16_def)
qed

lemma verify_in_ack_complete:
  assumes "prims_sized P" "riv' \<in> set (in_rivs riv)" "i < 0x400" "is_known_sub sub"
  shows "verify_in_ack P ks riv (frame_encode \<lparr>fr_msg_type = ty, fr_sub_id = 0x45,
      fr_sub_len_dw = aux, fr_seq = sq,
      fr_body = ctr_xor P ks riv' sq (cp_header [] i sub ctr @ rest) @ tag\<rparr>) \<noteq> None"
proof -
  let ?pt = "cp_header [] i sub ctr @ rest"
  let ?body = "ctr_xor P ks riv' sq ?pt @ tag"
  let ?fr = "\<lparr>fr_msg_type = ty, fr_sub_id = 0x45, fr_sub_len_dw = aux, fr_seq = sq, fr_body = ?body\<rparr>"
  have h: "length (cp_header [] i sub ctr) = 8" by (simp add: cp_header_def)
  have n: "slice 16 (min (16 + length ?body) 32 - 16) (frame_encode ?fr) = take 16 ?body"
    using frame_encode_body [of "min (16 + length ?body) 32 - 16" ?fr "[]"]
    by (auto simp: min_def)
  have "take 8 (open_in P ks riv' sq (take 16 ?body)) = take 8 (ctr_xor P ks riv' sq ?body)"
    using assms(1) by (simp add: open_in_def ctr_xor_take del: take_append)
  also have "\<dots> = take 8 (take (length ?pt) (open_in P ks riv' sq ?body))"
    by (simp add: open_in_def h)
  also have "\<dots> = take 8 ?pt"
    by (simp only: open_in_append [OF assms(1)])
  finally have "take 8 (open_in P ks riv' sq (take 16 ?body)) = cp_header [] i sub ctr"
    by (simp add: h)
  from ack_header_found [OF this assms(3,4)]
  have "ack_header (open_in P ks riv' sq (take 16 ?body)) = Some (i, sub, ctr)" .
  then show ?thesis
    using assms(2) h n frame_encode_reads [of ?fr]
    by (auto simp: verify_in_ack_def first_riv_None Let_def assms(1) simp del: take_append)
qed

lemma verify_in_ack_sound:
  assumes "verify_in_ack P ks riv wire = Some (i, sub, ctr)"
  shows "rd16 wire 8 = 0x45 \<and> i < 0x400 \<and> is_known_sub sub \<and>
    (\<exists>r \<in> set (in_rivs riv). let pt = open_in P ks r (rd32 wire 12) (slice 16 (min (length wire) 32 - 16) wire)
       in rd16 pt 0 = i \<and> rd16 pt 2 = sub \<and> rd16 pt 4 = ctr \<and> rd16 pt 6 = 0)"
  using assms
  by (auto simp: verify_in_ack_def ack_header_def Let_def split: if_splits dest!: first_riv_Some)

end
