(* ===== verification/Hdcp.thy ===== *)
theory Hdcp
  imports Crypto
begin

text \<open>
  HDCP 2.2 key derivation and verifiers: the kernel driver's (\<open>chimera/vino/hdcp.rs\<close>) with
  MGF1, OAEP and the session-key wrap, and the userspace oracle's (\<open>vino-hdcp/src/kdf.rs\<close>).
  Host-random bytes (the OAEP seed) are an argument.
\<close>

section \<open>The kernel driver (hdcp.rs)\<close>

text \<open>\<open>for i in 0..8 \{ b[off + i] ^= m[i] \}\<close>\<close>

definition xor8_at :: "nat \<Rightarrow> bytes \<Rightarrow> bytes \<Rightarrow> bytes" where
  "xor8_at off m b = foldl (\<lambda>b i. xor_at (off + i) (m ! i) b) b [0..<8]"

definition derive_dkey :: "prims \<Rightarrow> bytes \<Rightarrow> bytes \<Rightarrow> bytes \<Rightarrow> bytes \<Rightarrow> u8 \<Rightarrow> bytes" where
  "derive_dkey P km rn rtx rrx n =
     (let iv = zeros 16;
          iv = put 0 rtx iv;
          iv = put 8 rrx iv;
          iv = xor_at 15 n iv;
          key = xor8_at 8 rn km
      in pr_aes P key iv)"

definition derive_kd :: "prims \<Rightarrow> bytes \<Rightarrow> bytes \<Rightarrow> bytes \<Rightarrow> bytes" where
  "derive_kd P km rtx rrx =
     (let rn = zeros 8;
          dkey0 = derive_dkey P km rn rtx rrx 0;
          dkey1 = derive_dkey P km rn rtx rrx 1;
          kd = zeros 32;
          kd = put 0 dkey0 kd
      in put 16 dkey1 kd)"

definition compute_h :: "prims \<Rightarrow> bytes \<Rightarrow> bytes \<Rightarrow> bool \<Rightarrow> bytes" where
  "compute_h P kd rtx repeater = pr_hmac P kd (xor_at 7 (if repeater then 1 else 0) rtx)"

definition compute_l :: "prims \<Rightarrow> bytes \<Rightarrow> bytes \<Rightarrow> bytes \<Rightarrow> bytes" where
  "compute_l P kd rrx rn = pr_hmac P (xor8_at 24 rrx kd) rn"

definition compute_v_full :: "prims \<Rightarrow> bytes \<Rightarrow> bytes \<Rightarrow> bytes" where
  "compute_v_full P kd list_header = pr_hmac P kd list_header"

text \<open>
  \<open>mgf1_sha256\<close>: one round per unit of fuel, \<open>None\<close> when the fuel runs out. \<open>mask_len\<close> rounds
  are always enough, since a round adds a byte (\<open>mgf1_total\<close>).
\<close>

fun mgf1_loop :: "prims \<Rightarrow> bytes \<Rightarrow> nat \<Rightarrow> nat \<Rightarrow> u32 \<Rightarrow> bytes \<Rightarrow> bytes option" where
  "mgf1_loop P seed mask_len 0 counter msk =
     (if length msk < mask_len then None else Some msk)"
| "mgf1_loop P seed mask_len (Suc fuel) counter msk =
     (if length msk < mask_len
      then let block = seed @ be32 counter;
               digest = pr_sha256 P block;
               n = min (length digest) (mask_len - length msk)
           in mgf1_loop P seed mask_len fuel (counter + 1) (msk @ take n digest)
      else Some msk)"

definition mgf1_sha256 :: "prims \<Rightarrow> bytes \<Rightarrow> nat \<Rightarrow> bytes option" where
  "mgf1_sha256 P seed mask_len = mgf1_loop P seed mask_len mask_len 0 []"

definition HLEN :: nat where "HLEN = 32"

text \<open>
  \<open>eme_oaep_encode\<close>: the two subtractions underflow (a panic) when the message does not fit the
  modulus.
\<close>

definition eme_oaep_encode :: "prims \<Rightarrow> nat \<Rightarrow> bytes \<Rightarrow> bytes \<Rightarrow> bytes res option" where
  "eme_oaep_encode P k msg seed =
     (if k < HLEN + 1 then Some (Inl Panic)
      else let l_hash = pr_sha256 P [];
               db_len = k - HLEN - 1
        in if db_len < HLEN + 1 + length msg then Some (Inl Panic)
           else let ps_len = db_len - HLEN - 1 - length msg;
                    db = l_hash @ zeros ps_len @ [0x01] @ msg
             in case mgf1_sha256 P seed db_len of
                  None \<Rightarrow> None
                | Some db_mask \<Rightarrow>
                    (let db = xor_bytes db db_mask
                     in case mgf1_sha256 P db HLEN of
                          None \<Rightarrow> None
                        | Some seed_mask \<Rightarrow>
                            (let masked_seed = xor_bytes seed seed_mask
                             in Some (Inr ([0x00] @ masked_seed @ db)))))"

definition oaep_encrypt_km :: "prims \<Rightarrow> bytes \<Rightarrow> bytes \<Rightarrow> bytes \<Rightarrow> bytes \<Rightarrow> bytes res option" where
  "oaep_encrypt_km P modulus exponent km seed =
     (case eme_oaep_encode P 128 km seed of
        None \<Rightarrow> None
      | Some (Inl e) \<Rightarrow> Some (Inl e)
      | Some (Inr em) \<Rightarrow> Some (rsa_pubkey_encrypt P modulus exponent em 128))"

definition compute_eks :: "prims \<Rightarrow> bytes \<Rightarrow> bytes \<Rightarrow> bytes \<Rightarrow> bytes \<Rightarrow> bytes \<Rightarrow> bytes" where
  "compute_eks P km rtx rrx rn ks =
     (let msk = derive_dkey P km rn rtx rrx 2;
          msk = xor8_at 8 rrx msk
      in map (\<lambda>i. ks ! i XOR msk ! i) [0..<16])"

section \<open>The userspace oracle (vino-hdcp kdf.rs)\<close>

definition v_derive_dkey :: "prims \<Rightarrow> bytes \<Rightarrow> bytes \<Rightarrow> bytes \<Rightarrow> bytes \<Rightarrow> u8 \<Rightarrow> bytes" where
  "v_derive_dkey P km rn rtx rrx n =
     (let counter = zeros 16;
          counter = put 0 rtx counter;
          counter = put 8 rrx counter;
          counter = xor_at 15 n counter;
          key = xor8_at 8 rn km
      in pr_aes P key counter)"

definition v_derive_kd :: "prims \<Rightarrow> bytes \<Rightarrow> bytes \<Rightarrow> bytes \<Rightarrow> bytes" where
  "v_derive_kd P km rtx rrx =
     (let rn = zeros 8;
          d0 = v_derive_dkey P km rn rtx rrx 0;
          d1 = v_derive_dkey P km rn rtx rrx 1;
          kd = zeros 32;
          kd = put 0 d0 kd
      in put 16 d1 kd)"

definition v_compute_h_simple :: "prims \<Rightarrow> bytes \<Rightarrow> bytes \<Rightarrow> u8 \<Rightarrow> bytes" where
  "v_compute_h_simple P kd rtx repeater = pr_hmac P kd (xor_at 7 repeater rtx)"

definition v_compute_l :: "prims \<Rightarrow> bytes \<Rightarrow> bytes \<Rightarrow> bytes \<Rightarrow> bytes" where
  "v_compute_l P kd rrx rn = pr_hmac P (xor8_at 24 rrx kd) rn"

definition ske_encrypt_ks :: "prims \<Rightarrow> bytes \<Rightarrow> bytes \<Rightarrow> bytes \<Rightarrow> bytes \<Rightarrow> bytes \<Rightarrow> bytes" where
  "ske_encrypt_ks P km rtx rrx rn ks =
     (let dkey2 = v_derive_dkey P km rn rtx rrx 2;
          msk = xor8_at 8 rrx dkey2
      in map (\<lambda>i. ks ! i XOR msk ! i) [0..<16])"

end
