(* ===== verification/Coldstart.thy ===== *)
theory Coldstart
  imports Ake Hdcp Seal
begin

text \<open>
  The cold engagement of the userspace rig (\<open>chimera/src/bin/coldstart.rs\<close>): session init, the
  HDCP AKE with its three verifications, the capability drain, and the encrypted set-up burst.
  The dock behind \<open>vino_driver::Dock\<close> is a script: what the n-th read returns (\<open>None\<close> for a
  timeout or transfer error), whether the n-th write is accepted, and the bytes of the random
  generator. Every run against an adaptive dock is a run against the script of what it did.
  Delays and log lines have no effect on the data and are left out.
\<close>

section \<open>The environment\<close>

record env =
  ev_read :: "nat \<Rightarrow> bytes option"
  ev_send_ok :: "nat \<Rightarrow> bool"
  ev_rand :: "nat \<Rightarrow> u8"

record rig =
  rg_reads :: nat
  rg_sends :: nat
  rg_rands :: nat
  rg_sent :: "bytes list"

definition rig_init :: rig where
  "rig_init = \<lparr>rg_reads = 0, rg_sends = 0, rg_rands = 0, rg_sent = []\<rparr>"

definition send_dlm :: "env \<Rightarrow> bytes \<Rightarrow> rig \<Rightarrow> bool \<times> rig" where
  "send_dlm E f s =
     (let ok = ev_send_ok E (rg_sends s)
      in (ok, s\<lparr>rg_sends := Suc (rg_sends s), rg_sent := (if ok then rg_sent s @ [f] else rg_sent s)\<rparr>))"

definition recv_dlm :: "env \<Rightarrow> rig \<Rightarrow> bytes option \<times> rig" where
  "recv_dlm E s = (ev_read E (rg_reads s), s\<lparr>rg_reads := Suc (rg_reads s)\<rparr>)"

definition rng_fill :: "env \<Rightarrow> nat \<Rightarrow> rig \<Rightarrow> bytes \<times> rig" where
  "rng_fill E n s = (map (ev_rand E) [rg_rands s..<rg_rands s + n], s\<lparr>rg_rands := rg_rands s + n\<rparr>)"

section \<open>Receiving\<close>

definition SUB_HDCP_RESP :: u16 where "SUB_HDCP_RESP = 0x25"

text \<open>The body of the read loop: the message a buffer carries, if it ends the loop.\<close>

definition hdcp_of_read :: "bytes option \<Rightarrow> (u8 \<times> bytes) option" where
  "hdcp_of_read r =
     (case r of
        None \<Rightarrow> None
      | Some buf \<Rightarrow>
          if length buf < 16 then None
          else if rd16 buf 8 \<noteq> SUB_HDCP_RESP then None
          else case ake_parse_in (drop 16 buf) of
                 None \<Rightarrow> None
               | Some (i, payload) \<Rightarrow> if i = 0 then None else Some (i, payload))"

fun recv_hdcp_loop :: "env \<Rightarrow> nat \<Rightarrow> rig \<Rightarrow> (u8 \<times> bytes) option \<times> rig" where
  "recv_hdcp_loop E 0 s = (None, s)"
| "recv_hdcp_loop E (Suc n) s =
     (let (r, s) = recv_dlm E s
      in case hdcp_of_read r of
           Some m \<Rightarrow> (Some m, s)
         | None \<Rightarrow> recv_hdcp_loop E n s)"

definition recv_hdcp :: "env \<Rightarrow> rig \<Rightarrow> (u8 \<times> bytes) option \<times> rig" where
  "recv_hdcp E s = recv_hdcp_loop E 24 s"

fun pace_loop :: "env \<Rightarrow> u16 \<Rightarrow> nat \<Rightarrow> rig \<Rightarrow> rig" where
  "pace_loop E want_ctr 0 s = s"
| "pace_loop E want_ctr (Suc n) s =
     (let (r, s) = recv_dlm E s
      in case r of
           None \<Rightarrow> s
         | Some buf \<Rightarrow>
             if length buf < 22 then pace_loop E want_ctr n s
             else if rd16 buf 8 = 0x25 \<and> rd16 buf 16 = 0x14 \<and> rd16 buf 20 = want_ctr then s
             else pace_loop E want_ctr n s)"

definition pace_cap_ack :: "env \<Rightarrow> u16 \<Rightarrow> rig \<Rightarrow> rig" where
  "pace_cap_ack E want_ctr s = pace_loop E want_ctr 8 s"

text \<open>
  \<open>wait_cap_complete\<close>: one round per unit of the first argument; the result is the pair of
  markers seen, and whether the loop ended before its budget.
\<close>

definition QUIET_GAP :: nat where "QUIET_GAP = 3"

fun cap_loop :: "env \<Rightarrow> nat \<Rightarrow> bool \<Rightarrow> bool \<Rightarrow> nat \<Rightarrow> rig \<Rightarrow> (bool \<times> bool \<times> bool) \<times> rig" where
  "cap_loop E 0 saw_0b saw_ready quiet s = ((saw_0b, saw_ready, False), s)"
| "cap_loop E (Suc n) saw_0b saw_ready quiet s =
     (let (r, s) = recv_dlm E s
      in case (case r of None \<Rightarrow> None | Some buf \<Rightarrow> if 20 \<le> length buf then Some buf else None) of
           Some buf \<Rightarrow>
             (let mid = (if 26 \<le> length buf then buf ! 25 else 0);
                  saw_0b = (saw_0b \<or> (rd16 buf 18 = 0x84 \<and> rd16 buf 16 = 0x0b));
                  saw_ready = (saw_ready \<or> (mid = REPEATERAUTH_STREAM_READY \<and> 58 \<le> length buf))
              in if saw_0b \<and> saw_ready then ((saw_0b, saw_ready, True), s)
                 else cap_loop E n saw_0b saw_ready 0 s)
         | None \<Rightarrow>
             (if saw_0b \<or> saw_ready
              then if QUIET_GAP \<le> Suc quiet then ((saw_0b, saw_ready, True), s)
                   else cap_loop E n saw_0b saw_ready (Suc quiet) s
              else cap_loop E n saw_0b saw_ready quiet s))"

definition wait_cap_complete :: "env \<Rightarrow> nat \<Rightarrow> rig \<Rightarrow> (bool \<times> bool \<times> bool) \<times> rig" where
  "wait_cap_complete E max_rounds s = cap_loop E max_rounds False False 0 s"

section \<open>The AKE\<close>

datatype ake_err =
  SendFailed u8 | NoResponse | BadMessage u8 | CryptoFailed | Mismatch u8

type_synonym ('e, 'a) act = "rig \<Rightarrow> ('e + 'a) \<times> rig"

definition ret :: "'a \<Rightarrow> ('e, 'a) act" where
  "ret a = (\<lambda>s. (Inr a, s))"

definition fail :: "'e \<Rightarrow> ('e, 'a) act" where
  "fail e = (\<lambda>s. (Inl e, s))"

definition bnd :: "('e, 'a) act \<Rightarrow> ('a \<Rightarrow> ('e, 'b) act) \<Rightarrow> ('e, 'b) act" where
  "bnd m f = (\<lambda>s. case m s of (Inl e, s') \<Rightarrow> (Inl e, s') | (Inr a, s') \<Rightarrow> f a s')"

definition send_or :: "env \<Rightarrow> u8 \<Rightarrow> bytes \<Rightarrow> (ake_err, unit) act" where
  "send_or E tag f = (\<lambda>s. case send_dlm E f s of
     (ok, s') \<Rightarrow> (if ok then Inr () else Inl (SendFailed tag), s'))"

definition recv_or :: "env \<Rightarrow> (ake_err, u8 \<times> bytes) act" where
  "recv_or E = (\<lambda>s. case recv_hdcp E s of
     (None, s') \<Rightarrow> (Inl NoResponse, s') | (Some m, s') \<Rightarrow> (Inr m, s'))"

definition rand_or :: "env \<Rightarrow> nat \<Rightarrow> ('e, bytes) act" where
  "rand_or E n = (\<lambda>s. case rng_fill E n s of (b, s') \<Rightarrow> (Inr b, s'))"

definition check :: "bool \<Rightarrow> 'e \<Rightarrow> ('e, unit) act" where
  "check b e = (if b then ret () else fail e)"

definition lift_rig :: "(rig \<Rightarrow> rig) \<Rightarrow> ('e, unit) act" where
  "lift_rig f = (\<lambda>s. (Inr (), f s))"

record session =
  ses_ks :: bytes
  ses_riv :: bytes

text \<open>(12) the repeater's receiver list, its acknowledgement and the stream management.\<close>

definition repeater_auth :: "prims \<Rightarrow> env \<Rightarrow> nat \<Rightarrow> bytes \<Rightarrow> (ake_err, unit) act" where
  "repeater_auth P E cap_rounds kd =
     bnd (recv_or E) (\<lambda>(vid, lst).
     bnd (check (vid = REPEATERAUTH_SEND_RECEIVERID_LIST \<and> 16 \<le> length lst) (BadMessage vid)) (\<lambda>_.
     let split = length lst - 16;
         v_full = compute_v_full P kd (take split lst);
         v_ack = drop 16 v_full
     in bnd (check (take 16 v_full = drop split lst) (Mismatch vid)) (\<lambda>_.
        bnd (send_or E REPEATERAUTH_SEND_ACK (repeater_auth_send_ack 6 0 v_ack)) (\<lambda>_.
        bnd (lift_rig (pace_cap_ack E 7)) (\<lambda>_.
        bnd (send_or E REPEATERAUTH_STREAM_MANAGE (repeater_auth_stream_manage 7 0 False)) (\<lambda>_.
        bnd (lift_rig (pace_cap_ack E 8)) (\<lambda>_.
        lift_rig (\<lambda>s. snd (wait_cap_complete E cap_rounds s)))))))))"

text \<open>(11) the session key exchange, then (12) for a repeater.\<close>

definition key_exchange ::
    "prims \<Rightarrow> env \<Rightarrow> nat \<Rightarrow> bool \<Rightarrow> bytes \<Rightarrow> bytes \<Rightarrow> bytes \<Rightarrow> bytes \<Rightarrow> bytes \<Rightarrow> (ake_err, session) act" where
  "key_exchange P E cap_rounds repeater km rtx rrx rn kd =
     bnd (rand_or E 16) (\<lambda>ks.
     bnd (rand_or E 8) (\<lambda>riv_ske.
     let edkey = compute_eks P km rtx rrx rn ks;
         out_riv = xor_at 7 0x01 riv_ske
     in bnd (send_or E SKE_SEND_EKS (ske_send_eks 5 0 edkey riv_ske)) (\<lambda>_.
        bnd (if repeater then repeater_auth P E cap_rounds kd else ret ()) (\<lambda>_.
        ret \<lparr>ses_ks = ks, ses_riv = out_riv\<rparr>))))"

text \<open>(6) to (10): the receiver's nonce, H', the pairing message and the locality check.\<close>

definition verify_receiver ::
    "prims \<Rightarrow> env \<Rightarrow> nat \<Rightarrow> bool \<Rightarrow> bytes \<Rightarrow> bytes \<Rightarrow> (ake_err, session) act" where
  "verify_receiver P E cap_rounds repeater km rtx =
     bnd (recv_or E) (\<lambda>(rid, rrx_pl).
     bnd (check (rid = AKE_SEND_RRX \<and> 8 \<le> length rrx_pl) (BadMessage rid)) (\<lambda>_.
     let rrx = take 8 rrx_pl
     in bnd (recv_or E) (\<lambda>(hid, hp).
        bnd (check (hid = AKE_SEND_H_PRIME \<and> 32 \<le> length hp) (BadMessage hid)) (\<lambda>_.
        let kd = derive_kd P km rtx rrx
        in bnd (check (compute_h P kd rtx repeater = take 32 hp) (Mismatch hid)) (\<lambda>_.
           bnd (recv_or E) (\<lambda>_.
           bnd (rand_or E 8) (\<lambda>rn.
           bnd (send_or E LC_INIT (lc_init 4 0 rn)) (\<lambda>_.
           bnd (recv_or E) (\<lambda>(lid, lp).
           bnd (check (lid = LC_SEND_L_PRIME \<and> 32 \<le> length lp) (BadMessage lid)) (\<lambda>_.
           bnd (check (compute_l P kd rrx rn = take 32 lp) (Mismatch lid)) (\<lambda>_.
           key_exchange P E cap_rounds repeater km rtx rrx rn kd)))))))))))"

definition run_ake :: "prims \<Rightarrow> env \<Rightarrow> nat \<Rightarrow> (ake_err, session) act" where
  "run_ake P E cap_rounds =
     bnd (rand_or E 8) (\<lambda>rtx.
     bnd (send_or E AKE_INIT (ake_init 1 0 rtx (zeros 3))) (\<lambda>_.
     bnd (recv_or E) (\<lambda>(cid, cert_msg).
     bnd (check (cid = AKE_SEND_CERT \<and> 1 + 136 \<le> length cert_msg) (BadMessage cid)) (\<lambda>_.
     let repeater = (cert_msg ! 0 \<noteq> 0);
         cert = drop 1 cert_msg;
         modulus = slice 5 128 cert;
         exponent = slice 133 3 cert
     in bnd (send_or E AKE_TRANSMITTER_INFO (ake_transmitter_info 2 0)) (\<lambda>_.
        bnd (recv_or E) (\<lambda>_.
        bnd (rand_or E 16) (\<lambda>km.
        bnd (rand_or E 32) (\<lambda>seed.
        case oaep_encrypt_km P modulus exponent km seed of
          Some (Inr ekpub) \<Rightarrow>
            bnd (send_or E AKE_NO_STORED_KM (ake_no_stored_km 3 0 ekpub)) (\<lambda>_.
            verify_receiver P E cap_rounds repeater km rtx)
        | _ \<Rightarrow> fail CryptoFailed))))))))"

section \<open>The encrypted set-up\<close>

definition STREAM_OPEN :: bytes where
  "STREAM_OPEN =
    [0x00, 0x00, 0x1c, 0x00, 0x02, 0x00, 0x00, 0x00, 0x24, 0x00, 0x00, 0x00, 0x00, 0x00, 0x00,
     0x00, 0x04, 0x00, 0x06, 0x00, 0x00, 0x00, 0x00, 0x00, 0x00, 0x00, 0x00, 0x00, 0x00, 0x00,
     0x00, 0x00, 0x00, 0x00, 0x1c, 0x00, 0x02, 0x00, 0x00, 0x00, 0x45, 0x00, 0x00, 0x00, 0x00,
     0x00, 0x00, 0x00, 0x05, 0x00, 0x0e, 0x00, 0x00, 0x00, 0x00, 0x00, 0x00, 0x00, 0x00, 0x00,
     0x00, 0x00, 0x00, 0x00]"

fun count_acks :: "env \<Rightarrow> nat \<Rightarrow> nat \<Rightarrow> rig \<Rightarrow> nat \<times> rig" where
  "count_acks E 0 acks s = (acks, s)"
| "count_acks E (Suc n) acks s =
     (let (r, s) = recv_dlm E s
      in case r of
           Some buf \<Rightarrow>
             if 16 \<le> length buf
             then count_acks E n (if rd16 buf 8 = 0x45 then Suc acks else acks) s
             else (acks, s)
         | None \<Rightarrow> (acks, s))"

text \<open>\<open>content\<close> of \<open>msg0\<close> and its wire header (\<open>seq\<close> 0).\<close>

definition msg0_content :: "bytes \<Rightarrow> bytes" where
  "msg0_content token =
     (let content = zeros 32;
          content = put 0 (le16 0x0014) content;
          content = put 4 (le32 8) content
      in put 22 token content)"

definition msg0_header :: "nat \<Rightarrow> bytes" where
  "msg0_header content_len =
     (let body_len = content_len + 16;
          sz = of_nat ((16 + body_len) - 4);
          aux = aux_for_id 0x14 body_len
      in cp_wire_header sz 0x24 aux 0)"

text \<open>Up to 40 tries, reading between two of them.\<close>

fun send_msg0 :: "env \<Rightarrow> bytes \<Rightarrow> nat \<Rightarrow> nat \<Rightarrow> rig \<Rightarrow> nat \<times> rig" where
  "send_msg0 E frame 0 acks s = (acks, s)"
| "send_msg0 E frame (Suc n) acks s =
     (let (ok, s) = send_dlm E frame s
      in if ok then (acks, s)
         else let (acks, s) = count_acks E 4 acks s in send_msg0 E frame n acks s)"

definition BURST :: "(u16 \<times> u16 \<times> u32 \<times> bytes) list" where
  "BURST = [(0x0014, 0x0030, 9, []), (0x0015, 0x000b, 10, [0x01]),
            (0x0016, 0x002a, 11, [0x00, 0x01]), (0x0016, 0x002a, 12, [0x01, 0x01])]"

definition burst_content :: "u16 \<Rightarrow> u16 \<Rightarrow> u32 \<Rightarrow> bytes \<Rightarrow> bytes \<Rightarrow> bytes" where
  "burst_content i sub ctr fixed_prefix rnd =
     (let c = zeros 32;
          c = put 0 (le16 i) c;
          c = put 2 (le16 sub) c;
          c = put 4 (le32 ctr) c;
          c = put 22 rnd c
      in put 22 fixed_prefix c)"

text \<open>All four frames are sealed before any is sent; a failed seal is skipped.\<close>

fun seal_burst ::
    "prims \<Rightarrow> env \<Rightarrow> session \<Rightarrow> u32 \<Rightarrow> (u16 \<times> u16 \<times> u32 \<times> bytes) list \<Rightarrow> rig \<Rightarrow> bytes list \<times> rig" where
  "seal_burst P E ses wseq [] s = ([], s)"
| "seal_burst P E ses wseq ((i, sub, ctr, fixed) # ms) s =
     (let (rnd, s) = rng_fill E 10 s;
          (fs, s') = seal_burst P E ses (wseq + 2) ms s
      in case seal_interactive P (ses_ks ses) (ses_riv ses) i wseq (burst_content i sub ctr fixed rnd) of
           Inr f \<Rightarrow> (f # fs, s')
         | Inl e \<Rightarrow> (fs, s'))"

fun send_all :: "env \<Rightarrow> bytes list \<Rightarrow> rig \<Rightarrow> rig" where
  "send_all E [] s = s"
| "send_all E (f # fs) s = send_all E fs (snd (send_dlm E f s))"

definition send_cp_setup :: "prims \<Rightarrow> env \<Rightarrow> session \<Rightarrow> rig \<Rightarrow> nat \<times> rig" where
  "send_cp_setup P E ses s =
     (let (ok, s) = send_dlm E STREAM_OPEN s
      in if \<not> ok then (0, s)
         else let (token, s) = rng_fill E 10 s;
                  content = msg0_content token
              in case seal_livemac P (ses_ks ses) (ses_riv ses) (msg0_header (length content)) content of
                   Inl e \<Rightarrow> (0, s)
                 | Inr frame \<Rightarrow>
                     (let (acks, s) = send_msg0 E frame 40 0 s;
                          (fs, s) = seal_burst P E ses 2 BURST s;
                          s = send_all E fs s;
                          (acks, s) = count_acks E 16 acks s
                      in count_acks E 16 acks s))"

text \<open>One whole attempt; the session-init answer is read and ignored.\<close>

definition run_session :: "prims \<Rightarrow> env \<Rightarrow> nat \<Rightarrow> rig \<Rightarrow> (bool \<times> nat) \<times> rig" where
  "run_session P E cap_rounds s =
     (let s = snd (send_dlm E init_0 s);
          s = snd (send_dlm E init_25 s);
          s = snd (send_dlm E init_4_probe s);
          s = snd (recv_dlm E s)
      in case run_ake P E cap_rounds s of
           (Inl e, s) \<Rightarrow> ((False, 0), s)
         | (Inr ses, s) \<Rightarrow>
             (let (acks, s) = send_cp_setup P E ses s in ((True, acks), s)))"

end
