(* ===== verification/HdcpLaws.thy ===== *)
theory HdcpLaws
  imports Hdcp
begin

text \<open>
  Laws of the key derivation: a contract both implementations meet (\<open>kdf\<close>), from which the
  receiver's recovery of the session key follows once; the mask generator's loop ends and
  computes RFC 8017's MGF1; and what OAEP and RSA wrap, the receiver unwraps.
\<close>

section \<open>One contract, two implementations\<close>

lemma length_xor8_at [simp]: "length (xor8_at off m b) = length b"
proof -
  have "length (foldl (\<lambda>b i. xor_at (off + i) (m ! i) b) b ns) = length b" for ns
    by (induction ns rule: rev_induct) simp_all
  then show ?thesis by (simp only: xor8_at_def)
qed

lemma xor8_at_twice: "xor8_at off m (xor8_at off m b) = b"
proof -
  have c: "xor_at (off + i) x (foldl (\<lambda>b i. xor_at (off + i) (m ! i) b) b ns) =
      foldl (\<lambda>b i. xor_at (off + i) (m ! i) b) (xor_at (off + i) x b) ns" if "i \<notin> set ns" for i x b ns
    using that by (induction ns arbitrary: b) (simp_all add: xor_at_commute)
  have "foldl (\<lambda>b i. xor_at (off + i) (m ! i) b) (foldl (\<lambda>b i. xor_at (off + i) (m ! i) b) b ns) ns = b"
    if "distinct ns" for ns b
    using that
  proof (induction ns arbitrary: b)
    case (Cons i ns)
    then show ?case using c [of i ns "m ! i" "xor_at (off + i) (m ! i) b"] by simp
  qed simp
  from this [of "[0..<8]"] show ?thesis by (simp only: xor8_at_def distinct_upt)
qed

text \<open>
  The contract of a key-derivation implementation: the AES inputs of \<open>dkey_n\<close>, the halves of
  \<open>kd\<close>, the verifiers' HMAC inputs and the mask of the session-key wrap.
\<close>

locale kdf =
  fixes P :: prims
    and dkey :: "bytes \<Rightarrow> bytes \<Rightarrow> bytes \<Rightarrow> bytes \<Rightarrow> u8 \<Rightarrow> bytes"
    and kd :: "bytes \<Rightarrow> bytes \<Rightarrow> bytes \<Rightarrow> bytes"
    and h :: "bytes \<Rightarrow> bytes \<Rightarrow> bool \<Rightarrow> bytes"
    and l :: "bytes \<Rightarrow> bytes \<Rightarrow> bytes \<Rightarrow> bytes"
    and eks :: "bytes \<Rightarrow> bytes \<Rightarrow> bytes \<Rightarrow> bytes \<Rightarrow> bytes \<Rightarrow> bytes"
  assumes dkey_law: "length rtx = 8 \<Longrightarrow> length rrx = 8 \<Longrightarrow>
      dkey km rn rtx rrx n = pr_aes P (xor8_at 8 rn km) (rtx @ xor_at 7 n rrx)"
    and kd_law: "prims_sized P \<Longrightarrow>
      kd km rtx rrx = dkey km (zeros 8) rtx rrx 0 @ dkey km (zeros 8) rtx rrx 1"
    and h_law: "h k rtx rep = pr_hmac P k (if rep then xor_at 7 1 rtx else xor_at 7 0 rtx)"
    and l_law: "l k rrx rn = pr_hmac P (xor8_at 24 rrx k) rn"
    and eks_law: "prims_sized P \<Longrightarrow> length ks = 16 \<Longrightarrow>
      eks km rtx rrx rn ks = xor_bytes ks (xor8_at 8 rrx (dkey km rn rtx rrx 2))"
begin

text \<open>A receiver that knows \<open>km\<close> and the nonces recovers the session key from \<open>Edkey(ks)\<close>.\<close>

lemma ks_recovered:
  assumes "prims_sized P" "length ks = 16" "length rtx = 8" "length rrx = 8"
  shows "xor_bytes (eks km rtx rrx rn ks) (xor8_at 8 rrx (dkey km rn rtx rrx 2)) = ks"
  using assms by (simp add: eks_law xor_bytes_cancel dkey_law)

lemma length_kd: "prims_sized P \<Longrightarrow> length rtx = 8 \<Longrightarrow> length rrx = 8 \<Longrightarrow> length (kd km rtx rrx) = 32"
  by (simp add: kd_law dkey_law)

end

lemma iv_bytes:
  assumes "length rtx = 8" "length rrx = 8"
  shows "xor_at 15 n (put 8 rrx (put 0 rtx (zeros 16))) = rtx @ xor_at 7 n rrx"
  using assms by (simp add: put_def zeros_def xor_at_def list_update_append nth_append)

lemma put_halves:
  "length a = 16 \<Longrightarrow> length b = 16 \<Longrightarrow> put 16 b (put 0 a (zeros 32)) = a @ b"
  by (simp add: put_def)

lemma xor_map16:
  "length ks = 16 \<Longrightarrow> length m = 16 \<Longrightarrow> map (\<lambda>i. ks ! i XOR m ! i) [0..<16] = xor_bytes ks m"
  by (rule xor_map_nth0)

interpretation kernel: kdf P "derive_dkey P" "derive_kd P" "compute_h P"
    "compute_l P" "compute_eks P" for P
  by unfold_locales (simp_all add: derive_dkey_def derive_kd_def compute_h_def compute_l_def compute_eks_def
      iv_bytes put_halves xor_map16 Let_def)

interpretation userspace: kdf P "v_derive_dkey P" "v_derive_kd P"
    "\<lambda>k rtx rep. v_compute_h_simple P k rtx (if rep then 1 else 0)" "v_compute_l P" "ske_encrypt_ks P" for P
  by unfold_locales (simp_all add: v_derive_dkey_def v_derive_kd_def v_compute_l_def
      v_compute_h_simple_def ske_encrypt_ks_def iv_bytes put_halves xor_map16 Let_def)

text \<open>The two implementations agree wherever both are used.\<close>

lemma kdf_agree:
  assumes "prims_sized P" "length rtx = 8" "length rrx = 8" "length ks = 16"
  shows "derive_kd P km rtx rrx = v_derive_kd P km rtx rrx"
    and "compute_h P k rtx rep = v_compute_h_simple P k rtx (if rep then 1 else 0)"
    and "compute_l P k rrx rn = v_compute_l P k rrx rn"
    and "compute_eks P km rtx rrx rn ks = ske_encrypt_ks P km rtx rrx rn ks"
  using assms by (simp_all add: kernel.kd_law userspace.kd_law kernel.dkey_law userspace.dkey_law
      kernel.l_law userspace.l_law kernel.eks_law userspace.eks_law
      compute_h_def v_compute_h_simple_def)

section \<open>The mask generator\<close>

text \<open>RFC 8017 B.2.1: the first bytes of the digests of the seed and the counters.\<close>

definition mgf_blocks :: "prims \<Rightarrow> bytes \<Rightarrow> nat \<Rightarrow> bytes" where
  "mgf_blocks P seed c = concat (map (\<lambda>i. pr_sha256 P (seed @ be32 (of_nat i))) [0..<c])"

definition mgf1 :: "prims \<Rightarrow> bytes \<Rightarrow> nat \<Rightarrow> bytes" where
  "mgf1 P seed n = take n (mgf_blocks P seed n)"

lemma length_mgf_blocks: "prims_sized P \<Longrightarrow> length (mgf_blocks P seed c) = 32 * c"
  by (induction c) (simp_all add: mgf_blocks_def)

lemma mgf_blocks_Suc:
  "mgf_blocks P seed (Suc c) = mgf_blocks P seed c @ pr_sha256 P (seed @ be32 (of_nat c))"
  by (simp add: mgf_blocks_def)

lemma mgf_blocks_prefix:
  "prims_sized P \<Longrightarrow> n \<le> 32 * c \<Longrightarrow> take n (mgf_blocks P seed (c + f)) = take n (mgf_blocks P seed c)"
  by (induction f) (simp_all add: mgf_blocks_Suc length_mgf_blocks)

lemma mgf1_loop_total:
  assumes "prims_sized P" "n \<le> 32 * (c + f)"
  shows "mgf1_loop P seed n f (of_nat c) (take n (mgf_blocks P seed c))
    = Some (take n (mgf_blocks P seed (c + f)))"
  using assms(2)
proof (induction f arbitrary: c)
  case 0
  then show ?case using assms(1) by (simp add: length_mgf_blocks)
next
  case (Suc f)
  show ?case
  proof (cases "32 * c < n")
    case True
    have "take n (mgf_blocks P seed c) @
        take (min 32 (n - 32 * c)) (pr_sha256 P (seed @ be32 (of_nat c)))
      = take n (mgf_blocks P seed (Suc c))"
      using True assms(1) by (simp add: mgf_blocks_Suc length_mgf_blocks min_def)
    with True Suc.IH [of "Suc c"] Suc.prems show ?thesis
      using assms(1) by (simp add: length_mgf_blocks Let_def add.commute)
  next
    case False
    then show ?thesis
      using assms(1) mgf_blocks_prefix [of P n c seed "Suc f"] by (simp add: length_mgf_blocks)
  qed
qed

lemma mgf1_total: "prims_sized P \<Longrightarrow> mgf1_sha256 P seed n = Some (mgf1 P seed n)"
  using mgf1_loop_total [of P n 0 n seed] by (simp add: mgf1_sha256_def mgf1_def mgf_blocks_def)

lemma length_mgf1 [simp]: "prims_sized P \<Longrightarrow> length (mgf1 P seed n) = n"
  by (simp add: mgf1_def length_mgf_blocks)

section \<open>OAEP\<close>

text \<open>
  The receiver's decoding (RFC 8017 7.1.2): unmask, check the leading zero, the label hash and
  the separator, and return the message.
\<close>

definition oaep_decode :: "prims \<Rightarrow> bytes \<Rightarrow> bytes option" where
  "oaep_decode P em =
     (let masked_seed = slice 1 32 em;
          masked_db = drop 33 em;
          seed = xor_bytes masked_seed (mgf1 P masked_db 32);
          db = xor_bytes masked_db (mgf1 P seed (length masked_db));
          rest = dropWhile ((=) 0) (drop 32 db)
      in if hd em = 0 \<and> take 32 db = pr_sha256 P [] \<and> rest \<noteq> [] \<and> hd rest = 1
         then Some (tl rest) else None)"

lemma eme_oaep_encode_decodes:
  assumes P: "prims_sized P" and k: "length msg + 66 \<le> k" and s: "length seed = 32"
  shows "\<exists>em. eme_oaep_encode P k msg seed = Some (Inr em) \<and> length em = k \<and> hd em = 0
    \<and> oaep_decode P em = Some msg"
proof -
  define db where "db = pr_sha256 P [] @ zeros (k - length msg - 66) @ [1] @ msg"
  define mdb where "mdb = xor_bytes db (mgf1 P seed (k - 33))"
  define ms where "ms = xor_bytes seed (mgf1 P mdb 32)"
  have len: "length db = k - 33" "length mdb = k - 33" "length ms = 32"
    using P k s by (simp_all add: db_def mdb_def ms_def)
  have e: "k - 32 - 1 = k - 33" "k - 33 - 32 - 1 - length msg = k - length msg - 66"
    "\<not> k < 32 + 1" "\<not> k - 33 < 32 + 1 + length msg"
    using k by simp_all
  have enc: "eme_oaep_encode P k msg seed = Some (Inr ([0] @ ms @ mdb))"
    unfolding eme_oaep_encode_def Let_def HLEN_def
    by (simp only: e if_False db_def [symmetric] mgf1_total [OF P] option.case mdb_def [symmetric]
        ms_def [symmetric])
  have dw: "dropWhile ((=) 0) (zeros n @ [1] @ msg) = [1] @ msg" for n
    by (induction n) (simp_all add: zeros_def)
  have "xor_bytes ms (mgf1 P mdb 32) = seed" "xor_bytes mdb (mgf1 P seed (length mdb)) = db"
    using P len s by (simp_all add: ms_def mdb_def xor_bytes_cancel)
  then have "oaep_decode P ([0] @ ms @ mdb) = Some msg"
    using len P dw by (simp add: oaep_decode_def Let_def slice_def db_def)
  then show ?thesis using enc len k by auto
qed

section \<open>Raw RSA\<close>

lemma from_bytes_be_append: "from_bytes_be (xs @ ys) = from_bytes_be xs * 256 ^ length ys + from_bytes_be ys"
proof (induction ys rule: rev_induct)
  case (snoc y ys)
  then show ?case
    unfolding from_bytes_be_def append_assoc [symmetric]
    by (simp add: algebra_simps from_bytes_be_def)
qed (simp add: from_bytes_be_def)

lemma from_bytes_be_zeros [simp]: "from_bytes_be (replicate n 0) = 0"
  by (induction n) (simp_all add: from_bytes_be_def)

lemma from_bytes_be_less: "from_bytes_be xs < 256 ^ length xs"
proof (induction xs rule: rev_induct)
  case (snoc x xs)
  have "from_bytes_be (xs @ [x]) = from_bytes_be xs * 256 + unat x"
    by (simp add: from_bytes_be_def)
  also have "\<dots> < (from_bytes_be xs + 1) * 256"
    using unat8_less [of x] by simp
  also have "\<dots> \<le> 256 ^ length xs * 256"
    using snoc by (intro mult_le_mono1) simp
  finally show ?case by (simp add: mult.commute)
qed (simp add: from_bytes_be_def)

lemma digits_be_value: "from_bytes_be (digits_be n) = n"
proof (induction n rule: digits_be.induct)
  case (1 n)
  then show ?case
    by (subst digits_be.simps) (simp add: from_bytes_be_append,
      simp add: from_bytes_be_def unat_of_nat8)
qed

lemma digits_be_length: "n < 256 ^ k \<Longrightarrow> length (digits_be n) \<le> k"
proof (induction n arbitrary: k rule: digits_be.induct)
  case (1 n)
  show ?case
  proof (cases "n = 0")
    case False
    with "1.prems" obtain j where k: "k = Suc j" by (cases k) auto
    have "n div 256 < 256 ^ j"
      using "1.prems" by (simp add: k div_less_iff_less_mult mult.commute)
    with "1.IH" [OF False] False show ?thesis
      by (subst digits_be.simps) (simp add: k)
  qed (subst digits_be.simps, simp)
qed

lemma from_bytes_be_inj:
  "length xs = length ys \<Longrightarrow> from_bytes_be xs = from_bytes_be ys \<Longrightarrow> xs = ys"
proof (induction xs arbitrary: ys rule: rev_induct)
  case (snoc x xs)
  then obtain zs y where ys: "ys = zs @ [y]" by (cases ys rule: rev_cases) auto
  have "from_bytes_be xs * 256 + unat x = from_bytes_be zs * 256 + unat y"
    using snoc.prems by (simp add: ys from_bytes_be_def)
  from arg_cong [OF this, of "\<lambda>n. n mod 256"] arg_cong [OF this, of "\<lambda>n. n div 256"]
  have "unat x = unat y \<and> from_bytes_be xs = from_bytes_be zs"
    using unat8_less [of x] unat8_less [of y] by simp
  then show ?case using snoc.IH [of zs] snoc.prems by (simp add: ys word_unat_eq_iff)
qed simp

text \<open>The ciphertext always fills the caller's buffer and has the value of the power.\<close>

lemma rsa_pubkey_encrypt_value:
  assumes "pr_modpow P (from_bytes_be m) (from_bytes_be e) (from_bytes_be n) < 256 ^ k" "0 < k"
  shows "\<exists>c. rsa_pubkey_encrypt P n e m k = Inr c \<and> length c = k
    \<and> from_bytes_be c = pr_modpow P (from_bytes_be m) (from_bytes_be e) (from_bytes_be n)"
proof -
  let ?v = "pr_modpow P (from_bytes_be m) (from_bytes_be e) (from_bytes_be n)"
  have l: "length (to_bytes_be ?v) \<le> k"
    using digits_be_length [OF assms(1)] assms(2) by (simp add: to_bytes_be_def)
  have "from_bytes_be (to_bytes_be ?v) = ?v"
    by (simp add: to_bytes_be_def digits_be_value) (simp add: from_bytes_be_def)
  then show ?thesis
    using l by (simp add: rsa_pubkey_encrypt_def Let_def from_bytes_be_append)
qed

text \<open>The dock's side: raise to the private exponent, to 128 bytes, decode.\<close>

definition dock_unwrap_km :: "prims \<Rightarrow> nat \<Rightarrow> nat \<Rightarrow> bytes \<Rightarrow> bytes option" where
  "dock_unwrap_km P n d c =
     (let m = pr_modpow P (from_bytes_be c) d n; bs = to_bytes_be m
      in oaep_decode P (replicate (128 - length bs) 0 @ bs))"

lemma to_128_inverse:
  assumes "length em = 128"
  shows "replicate (128 - length (to_bytes_be (from_bytes_be em))) 0 @ to_bytes_be (from_bytes_be em) = em"
proof (rule from_bytes_be_inj)
  let ?bs = "to_bytes_be (from_bytes_be em)"
  have "length ?bs \<le> 128"
    using digits_be_length [OF from_bytes_be_less [of em]] assms by (simp add: to_bytes_be_def)
  then show "length (replicate (128 - length ?bs) 0 @ ?bs) = length em"
    using assms by simp
  show "from_bytes_be (replicate (128 - length ?bs) 0 @ ?bs) = from_bytes_be em"
    by (simp add: from_bytes_be_append to_bytes_be_def digits_be_value)
      (simp add: from_bytes_be_def)
qed

lemma km_reaches_dock_lemma:
  assumes "prims_sized P" "length km = 16" "length seed = 32" "length modulus = 128"
    "hd modulus \<noteq> 0"
    "\<forall>m < from_bytes_be modulus. pr_modpow P m (from_bytes_be exponent) (from_bytes_be modulus) < from_bytes_be modulus
      \<and> pr_modpow P (pr_modpow P m (from_bytes_be exponent) (from_bytes_be modulus)) d (from_bytes_be modulus) = m"
  shows "\<exists>c. oaep_encrypt_km P modulus exponent km seed = Some (Inr c) \<and> length c = 128
    \<and> dock_unwrap_km P (from_bytes_be modulus) d c = Some km"
proof -
  let ?n = "from_bytes_be modulus"
  obtain em where em: "eme_oaep_encode P 128 km seed = Some (Inr em)" "length em = 128" "hd em = 0"
    "oaep_decode P em = Some km"
    using eme_oaep_encode_decodes [of P km 128 seed] assms(1-3) by auto
  obtain ms where ms: "em = 0 # ms" "length ms = 127"
    using em(2,3) by (cases em) auto
  obtain x xs where mo: "modulus = x # xs" "length xs = 127" "x \<noteq> 0"
    using assms(4,5) by (cases modulus) auto
  have "from_bytes_be em = from_bytes_be ms"
    using from_bytes_be_append [of "[0]" ms] ms by (simp add: from_bytes_be_def [of "[0]"])
  also have "\<dots> < 256 ^ 127"
    using from_bytes_be_less [of ms] ms by simp
  also have "\<dots> \<le> ?n"
  proof -
    have "1 \<le> unat x" using mo(3) by (simp add: word_unat_eq_iff Suc_le_eq)
    then have "1 * 256 ^ 127 \<le> unat x * 256 ^ 127" by (rule mult_le_mono1)
    moreover have "?n = unat x * 256 ^ 127 + from_bytes_be xs"
      using from_bytes_be_append [of "[x]" xs] mo by (simp add: from_bytes_be_def [of "[x]"])
    ultimately show ?thesis by linarith
  qed
  finally have lt: "from_bytes_be em < ?n" .
  define c where "c = pr_modpow P (from_bytes_be em) (from_bytes_be exponent) ?n"
  have c: "c < ?n" "pr_modpow P c d ?n = from_bytes_be em"
    using assms(6) lt by (simp_all add: c_def)
  have "c < 256 ^ 128"
    using c(1) from_bytes_be_less [of modulus] assms(4) by simp
  then obtain ct where ct: "rsa_pubkey_encrypt P modulus exponent em 128 = Inr ct" "length ct = 128"
    "from_bytes_be ct = c"
    using rsa_pubkey_encrypt_value [of P em exponent modulus 128] by (auto simp: c_def)
  have "dock_unwrap_km P ?n d ct = Some km"
    using c(2) ct(3) to_128_inverse [OF em(2)] em(4)
    by (simp only: dock_unwrap_km_def Let_def)
  with em(1) ct show ?thesis by (simp add: oaep_encrypt_km_def)
qed

text \<open>
  C29. The master key reaches the dock: the mask generator's loops end, no panic occurs, and the
  128 bytes \<open>oaep_encrypt_km\<close> produces under a public key are unwrapped to \<open>km\<close> by the holder of
  the private exponent, for every 32-byte seed, every 16-byte key and every 1024-bit modulus
  whose exponents are inverse to each other.
\<close>

theorem km_reaches_dock:
  assumes "prims_sized P" "length km = 16" "length seed = 32" "length modulus = 128"
    "hd modulus \<noteq> 0"
    "\<forall>m < from_bytes_be modulus. pr_modpow P m (from_bytes_be exponent) (from_bytes_be modulus) < from_bytes_be modulus
      \<and> pr_modpow P (pr_modpow P m (from_bytes_be exponent) (from_bytes_be modulus)) d (from_bytes_be modulus) = m"
  shows "\<exists>c. oaep_encrypt_km P modulus exponent km seed = Some (Inr c) \<and> length c = 128
    \<and> dock_unwrap_km P (from_bytes_be modulus) d c = Some km"
  using assms by (rule km_reaches_dock_lemma)

theorem km_reaches_dock_witness:
  "\<exists>c. oaep_encrypt_km toy_prims (replicate 128 255) [1] (replicate 16 7) (zeros 32) = Some (Inr c)
     \<and> dock_unwrap_km toy_prims (from_bytes_be (replicate 128 255)) 1 c = Some (replicate 16 7)"
proof -
  have e: "from_bytes_be [1] = 1" by (simp add: from_bytes_be_def)
  have "\<exists>c. oaep_encrypt_km toy_prims (replicate 128 255) [1] (replicate 16 7) (zeros 32) = Some (Inr c)
      \<and> length c = 128
      \<and> dock_unwrap_km toy_prims (from_bytes_be (replicate 128 255)) 1 c = Some (replicate 16 7)"
    by (rule km_reaches_dock [OF toy_prims_sized])
      (simp_all add: e, simp_all add: toy_prims_def)
  then show ?thesis by blast
qed

end
