(* ===== verification/ColdstartLaws.thy ===== *)
theory ColdstartLaws
  imports Coldstart HdcpLaws SealLaws
begin

text \<open>
  Laws of the cold engagement: the loops over the dock's replies read a bounded number of them
  and stop as soon as they may, a session is returned only after every verifier of the receiver
  matched, and against an honest receiver the exchange always completes with a shared key.
\<close>

section \<open>Actions\<close>

text \<open>
  \<open>on_ok m s Q\<close>: if the action succeeds from \<open>s\<close>, its result and final state satisfy \<open>Q\<close>. One
  rule per action, applied by \<open>intro\<close>.
\<close>

definition on_ok :: "('e, 'a) act \<Rightarrow> rig \<Rightarrow> ('a \<Rightarrow> rig \<Rightarrow> bool) \<Rightarrow> bool" where
  "on_ok m s Q \<longleftrightarrow> (\<forall>a s'. m s = (Inr a, s') \<longrightarrow> Q a s')"

named_theorems on_ok_rules

lemma on_ok_bnd [on_ok_rules]: "on_ok m s (\<lambda>a s1. on_ok (f a) s1 Q) \<Longrightarrow> on_ok (bnd m f) s Q"
  by (auto simp: on_ok_def bnd_def split: prod.splits sum.splits)

lemma on_ok_send [on_ok_rules]:
  "Q () (s\<lparr>rg_sends := Suc (rg_sends s), rg_sent := rg_sent s @ [f]\<rparr>) \<Longrightarrow> on_ok (send_or E t f) s Q"
  by (auto simp: on_ok_def send_or_def send_dlm_def Let_def)

lemma on_ok_check [on_ok_rules]: "(b \<Longrightarrow> Q () s) \<Longrightarrow> on_ok (check b e) s Q"
  by (auto simp: on_ok_def check_def ret_def fail_def)

lemma on_ok_ret [on_ok_rules]: "Q a s \<Longrightarrow> on_ok (ret a) s Q"
  by (auto simp: on_ok_def ret_def)

lemma on_ok_fail [on_ok_rules]: "on_ok (fail e) s Q"
  by (simp add: on_ok_def fail_def)

lemma on_ok_lift [on_ok_rules]: "Q () (f s) \<Longrightarrow> on_ok (lift_rig f) s Q"
  by (auto simp: on_ok_def lift_rig_def)

lemma on_ok_prod [on_ok_rules]:
  "(\<And>a b. p = (a, b) \<Longrightarrow> on_ok (f a b) s Q) \<Longrightarrow> on_ok (case p of (a, b) \<Rightarrow> f a b) s Q"
  by (cases p) auto

lemma on_ok_if [on_ok_rules]:
  "(b \<Longrightarrow> on_ok m s Q) \<Longrightarrow> (\<not> b \<Longrightarrow> on_ok m' s Q) \<Longrightarrow> on_ok (if b then m else m') s Q"
  by auto

lemma on_ok_result [on_ok_rules]:
  "(\<And>c. r = Some (Inr c) \<Longrightarrow> on_ok (f c) s Q) \<Longrightarrow>
     on_ok (case r of Some (Inr c) \<Rightarrow> f c | _ \<Rightarrow> fail e) s Q"
  by (auto simp: on_ok_fail split: option.split sum.split)

lemma on_ok_mono: "on_ok m s Q \<Longrightarrow> (\<And>a s'. Q a s' \<Longrightarrow> R a s') \<Longrightarrow> on_ok m s R"
  by (auto simp: on_ok_def)

text \<open>Random bytes are those at the generator's position.\<close>

definition rnd :: "env \<Rightarrow> nat \<Rightarrow> nat \<Rightarrow> bytes" where
  "rnd E off n = map (ev_rand E) [off..<off + n]"

lemma length_rnd [simp]: "length (rnd E off n) = n"
  by (simp add: rnd_def)

lemma on_ok_rand [on_ok_rules]:
  "Q (rnd E (rg_rands s) n) (s\<lparr>rg_rands := rg_rands s + n\<rparr>) \<Longrightarrow> on_ok (rand_or E n) s Q"
  by (auto simp: on_ok_def rand_or_def rng_fill_def rnd_def)

text \<open>The message the n-th read carries.\<close>

definition hdcp_read :: "env \<Rightarrow> nat \<Rightarrow> (u8 \<times> bytes) option" where
  "hdcp_read E i = hdcp_of_read (ev_read E i)"

lemma recv_hdcp_loop_Some:
  "recv_hdcp_loop E n s = (Some m, s') \<Longrightarrow>
     \<exists>i. rg_reads s \<le> i \<and> i < rg_reads s + n \<and> hdcp_read E i = Some m \<and> s' = s\<lparr>rg_reads := Suc i\<rparr>"
proof (induction n arbitrary: s)
  case (Suc n)
  show ?case
  proof (cases "hdcp_of_read (ev_read E (rg_reads s))")
    case None
    with Suc.prems obtain i where "Suc (rg_reads s) \<le> i" "i < Suc (rg_reads s) + n"
      "hdcp_read E i = Some m" "s' = s\<lparr>rg_reads := Suc i\<rparr>"
      using Suc.IH [of "s\<lparr>rg_reads := Suc (rg_reads s)\<rparr>"] by (auto simp: recv_dlm_def)
    then show ?thesis by (intro exI [of _ i]) auto
  next
    case (Some x)
    with Suc.prems show ?thesis
      by (intro exI [of _ "rg_reads s"]) (auto simp: recv_dlm_def hdcp_read_def)
  qed
qed simp

lemma on_ok_recv [on_ok_rules]:
  "(\<And>m i. rg_reads s \<le> i \<Longrightarrow> hdcp_read E i = Some m \<Longrightarrow> Q m (s\<lparr>rg_reads := Suc i\<rparr>)) \<Longrightarrow>
     on_ok (recv_or E) s Q"
  by (auto simp: on_ok_def recv_or_def recv_hdcp_def split: prod.splits option.splits
      dest!: recv_hdcp_loop_Some)

lemma recv_or_now:
  "hdcp_read E (rg_reads s) = Some m \<Longrightarrow> recv_or E s = (Inr m, s\<lparr>rg_reads := Suc (rg_reads s)\<rparr>)"
  by (simp add: recv_or_def recv_hdcp_def recv_dlm_def hdcp_read_def numeral_eq_Suc)

section \<open>The loops\<close>

text \<open>
  The pacing and the capability drain return after at most 8 and \<open>max_rounds\<close> reads, whatever
  the dock sends, and consume nothing but reads.
\<close>

lemma pace_loop_reads:
  "\<exists>k \<le> n. pace_loop E c n s = s\<lparr>rg_reads := rg_reads s + k\<rparr>"
proof (induction n arbitrary: s)
  case (Suc n)
  obtain k where k: "k \<le> n" "pace_loop E c n (s\<lparr>rg_reads := Suc (rg_reads s)\<rparr>) =
      s\<lparr>rg_reads := Suc (rg_reads s) + k\<rparr>"
    using Suc [of "s\<lparr>rg_reads := Suc (rg_reads s)\<rparr>"] by auto
  have "pace_loop E c (Suc n) s = s\<lparr>rg_reads := Suc (rg_reads s)\<rparr>
      \<or> pace_loop E c (Suc n) s = pace_loop E c n (s\<lparr>rg_reads := Suc (rg_reads s)\<rparr>)"
    by (auto simp: recv_dlm_def split: option.splits)
  then show ?case
    using k by (elim disjE) (auto intro: exI [of _ 1] exI [of _ "Suc k"])
qed (auto intro: exI [of _ 0])

lemma cap_loop_reads:
  "\<exists>k \<le> n. \<exists>r. cap_loop E n a b q s = (r, s\<lparr>rg_reads := rg_reads s + k\<rparr>)"
proof (induction n arbitrary: a b q s)
  case (Suc n)
  let ?s = "s\<lparr>rg_reads := Suc (rg_reads s)\<rparr>"
  have "(\<exists>r. cap_loop E (Suc n) a b q s = (r, ?s))
      \<or> (\<exists>a' b' q'. cap_loop E (Suc n) a b q s = cap_loop E n a' b' q' ?s)"
    by (simp only: cap_loop.simps recv_dlm_def Let_def split_conv split: option.split if_split) blast
  then show ?case
  proof (elim exE disjE)
    fix r assume "cap_loop E (Suc n) a b q s = (r, ?s)"
    then show ?thesis
      by (intro exI [of _ 1] exI [of _ r] conjI) (simp_all del: cap_loop.simps)
  next
    fix a' b' q' assume c: "cap_loop E (Suc n) a b q s = cap_loop E n a' b' q' ?s"
    obtain k r where "k \<le> n" "cap_loop E n a' b' q' ?s = (r, ?s\<lparr>rg_reads := rg_reads ?s + k\<rparr>)"
      using Suc [of a' b' q' ?s] by auto
    then show ?thesis
      unfolding c by (intro exI [of _ "Suc k"] exI [of _ r] conjI) (simp_all del: cap_loop.simps)
  qed
qed (auto intro!: exI [of _ 0])

text \<open>The drain ends at the read that completes the two markers.\<close>

lemma cap_loop_both:
  assumes "ev_read E (rg_reads s) = Some buf" "58 \<le> length buf" "rd16 buf 18 = 0x84" "rd16 buf 16 = 0x0b"
    "buf ! 25 = REPEATERAUTH_STREAM_READY \<or> saw_ready"
  shows "cap_loop E (Suc n) a saw_ready q s = ((True, True, True), s\<lparr>rg_reads := Suc (rg_reads s)\<rparr>)"
  using assms by (auto simp: recv_dlm_def Let_def)

text \<open>After a marker, three silent reads end it.\<close>

lemma cap_loop_quiet:
  assumes "\<forall>k < 3. ev_read E (rg_reads s + k) = None" "a \<or> b"
  shows "cap_loop E (Suc (Suc (Suc n))) a b 0 s = ((a, b, True), s\<lparr>rg_reads := rg_reads s + 3\<rparr>)"
proof -
  have "ev_read E (rg_reads s) = None" "ev_read E (Suc (rg_reads s)) = None"
    "ev_read E (Suc (Suc (rg_reads s))) = None"
    using assms(1) [rule_format, of 0] assms(1) [rule_format, of 1] assms(1) [rule_format, of 2]
    by simp_all
  then show ?thesis using assms(2) by (simp add: recv_dlm_def QUIET_GAP_def eval_nat_numeral)
qed

section \<open>Safety: a session only after every verification\<close>

text \<open>What the receiver list proves: its last 16 bytes are V' of the rest.\<close>

definition v_verified :: "prims \<Rightarrow> env \<Rightarrow> bytes \<Rightarrow> nat \<Rightarrow> bool" where
  "v_verified P E kd i \<longleftrightarrow> (\<exists>j lst. i \<le> j
     \<and> hdcp_read E j = Some (REPEATERAUTH_SEND_RECEIVERID_LIST, lst) \<and> 16 \<le> length lst
     \<and> take 16 (compute_v_full P kd (take (length lst - 16) lst)) = drop (length lst - 16) lst)"

lemma repeater_auth_verifies:
  "on_ok (repeater_auth P E n kd) s (\<lambda>_ _. v_verified P E kd (rg_reads s))"
  unfolding repeater_auth_def Let_def
  by (intro on_ok_rules) (auto simp: v_verified_def)

lemma key_exchange_verifies:
  "on_ok (key_exchange P E n rep km rtx rrx rn kd) s (\<lambda>ses _.
     ses = \<lparr>ses_ks = rnd E (rg_rands s) 16, ses_riv = xor_at 7 1 (rnd E (rg_rands s + 16) 8)\<rparr>
     \<and> (if rep then v_verified P E kd (rg_reads s) else True))"
  unfolding key_exchange_def Let_def
  by (intro on_ok_rules on_ok_mono [OF repeater_auth_verifies]) auto

definition receiver_verified ::
    "prims \<Rightarrow> env \<Rightarrow> bool \<Rightarrow> bytes \<Rightarrow> bytes \<Rightarrow> nat \<Rightarrow> nat \<Rightarrow> bool" where
  "receiver_verified P E repeater km rtx i r \<longleftrightarrow> (\<exists>j1 j2 j3 rp hp lp.
     i \<le> j1 \<and> j1 < j2 \<and> j2 < j3
     \<and> hdcp_read E j1 = Some (AKE_SEND_RRX, rp) \<and> 8 \<le> length rp
     \<and> hdcp_read E j2 = Some (AKE_SEND_H_PRIME, hp)
     \<and> hdcp_read E j3 = Some (LC_SEND_L_PRIME, lp)
     \<and> (let rrx = take 8 rp; kd = derive_kd P km rtx rrx; rn = rnd E r 8
        in take 32 hp = compute_h P kd rtx repeater \<and> take 32 lp = compute_l P kd rrx rn
           \<and> (if repeater then v_verified P E kd (Suc j3) else True)))"

lemma verify_receiver_verifies:
  "on_ok (verify_receiver P E n rep km rtx) s (\<lambda>ses _.
     receiver_verified P E rep km rtx (rg_reads s) (rg_rands s)
     \<and> ses = \<lparr>ses_ks = rnd E (rg_rands s + 8) 16, ses_riv = xor_at 7 1 (rnd E (rg_rands s + 24) 8)\<rparr>)"
  unfolding verify_receiver_def Let_def
proof (intro on_ok_rules on_ok_mono [OF key_exchange_verifies], goal_cases)
  case (1 m1 j1 a1 rp m2 j2 a2 hp m3 j m4 j3 a4 lp ses s')
  show ?case
    unfolding receiver_verified_def Let_def
    by (intro conjI, rule exI [of _ j1], rule exI [of _ j2], rule exI [of _ j3],
      rule exI [of _ rp], rule exI [of _ hp], rule exI [of _ lp])
      (use 1 in \<open>auto simp: add.commute\<close>)
qed

text \<open>
  C2. No session without authentication: whatever the dock sends, in whatever order and with
  whatever errors, if the AKE returns a session then the dock's messages contained, in this
  order, a certificate, a nonce, an H' and an L' equal to the values computed from the fresh
  random bytes of this run, and for a repeater a receiver list whose trailer is V'; the session
  holds the fresh \<open>ks\<close> and the delivered nonce with bit 0 of byte 7 flipped.
\<close>

theorem ake_authenticates:
  assumes "run_ake P E n s = (Inr ses, s')"
  shows "\<exists>i cert. rg_reads s \<le> i \<and> hdcp_read E i = Some (AKE_SEND_CERT, cert) \<and> 137 \<le> length cert
    \<and> receiver_verified P E (cert ! 0 \<noteq> 0) (rnd E (rg_rands s + 8) 16) (rnd E (rg_rands s) 8)
        (Suc i) (rg_rands s + 56)
    \<and> ses = \<lparr>ses_ks = rnd E (rg_rands s + 64) 16, ses_riv = xor_at 7 1 (rnd E (rg_rands s + 80) 8)\<rparr>"
proof -
  have mono: "receiver_verified P E rep km rtx j r" if "receiver_verified P E rep km rtx j' r" "j \<le> j'"
    for rep km rtx j j' r
    using that unfolding receiver_verified_def by (meson order_trans)
  have "on_ok (run_ake P E n) s (\<lambda>ses _. \<exists>i cert. rg_reads s \<le> i
      \<and> hdcp_read E i = Some (AKE_SEND_CERT, cert) \<and> 137 \<le> length cert
      \<and> receiver_verified P E (cert ! 0 \<noteq> 0) (rnd E (rg_rands s + 8) 16) (rnd E (rg_rands s) 8)
          (Suc i) (rg_rands s + 56)
      \<and> ses = \<lparr>ses_ks = rnd E (rg_rands s + 64) 16, ses_riv = xor_at 7 1 (rnd E (rg_rands s + 80) 8)\<rparr>)"
    unfolding run_ake_def Let_def
  proof (intro on_ok_rules on_ok_mono [OF verify_receiver_verifies], goal_cases)
    case (1 m i a cert m2 j ek ses s')
    have "Suc i \<le> Suc j" using 1 by simp
    show ?case
      by (rule exI [of _ i], rule exI [of _ cert])
        (use 1 \<open>Suc i \<le> Suc j\<close> in \<open>auto intro: mono simp: add.commute\<close>)
  qed
  with assms show ?thesis by (simp add: on_ok_def)
qed

section \<open>Liveness: an honest receiver is always engaged\<close>

lemma run_bnd: "m s = (Inr a, s1) \<Longrightarrow> bnd m f s = f a s1"
  by (simp add: bnd_def)

lemma run_send:
  "\<forall>i. ev_send_ok E i \<Longrightarrow> send_or E t f s =
     (Inr (), s\<lparr>rg_sends := Suc (rg_sends s), rg_sent := rg_sent s @ [f]\<rparr>)"
  by (simp add: send_or_def send_dlm_def Let_def)

lemma run_rand: "rand_or E n s = (Inr (rnd E (rg_rands s) n), s\<lparr>rg_rands := rg_rands s + n\<rparr>)"
  by (simp add: rand_or_def rng_fill_def rnd_def)

lemma run_check: "b \<Longrightarrow> check b e s = (Inr (), s)"
  by (simp add: check_def ret_def)

lemma run_ret: "ret a s = (Inr a, s)"
  by (simp add: ret_def)

lemma run_lift: "lift_rig f s = (Inr (), f s)"
  by (simp add: lift_rig_def)

lemmas runs = run_bnd run_send run_rand run_check run_ret run_lift recv_or_now

lemma repeater_auth_runs:
  assumes ok: "\<forall>i. ev_send_ok E i"
    and l: "hdcp_read E (rg_reads s) = Some (REPEATERAUTH_SEND_RECEIVERID_LIST, lst)" "16 \<le> length lst"
    and v: "take 16 (compute_v_full P kd (take (length lst - 16) lst)) = drop (length lst - 16) lst"
  shows "\<exists>s'. repeater_auth P E n kd s = (Inr (), s') \<and> rg_sent s' = rg_sent s @
    [repeater_auth_send_ack 6 0 (drop 16 (compute_v_full P kd (take (length lst - 16) lst))),
     repeater_auth_stream_manage 7 0 False]"
proof -
  have pace: "rg_sent (pace_cap_ack E c r) = rg_sent r" for c r
    using pace_loop_reads [of 8 E c r] by (auto simp: pace_cap_ack_def)
  have capw: "rg_sent (snd (wait_cap_complete E n r)) = rg_sent r" for r
    using cap_loop_reads [of n E False False 0 r] by (auto simp: wait_cap_complete_def)
  show ?thesis
    using assms by (simp add: repeater_auth_def Let_def runs pace capw)
qed

text \<open>
  An honest dock with the private exponent \<open>d\<close>: it answers in the order of the protocol, and
  computes H', L' and V' from the master key it unwraps from the message it received.
\<close>

definition ekpub_of :: "prims \<Rightarrow> env \<Rightarrow> nat \<Rightarrow> bytes \<Rightarrow> bytes" where
  "ekpub_of P E r cert = projr (the (oaep_encrypt_km P (slice 5 128 (drop 1 cert))
     (slice 133 3 (drop 1 cert)) (rnd E (r + 8) 16) (rnd E (r + 24) 32)))"

definition dock_km :: "prims \<Rightarrow> env \<Rightarrow> nat \<Rightarrow> nat \<Rightarrow> bytes \<Rightarrow> bytes" where
  "dock_km P E r d cert =
     the (dock_unwrap_km P (from_bytes_be (slice 5 128 (drop 1 cert))) d (ekpub_of P E r cert))"

definition honest_dock :: "prims \<Rightarrow> env \<Rightarrow> nat \<Rightarrow> nat \<Rightarrow> nat \<Rightarrow> bytes \<Rightarrow> bytes \<Rightarrow> bool" where
  "honest_dock P E i r d cert rrx \<longleftrightarrow>
     (let rtx = rnd E r 8; rn = rnd E (r + 56) 8; repeater = (cert ! 0 \<noteq> 0);
          kd = derive_kd P (dock_km P E r d cert) rtx rrx
      in length rrx = 8 \<and> 137 \<le> length cert
       \<and> hdcp_read E i = Some (AKE_SEND_CERT, cert)
       \<and> (\<exists>m. hdcp_read E (i + 1) = Some m)
       \<and> hdcp_read E (i + 2) = Some (AKE_SEND_RRX, rrx)
       \<and> hdcp_read E (i + 3) = Some (AKE_SEND_H_PRIME, compute_h P kd rtx repeater)
       \<and> (\<exists>m. hdcp_read E (i + 4) = Some m)
       \<and> hdcp_read E (i + 5) = Some (LC_SEND_L_PRIME, compute_l P kd rrx rn)
       \<and> (if repeater then \<exists>list_hdr. hdcp_read E (i + 6) = Some (REPEATERAUTH_SEND_RECEIVERID_LIST,
              list_hdr @ take 16 (compute_v_full P kd list_hdr)) else True))"

definition key_pair :: "prims \<Rightarrow> bytes \<Rightarrow> bytes \<Rightarrow> nat \<Rightarrow> bool" where
  "key_pair P modulus exponent d \<longleftrightarrow> length modulus = 128 \<and> hd modulus \<noteq> 0 \<and>
     (\<forall>m < from_bytes_be modulus. pr_modpow P m (from_bytes_be exponent) (from_bytes_be modulus) < from_bytes_be modulus
      \<and> pr_modpow P (pr_modpow P m (from_bytes_be exponent) (from_bytes_be modulus)) d (from_bytes_be modulus) = m)"

lemma key_exchange_runs:
  assumes ok: "\<forall>i. ev_send_ok E i" and P: "prims_sized P"
    and v: "if rep then hdcp_read E (rg_reads s) = Some (REPEATERAUTH_SEND_RECEIVERID_LIST,
              hdr @ take 16 (compute_v_full P kd hdr)) else True"
  shows "\<exists>s'. key_exchange P E n rep km rtx rrx rn kd s =
      (Inr \<lparr>ses_ks = rnd E (rg_rands s) 16, ses_riv = xor_at 7 1 (rnd E (rg_rands s + 16) 8)\<rparr>, s')
    \<and> ske_send_eks 5 0 (compute_eks P km rtx rrx rn (rnd E (rg_rands s) 16)) (rnd E (rg_rands s + 16) 8)
        \<in> set (rg_sent s')
    \<and> length (rg_sent s') = length (rg_sent s) + (if rep then 3 else 1)"
proof (cases rep)
  case False
  then show ?thesis using ok by (simp add: key_exchange_def Let_def runs)
next
  case True
  let ?lst = "hdr @ take 16 (compute_v_full P kd hdr)"
  have len: "length (compute_v_full P kd hdr) = 32" using P by (simp add: compute_v_full_def)
  let ?f = "ske_send_eks 5 0 (compute_eks P km rtx rrx rn (rnd E (rg_rands s) 16)) (rnd E (rg_rands s + 16) 8)"
  let ?s = "s\<lparr>rg_rands := rg_rands s + 24, rg_sends := Suc (rg_sends s), rg_sent := rg_sent s @ [?f]\<rparr>"
  obtain s' where "repeater_auth P E n kd ?s = (Inr (), s')"
    "rg_sent s' = rg_sent ?s @ [repeater_auth_send_ack 6 0 (drop 16 (compute_v_full P kd hdr)),
       repeater_auth_stream_manage 7 0 False]"
    using repeater_auth_runs [OF ok, of ?s ?lst P kd n] v True len by auto
  then show ?thesis
    using ok True by (simp add: key_exchange_def Let_def runs add.assoc)
qed

text \<open>What the master-key message carries, and what the dock unwraps from it.\<close>

lemma km_wrapped:
  assumes "prims_sized P" "key_pair P (slice 5 128 (drop 1 cert)) (slice 133 3 (drop 1 cert)) d"
  shows "oaep_encrypt_km P (slice 5 128 (drop 1 cert)) (slice 133 3 (drop 1 cert))
      (rnd E (r + 8) 16) (rnd E (r + 24) 32) = Some (Inr (ekpub_of P E r cert))
    \<and> dock_unwrap_km P (from_bytes_be (slice 5 128 (drop 1 cert))) d (ekpub_of P E r cert)
      = Some (rnd E (r + 8) 16)"
  using km_reaches_dock_lemma [of P "rnd E (r + 8) 16" "rnd E (r + 24) 32"
      "slice 5 128 (drop 1 cert)" "slice 133 3 (drop 1 cert)" d] assms
  by (auto simp: key_pair_def ekpub_of_def)

lemma dock_km_eq:
  assumes "prims_sized P" "key_pair P (slice 5 128 (drop 1 cert)) (slice 133 3 (drop 1 cert)) d"
  shows "dock_km P E r d cert = rnd E (r + 8) 16"
  using km_wrapped [OF assms] by (simp add: dock_km_def)

lemma ake_completes:
  assumes P: "prims_sized P" and ok: "\<forall>i. ev_send_ok E i"
    and keys: "key_pair P (slice 5 128 (drop 1 cert)) (slice 133 3 (drop 1 cert)) d"
    and honest: "honest_dock P E (rg_reads s) (rg_rands s) d cert rrx"
  shows "\<exists>s'. run_ake P E n s = (Inr \<lparr>ses_ks = rnd E (rg_rands s + 64) 16,
      ses_riv = xor_at 7 1 (rnd E (rg_rands s + 80) 8)\<rparr>, s')
    \<and> ske_send_eks 5 0 (compute_eks P (rnd E (rg_rands s + 8) 16) (rnd E (rg_rands s) 8) rrx
        (rnd E (rg_rands s + 56) 8) (rnd E (rg_rands s + 64) 16)) (rnd E (rg_rands s + 80) 8)
        \<in> set (rg_sent s')
    \<and> length (rg_sent s') = length (rg_sent s) + (if cert ! 0 \<noteq> 0 then 7 else 5)"
proof -
  let ?r = "rg_rands s"
  let ?km = "rnd E (?r + 8) 16" and ?rtx = "rnd E ?r 8" and ?rn = "rnd E (?r + 56) 8"
  let ?mod = "slice 5 128 (drop 1 cert)" and ?exp = "slice 133 3 (drop 1 cert)"
  note km = dock_km_eq [OF P keys]
  define c where "c = ekpub_of P E ?r cert"
  have oaep: "oaep_encrypt_km P ?mod ?exp ?km (rnd E (?r + 24) 32) = Some (Inr c)"
    using km_wrapped [OF P keys] by (simp add: c_def)
  obtain m1 m4 hdr where reads: "length rrx = 8" "137 \<le> length cert"
      "hdcp_read E (rg_reads s) = Some (AKE_SEND_CERT, cert)"
      "hdcp_read E (Suc (rg_reads s)) = Some m1"
      "hdcp_read E (Suc (Suc (rg_reads s))) = Some (AKE_SEND_RRX, rrx)"
      "hdcp_read E (Suc (Suc (Suc (rg_reads s)))) =
         Some (AKE_SEND_H_PRIME, compute_h P (derive_kd P ?km ?rtx rrx) ?rtx (cert ! 0 \<noteq> 0))"
      "hdcp_read E (Suc (Suc (Suc (Suc (rg_reads s))))) = Some m4"
      "hdcp_read E (Suc (Suc (Suc (Suc (Suc (rg_reads s)))))) =
         Some (LC_SEND_L_PRIME, compute_l P (derive_kd P ?km ?rtx rrx) rrx ?rn)"
    and rl: "if cert ! 0 \<noteq> 0 then hdcp_read E (Suc (Suc (Suc (Suc (Suc (Suc (rg_reads s)))))))
         = Some (REPEATERAUTH_SEND_RECEIVERID_LIST,
              hdr @ take 16 (compute_v_full P (derive_kd P ?km ?rtx rrx) hdr)) else True"
    using honest unfolding honest_dock_def Let_def km
    by (cases "cert ! 0 \<noteq> 0") (auto simp: eval_nat_numeral)
  let ?sent = "rg_sent s @ [ake_init 1 0 ?rtx (zeros 3), ake_transmitter_info 2 0,
      ake_no_stored_km 3 0 c, lc_init 4 0 ?rn]"
  let ?s = "s\<lparr>rg_rands := ?r + 64, rg_sends := Suc (Suc (Suc (Suc (rg_sends s)))),
    rg_sent := ?sent, rg_reads := Suc (Suc (Suc (Suc (Suc (Suc (rg_reads s))))))\<rparr>"
  have hl: "length (compute_h P k r b) = 32" "length (compute_l P k r x) = 32" for k r b x
    using P by (simp_all add: compute_h_def compute_l_def)
  have v: "if cert ! 0 \<noteq> 0 then hdcp_read E (rg_reads ?s) = Some (REPEATERAUTH_SEND_RECEIVERID_LIST,
      hdr @ take 16 (compute_v_full P (derive_kd P ?km ?rtx rrx) hdr)) else True"
    using rl by simp
  have "run_ake P E n s = key_exchange P E n (cert ! 0 \<noteq> 0) ?km ?rtx rrx ?rn
      (derive_kd P ?km ?rtx rrx) ?s"
    using ok reads oaep hl
    by (simp add: run_ake_def verify_receiver_def Let_def runs split_beta add.assoc add.commute)
  moreover obtain s' where "key_exchange P E n (cert ! 0 \<noteq> 0) ?km ?rtx rrx ?rn
      (derive_kd P ?km ?rtx rrx) ?s =
      (Inr \<lparr>ses_ks = rnd E (?r + 64) 16, ses_riv = xor_at 7 1 (rnd E (?r + 80) 8)\<rparr>, s')"
    "ske_send_eks 5 0 (compute_eks P ?km ?rtx rrx ?rn (rnd E (?r + 64) 16)) (rnd E (?r + 80) 8)
        \<in> set (rg_sent s')"
    "length (rg_sent s') = length ?sent + (if cert ! 0 \<noteq> 0 then 3 else 1)"
    using key_exchange_runs [OF ok P v, of n ?km ?rtx rrx ?rn] by (auto simp: add.assoc)
  ultimately show ?thesis by (intro exI [of _ s']) simp
qed

text \<open>
  C6. Against an honest receiver the AKE always completes: when every write is accepted and the
  dock answers in the order of the protocol, computing its verifiers from the master key it
  unwraps with its private exponent, the run returns a session; five messages have been sent
  (seven to a repeater), and the wrapped key among them is unwrapped by the dock to exactly the
  session's key, the delivered nonce being the session's IN nonce.
\<close>

theorem honest_dock_engages:
  assumes P: "prims_sized P" and ok: "\<forall>i. ev_send_ok E i"
    and keys: "key_pair P (slice 5 128 (drop 1 cert)) (slice 133 3 (drop 1 cert)) d"
    and honest: "honest_dock P E (rg_reads s) (rg_rands s) d cert rrx"
  shows "\<exists>ses s' edkey. run_ake P E n s = (Inr ses, s')
    \<and> ske_send_eks 5 0 edkey (in_riv (ses_riv ses)) \<in> set (rg_sent s')
    \<and> xor_bytes edkey (xor8_at 8 rrx (derive_dkey P (dock_km P E (rg_rands s) d cert)
        (rnd E (rg_rands s + 56) 8) (rnd E (rg_rands s) 8) rrx 2)) = ses_ks ses
    \<and> length (rg_sent s') = length (rg_sent s) + (if cert ! 0 \<noteq> 0 then 7 else 5)"
proof -
  let ?r = "rg_rands s"
  let ?km = "rnd E (?r + 8) 16" and ?rtx = "rnd E ?r 8" and ?rn = "rnd E (?r + 56) 8"
  let ?ses = "\<lparr>ses_ks = rnd E (?r + 64) 16, ses_riv = xor_at 7 1 (rnd E (?r + 80) 8)\<rparr>"
  let ?ek = "compute_eks P ?km ?rtx rrx ?rn (rnd E (?r + 64) 16)"
  obtain s' where "run_ake P E n s = (Inr ?ses, s')"
    "ske_send_eks 5 0 ?ek (rnd E (?r + 80) 8) \<in> set (rg_sent s')"
    "length (rg_sent s') = length (rg_sent s) + (if cert ! 0 \<noteq> 0 then 7 else 5)"
    using ake_completes [OF assms] by blast
  moreover have "in_riv (xor_at 7 1 (rnd E (?r + 80) 8)) = rnd E (?r + 80) 8"
    by (simp add: in_riv_def)
  moreover have "length rrx = 8" using honest by (simp add: honest_dock_def Let_def)
  ultimately show ?thesis
    using kernel.ks_recovered [OF P, of "rnd E (?r + 64) 16" ?rtx rrx ?km ?rn] dock_km_eq [OF P keys]
    by (intro exI [of _ ?ses] exI [of _ s'] exI [of _ ?ek]) simp
qed

section \<open>A run\<close>

text \<open>A dock that is not a repeater, with the toy primitives and all-zero random bytes.\<close>

definition dock_msg :: "u8 \<Rightarrow> bytes \<Rightarrow> bytes option" where
  "dock_msg i pl = Some (frame_encode \<lparr>fr_msg_type = 4, fr_sub_id = 0x25, fr_sub_len_dw = 0,
     fr_seq = 0, fr_body = zeros 9 @ i # pl\<rparr>)"

definition toy_cert :: bytes where
  "toy_cert = 0 # zeros 5 @ replicate 128 255 @ [0, 0, 1]"

definition toy_env :: env where
  "toy_env =
     (let kd = derive_kd toy_prims (zeros 16) (zeros 8) (zeros 8)
      in \<lparr>ev_read = \<lambda>i. [dock_msg AKE_SEND_CERT toy_cert, dock_msg 0x14 [], dock_msg AKE_SEND_RRX (zeros 8),
            dock_msg AKE_SEND_H_PRIME (compute_h toy_prims kd (zeros 8) False),
            dock_msg AKE_SEND_PAIRING_INFO [],
            dock_msg LC_SEND_L_PRIME (compute_l toy_prims kd (zeros 8) (zeros 8))] ! i,
          ev_send_ok = \<lambda>_. True, ev_rand = \<lambda>_. 0\<rparr>)"

lemma hdcp_of_dock_msg: "i \<noteq> 0 \<Longrightarrow> hdcp_of_read (dock_msg i pl) = Some (i, pl)"
  by (simp add: dock_msg_def hdcp_of_read_def frame_encode_reads SUB_HDCP_RESP_def ake_parse_in_def
      nth_append)

lemma toy_key_pair: "key_pair toy_prims (slice 5 128 (drop 1 toy_cert)) (slice 133 3 (drop 1 toy_cert)) 1"
proof -
  have "slice 5 128 (drop 1 toy_cert) = replicate 128 255"
    by (simp add: toy_cert_def slice_def)
  moreover have "slice 133 3 (drop 1 toy_cert) = [0, 0, 1]"
    by (simp add: toy_cert_def slice_def)
  ultimately show ?thesis
    by (simp add: key_pair_def toy_prims_def from_bytes_be_def [of "[0, 0, 1]"])
qed

lemma rnd_toy [simp]: "rnd toy_env off n = zeros n"
  by (auto simp: rnd_def toy_env_def Let_def zeros_def intro!: nth_equalityI)

lemma toy_reads:
  "ev_read toy_env 0 = dock_msg AKE_SEND_CERT toy_cert"
  "ev_read toy_env (Suc 0) = dock_msg 0x14 []"
  "ev_read toy_env (Suc (Suc 0)) = dock_msg AKE_SEND_RRX (zeros 8)"
  "ev_read toy_env 3 = dock_msg AKE_SEND_H_PRIME
     (compute_h toy_prims (derive_kd toy_prims (zeros 16) (zeros 8) (zeros 8)) (zeros 8) False)"
  "ev_read toy_env 4 = dock_msg AKE_SEND_PAIRING_INFO []"
  "ev_read toy_env 5 = dock_msg LC_SEND_L_PRIME
     (compute_l toy_prims (derive_kd toy_prims (zeros 16) (zeros 8) (zeros 8)) (zeros 8) (zeros 8))"
  by (simp_all add: toy_env_def Let_def)

lemma toy_cert_facts: "toy_cert ! 0 = 0" "length toy_cert = 137"
  by (simp_all add: toy_cert_def)

lemma toy_honest: "honest_dock toy_prims toy_env 0 0 1 toy_cert (zeros 8)"
proof -
  have km: "dock_km toy_prims toy_env 0 1 toy_cert = zeros 16"
    using dock_km_eq [OF toy_prims_sized toy_key_pair, of toy_env 0] by simp
  show ?thesis
    unfolding honest_dock_def Let_def km rnd_toy hdcp_read_def
    by (simp add: toy_reads toy_cert_facts hdcp_of_dock_msg ake_ids)
qed

theorem honest_dock_engages_witness:
  "\<exists>ses s'. run_ake toy_prims toy_env 48 rig_init = (Inr ses, s') \<and> length (rg_sent s') = 5"
  using honest_dock_engages [OF toy_prims_sized _ toy_key_pair, of toy_env rig_init "zeros 8" 48]
    toy_honest
  by (auto simp: rig_init_def toy_cert_def toy_env_def Let_def)

theorem ake_authenticates_witness:
  "\<exists>ses s'. run_ake toy_prims toy_env 48 rig_init = (Inr ses, s') \<and> ses_ks ses = zeros 16"
proof -
  obtain ses s' where r: "run_ake toy_prims toy_env 48 rig_init = (Inr ses, s')"
    using ake_completes [OF toy_prims_sized _ toy_key_pair, of toy_env rig_init "zeros 8" 48] toy_honest
    by (auto simp: rig_init_def toy_env_def Let_def)
  from ake_authenticates [OF r] have "ses_ks ses = zeros 16" by auto
  with r show ?thesis by blast
qed

end
