(* ===== verification/Usb.thy ===== *)
theory Usb
  imports Proto
begin

text \<open>
  The userspace USB transport (\<open>vino-driver/src/usb.rs\<close>): the bounded submit/reap window of the
  video endpoints, the always-posted queue of reads, the single control write, and the opening
  of the dock. libusb is the other party: a script says what every event pump delivers and when
  a deadline has passed, and it only ever completes transfers it owns.
\<close>

section \<open>Errors\<close>

datatype rusb_error =
  Io | InvalidParam | Access | NoDevice | NotFound | Busy | RTimeout | Overflow | Pipe
| Interrupted | NoMem | NotSupported | BadDescriptor | Other

datatype error =
  DeviceNotFound | Timeout | Stall | Disconnected | Usb rusb_error | Decode | ShortRead nat

fun map_err :: "rusb_error \<Rightarrow> error" where
  "map_err RTimeout = Timeout"
| "map_err Pipe = Stall"
| "map_err NoDevice = Disconnected"
| "map_err NotFound = Disconnected"
| "map_err other = Usb other"

datatype status = COMPLETED | ERROR | TIMED_OUT | CANCELLED | STALLED | NO_DEVICE | OVERFLOWED

fun status_to_err :: "status \<Rightarrow> error" where
  "status_to_err TIMED_OUT = Timeout"
| "status_to_err STALLED = Stall"
| "status_to_err NO_DEVICE = Disconnected"
| "status_to_err _ = Usb Other"

definition RECV_QUEUE_DEPTH :: nat where "RECV_QUEUE_DEPTH = 4"
definition PIPELINE_DEPTH :: nat where "PIPELINE_DEPTH = 8"

section \<open>The pipelined write\<close>

text \<open>
  A transfer object is its index in \<open>transfers\<close>, a chunk its index in \<open>chunks\<close>. \<open>pp_owned\<close> holds
  the transfers libusb has and the chunk each carries, \<open>pp_queue\<close> the completions not yet reaped,
  and \<open>pp_trace\<close> in order the writes to a transfer's fields, the submissions and the completions.
\<close>

datatype usb_ev = Filled nat nat | Submitted nat nat | Completed nat status int

record pipe =
  pp_next :: nat
  pp_submitted :: nat
  pp_reaped :: nat
  pp_total :: nat
  pp_err :: "error option"
  pp_owned :: "(nat \<times> nat) list"
  pp_queue :: "(nat \<times> status \<times> int) list"
  pp_trace :: "usb_ev list"

definition pipe_init :: pipe where
  "pipe_init = \<lparr>pp_next = 0, pp_submitted = 0, pp_reaped = 0, pp_total = 0, pp_err = None,
     pp_owned = [], pp_queue = [], pp_trace = []\<rparr>"

text \<open>
  The closure \<open>submit\<close> fills the transfer's fields for the chunk, whoever owns it, and calls
  \<open>libusb_submit_transfer\<close>: refused for a transfer it owns already (\<open>LIBUSB_ERROR_BUSY\<close>), or when
  the device refuses the n-th submission (\<open>ok n\<close> is false).
\<close>

definition usb_submit :: "(nat \<Rightarrow> bool) \<Rightarrow> nat \<Rightarrow> nat \<Rightarrow> pipe \<Rightarrow> bool \<times> pipe" where
  "usb_submit ok t ci s =
     (let s = s\<lparr>pp_trace := pp_trace s @ [Filled t ci]\<rparr>
      in if ok (pp_submitted s) \<and> t \<notin> fst ` set (pp_owned s)
         then (True, s\<lparr>pp_owned := pp_owned s @ [(t, ci)], pp_trace := pp_trace s @ [Submitted t ci]\<rparr>)
         else (False, s))"

fun prime :: "(nat \<Rightarrow> bool) \<Rightarrow> nat \<Rightarrow> nat list \<Rightarrow> pipe \<Rightarrow> pipe" where
  "prime ok n [] s = s"
| "prime ok n (t # ts) s =
     (if n \<le> pp_next s then s
      else case usb_submit ok t (pp_next s) s of
             (True, s) \<Rightarrow> prime ok n ts (s\<lparr>pp_submitted := pp_submitted s + 1, pp_next := pp_next s + 1\<rparr>)
           | (False, s) \<Rightarrow> s\<lparr>pp_err := Some Disconnected\<rparr>)"

text \<open>One round of the reap loop with a completion at hand.\<close>

definition reap_one :: "(nat \<Rightarrow> bool) \<Rightarrow> nat \<Rightarrow> nat \<times> status \<times> int \<Rightarrow> pipe \<Rightarrow> pipe" where
  "reap_one ok n c s =
     (case c of (t, st, actual) \<Rightarrow>
        let s = s\<lparr>pp_reaped := pp_reaped s + 1\<rparr>
        in if st \<noteq> COMPLETED
           then (if pp_err s = None then s\<lparr>pp_err := Some (status_to_err st)\<rparr> else s)
           else let s = s\<lparr>pp_total := pp_total s + nat (max actual 0)\<rparr>
                in if pp_err s = None \<and> pp_next s < n
                   then case usb_submit ok t (pp_next s) s of
                          (True, s) \<Rightarrow> s\<lparr>pp_submitted := pp_submitted s + 1, pp_next := pp_next s + 1\<rparr>
                        | (False, s) \<Rightarrow> s\<lparr>pp_err := Some Disconnected\<rparr>
                   else s)"

text \<open>
  What an event pump delivers (\<open>out_complete\<close> for each, in order; a transfer libusb does not own
  cannot complete), or that the loop's deadline has passed at this point.
\<close>

datatype event = Pump "(nat \<times> status \<times> int) list" | Expired

fun deliver :: "(nat \<times> status \<times> int) list \<Rightarrow> pipe \<Rightarrow> pipe" where
  "deliver [] s = s"
| "deliver ((t, st, actual) # cs) s =
     deliver cs (if t \<in> fst ` set (pp_owned s)
                 then s\<lparr>pp_owned := filter (\<lambda>x. fst x \<noteq> t) (pp_owned s),
                        pp_queue := pp_queue s @ [(t, st, actual)],
                        pp_trace := pp_trace s @ [Completed t st actual]\<rparr>
                 else s)"

lemma reap_one_queue [simp]: "pp_queue (reap_one ok n c s) = pp_queue s"
  by (simp add: reap_one_def usb_submit_def Let_def split: prod.splits bool.splits)

text \<open>
  The two loops of \<open>pipeline_out\<close>. \<open>None\<close>: the script ended, the code still waits. In the second
  loop the deadline is looked at in every round, so \<open>Expired\<close> ends it even with completions queued.
\<close>

function reap_loop :: "(nat \<Rightarrow> bool) \<Rightarrow> nat \<Rightarrow> event list \<Rightarrow> pipe \<Rightarrow> (pipe \<times> event list) option" where
  "reap_loop ok n evs s =
     (if pp_reaped s < pp_submitted s
      then case pp_queue s of
             c # q \<Rightarrow> reap_loop ok n evs (reap_one ok n c (s\<lparr>pp_queue := q\<rparr>))
           | [] \<Rightarrow>
               (case evs of
                  [] \<Rightarrow> None
                | Expired # evs \<Rightarrow>
                    Some (s\<lparr>pp_err := (case pp_err s of None \<Rightarrow> Some Timeout | Some e \<Rightarrow> Some e)\<rparr>, evs)
                | Pump cs # evs \<Rightarrow> reap_loop ok n evs (deliver cs s))
      else Some (s, evs))"
  by pat_completeness auto

termination
  by (relation "measures [\<lambda>(ok, n, evs, s). length evs, \<lambda>(ok, n, evs, s). length (pp_queue s)]") auto

declare reap_loop.simps [simp del]

function drain_loop :: "event list \<Rightarrow> pipe \<Rightarrow> pipe option" where
  "drain_loop evs s =
     (if pp_reaped s < pp_submitted s
      then if evs \<noteq> [] \<and> hd evs = Expired then Some s
           else case pp_queue s of
                  c # q \<Rightarrow> drain_loop evs (s\<lparr>pp_queue := q, pp_reaped := pp_reaped s + 1\<rparr>)
                | [] \<Rightarrow>
                    (case evs of
                       Pump cs # evs \<Rightarrow> drain_loop evs (deliver cs s)
                     | _ \<Rightarrow> None)
      else Some s)"
  by pat_completeness auto

termination
  by (relation "measures [\<lambda>(evs, s). length evs, \<lambda>(evs, s). length (pp_queue s)]") auto

declare drain_loop.simps [simp del]

text \<open>
  \<open>pipeline_out\<close>: the result, and what libusb still owns when the transfers and the completion
  queue they point to are freed. Cancelling has no result the code looks at; the cancelled
  transfers complete in a later pump of the script. The transfer objects are \<open>0..<depth\<close>.
\<close>

record 'a outcome =
  oc_result :: "error + 'a"
  oc_pipe :: pipe

definition pipeline_out :: "(nat \<Rightarrow> bool) \<Rightarrow> event list \<Rightarrow> nat \<Rightarrow> nat outcome option" where
  "pipeline_out ok evs n =
     (if n = 0 then Some \<lparr>oc_result = Inr 0, oc_pipe = pipe_init\<rparr>
      else let depth = min PIPELINE_DEPTH n
           in case reap_loop ok n evs (prime ok n [0..<depth] pipe_init) of
                None \<Rightarrow> None
              | Some (s, evs) \<Rightarrow>
                  (case drain_loop evs s of
                     None \<Rightarrow> None
                   | Some s \<Rightarrow>
                       Some \<lparr>oc_result = (case pp_err s of Some e \<Rightarrow> Inl e | None \<Rightarrow> Inr (pp_total s)),
                             oc_pipe = s\<rparr>))"

section \<open>The control write\<close>

text \<open>
  \<open>write_ctrl_raw_async\<close>: one transfer without a timeout of its own. What a round of its wait
  loops sees: the completion, nothing, or the deadline. The second component of the result says
  whether the transfer completed before it was freed; \<open>None\<close> is a script that ends too early.
\<close>

datatype write_ev = Finished status int | Idle | Deadline

fun await :: "write_ev list \<Rightarrow> ((status \<times> int) option \<times> write_ev list) option" where
  "await [] = None"
| "await (Finished st n # evs) = Some (Some (st, n), evs)"
| "await (Idle # evs) = await evs"
| "await (Deadline # evs) = Some (None, evs)"

definition write_ctrl_raw_async :: "bool \<Rightarrow> write_ev list \<Rightarrow> ((error + nat) \<times> bool) option" where
  "write_ctrl_raw_async submitted evs =
     (if \<not> submitted then Some (Inl (Usb Io), True)
      else case await evs of
             None \<Rightarrow> None
           | Some (Some (st, actual), evs) \<Rightarrow>
               Some (if st = COMPLETED then Inr (unat (of_int actual :: 64 word)) else Inl (status_to_err st), True)
           | Some (None, evs) \<Rightarrow>
               (case await evs of
                  None \<Rightarrow> None
                | Some (r, evs) \<Rightarrow> Some (Inl Timeout, r \<noteq> None)))"

text \<open>A write that succeeds has completed; a timeout may free the transfer under libusb.\<close>

lemma write_ctrl_ok_completed:
  "write_ctrl_raw_async True evs = Some (Inr n, fin) \<Longrightarrow> fin"
  by (auto simp: write_ctrl_raw_async_def split: option.splits if_splits)

lemma write_ctrl_frees_owned: "write_ctrl_raw_async True (Deadline # Deadline # evs) = Some (Inl Timeout, False)"
  by (simp add: write_ctrl_raw_async_def)

section \<open>The posted reads of EP 0x84\<close>

text \<open>
  \<open>InShared\<close> and the transfers of \<open>AsyncIn\<close>: \<open>in_posted\<close> are the transfers libusb owns, which the
  counter \<open>in_inflight\<close> is to agree with.
\<close>

record async_in =
  in_ready :: "bytes list"
  in_inflight :: int
  in_closing :: bool
  in_posted :: "nat list"

text \<open>\<open>ep84_complete\<close> for transfer \<open>t\<close>; \<open>resubmit\<close> is what \<open>libusb_submit_transfer\<close> answers.\<close>

definition ep84_complete :: "nat \<Rightarrow> status \<Rightarrow> bytes \<Rightarrow> bool \<Rightarrow> async_in \<Rightarrow> async_in" where
  "ep84_complete t st buf resubmit a =
     (let a = a\<lparr>in_posted := filter (\<lambda>x. x \<noteq> t) (in_posted a)\<rparr>
      in if st = COMPLETED \<and> \<not> in_closing a
         then let a = (if 0 < length buf then a\<lparr>in_ready := in_ready a @ [buf]\<rparr> else a)
              in if resubmit then a\<lparr>in_posted := in_posted a @ [t]\<rparr>
                 else a\<lparr>in_inflight := in_inflight a - 1\<rparr>
         else a\<lparr>in_inflight := in_inflight a - 1\<rparr>)"

type_synonym completion = "nat \<times> status \<times> bytes \<times> bool"

fun pump_in :: "completion list \<Rightarrow> async_in \<Rightarrow> async_in" where
  "pump_in [] a = a"
| "pump_in ((t, st, buf, resubmit) # cs) a =
     pump_in cs (if t \<in> set (in_posted a) then ep84_complete t st buf resubmit a else a)"

text \<open>\<open>AsyncIn::new\<close>: the transfers the device accepts are posted.\<close>

definition async_new :: "(nat \<Rightarrow> bool) \<Rightarrow> async_in" where
  "async_new ok =
     foldl (\<lambda>a t. if ok t then a\<lparr>in_inflight := in_inflight a + 1, in_posted := in_posted a @ [t]\<rparr> else a)
       \<lparr>in_ready = [], in_inflight = 0, in_closing = False, in_posted = []\<rparr> [0..<RECV_QUEUE_DEPTH]"

text \<open>One pump per script entry; \<open>None\<close> in the script: the deadline has passed.\<close>

fun async_recv :: "completion list option list \<Rightarrow> async_in \<Rightarrow>
    ((error + bytes) \<times> async_in \<times> completion list option list) option" where
  "async_recv evs a =
     (case in_ready a of
        b # bs \<Rightarrow> Some (Inr b, a\<lparr>in_ready := bs\<rparr>, evs)
      | [] \<Rightarrow>
          if in_inflight a = 0 then Some (Inl Disconnected, a, evs)
          else case evs of
                 [] \<Rightarrow> None
               | None # evs \<Rightarrow> Some (Inl Timeout, a, evs)
               | Some cs # evs \<Rightarrow> async_recv evs (pump_in cs a))"

declare async_recv.simps [simp del]

text \<open>\<open>Drop\<close>: what libusb still owns when the transfers are freed.\<close>

fun async_drop_loop :: "completion list option list \<Rightarrow> async_in \<Rightarrow> async_in option" where
  "async_drop_loop evs a =
     (if 0 < in_inflight a
      then case evs of
             [] \<Rightarrow> None
           | None # evs \<Rightarrow> Some a
           | Some cs # evs \<Rightarrow> async_drop_loop evs (pump_in cs a)
      else Some a)"

declare async_drop_loop.simps [simp del]

definition async_drop :: "completion list option list \<Rightarrow> async_in \<Rightarrow> async_in option" where
  "async_drop evs a = async_drop_loop evs (a\<lparr>in_closing := True\<rparr>)"

section \<open>Frames\<close>

text \<open>
  \<open>recv_frame_raw_timeout\<close> ignores its length bound; \<open>rx n\<close> is what the n-th read of the queue
  returns.
\<close>

type_synonym rx = "nat \<Rightarrow> error + bytes"

definition recv_frame :: "rx \<Rightarrow> nat \<Rightarrow> error + frame" where
  "recv_frame rx i =
     (case rx i of
        Inl e \<Rightarrow> Inl e
      | Inr b \<Rightarrow> (case frame_decode b of None \<Rightarrow> Inl Decode | Some f \<Rightarrow> Inr f))"

text \<open>The index after the reads is returned with the result.\<close>

fun recv_hdcp_msg :: "rx \<Rightarrow> nat \<Rightarrow> nat \<Rightarrow> (error + frame) \<times> nat" where
  "recv_hdcp_msg rx 0 i = (Inl Decode, i)"
| "recv_hdcp_msg rx (Suc tries) i =
     (case rx i of
        Inl e \<Rightarrow> (Inl e, Suc i)
      | Inr b \<Rightarrow>
          (case frame_decode b of
             Some f \<Rightarrow> if 10 \<le> length (fr_body f) \<and> fr_body f ! 9 \<noteq> 0 then (Inr f, Suc i)
                       else recv_hdcp_msg rx tries (Suc i)
           | None \<Rightarrow> recv_hdcp_msg rx tries (Suc i)))"

text \<open>\<open>send_frame\<close>: \<open>wr\<close> is what the bulk write of the bytes returns.\<close>

definition send_frame :: "(bytes \<Rightarrow> rusb_error + nat) \<Rightarrow> frame \<Rightarrow> error + unit" where
  "send_frame wr f =
     (let b = frame_encode f
      in case wr b of
           Inl e \<Rightarrow> Inl (map_err e)
         | Inr n \<Rightarrow> if n \<noteq> length b then Inl (ShortRead n) else Inr ())"

text \<open>The gap \<open>DLM_TIMING\<close> targets before a message, in microseconds.\<close>

definition dlm_gap :: "frame \<Rightarrow> nat" where
  "dlm_gap f =
     (if 27 < length (fr_body f)
      then let i = fr_body f ! 27
           in if i = 0x02 then 110 else if i = 0x13 then 4 else if i = 0x04 then 1392
              else if i = 0x09 then 84 else if i = 0x0b then 54 else if i = 0x0f then 28
              else if i = 0x10 then 905 else 0
      else 0)"

end
