(* ===== verification/UsbLaws.thy ===== *)
theory UsbLaws
  imports Usb
begin

text \<open>
  Laws of the USB transport. The pipelined write: the window never holds more than its depth, a
  transfer object is never handed to libusb while libusb owns it, the chunks go out in order, and
  a success means every chunk completed. The posted reads: replies are returned in the order of
  arrival and none is lost.
\<close>

section \<open>What libusb sees\<close>

text \<open>
  \<open>window\<close> replays a trace: \<open>None\<close> as soon as the fields of a transfer libusb owns are written, or a
  transfer is submitted that is already owned, or more than \<open>d\<close> are outstanding, or one completes that is not owned.
\<close>

fun window :: "nat \<Rightarrow> usb_ev list \<Rightarrow> nat list \<Rightarrow> nat list option" where
  "window d [] act = Some act"
| "window d (Filled t c # es) act = (if t \<notin> set act then window d es act else None)"
| "window d (Submitted t c # es) act =
     (if t \<notin> set act \<and> length act < d then window d es (act @ [t]) else None)"
| "window d (Completed t st a # es) act =
     (if t \<in> set act then window d es (filter (\<lambda>x. x \<noteq> t) act) else None)"

fun chunks_sent :: "usb_ev list \<Rightarrow> nat list" where
  "chunks_sent [] = []"
| "chunks_sent (Filled t c # es) = chunks_sent es"
| "chunks_sent (Submitted t c # es) = c # chunks_sent es"
| "chunks_sent (Completed t st a # es) = chunks_sent es"

definition weight :: "status \<Rightarrow> int \<Rightarrow> nat" where
  "weight st a = (if st = COMPLETED then nat (max a 0) else 0)"

fun bytes_done :: "usb_ev list \<Rightarrow> nat" where
  "bytes_done [] = 0"
| "bytes_done (Filled t c # es) = bytes_done es"
| "bytes_done (Submitted t c # es) = bytes_done es"
| "bytes_done (Completed t st a # es) = weight st a + bytes_done es"

fun failures :: "usb_ev list \<Rightarrow> nat" where
  "failures [] = 0"
| "failures (Filled t c # es) = failures es"
| "failures (Submitted t c # es) = failures es"
| "failures (Completed t st a # es) = (if st = COMPLETED then 0 else 1) + failures es"

lemma window_append:
  "window d (xs @ ys) act = (case window d xs act of None \<Rightarrow> None | Some act' \<Rightarrow> window d ys act')"
  by (induction d xs act rule: window.induct) auto

lemma trace_append [simp]:
  "chunks_sent (xs @ ys) = chunks_sent xs @ chunks_sent ys"
  "bytes_done (xs @ ys) = bytes_done xs + bytes_done ys"
  "failures (xs @ ys) = failures xs + failures ys"
  by (induction xs rule: chunks_sent.induct) auto

section \<open>The invariant of the pipelined write\<close>

definition queued_bytes :: "(nat \<times> status \<times> int) list \<Rightarrow> nat" where
  "queued_bytes q = sum_list (map (\<lambda>(t, st, a). weight st a) q)"

definition queued_failures :: "(nat \<times> status \<times> int) list \<Rightarrow> nat" where
  "queued_failures q = length (filter (\<lambda>(t, st, a). st \<noteq> COMPLETED) q)"

text \<open>\<open>held\<close>: the transfer objects in use, with libusb or in the completion queue.\<close>

definition held :: "pipe \<Rightarrow> nat list" where
  "held s = map fst (pp_owned s) @ map fst (pp_queue s)"

definition pipe_inv :: "nat \<Rightarrow> nat \<Rightarrow> pipe \<Rightarrow> bool" where
  "pipe_inv d n s \<longleftrightarrow>
     window d (pp_trace s) [] = Some (map fst (pp_owned s))
   \<and> distinct (held s) \<and> set (held s) \<subseteq> {..<d}
   \<and> pp_submitted s = pp_reaped s + length (held s)
   \<and> pp_next s = pp_submitted s \<and> pp_next s \<le> n
   \<and> chunks_sent (pp_trace s) = [0..<pp_next s]
   \<and> bytes_done (pp_trace s) = pp_total s + queued_bytes (pp_queue s)
   \<and> (if pp_err s = None then failures (pp_trace s) = queued_failures (pp_queue s) else True)"

text \<open>While there is no error the window is full or every chunk is out.\<close>

definition pipe_full :: "nat \<Rightarrow> nat \<Rightarrow> pipe \<Rightarrow> bool" where
  "pipe_full d n s \<longleftrightarrow> (pp_err s = None \<longrightarrow> pp_next s = n \<or> length (held s) = d)"

lemma held_bound: "pipe_inv d n s \<Longrightarrow> length (held s) \<le> d"
  using card_mono [of "{..<d}" "set (held s)"] by (simp add: pipe_inv_def distinct_card)

lemma deliver_inv: "pipe_inv d n s \<Longrightarrow> pipe_inv d n (deliver cs s)"
proof (induction cs s rule: deliver.induct)
  case (2 t st actual cs s)
  have "pipe_inv d n (s\<lparr>pp_owned := filter (\<lambda>x. fst x \<noteq> t) (pp_owned s),
      pp_queue := pp_queue s @ [(t, st, actual)], pp_trace := pp_trace s @ [Completed t st actual]\<rparr>)"
    if t: "t \<in> fst ` set (pp_owned s)"
  proof -
    have m: "map fst (filter (\<lambda>x. fst x \<noteq> t) xs) = filter (\<lambda>x. x \<noteq> t) (map fst xs)"
      for xs :: "(nat \<times> nat) list" by (induction xs) auto
    have len: "Suc (length (filter (\<lambda>x. x \<noteq> t) xs)) = length xs" if "distinct xs" "t \<in> set xs" for xs
      using that
    proof (induction xs)
      case (Cons x xs)
      then have "x = t \<Longrightarrow> filter (\<lambda>x. x \<noteq> t) xs = xs" by (auto simp: filter_id_conv)
      with Cons show ?case by auto
    qed simp
    have "distinct (map fst (pp_owned s))" "t \<in> set (map fst (pp_owned s))"
      using "2.prems" t by (auto simp: pipe_inv_def held_def)
    note len [OF this]
    then show ?thesis
      using "2.prems" t
      by (auto simp: pipe_inv_def held_def window_append m queued_bytes_def queued_failures_def)
  qed
  with 2 show ?case by simp
qed simp

lemma submit_inv:
  assumes "usb_submit ok t (pp_next s) s = (True, s')" "pipe_inv d n s" "pp_next s < n"
    "t < d" "t \<notin> set (held s)"
  shows "pipe_inv d n (s'\<lparr>pp_submitted := pp_submitted s' + 1, pp_next := pp_next s' + 1\<rparr>)"
proof -
  have s': "s' = s\<lparr>pp_owned := pp_owned s @ [(t, pp_next s)],
      pp_trace := pp_trace s @ [Filled t (pp_next s), Submitted t (pp_next s)]\<rparr>" and new: "t \<notin> fst ` set (pp_owned s)"
    using assms(1) by (auto simp: usb_submit_def Let_def split: if_splits)
  have "insert t (set (held s)) \<subseteq> {..<d}" "distinct (t # held s)"
    using assms by (auto simp: pipe_inv_def)
  then have "Suc (length (held s)) \<le> d"
    using card_mono [of "{..<d}" "set (t # held s)"] by (simp add: distinct_card)
  then have "length (pp_owned s) < d" by (simp add: held_def)
  then show ?thesis
    using assms(2-5) new unfolding s'
    by (auto simp: pipe_inv_def held_def window_append queued_bytes_def queued_failures_def)
qed

lemma submit_refused: "usb_submit ok t c s = (False, s') \<Longrightarrow> s' = s\<lparr>pp_trace := pp_trace s @ [Filled t c]\<rparr>"
  by (auto simp: usb_submit_def Let_def split: if_splits)

lemma refused_inv:
  "usb_submit ok t c s = (False, s') \<Longrightarrow> pipe_inv d n s \<Longrightarrow> t \<notin> set (held s)
     \<Longrightarrow> pipe_inv d n (s'\<lparr>pp_err := Some e\<rparr>)"
  using submit_refused [of ok t c s s']
  by (auto simp: pipe_inv_def held_def window_append)

lemma submit_held:
  "usb_submit ok t c s = (True, s') \<Longrightarrow> length (held s') = Suc (length (held s)) \<and> pp_err s' = pp_err s
     \<and> pp_next s' = pp_next s"
  by (auto simp: usb_submit_def held_def Let_def split: if_splits)

lemma inv_err: "pipe_inv d n s \<Longrightarrow> pipe_inv d n (s\<lparr>pp_err := Some e\<rparr>)"
  by (simp add: pipe_inv_def held_def)

text \<open>Popping a completion and handling it.\<close>

lemma reap_inv:
  assumes inv: "pipe_inv d n s" and q: "pp_queue s = c # q"
  shows "pipe_inv d n (reap_one ok n c (s\<lparr>pp_queue := q\<rparr>))"
proof -
  obtain t st a where c: "c = (t, st, a)" by (cases c)
  let ?s = "s\<lparr>pp_queue := q, pp_reaped := pp_reaped s + 1\<rparr>"
  let ?ok = "?s\<lparr>pp_total := pp_total s + nat (max a 0)\<rparr>"
  have t: "t < d" "t \<notin> set (held ?s)" using inv q c by (auto simp: pipe_inv_def held_def)
  have bad: "pipe_inv d n (?s\<lparr>pp_err := Some e\<rparr>)" if "st \<noteq> COMPLETED" for e
    using inv q c that by (auto simp: pipe_inv_def held_def queued_bytes_def weight_def)
  have badS: "pipe_inv d n ?s" if "st \<noteq> COMPLETED" "pp_err s \<noteq> None"
    using inv q c that by (auto simp: pipe_inv_def held_def queued_bytes_def weight_def)
  have good: "pipe_inv d n ?ok" if "st = COMPLETED"
    using inv q c that
    by (auto simp: pipe_inv_def held_def queued_bytes_def queued_failures_def weight_def)
  show ?thesis
  proof (cases "st = COMPLETED \<and> pp_err s = None \<and> pp_next s < n")
    case True
    obtain b s' where sub: "usb_submit ok t (pp_next ?ok) ?ok = (b, s')" by fastforce
    have h: "set (held ?ok) = set (held ?s)" by (simp add: held_def)
    show ?thesis
    proof (cases b)
      case True
      then show ?thesis
        using submit_inv [of ok t ?ok s' d n] good sub t h \<open>st = COMPLETED \<and> _ \<and> _\<close>
        by (simp add: reap_one_def c)
    next
      case False
      then show ?thesis
        using refused_inv [of ok t "pp_next ?ok" ?ok s' d n] good sub t h \<open>st = COMPLETED \<and> _ \<and> _\<close>
        by (simp add: reap_one_def c)
    qed
  next
    case False
    then show ?thesis using bad badS good by (auto simp: reap_one_def c Let_def)
  qed
qed

lemma reap_full:
  assumes inv: "pipe_inv d n s" and full: "pipe_full d n s" and q: "pp_queue s = c # q"
  shows "pipe_full d n (reap_one ok n c (s\<lparr>pp_queue := q\<rparr>))"
proof -
  have "pp_next s \<le> n" using inv by (simp add: pipe_inv_def)
  then show ?thesis
    using full q
    by (cases c)
      (auto simp: pipe_full_def reap_one_def usb_submit_def held_def Let_def split: prod.splits if_splits)
qed

lemma deliver_full: "pipe_inv d n s \<Longrightarrow> pipe_full d n s \<Longrightarrow> pipe_full d n (deliver cs s)"
proof -
  assume inv: "pipe_inv d n s" and full: "pipe_full d n s"
  have same: "pp_submitted (deliver cs s) = pp_submitted s \<and> pp_reaped (deliver cs s) = pp_reaped s
      \<and> pp_next (deliver cs s) = pp_next s \<and> pp_err (deliver cs s) = pp_err s"
    by (induction cs s rule: deliver.induct) auto
  have "length (held (deliver cs s)) = length (held s)"
    using inv deliver_inv [OF inv, of cs] same by (simp add: pipe_inv_def)
  then show ?thesis using full same by (simp add: pipe_full_def)
qed

lemma reap_loop_inv:
  "reap_loop ok n evs s = Some (s', evs') \<Longrightarrow> pipe_inv d n s \<Longrightarrow> pipe_full d n s \<Longrightarrow>
     pipe_inv d n s' \<and> pipe_full d n s' \<and> (pp_err s' = None \<longrightarrow> pp_reaped s' = pp_submitted s')"
proof (induction ok n evs s rule: reap_loop.induct)
  case (1 ok n evs s)
  show ?case
  proof (cases "pp_reaped s < pp_submitted s")
    case False
    then show ?thesis using "1.prems" by (auto simp: reap_loop.simps [of ok n evs s] pipe_inv_def)
  next
    case True
    show ?thesis
    proof (cases "pp_queue s")
      case (Cons c q)
      then show ?thesis
        using "1.IH"(2) [OF True Cons] "1.prems" True reap_inv [OF "1.prems"(2) Cons]
          reap_full [OF "1.prems"(2,3) Cons]
        by (simp add: reap_loop.simps [of ok n evs s])
    next
      case Nil
      show ?thesis
      proof (cases evs)
        case evs: (Cons e es)
        show ?thesis
        proof (cases e)
          case (Pump cs)
          then show ?thesis
            using "1.IH"(1) [OF True Nil evs Pump] "1.prems" True Nil evs
              deliver_inv [OF "1.prems"(2)] deliver_full [OF "1.prems"(2,3)]
            by (simp add: reap_loop.simps [of ok n "Pump cs # es" s])
        next
          case Expired
          then show ?thesis
            using "1.prems" True Nil evs
            by (auto simp: reap_loop.simps [of ok n "Expired # es" s] inv_err pipe_full_def split: option.splits)
        qed
      qed (use "1.prems" True Nil in \<open>simp add: reap_loop.simps [of ok n "[]" s]\<close>)
    qed
  qed
qed

text \<open>Filling the window.\<close>

lemma prime_inv:
  assumes "pipe_inv d n s" "pp_reaped s = 0" "pp_queue s = []" "pp_err s = None"
    "map fst (pp_owned s) = [0..<pp_next s]" "pp_next s \<le> d" "d \<le> n"
  shows "pipe_inv d n (prime ok n [pp_next s..<d] s) \<and> pipe_full d n (prime ok n [pp_next s..<d] s)"
  using assms
proof (induction "d - pp_next s" arbitrary: s)
  case 0
  then show ?case by (simp add: pipe_full_def held_def)
next
  case (Suc k)
  then have lt: "pp_next s < d" "pp_next s < n" by auto
  then have ts: "[pp_next s..<d] = pp_next s # [Suc (pp_next s)..<d]" by (simp add: upt_conv_Cons)
  obtain b s' where sub: "usb_submit ok (pp_next s) (pp_next s) s = (b, s')" by fastforce
  show ?case
  proof (cases b)
    case True
    let ?s = "s'\<lparr>pp_submitted := pp_submitted s' + 1, pp_next := pp_next s' + 1\<rparr>"
    have "pp_next s \<notin> set (held s)" using Suc.prems by (simp add: held_def)
    then have inv: "pipe_inv d n ?s"
      using submit_inv [of ok "pp_next s" s s' d n] sub True Suc.prems lt by simp
    have "pp_owned s' = pp_owned s @ [(pp_next s, pp_next s)]" "pp_reaped s' = 0" "pp_queue s' = []"
      "pp_err s' = None" "pp_next s' = pp_next s"
      using sub True Suc.prems by (auto simp: usb_submit_def Let_def split: if_splits)
    then have "pipe_inv d n (prime ok n [pp_next ?s..<d] ?s) \<and> pipe_full d n (prime ok n [pp_next ?s..<d] ?s)"
      using Suc.hyps(1) [of ?s] Suc.hyps(2) Suc.prems inv lt by simp
    then show ?thesis using ts sub True lt \<open>pp_next s' = pp_next s\<close> by simp
  next
    case False
    then show ?thesis
      using refused_inv [of ok "pp_next s" "pp_next s" s s' d n Disconnected] Suc.prems sub ts lt
      by (simp add: pipe_full_def held_def)
  qed
qed

lemma prime_init:
  "d \<le> n \<Longrightarrow> pipe_inv d n (prime ok n [0..<d] pipe_init) \<and> pipe_full d n (prime ok n [0..<d] pipe_init)"
  using prime_inv [of d n pipe_init ok]
  by (simp add: pipe_init_def pipe_inv_def held_def queued_bytes_def queued_failures_def)

text \<open>The teardown submits nothing, so what was sent stays what it was.\<close>

definition pipe_safe :: "nat \<Rightarrow> nat \<Rightarrow> pipe \<Rightarrow> bool" where
  "pipe_safe d n s \<longleftrightarrow> window d (pp_trace s) [] = Some (map fst (pp_owned s))
     \<and> chunks_sent (pp_trace s) = [0..<pp_next s] \<and> pp_next s \<le> n"

lemma deliver_safe: "pipe_safe d n s \<Longrightarrow> pipe_safe d n (deliver cs s)"
proof (induction cs s rule: deliver.induct)
  case (2 t st a cs s)
  have "map fst (filter (\<lambda>x. fst x \<noteq> t) xs) = filter (\<lambda>x. x \<noteq> t) (map fst xs)"
    for xs :: "(nat \<times> nat) list" by (induction xs) auto
  with 2 show ?case by (auto simp: pipe_safe_def window_append)
qed simp

lemma deliver_fixed:
  "pp_err (deliver cs s) = pp_err s \<and> pp_next (deliver cs s) = pp_next s
     \<and> pp_total (deliver cs s) = pp_total s"
  by (induction cs s rule: deliver.induct) auto

lemma drain_loop_safe:
  "drain_loop evs s = Some s' \<Longrightarrow> pipe_safe d n s \<Longrightarrow>
     pipe_safe d n s' \<and> pp_err s' = pp_err s \<and> pp_next s' = pp_next s"
proof (induction evs s rule: drain_loop.induct)
  case (1 evs s)
  show ?case
  proof (cases "pp_reaped s < pp_submitted s \<and> \<not> (evs \<noteq> [] \<and> hd evs = Expired)")
    case True
    then have run: "pp_reaped s < pp_submitted s" "\<not> (evs \<noteq> [] \<and> hd evs = Expired)" by auto
    show ?thesis
    proof (cases "pp_queue s")
      case (Cons c q)
      then show ?thesis
        using "1.IH"(2) [OF run Cons] "1.prems" run
        by (simp add: drain_loop.simps [of evs s] pipe_safe_def)
    next
      case Nil
      show ?thesis
      proof (cases evs)
        case e: (Cons e es)
        then obtain cs where p: "e = Pump cs" using run by (cases e) auto
        show ?thesis
          using "1.IH"(1) [OF run Nil e p] "1.prems" run Nil e p deliver_safe deliver_fixed
          by (simp add: drain_loop.simps [of "Pump cs # es" s])
      qed (use "1.prems" run Nil in \<open>simp add: drain_loop.simps [of "[]" s]\<close>)
    qed
  next
    case False
    then show ?thesis using "1.prems" by (auto simp: drain_loop.simps [of evs s] split: if_splits)
  qed
qed

text \<open>
  C8. The pipelined video write is safe for every behaviour of the USB stack: at most eight
  transfers are ever outstanding, no transfer is submitted or its fields (buffer, length, callback)
  overwritten while libusb owns it, the chunks submitted
  are a prefix of the frame in order, each once; and a success means that all of them completed,
  none with a failure status, libusb owns none of the transfers any more, and the result is the
  number of bytes of the completions.
\<close>

theorem pipeline_out_safe:
  assumes "pipeline_out ok evs n = Some r"
  shows "window PIPELINE_DEPTH (pp_trace (oc_pipe r)) [] = Some (map fst (pp_owned (oc_pipe r)))
    \<and> chunks_sent (pp_trace (oc_pipe r)) = [0..<pp_next (oc_pipe r)] \<and> pp_next (oc_pipe r) \<le> n
    \<and> (case oc_result r of
         Inr bytes \<Rightarrow> pp_next (oc_pipe r) = n \<and> pp_owned (oc_pipe r) = []
           \<and> failures (pp_trace (oc_pipe r)) = 0 \<and> bytes = bytes_done (pp_trace (oc_pipe r))
       | Inl e \<Rightarrow> True)"
proof (cases "n = 0")
  case True
  with assms show ?thesis by (auto simp: pipeline_out_def pipe_init_def)
next
  case False
  let ?d = "min PIPELINE_DEPTH n"
  have mono: "window d tr act = Some r \<Longrightarrow> d \<le> d' \<Longrightarrow> window d' tr act = Some r" for d d' tr act r
    by (induction d tr act rule: window.induct) (auto split: if_splits)
  obtain s1 evs' s2 where run: "reap_loop ok n evs (prime ok n [0..<?d] pipe_init) = Some (s1, evs')"
    "drain_loop evs' s1 = Some s2"
    and r: "r = \<lparr>oc_result = (case pp_err s2 of Some e \<Rightarrow> Inl e | None \<Rightarrow> Inr (pp_total s2)), oc_pipe = s2\<rparr>"
    using assms False by (auto simp: pipeline_out_def Let_def split: option.splits)
  have inv: "pipe_inv ?d n s1" "pipe_full ?d n s1" "pp_err s1 = None \<longrightarrow> pp_reaped s1 = pp_submitted s1"
    using reap_loop_inv [OF run(1)] prime_init [of ?d n ok] by auto
  then have "pipe_safe ?d n s1" by (simp add: pipe_inv_def pipe_safe_def)
  note safe = drain_loop_safe [OF run(2) this]
  have fin: "s2 = s1 \<and> held s1 = [] \<and> pp_next s1 = n" if "pp_err s2 = None"
  proof -
    have e: "pp_err s1 = None" using safe that by simp
    then have "held s1 = []" using inv by (simp add: pipe_inv_def)
    moreover have "0 < ?d" using False by (simp add: PIPELINE_DEPTH_def)
    ultimately show ?thesis
      using inv e run(2) by (auto simp: pipe_full_def drain_loop.simps [of evs' s1])
  qed
  show ?thesis
    using safe mono [of ?d "pp_trace s2" "[]" _ PIPELINE_DEPTH] fin inv(1)
    by (auto simp: r pipe_safe_def pipe_inv_def held_def queued_bytes_def queued_failures_def
        split: option.splits)
qed

text \<open>A frame of nine chunks: the first completion is followed by the ninth submission.\<close>

theorem pipeline_out_safe_witness:
  "\<exists>r. pipeline_out (\<lambda>_. True)
     [Pump [(0, COMPLETED, 64)], Pump (map (\<lambda>t. (t, COMPLETED, 64)) [1, 2, 3, 4, 5, 6, 7, 0])] 9 = Some r
   \<and> oc_result r = Inr 576 \<and> chunks_sent (pp_trace (oc_pipe r)) = [0..<9]"
proof -
  obtain r where r: "pipeline_out (\<lambda>_. True)
      [Pump [(0, COMPLETED, 64)], Pump (map (\<lambda>t. (t, COMPLETED, 64)) [1, 2, 3, 4, 5, 6, 7, 0])] 9 = Some r"
      "oc_result r = Inr 576"
    by (simp add: pipeline_out_def PIPELINE_DEPTH_def pipe_init_def usb_submit_def reap_loop.simps
        reap_one_def drain_loop.simps upt_rec)
  with pipeline_out_safe [OF r(1)] show ?thesis by auto
qed

text \<open>
  C0. The teardown does not wait long enough for a silent device: when no transfer completes
  before the two deadlines, \<open>pipeline_out\<close> frees its transfers, and the queue their callbacks
  write to, while libusb still owns every one of them.
\<close>

theorem pipeline_frees_owned:
  "pipeline_out (\<lambda>_. True) (Expired # Expired # evs) (Suc n) =
     Some \<lparr>oc_result = Inl Timeout, oc_pipe = (prime (\<lambda>_. True) (Suc n) [0..<min 8 (Suc n)] pipe_init)\<lparr>pp_err := Some Timeout\<rparr>\<rparr>
   \<and> pp_owned (prime (\<lambda>_. True) (Suc n) [0..<min 8 (Suc n)] pipe_init) = map (\<lambda>t. (t, t)) [0..<min 8 (Suc n)]"
proof -
  let ?p = "\<lambda>k s. prime (\<lambda>_. True) (Suc n) [pp_next s..<k] s"
  have gen: "pp_next s \<le> k \<Longrightarrow> k \<le> Suc n \<Longrightarrow> pp_owned s = map (\<lambda>t. (t, t)) [0..<pp_next s] \<Longrightarrow>
      pp_submitted s = pp_next s \<Longrightarrow> pp_owned (?p k s) = map (\<lambda>t. (t, t)) [0..<k]
      \<and> pp_submitted (?p k s) = k \<and> pp_reaped (?p k s) = pp_reaped s \<and> pp_err (?p k s) = pp_err s
      \<and> pp_queue (?p k s) = pp_queue s" for k s
  proof (induction "k - pp_next s" arbitrary: s)
    case (Suc j)
    let ?s = "s\<lparr>pp_owned := pp_owned s @ [(pp_next s, pp_next s)],
      pp_trace := pp_trace s @ [Filled (pp_next s) (pp_next s), Submitted (pp_next s) (pp_next s)],
      pp_submitted := pp_submitted s + 1, pp_next := pp_next s + 1\<rparr>"
    have "usb_submit (\<lambda>_. True) (pp_next s) (pp_next s) s =
        (True, s\<lparr>pp_owned := pp_owned s @ [(pp_next s, pp_next s)],
          pp_trace := pp_trace s @ [Filled (pp_next s) (pp_next s), Submitted (pp_next s) (pp_next s)]\<rparr>)"
      using Suc.prems by (auto simp: usb_submit_def Let_def)
    then have "?p k s = ?p k ?s"
      using Suc.hyps(2) Suc.prems by (simp add: upt_conv_Cons)
    then show ?case using Suc.hyps(1) [of ?s] Suc.hyps(2) Suc.prems by simp
  qed auto
  let ?s = "prime (\<lambda>_. True) (Suc n) [0..<min 8 (Suc n)] pipe_init"
  have "pp_owned ?s = map (\<lambda>t. (t, t)) [0..<min 8 (Suc n)] \<and> pp_submitted ?s = min 8 (Suc n)
      \<and> pp_reaped ?s = 0 \<and> pp_err ?s = None \<and> pp_queue ?s = []"
    using gen [of pipe_init "min 8 (Suc n)"] by (simp add: pipe_init_def)
  then show ?thesis
    by (simp add: pipeline_out_def PIPELINE_DEPTH_def Let_def reap_loop.simps [of _ _ "Expired # _"]
        drain_loop.simps [of "Expired # _"])
qed

section \<open>The posted reads\<close>

text \<open>The replies the completions of a pump carry, in order.\<close>

fun arrivals :: "completion list \<Rightarrow> async_in \<Rightarrow> bytes list" where
  "arrivals [] a = []"
| "arrivals ((t, st, buf, resubmit) # cs) a =
     (if t \<in> set (in_posted a)
      then (if st = COMPLETED \<and> \<not> in_closing a \<and> buf \<noteq> [] then [buf] else [])
             @ arrivals cs (ep84_complete t st buf resubmit a)
      else arrivals cs a)"

definition async_inv :: "async_in \<Rightarrow> bool" where
  "async_inv a \<longleftrightarrow> distinct (in_posted a) \<and> in_inflight a = int (length (in_posted a))"

lemma ep84_complete_inv:
  assumes "async_inv a" "t \<in> set (in_posted a)"
  shows "async_inv (ep84_complete t st buf r a)"
proof -
  have "Suc (length (filter (\<lambda>x. x \<noteq> t) xs)) = length xs" if "distinct xs" "t \<in> set xs" for xs
    using that
  proof (induction xs)
    case (Cons x xs)
    then have "x = t \<Longrightarrow> filter (\<lambda>x. x \<noteq> t) xs = xs" by (auto simp: filter_id_conv)
    with Cons show ?case by auto
  qed simp
  then have "Suc (length (filter (\<lambda>x. x \<noteq> t) (in_posted a))) = length (in_posted a)"
    using assms by (simp add: async_inv_def)
  then show ?thesis using assms by (auto simp: async_inv_def ep84_complete_def Let_def)
qed

lemma pump_in_inv: "async_inv a \<Longrightarrow> async_inv (pump_in cs a)"
  by (induction cs a rule: pump_in.induct) (auto simp: ep84_complete_inv)

lemma ep84_ready:
  "in_ready (ep84_complete t st buf r a) =
     in_ready a @ (if st = COMPLETED \<and> \<not> in_closing a \<and> buf \<noteq> [] then [buf] else [])"
  by (simp add: ep84_complete_def Let_def)

lemma pump_in_ready: "in_ready (pump_in cs a) = in_ready a @ arrivals cs a"
  by (induction cs a rule: pump_in.induct) (auto simp: ep84_ready)

lemma async_new_inv: "async_inv (async_new ok)"
proof -
  let ?f = "\<lambda>a t. if ok t then a\<lparr>in_inflight := in_inflight a + 1, in_posted := in_posted a @ [t]\<rparr> else a"
  have "async_inv (foldl ?f \<lparr>in_ready = [], in_inflight = 0, in_closing = False, in_posted = []\<rparr> [0..<n])
      \<and> set (in_posted (foldl ?f \<lparr>in_ready = [], in_inflight = 0, in_closing = False, in_posted = []\<rparr> [0..<n]))
        \<subseteq> {..<n}" for n
    by (induction n) (auto simp: async_inv_def)
  then show ?thesis by (simp add: async_new_def)
qed

text \<open>What a run of reads returns: one result per read, and the state and script left.\<close>

fun recv_many :: "nat \<Rightarrow> completion list option list \<Rightarrow> async_in \<Rightarrow>
    ((error + bytes) list \<times> async_in \<times> completion list option list) option" where
  "recv_many 0 evs a = Some ([], a, evs)"
| "recv_many (Suc n) evs a =
     (case async_recv evs a of
        None \<Rightarrow> None
      | Some (r, a, evs) \<Rightarrow>
          (case recv_many n evs a of
             None \<Rightarrow> None
           | Some (rs, a, evs) \<Rightarrow> Some (r # rs, a, evs)))"

text \<open>Everything the device delivered over a script.\<close>

fun delivered :: "completion list option list \<Rightarrow> async_in \<Rightarrow> bytes list" where
  "delivered [] a = []"
| "delivered (None # evs) a = delivered evs a"
| "delivered (Some cs # evs) a = arrivals cs a @ delivered evs (pump_in cs a)"

definition frames_of :: "(error + bytes) list \<Rightarrow> bytes list" where
  "frames_of rs = concat (map (\<lambda>r. case r of Inl e \<Rightarrow> [] | Inr b \<Rightarrow> [b]) rs)"

text \<open>What arrives does not depend on what is queued already.\<close>

definition same_urbs :: "async_in \<Rightarrow> async_in \<Rightarrow> bool" where
  "same_urbs a b \<longleftrightarrow> in_posted a = in_posted b \<and> in_closing a = in_closing b"

lemma same_urbs_ep84:
  "same_urbs a b \<Longrightarrow> same_urbs (ep84_complete t st buf r a) (ep84_complete t st buf r b)"
  by (simp add: same_urbs_def ep84_complete_def Let_def)

lemma same_urbs_arrivals:
  "same_urbs a b \<Longrightarrow> arrivals cs a = arrivals cs b \<and> same_urbs (pump_in cs a) (pump_in cs b)"
proof (induction cs arbitrary: a b)
  case (Cons c cs)
  obtain t st buf r where c: "c = (t, st, buf, r)" by (cases c)
  show ?case
    using Cons.IH [OF same_urbs_ep84 [OF Cons.prems, of t st buf r]] Cons.IH [OF Cons.prems] Cons.prems
    by (auto simp: c same_urbs_def)
qed simp

lemma same_urbs_delivered: "same_urbs a b \<Longrightarrow> delivered evs a = delivered evs b"
proof (induction evs arbitrary: a b)
  case (Cons e evs)
  then show ?case using same_urbs_arrivals [OF Cons.prems] by (cases e) auto
qed simp

lemma async_recv_order:
  "async_recv evs a = Some (r, a', evs') \<Longrightarrow> async_inv a \<Longrightarrow>
     async_inv a' \<and> in_ready a @ delivered evs a = frames_of [r] @ in_ready a' @ delivered evs' a'
     \<and> (r = Inl Disconnected \<longrightarrow> in_posted a' = [])"
proof (induction evs a rule: async_recv.induct)
  case (1 evs a)
  show ?case
  proof (cases "in_ready a")
    case (Cons b bs)
    have "delivered evs (a\<lparr>in_ready := bs\<rparr>) = delivered evs a"
      by (rule same_urbs_delivered) (simp add: same_urbs_def)
    then show ?thesis
      using "1.prems" Cons by (auto simp: async_recv.simps [of evs a] frames_of_def async_inv_def)
  next
    case Nil
    show ?thesis
    proof (cases "in_inflight a = 0")
      case True
      then show ?thesis
        using "1.prems" Nil by (auto simp: async_recv.simps [of evs a] frames_of_def async_inv_def)
    next
      case False
      show ?thesis
      proof (cases evs)
        case (Cons e es)
        show ?thesis
        proof (cases e)
          case None
          then show ?thesis
            using "1.prems" Nil False Cons
            by (auto simp: async_recv.simps [of "None # es" a] frames_of_def)
        next
          case (Some cs)
          then show ?thesis
            using "1.IH" [OF Nil False Cons Some] "1.prems" Nil False Cons pump_in_inv pump_in_ready
            by (simp add: async_recv.simps [of "Some cs # es" a])
        qed
      qed (use "1.prems" Nil False in \<open>simp add: async_recv.simps [of "[]" a]\<close>)
    qed
  qed
qed

lemma frames_of_Cons: "frames_of (r # rs) = frames_of [r] @ frames_of rs"
  by (simp add: frames_of_def)

lemma recv_many_order:
  "recv_many n evs a = Some (rs, a', evs') \<Longrightarrow> async_inv a \<Longrightarrow>
     async_inv a' \<and> in_ready a @ delivered evs a = frames_of rs @ in_ready a' @ delivered evs' a'"
proof (induction n arbitrary: evs a rs)
  case (Suc n)
  from Suc.prems obtain r a1 evs1 rs1 where step: "async_recv evs a = Some (r, a1, evs1)"
    "recv_many n evs1 a1 = Some (rs1, a', evs')" "rs = r # rs1"
    by (auto split: option.splits)
  have "in_ready a @ delivered evs a = frames_of [r] @ in_ready a1 @ delivered evs1 a1" "async_inv a1"
    using async_recv_order [OF step(1) Suc.prems(2)] by auto
  then show ?case using Suc.IH [OF step(2)] by (simp add: step(3) frames_of_Cons [of r rs1])
qed (simp add: frames_of_def)

text \<open>
  C30. No dock reply is lost, duplicated or reordered by the read queue: whatever the transfers
  deliver while it runs, the frames that n successive reads return, followed by what is queued
  and what the rest of the script delivers, are exactly the non-empty replies of the device in
  order of arrival; and the in-flight counter always equals the number of transfers libusb has.
\<close>

theorem reads_in_order:
  assumes "recv_many n evs (async_new ok) = Some (rs, a', evs')"
  shows "frames_of rs @ in_ready a' @ delivered evs' a' = delivered evs (async_new ok)
    \<and> in_inflight a' = int (length (in_posted a'))"
proof -
  have "in_ready (async_new ok) = []"
  proof -
    let ?f = "\<lambda>a t. if ok t then a\<lparr>in_inflight := in_inflight a + 1, in_posted := in_posted a @ [t]\<rparr> else a"
    have keep: "in_ready (foldl ?f a ts) = in_ready a" for a ts by (induction ts arbitrary: a) auto
    show ?thesis unfolding async_new_def by (rule trans [OF keep]) simp
  qed
  then show ?thesis
    using recv_many_order [OF assms async_new_inv] by (simp add: async_inv_def)
qed

theorem reads_in_order_witness:
  "\<exists>rs a. recv_many 3 [Some [(0, COMPLETED, [1], True)], None, Some [(1, COMPLETED, [], True), (0, COMPLETED, [2, 3], True)]]
       (async_new (\<lambda>_. True)) = Some (rs, a, [])
     \<and> rs = [Inr [1], Inl Timeout, Inr [2, 3]] \<and> in_inflight a = 4"
proof -
  obtain rs a where r: "recv_many 3 [Some [(0, COMPLETED, [1], True)], None,
      Some [(1, COMPLETED, [], True), (0, COMPLETED, [2, 3], True)]] (async_new (\<lambda>_. True)) = Some (rs, a, [])"
    "rs = [Inr [1], Inl Timeout, Inr [2, 3]]" "length (in_posted a) = 4"
    by (simp add: async_new_def RECV_QUEUE_DEPTH_def async_recv.simps ep84_complete_def upt_rec
        numeral_3_eq_3)
  with reads_in_order [OF r(1)] show ?thesis by auto
qed

end
