(* ===== verification/DockOpen.thy ===== *)
theory DockOpen
  imports Usb
begin

text \<open>
  Opening the dock (\<open>Dock::open\<close>) and the endpoint guards of its operations (\<open>usb.rs\<close>). The
  requests the opening makes are a list in order; what libusb answers is given by \<open>usb_env\<close>, and
  the environment variables by \<open>flags\<close>.
\<close>

definition VID :: u16 where "VID = 0x17e9"
definition PID :: u16 where "PID = 0x6006"
definition EP_OUT_CTRL :: u8 where "EP_OUT_CTRL = 0x02"
definition EP_IN_CTRL :: u8 where "EP_IN_CTRL = 0x84"
definition EP_OUT_VIDEO :: u8 where "EP_OUT_VIDEO = 0x08"
definition EP_OUT_VIDEO2 :: u8 where "EP_OUT_VIDEO2 = 0x0b"
definition EP_INTR :: u8 where "EP_INTR = 0x83"

lemmas endpoints = EP_OUT_CTRL_def EP_IN_CTRL_def EP_OUT_VIDEO_def EP_OUT_VIDEO2_def EP_INTR_def

record flags =
  fl_early_check :: bool
  fl_skip_set_config :: bool
  fl_soft_alt :: bool
  fl_keep_audio :: bool
  fl_skip_video_clear_halt :: bool
  fl_video_set_alt :: bool

datatype request =
  EarlyRead | Detach u8 | SetConfiguration u8 | Claim u8 | SetAlt u8 u8 | ClearHalt u8 | PostReads

record usb_env =
  ue_claim :: "u8 \<Rightarrow> rusb_error option"
  ue_endpoint :: "u8 \<Rightarrow> bool"

record dock =
  dk_has_video :: bool
  dk_has_video2 :: bool
  dk_has_intr :: bool

section \<open>Finding the device\<close>

text \<open>A bus entry: its descriptor, if it can be read, and what opening it returns.\<close>

type_synonym bus_device = "(u16 \<times> u16) option \<times> (rusb_error + nat)"

fun find_open :: "bus_device list \<Rightarrow> error + nat" where
  "find_open [] = Inl DeviceNotFound"
| "find_open ((desc, opened) # devs) =
     (case desc of
        Some (vid, pid) \<Rightarrow>
          if vid = VID \<and> pid = PID
          then (case opened of Inl e \<Rightarrow> Inl (map_err e) | Inr h \<Rightarrow> Inr h)
          else find_open devs
      | None \<Rightarrow> find_open devs)"

text \<open>
  After a bus reset: one entry per retry, the bus as it is then and whether the deadline has
  passed. \<open>None\<close>: still waiting.
\<close>

fun reopen_loop :: "(bus_device list \<times> bool) list \<Rightarrow> (error + nat) option" where
  "reopen_loop [] = None"
| "reopen_loop ((devs, expired) # rest) =
     (case find_open devs of
        Inr h \<Rightarrow> Some (Inr h)
      | Inl e \<Rightarrow> if \<not> expired then reopen_loop rest else Some (Inl e))"

definition open_handle :: "bool \<Rightarrow> bus_device list \<Rightarrow> (bus_device list \<times> bool) list \<Rightarrow> (error + nat) option" where
  "open_handle hard_reset devs retries =
     (case find_open devs of
        Inl e \<Rightarrow> Some (Inl e)
      | Inr h \<Rightarrow> if hard_reset then reopen_loop retries else Some (Inr h))"

section \<open>Bringing the interface up\<close>

text \<open>The requests up to the claim of interface 0.\<close>

definition open_claim :: "flags \<Rightarrow> request list" where
  "open_claim f =
     (let early = (\<lambda>b. if fl_early_check f \<and> b then [EarlyRead] else []);
          n = (if fl_keep_audio f then 1 else 8)
      in early True
       @ map (\<lambda>i. Detach (of_nat i)) [0..<n]
       @ early True
       @ (if fl_skip_set_config f \<or> fl_keep_audio f then [] else [SetConfiguration 1])
       @ early (\<not> fl_skip_set_config f)
       @ [Detach 0, Claim 0])"

text \<open>The requests after it; only the second claim's answer matters, for \<open>has_intr\<close>.\<close>

definition open_rest :: "flags \<Rightarrow> usb_env \<Rightarrow> request list" where
  "open_rest f E =
     (let early = (if fl_early_check f then [EarlyRead] else [])
      in early
       @ (if (fl_skip_set_config f \<and> \<not> fl_soft_alt f) \<and> \<not> fl_video_set_alt f then [] else [SetAlt 0 0])
       @ early
       @ (if fl_keep_audio f then [] else [Detach 2, Claim 2])
       @ (if \<not> fl_skip_set_config f \<or> fl_soft_alt f then [ClearHalt EP_OUT_CTRL, ClearHalt EP_IN_CTRL] else [])
       @ (if fl_skip_video_clear_halt f then []
          else (if ue_endpoint E EP_OUT_VIDEO then [ClearHalt EP_OUT_VIDEO] else [])
             @ (if ue_endpoint E EP_OUT_VIDEO2 then [ClearHalt EP_OUT_VIDEO2] else []))
       @ [PostReads])"

definition has_intr :: "flags \<Rightarrow> usb_env \<Rightarrow> bool" where
  "has_intr f E =
     (if fl_keep_audio f then False
      else case ue_claim E 2 of None \<Rightarrow> ue_endpoint E EP_INTR | Some e \<Rightarrow> False)"

definition dock_open :: "flags \<Rightarrow> usb_env \<Rightarrow> (error + dock) \<times> request list" where
  "dock_open f E =
     (case ue_claim E 0 of
        Some e \<Rightarrow> (Inl (map_err e), open_claim f)
      | None \<Rightarrow>
          (Inr \<lparr>dk_has_video = ue_endpoint E EP_OUT_VIDEO, dk_has_video2 = ue_endpoint E EP_OUT_VIDEO2,
                dk_has_intr = has_intr f E\<rparr>,
           open_claim f @ open_rest f E))"

section \<open>The operations\<close>

text \<open>
  \<open>io\<close> is what libusb answers to the transfer. \<open>vendor_in\<close> cuts its buffer at the length read;
  the reads of the interrupt endpoint turn a timeout into zero bytes.
\<close>

definition usb_call :: "rusb_error + 'a \<Rightarrow> error + 'a" where
  "usb_call io = (case io of Inl e \<Rightarrow> Inl (map_err e) | Inr a \<Rightarrow> Inr a)"

definition vendor_in :: "bytes \<Rightarrow> rusb_error + nat \<Rightarrow> error + bytes" where
  "vendor_in buf io = (case usb_call io of Inl e \<Rightarrow> Inl e | Inr n \<Rightarrow> Inr (take n buf))"

definition vendor_out :: "rusb_error + nat \<Rightarrow> error + unit" where
  "vendor_out io = (case usb_call io of Inl e \<Rightarrow> Inl e | Inr n \<Rightarrow> Inr ())"

definition claim_interface :: "u8 \<Rightarrow> usb_env \<Rightarrow> (error + unit) \<times> request list" where
  "claim_interface i E =
     ((case ue_claim E i of Some e \<Rightarrow> Inl (map_err e) | None \<Rightarrow> Inr ()), [Detach i, Claim i])"

definition write_video :: "dock \<Rightarrow> rusb_error + nat \<Rightarrow> error + nat" where
  "write_video d io = (if \<not> dk_has_video d then Inl Disconnected else usb_call io)"

definition write_video2 :: "dock \<Rightarrow> rusb_error + nat \<Rightarrow> error + nat" where
  "write_video2 d io = (if \<not> dk_has_video2 d then Inl Disconnected else usb_call io)"

definition write_video_frame :: "dock \<Rightarrow> (nat \<Rightarrow> bool) \<Rightarrow> event list \<Rightarrow> nat \<Rightarrow> (error + nat) option" where
  "write_video_frame d ok evs n =
     (if \<not> dk_has_video d then Some (Inl Disconnected) else map_option oc_result (pipeline_out ok evs n))"

definition write_video2_frame :: "dock \<Rightarrow> (nat \<Rightarrow> bool) \<Rightarrow> event list \<Rightarrow> nat \<Rightarrow> (error + nat) option" where
  "write_video2_frame d ok evs n =
     (if \<not> dk_has_video2 d then Some (Inl Disconnected) else map_option oc_result (pipeline_out ok evs n))"

definition clear_video_halt :: "dock \<Rightarrow> rusb_error + unit \<Rightarrow> error + unit" where
  "clear_video_halt d io = (if \<not> dk_has_video d then Inl Disconnected else usb_call io)"

definition clear_video2_halt :: "dock \<Rightarrow> rusb_error + unit \<Rightarrow> error + unit" where
  "clear_video2_halt d io = (if \<not> dk_has_video2 d then Inl Disconnected else usb_call io)"

definition read_intr :: "dock \<Rightarrow> rusb_error + nat \<Rightarrow> error + nat" where
  "read_intr d io =
     (if \<not> dk_has_intr d then Inl Disconnected
      else case io of Inr n \<Rightarrow> Inr n | Inl RTimeout \<Rightarrow> Inr 0 | Inl e \<Rightarrow> Inl (map_err e))"

section \<open>What the flags promise\<close>

text \<open>The interfaces a request list detaches, claims or sets.\<close>

fun iface_of :: "request \<Rightarrow> u8 option" where
  "iface_of (Detach i) = Some i"
| "iface_of (Claim i) = Some i"
| "iface_of (SetAlt i a) = Some i"
| "iface_of _ = None"

definition touched :: "request set \<Rightarrow> u8 set" where
  "touched rs = {i. \<exists>r \<in> rs. iface_of r = Some i}"

lemma touched_simps [simp]:
  "touched (A \<union> B) = touched A \<union> touched B" "touched {} = {}"
  "touched (insert r A) = (case iface_of r of None \<Rightarrow> {} | Some i \<Rightarrow> {i}) \<union> touched A"
  "touched (Detach ` I) = I"
  by (auto simp: touched_def split: option.splits)

definition halts :: "request set \<Rightarrow> u8 set" where
  "halts rs = {ep. ClearHalt ep \<in> rs}"

lemma halts_simps [simp]:
  "halts (A \<union> B) = halts A \<union> halts B" "halts {} = {}" "halts (Detach ` I) = {}"
  "halts (insert r A) = (case r of ClearHalt ep \<Rightarrow> {ep} | _ \<Rightarrow> {}) \<union> halts A"
  by (auto simp: halts_def split: request.splits)

lemma set_open_claim:
  "set (open_claim f) = (if fl_early_check f \<and> True then {EarlyRead} else {})
     \<union> Detach ` (if fl_keep_audio f then {0} else {0, 1, 2, 3, 4, 5, 6, 7})
     \<union> (if fl_early_check f \<and> True then {EarlyRead} else {})
     \<union> (if fl_skip_set_config f \<or> fl_keep_audio f then {} else {SetConfiguration 1})
     \<union> (if fl_early_check f \<and> \<not> fl_skip_set_config f then {EarlyRead} else {})
     \<union> {Detach 0, Claim 0}"
proof -
  have "set (map (\<lambda>i. Detach (of_nat i)) [0..<if fl_keep_audio f then 1 else 8])
      = Detach ` (if fl_keep_audio f then {0} else {0, 1, 2, 3, 4, 5, 6, 7})"
  proof (cases "fl_keep_audio f")
    case False
    have "[0..<8] = [0, 1, 2, 3, 4, 5, 6, 7 :: nat]" by (simp add: upt_rec)
    with False show ?thesis by simp
  qed simp
  then show ?thesis
    by (simp only: open_claim_def Let_def set_append if_distrib [of set] list.set Un_assoc)
qed

lemma set_open_rest:
  "set (open_rest f E) = (if fl_early_check f then {EarlyRead} else {})
     \<union> (if (fl_skip_set_config f \<and> \<not> fl_soft_alt f) \<and> \<not> fl_video_set_alt f then {} else {SetAlt 0 0})
     \<union> (if fl_early_check f then {EarlyRead} else {})
     \<union> (if fl_keep_audio f then {} else {Detach 2, Claim 2})
     \<union> (if \<not> fl_skip_set_config f \<or> fl_soft_alt f then {ClearHalt EP_OUT_CTRL, ClearHalt EP_IN_CTRL} else {})
     \<union> (if fl_skip_video_clear_halt f then {}
        else (if ue_endpoint E EP_OUT_VIDEO then {ClearHalt EP_OUT_VIDEO} else {})
           \<union> (if ue_endpoint E EP_OUT_VIDEO2 then {ClearHalt EP_OUT_VIDEO2} else {}))
     \<union> {PostReads}"
  by (simp only: open_rest_def Let_def set_append if_distrib [of set] list.set Un_assoc)

lemma last_open_rest: "last (open_claim f @ open_rest f E) = PostReads"
  by (simp add: open_rest_def Let_def)

lemma open_touched:
  "touched (set (snd (dock_open f E))) = (if fl_keep_audio f then {0} else {0, 1, 2, 3, 4, 5, 6, 7})"
  by (cases "ue_claim E 0") (auto simp: dock_open_def set_open_claim set_open_rest)

lemma open_halts:
  "halts (set (snd (dock_open f E))) =
     (if ue_claim E 0 = None
      then (if \<not> fl_skip_set_config f \<or> fl_soft_alt f then {EP_OUT_CTRL, EP_IN_CTRL} else {})
        \<union> (if fl_skip_video_clear_halt f then {} else {ep \<in> {EP_OUT_VIDEO, EP_OUT_VIDEO2}. ue_endpoint E ep})
      else {})"
  by (cases "ue_claim E 0") (auto simp: dock_open_def set_open_claim set_open_rest)

lemma open_requests:
  "SetConfiguration 1 \<in> set (snd (dock_open f E)) \<longleftrightarrow> \<not> (fl_skip_set_config f \<or> fl_keep_audio f)"
  "SetAlt 0 0 \<in> set (snd (dock_open f E)) \<longleftrightarrow>
     ue_claim E 0 = None \<and> (\<not> fl_skip_set_config f \<or> fl_soft_alt f \<or> fl_video_set_alt f)"
  "PostReads \<in> set (snd (dock_open f E)) \<longleftrightarrow> ue_claim E 0 = None"
  by (cases "ue_claim E 0"; auto simp: dock_open_def set_open_claim set_open_rest)+

text \<open>
  C0. The environment flags do what their comments promise: with \<open>KEEP_AUDIO\<close> only interface 0
  is ever touched and no interrupt endpoint is used; the configuration is set exactly when neither
  \<open>SKIP_SET_CONFIG\<close> nor \<open>KEEP_AUDIO\<close> is; after the claim the halts of the control endpoints are
  cleared exactly without \<open>SKIP_SET_CONFIG\<close> or with \<open>SOFT_ALT\<close>, those of the video endpoints
  exactly where these exist and \<open>SKIP_VIDEO_CLEAR_HALT\<close> is not set; and the reads are posted last.
\<close>

theorem open_respects_flags:
  "(let (r, rs) = dock_open f E; ok = (ue_claim E 0 = None) in
     touched (set rs) = (if fl_keep_audio f then {0} else {0, 1, 2, 3, 4, 5, 6, 7})
   \<and> (SetConfiguration 1 \<in> set rs \<longleftrightarrow> \<not> (fl_skip_set_config f \<or> fl_keep_audio f))
   \<and> (SetAlt 0 0 \<in> set rs \<longleftrightarrow> ok \<and> (\<not> fl_skip_set_config f \<or> fl_soft_alt f \<or> fl_video_set_alt f))
   \<and> halts (set rs) =
       (if ok then (if \<not> fl_skip_set_config f \<or> fl_soft_alt f then {EP_OUT_CTRL, EP_IN_CTRL} else {})
          \<union> (if fl_skip_video_clear_halt f then {} else {ep \<in> {EP_OUT_VIDEO, EP_OUT_VIDEO2}. ue_endpoint E ep})
        else {})
   \<and> (case r of Inl e \<Rightarrow> \<not> ok \<and> PostReads \<notin> set rs
      | Inr d \<Rightarrow> ok \<and> last rs = PostReads \<and> \<not> (fl_keep_audio f \<and> dk_has_intr d)))"
proof -
  obtain r rs where o: "dock_open f E = (r, rs)" by (cases "dock_open f E")
  have "case r of Inl e \<Rightarrow> ue_claim E 0 \<noteq> None \<and> PostReads \<notin> set rs
      | Inr d \<Rightarrow> ue_claim E 0 = None \<and> last rs = PostReads \<and> \<not> (fl_keep_audio f \<and> dk_has_intr d)"
    using o open_requests(3) [of f E] last_open_rest [of f E]
    by (auto simp: dock_open_def has_intr_def split: option.splits)
  then show ?thesis
    using open_touched [of f E] open_halts [of f E] open_requests [of f E] by (simp add: o)
qed

end
