(* ===== verification/Kvino.thy ===== *)
theory Kvino
  imports Records Crypto
begin

text \<open>
  The frame builders the userspace rig adds around the kernel codec (\<open>chimera/src/kvino.rs\<close>): a
  flat-colour frame, the patching of record flags for experiments, and the entries that feed raw
  planes or a packed RGB raster to the codec. The one-line wrappers of \<open>kvino.rs\<close> are the
  functions they call. \<open>VID_FLAG\<close> and \<open>VID_FSEQ\<close> are arguments.
\<close>

definition EP08_MAX_PAYLOAD :: nat where "EP08_MAX_PAYLOAD = 65535 - 12"

section \<open>Patching the record headers\<close>

function patch_walk :: "u8 option \<Rightarrow> u8 option \<Rightarrow> nat \<Rightarrow> bytes \<Rightarrow> bytes" where
  "patch_walk flag fseq off stream =
     (if off + 16 \<le> length stream
      then let pad = rd16 stream off;
               sz = unat (rd16 stream (off + 2));
               typ = rd32 stream (off + 4)
           in if pad \<noteq> 0 \<or> typ \<noteq> 4 \<or> sz = 0 \<or> length stream < off + sz then stream
              else let s = (case flag of None \<Rightarrow> stream | Some fl \<Rightarrow> stream[off + 8 := fl]);
                       s = (case fseq of None \<Rightarrow> s | Some fs \<Rightarrow> s[off + 10 := fs])
                   in patch_walk flag fseq (off + (sz + 4)) s
      else stream)"
  by pat_completeness auto
termination
  by (relation "measure (\<lambda>(flag, fseq, off, stream). length stream - off)") (auto split: option.splits)

declare patch_walk.simps [simp del]

definition patch_record_meta :: "u8 option \<Rightarrow> u8 option \<Rightarrow> bytes list \<Rightarrow> bytes list" where
  "patch_record_meta flag fseq frames =
     (if flag = None \<and> fseq = None then frames
      else chunks_of 65536 (patch_walk flag fseq 0 (concat frames)))"

section \<open>Frames\<close>

text \<open>The two loops over \<open>y\<close> and \<open>x\<close>: a strip per 64 by 16 tile in raster order.\<close>

definition solid_frame_ep08 ::
    "u8 option \<Rightarrow> u8 option \<Rightarrow> u16 \<Rightarrow> u16 \<Rightarrow> u8 \<times> u8 \<times> u8 \<Rightarrow> u32 \<Rightarrow> (bytes list \<times> u32) res" where
  "solid_frame_ep08 flag fseq width height rgb seq0 =
     (if width mod 64 \<noteq> 0 \<or> height mod 16 \<noteq> 0 then Inl EINVAL
      else case rgb of (r, g, b) \<Rightarrow>
        case colour r g b of (ydc, cbdc, crdc) \<Rightarrow>
          let strips = map (\<lambda>(x, y). solid_strip (of_nat x) (of_nat y) ydc cbdc crdc)
                         (tiles (unat width) (unat height));
              frames = frame_records strips
          in Inr (patch_record_meta flag fseq frames, seq0))"

text \<open>16 blocks of the planes \<open>[Cr, Cb, Y]\<close>.\<close>

definition colour_strip_from_planes :: "int list list list \<Rightarrow> u16 \<Rightarrow> u16 \<Rightarrow> bytes" where
  "colour_strip_from_planes planes x y =
     colour_strip (map (\<lambda>k. colour_block (planes ! k ! 0) (planes ! k ! 1) (planes ! k ! 2)) [0..<16]) x y"

definition transform_quantize :: "int list \<Rightarrow> int list" where
  "transform_quantize plane =
     (let c = transform plane in map (\<lambda>i. quantize (c ! i) i) [0..<32])"

text \<open>A packed raster as the pixel source; reading past it panics.\<close>

definition rgb_px :: "nat \<Rightarrow> bytes \<Rightarrow> pixels" where
  "rgb_px width rgb = (\<lambda>x y. let i = (y * width + x) * 3 in (rgb ! i, rgb ! (i + 1), rgb ! (i + 2)))"

definition rgb_frame_ep08 :: "nat \<Rightarrow> nat \<Rightarrow> bytes \<Rightarrow> u32 \<Rightarrow> (bytes list \<times> u32) res" where
  "rgb_frame_ep08 width height rgb seq0 =
     (case colour_frame_ep08 width height seq0 (rgb_px width rgb) of
        Inl e \<Rightarrow> Inl e
      | Inr r \<Rightarrow> if length rgb < width * height * 3 then Inl Panic else Inr r)"

end
