(* ===== verification/KvinoLaws.thy ===== *)
theory KvinoLaws
  imports Kvino RecordLaws
begin

text \<open>
  Laws of the rig's frame builders: patching record flags changes nothing a reader of the records
  sees, and a flat frame carries one solid strip per tile.
\<close>

section \<open>The stream of a frame\<close>

lemma concat_chunks_rs: "concat (chunks cur rs) = cur @ concat rs"
  by (induction rs arbitrary: cur) auto

lemma frame_records_stream_y:
  assumes "list_all (\<lambda>s. length s \<le> 65513) ss"
  shows "\<exists>bs. concat (frame_records ss) = concat (map record_bytes bs) \<and> concat bs = ss
    \<and> list_all valid_band bs \<and> list_all (\<lambda>b. list_all (\<lambda>s. strip_y s = strip_y (hd b)) b) bs"
proof -
  obtain bs where bs: "records ss = map record_bytes bs" "concat bs = ss"
    "list_all (\<lambda>b. b \<noteq> [] \<and> length (body b) \<le> 65513 + 2 \<and> list_all (\<lambda>s. strip_y s = strip_y (hd b)) b) bs"
    using records_bands_y [OF assms] unfolding SIZE_CAP_def by fastforce
  have "frame_records ss = chunks [] (map record_bytes bs)"
    using chunk_loop_chunks [of "concat (map record_bytes bs)" "[]" "[]" "map record_bytes bs"]
    by (simp add: frame_records_def Let_def bs(1))
  then have "concat (frame_records ss) = concat (map record_bytes bs)" by (simp add: concat_chunks_rs)
  moreover have "valid_band b" if "length (body b) \<le> 65513 + 2" for b
    using that by (simp add: valid_band_def)
  ultimately show ?thesis using bs(2,3) unfolding list_all_iff by blast
qed

lemma frame_records_stream:
  assumes "list_all (\<lambda>s. length s \<le> 65513) ss"
  shows "\<exists>bs. concat (frame_records ss) = concat (map record_bytes bs) \<and> concat bs = ss
    \<and> list_all valid_band bs"
  using frame_records_stream_y [OF assms] by blast

section \<open>Patching\<close>

text \<open>A record with its flag and sequence byte replaced.\<close>

definition patched :: "u8 option \<Rightarrow> u8 option \<Rightarrow> bytes list \<Rightarrow> bytes" where
  "patched flag fseq b =
     [0, 0] @ le16 (of_nat (20 + length (body b))) @ le32 4
       @ [case flag of None \<Rightarrow> 0 | Some f \<Rightarrow> f, 0, case fseq of None \<Rightarrow> 0 | Some f \<Rightarrow> f, 0, 0, 0, 0, 0]
       @ body b @ zeros 8"

lemma length_patched: "length (patched flag fseq b) = 24 + length (body b)"
  by (simp add: patched_def)

lemma patched_none: "patched None None = record_bytes"
  by (rule ext) (simp add: patched_def record_bytes_eq zeros_def numeral_eq_Suc)

text \<open>A reader of the records sees the same strips.\<close>

lemma dec_records_patched:
  assumes "valid_band ss"
  shows "dec_records (patched flag fseq ss @ rest) = map_option ((@) ss) (dec_records rest)"
proof -
  define n where "n = 20 + length (body ss)"
  let ?p = "[case flag of None \<Rightarrow> 0 | Some f \<Rightarrow> f, 0, case fseq of None \<Rightarrow> 0 | Some f \<Rightarrow> f, 0, 0, 0, 0, 0]"
  let ?r = "patched flag fseq ss @ rest"
  have n: "n < 65536" using assms by (simp add: valid_band_def n_def)
  have r: "?r = ([0, 0] @ le16 (of_nat n) @ le32 4 @ ?p) @ body ss @ zeros 8 @ rest"
    by (simp add: patched_def n_def)
  have "of_le32 4 0 0 0 = (4 :: u32)" using of_le32_le32 [of 4] by simp
  then have "rd16 ?r 2 = of_nat n" "rd32 ?r 4 = 4"
    unfolding r by (simp_all add: rd16_def rd32_def le16_def le32_def of_le16_le16 of_le32_le32 nth_Cons')
  moreover have "slice 16 (n - 20) ?r = body ss" unfolding r by (simp add: slice_def n_def)
  moreover have "drop (n + 4) ?r = rest"
    by (simp add: n_def length_patched)
  moreover have "dec_body (body ss) = Some ss" using n by (intro dec_body_enc) (simp add: n_def)
  moreover have "unat (of_nat n :: u16) = n" by (rule unat_of_nat16 [OF n])
  moreover have "?r \<noteq> []" "length ?r = n + 4 + length rest" "20 \<le> n"
    by (simp_all add: length_patched n_def flip: length_0_conv)
  ultimately show ?thesis
    by (subst dec_records.simps) (simp add: Let_def del: append_is_Nil_conv length_append)
qed

lemma dec_patched_all:
  "list_all valid_band bs \<Longrightarrow> dec_records (concat (map (patched flag fseq) bs)) = Some (concat bs)"
proof (induction bs)
  case Nil
  show ?case by (simp add: dec_records.simps)
qed (simp add: dec_records_patched)

text \<open>The walk patches every record of the stream.\<close>

lemma patch_walk_records:
  "list_all valid_band bs \<Longrightarrow>
     patch_walk flag fseq (length pre) (pre @ concat (map record_bytes bs)) =
     pre @ concat (map (patched flag fseq) bs)"
proof (induction bs arbitrary: pre)
  case Nil
  show ?case by (simp add: patch_walk.simps)
next
  case (Cons b bs)
  define n where "n = 20 + length (body b)"
  let ?rest = "concat (map record_bytes bs)"
  let ?s = "pre @ record_bytes b @ ?rest"
  have n: "n < 65536" using Cons.prems by (simp add: valid_band_def n_def)
  have nn: "unat (of_nat n :: u16) = n" by (rule unat_of_nat16 [OF n])
  have rb: "record_bytes b = [0, 0] @ le16 (of_nat n) @ le32 4 @ zeros 8 @ body b @ zeros 8"
    by (simp add: record_bytes_eq n_def)
  have "of_le32 4 0 0 0 = (4 :: u32)" "of_le16 0 0 = 0"
    using of_le32_le32 [of 4] by (simp_all add: of_le16_def)
  then have hdr: "rd16 ?s (length pre) = 0" "rd16 ?s (length pre + 2) = of_nat n" "rd32 ?s (length pre + 4) = 4"
    unfolding rb
    by (simp_all add: rd16_def rd32_def le16_def le32_def of_le16_le16 of_le32_le32 nth_append nth_Cons')
  have len: "length ?s = length pre + (n + 4) + length ?rest"
    by (simp add: length_record_bytes n_def)
  let ?s1 = "case flag of None \<Rightarrow> ?s | Some fl \<Rightarrow> ?s[length pre + 8 := fl]"
  let ?s2 = "case fseq of None \<Rightarrow> ?s1 | Some fs \<Rightarrow> ?s1[length pre + 10 := fs]"
  have "?s2 = (pre @ patched flag fseq b) @ ?rest"
    unfolding rb patched_def n_def [symmetric]
    by (simp add: le16_def le32_def zeros_def numeral_eq_Suc list_update_append split: option.split)
  moreover have "patch_walk flag fseq (length pre) ?s = patch_walk flag fseq (length pre + (n + 4)) ?s2"
    using hdr len nn by (subst patch_walk.simps) (simp add: Let_def n_def)
  moreover have "length pre + (n + 4) = length (pre @ patched flag fseq b)"
    by (simp add: length_patched n_def)
  ultimately show ?case
    using Cons.IH [of "pre @ patched flag fseq b"] Cons.prems by simp
qed

section \<open>The flat frame\<close>

text \<open>A solid strip has at most 118 bytes.\<close>

lemma fst_push: "length (fst (fold push_at bs st)) = length (fst st)"
  by (induction bs arbitrary: st) (auto simp: push_at_def split: prod.splits)

lemma quantize_dc_small:
  assumes "\<bar>v\<bar> \<le> 16320"
  shows "mag_category (quantize_dc p v) \<le> 11"
proof -
  have "drop_bit 16 ((\<bar>v\<bar> + 8) * (65536 div step)) \<le> 16328 * (65536 div 16) div 2 ^ 16"
    "0 \<le> drop_bit 16 ((\<bar>v\<bar> + 8) * (65536 div step))"
    if "step = 16 \<or> step = (64 :: int)" for step
    using that assms by (auto simp: drop_bit_eq_div intro!: zdiv_mono1)
  from this [of "if p = 0 then 16 else 64"]
  have "nat \<bar>quantize_dc p v\<bar> < 2 ^ 11"
    by (auto simp: quantize_dc_def Let_def split: if_splits)
  then show ?thesis unfolding mag_category_def by (rule bit_len_le)
qed

lemma esc_len_small: "mag_category v \<le> 11 \<Longrightarrow> esc_len v cmax \<le> 23"
  by (auto simp: esc_len_def Let_def)

lemma length_solid_strip:
  assumes "colour r g b = (ydc, cbdc, crdc)"
  shows "length (solid_strip x y ydc cbdc crdc) \<le> 65513"
proof -
  have b: "\<bar>ydc\<bar> \<le> 16320" "\<bar>cbdc\<bar> \<le> 16320" "\<bar>crdc\<bar> \<le> 16320"
    using colour_range [of r g b] assms by auto
  define esc where "esc = esc_len (quantize_dc 2 crdc) SOLID_DC_CMAX + esc_len (quantize_dc 1 cbdc) SOLID_DC_CMAX
      + esc_len (quantize_dc 0 ydc) SOLID_DC_CMAX"
  have "esc \<le> 69"
    using b by (auto simp: esc_def intro!: add_mono [of _ 46 _ 23, simplified] add_mono [of _ 23 _ 23, simplified]
        esc_len_small quantize_dc_small)
  define m where "m = div_ceil (SOLID_DC_BIT + esc + SOLID_DC_MINPAD) 8"
  have m: "m \<le> 63" "46 \<le> m"
    using \<open>esc \<le> 69\<close> by (simp_all add: m_def div_ceil_def SOLID_DC_BIT_def SOLID_DC_MINPAD_def)
  have nth3: "[u, v, w] ! 0 = u" "[u, v, w] ! 1 = v" "[u, v, w] ! 2 = w" for u v w :: int
    by simp_all
  have "length (solid_strip x y ydc cbdc crdc) = m + m mod 2 + 2"
    using m(2) unfolding solid_strip_def Let_def nth3 esc_def [symmetric] m_def [symmetric]
    by (simp add: fst_push SOLID_MAIN_def)
  with m(1) show ?thesis by linarith
qed

lemma chunks_of_bound: "0 < n \<Longrightarrow> list_all (\<lambda>c. length c \<le> n) (chunks_of n xs)"
  by (induction n xs rule: chunks_of.induct) (subst chunks_of.simps, auto)

text \<open>
  C31. A flat-colour frame: a size that is not a whole number of tiles is EINVAL; otherwise, whatever
  flag and sequence bytes are patched into the records, the transfers concatenated read back to
  one solid strip of the colour per 64 by 16 tile in raster order, and none exceeds 65539 bytes.
\<close>

theorem solid_frame_strips:
  "(case solid_frame_ep08 flag fseq width height (r, g, b) seq0 of
      Inl e \<Rightarrow> e = EINVAL \<and> \<not> (width mod 64 = 0 \<and> height mod 16 = 0)
    | Inr (frames, sq) \<Rightarrow> width mod 64 = 0 \<and> height mod 16 = 0 \<and> sq = seq0
        \<and> list_all (\<lambda>t. length t \<le> 65539) frames
        \<and> dec_records (concat frames) = Some (map (\<lambda>(x, y). case colour r g b of (ydc, cbdc, crdc) \<Rightarrow>
              solid_strip (of_nat x) (of_nat y) ydc cbdc crdc) (tiles (unat width) (unat height))))"
proof (cases "width mod 64 \<noteq> 0 \<or> height mod 16 \<noteq> 0")
  case False
  obtain ydc cbdc crdc where col: "colour r g b = (ydc, cbdc, crdc)" by (metis prod_cases3)
  let ?ss = "map (\<lambda>(x, y). solid_strip (of_nat x) (of_nat y) ydc cbdc crdc) (tiles (unat width) (unat height))"
  have len: "list_all (\<lambda>s. length s \<le> 65513) ?ss"
    using length_solid_strip [OF col] by (auto simp: list_all_iff)
  obtain bs where bs: "concat (frame_records ?ss) = concat (map record_bytes bs)" "concat bs = ?ss"
    "list_all valid_band bs"
    using frame_records_stream [OF len] by blast
  have short: "list_all (\<lambda>t. length t \<le> 65539) (frame_records ?ss)"
    using frame_records_groups [OF len] by (auto simp: SIZE_CAP_def CHUNK_def list_all_iff)
  have "concat (patch_record_meta flag fseq (frame_records ?ss)) = concat (map (patched flag fseq) bs)"
    using patch_walk_records [OF bs(3), of flag fseq "[]"]
    by (simp add: patch_record_meta_def concat_chunks bs(1) patched_none)
  moreover have "list_all (\<lambda>t. length t \<le> 65539) (patch_record_meta flag fseq (frame_records ?ss))"
    using short chunks_of_bound [of 65536 "patch_walk flag fseq 0 (concat (frame_records ?ss))"]
    by (auto simp: patch_record_meta_def list_all_iff)
  ultimately show ?thesis
    using False dec_patched_all [OF bs(3), of flag fseq] bs(2)
    by (simp add: solid_frame_ep08_def col Let_def)
qed (simp add: solid_frame_ep08_def)

end
