(* ===== verification/EdidFetch.thy ===== *)
theory EdidFetch
  imports Coldstart
begin

text \<open>
  The EDID fetch of the rig (\<open>chimera/src/edid_fetch.rs\<close>): early probe and fetch rounds, then the
  engage pair, the readiness-gated status polls and a last fetch, over one engaged session. The
  dock is the script of \<open>Coldstart\<close>; every message draws a fresh inner counter, is sealed at the
  running wire counter and is followed by one read. Sleeps are left out.
\<close>

definition EARLY_ROUNDS :: nat where "EARLY_ROUNDS = 3"
definition POLL_ITERS :: nat where "POLL_ITERS = 100"
definition POLL_PROBE_EVERY :: nat where "POLL_PROBE_EVERY = 8"

text \<open>
  \<open>ef_wire\<close> is the caller's \<open>counter\<close>, \<open>ef_ctr\<close> the captured \<open>ctr\<close> of \<open>next_ctr\<close>; \<open>ef_sealed\<close>
  records the wire counter and the content of every message sealed.
\<close>

record fetch =
  ef_rig :: rig
  ef_wire :: u32
  ef_ctr :: u16
  ef_edid :: "bytes option"
  ef_sealed :: "(u32 \<times> bytes) list"

definition fetch_init :: "rig \<Rightarrow> u32 \<Rightarrow> fetch" where
  "fetch_init s counter = \<lparr>ef_rig = s, ef_wire = counter, ef_ctr = 0, ef_edid = None, ef_sealed = []\<rparr>"

definition next_ctr :: "fetch \<Rightarrow> u16 \<times> fetch" where
  "next_ctr s = (ef_ctr s + 1, s\<lparr>ef_ctr := ef_ctr s + 1\<rparr>)"

definition ef_send :: "prims \<Rightarrow> env \<Rightarrow> session \<Rightarrow> u16 \<Rightarrow> bytes \<Rightarrow> fetch \<Rightarrow> bool \<times> fetch" where
  "ef_send P E ses i content s =
     (case seal_interactive P (ses_ks ses) (ses_riv ses) i (ef_wire s) content of
        Inl e \<Rightarrow> (False, s)
      | Inr frame \<Rightarrow>
          (let (ok, r) = send_dlm E frame (ef_rig s)
           in (ok, s\<lparr>ef_rig := r, ef_wire := ef_wire s + of_nat ((length content + 15) div 16),
                     ef_sealed := ef_sealed s @ [(ef_wire s, content)]\<rparr>)))"

definition drain_once :: "prims \<Rightarrow> env \<Rightarrow> session \<Rightarrow> fetch \<Rightarrow> bool \<times> fetch" where
  "drain_once P E ses s =
     (let (r, rig') = recv_dlm E (ef_rig s); s = s\<lparr>ef_rig := rig'\<rparr>
      in case r of
           None \<Rightarrow> (False, s)
         | Some reply \<Rightarrow>
             (let s = (if ef_edid s = None
                       then s\<lparr>ef_edid := parse_edid_from_reply P (ses_ks ses) (ses_riv ses) reply\<rparr> else s)
              in (edid_poll_ready P (ses_ks ses) (ses_riv ses) reply = Some True, s)))"

text \<open>The ten random bytes of a builder.\<close>

definition ef_rand :: "env \<Rightarrow> fetch \<Rightarrow> bytes \<times> fetch" where
  "ef_rand E s = (let (b, r) = rng_fill E 10 (ef_rig s) in (b, s\<lparr>ef_rig := r\<rparr>))"

text \<open>
  The repeated pair: build a message with the next counter, send it, drain one reply. \<open>build\<close> is
  the builder of \<open>cp.rs\<close> with its counter and its random tail as arguments.
\<close>

definition exchange ::
    "prims \<Rightarrow> env \<Rightarrow> session \<Rightarrow> u16 \<Rightarrow> (u16 \<Rightarrow> bytes \<Rightarrow> bytes) \<Rightarrow> fetch \<Rightarrow> bool \<times> fetch" where
  "exchange P E ses i build s =
     (let (c, s) = next_ctr s;
          (tail, s) = ef_rand E s;
          (_, s) = ef_send P E ses i (build c tail) s
      in drain_once P E ses s)"

definition probe :: "prims \<Rightarrow> env \<Rightarrow> session \<Rightarrow> fetch \<Rightarrow> bool \<times> fetch" where
  "probe P E ses = exchange P E ses 0x15 (\<lambda>c tail. get_edid_req_sub c 0x20 tail)"

definition fetch_req :: "prims \<Rightarrow> env \<Rightarrow> session \<Rightarrow> fetch \<Rightarrow> bool \<times> fetch" where
  "fetch_req P E ses = exchange P E ses 0x15 get_edid_req"

definition engage :: "prims \<Rightarrow> env \<Rightarrow> session \<Rightarrow> fetch \<Rightarrow> bool \<times> fetch" where
  "engage P E ses = exchange P E ses 0x16 edid_engage_req"

definition poll :: "prims \<Rightarrow> env \<Rightarrow> session \<Rightarrow> fetch \<Rightarrow> bool \<times> fetch" where
  "poll P E ses = exchange P E ses 0x14 (\<lambda>c tail. device_query_req c 0x000c tail)"

fun early_rounds :: "prims \<Rightarrow> env \<Rightarrow> session \<Rightarrow> nat \<Rightarrow> fetch \<Rightarrow> fetch" where
  "early_rounds P E ses 0 s = s"
| "early_rounds P E ses (Suc n) s =
     (if ef_edid s \<noteq> None then s
      else let s = snd (probe P E ses s);
               s = snd (probe P E ses s);
               s = snd (fetch_req P E ses s)
           in if ef_edid s \<noteq> None then s else early_rounds P E ses n s)"

text \<open>\<open>for i in 0..POLL_ITERS\<close>: the second argument counts the iterations left.\<close>

fun poll_loop :: "prims \<Rightarrow> env \<Rightarrow> session \<Rightarrow> nat \<Rightarrow> nat \<Rightarrow> bool \<Rightarrow> fetch \<Rightarrow> bool \<times> fetch" where
  "poll_loop P E ses i 0 ready s = (ready, s)"
| "poll_loop P E ses i (Suc n) ready s =
     (if ef_edid s \<noteq> None \<or> ready then (ready, s)
      else let (r, s) = poll P E ses s;
               ready = (ready \<or> r);
               (ready, s) =
                 (if i mod POLL_PROBE_EVERY = POLL_PROBE_EVERY - 1
                  then let (r, s) = probe P E ses s in (ready \<or> r, s)
                  else (ready, s))
           in if ef_edid s \<noteq> None \<or> ready then (ready, s)
              else poll_loop P E ses (Suc i) n ready s)"

definition run_fetch :: "prims \<Rightarrow> env \<Rightarrow> session \<Rightarrow> fetch \<Rightarrow> fetch" where
  "run_fetch P E ses s =
     (let s = early_rounds P E ses EARLY_ROUNDS s
      in if ef_edid s = None
         then let s = snd (engage P E ses s);
                  s = snd (engage P E ses s);
                  (ready, s) = poll_loop P E ses 0 POLL_ITERS False s
              in if ef_edid s = None then snd (fetch_req P E ses s) else s
         else s)"

text \<open>\<open>fetch_edid\<close>: the EDID, and the state with the advanced counter.\<close>

definition fetch_edid :: "prims \<Rightarrow> env \<Rightarrow> session \<Rightarrow> u32 \<Rightarrow> rig \<Rightarrow> bytes option \<times> fetch" where
  "fetch_edid P E ses counter s =
     (let s = run_fetch P E ses (fetch_init s counter) in (ef_edid s, s))"

end
