(* ===== verification/EdidFetchLaws.thy ===== *)
theory EdidFetchLaws
  imports EdidFetch SealLaws CpLaws
begin

text \<open>
  Laws of the EDID fetch: it always ends within 124 messages, returns the first EDID any reply it
  read carried, and never encrypts two blocks with the same keystream block.
\<close>

section \<open>What an exchange does\<close>

text \<open>The first EDID among the replies at the positions \<open>is\<close>.\<close>

definition edid_at :: "prims \<Rightarrow> env \<Rightarrow> session \<Rightarrow> nat \<Rightarrow> bytes option" where
  "edid_at P E ses i =
     (case ev_read E i of None \<Rightarrow> None | Some w \<Rightarrow> parse_edid_from_reply P (ses_ks ses) (ses_riv ses) w)"

fun first_edid :: "prims \<Rightarrow> env \<Rightarrow> session \<Rightarrow> nat list \<Rightarrow> bytes option" where
  "first_edid P E ses [] = None"
| "first_edid P E ses (i # is) = (case edid_at P E ses i of Some e \<Rightarrow> Some e | None \<Rightarrow> first_edid P E ses is)"

lemma first_edid_append:
  "first_edid P E ses (xs @ ys) =
     (case first_edid P E ses xs of Some e \<Rightarrow> Some e | None \<Rightarrow> first_edid P E ses ys)"
  by (induction xs) (auto split: option.split)

text \<open>
  \<open>adv k s t\<close>: \<open>t\<close> is \<open>s\<close> after \<open>k\<close> exchanges. Each seals 32 bytes, two blocks, at the running
  counter, and reads once.
\<close>

definition adv :: "prims \<Rightarrow> env \<Rightarrow> session \<Rightarrow> nat \<Rightarrow> fetch \<Rightarrow> fetch \<Rightarrow> bool" where
  "adv P E ses k s t \<longleftrightarrow>
     rg_reads (ef_rig t) = rg_reads (ef_rig s) + k
   \<and> ef_wire t = ef_wire s + of_nat (2 * k)
   \<and> ef_ctr t = ef_ctr s + of_nat k
   \<and> (\<exists>ms. ef_sealed t = ef_sealed s @ ms \<and> length ms = k
        \<and> (\<forall>j < k. fst (ms ! j) = ef_wire s + of_nat (2 * j) \<and> length (snd (ms ! j)) = 32))
   \<and> ef_edid t = (case ef_edid s of Some e \<Rightarrow> Some e
        | None \<Rightarrow> first_edid P E ses [rg_reads (ef_rig s)..<rg_reads (ef_rig s) + k])"

lemma adv_0: "adv P E ses 0 s s"
  by (simp add: adv_def split: option.split)

lemma adv_trans:
  assumes "adv P E ses k s t" "adv P E ses m t u"
  shows "adv P E ses (k + m) s u"
proof -
  from assms obtain ms ns where ms: "ef_sealed t = ef_sealed s @ ms" "length ms = k"
      "\<forall>j < k. fst (ms ! j) = ef_wire s + of_nat (2 * j) \<and> length (snd (ms ! j)) = 32"
    and ns: "ef_sealed u = ef_sealed t @ ns" "length ns = m"
      "\<forall>j < m. fst (ns ! j) = ef_wire t + of_nat (2 * j) \<and> length (snd (ns ! j)) = 32"
    by (auto simp: adv_def)
  have w: "ef_wire t = ef_wire s + of_nat (2 * k)" using assms(1) by (simp add: adv_def)
  have "fst ((ms @ ns) ! j) = ef_wire s + of_nat (2 * j) \<and> length (snd ((ms @ ns) ! j)) = 32"
    if "j < k + m" for j
  proof (cases "j < k")
    case False
    then have "j - k < m" using that by simp
    with ns(3) have "fst (ns ! (j - k)) = ef_wire s + of_nat (2 * k) + of_nat (2 * (j - k))"
      "length (snd (ns ! (j - k))) = 32" by (simp_all only: w)
    moreover have "of_nat (2 * k) + of_nat (2 * (j - k)) = (of_nat (2 * j) :: u32)"
      using False by (simp only: of_nat_add [symmetric]) (simp add: algebra_simps)
    ultimately show ?thesis using False ms(2) by (simp only: nth_append if_False add.assoc)
  qed (use ms in \<open>auto simp: nth_append\<close>)
  then have "\<exists>ms. ef_sealed u = ef_sealed s @ ms \<and> length ms = k + m
      \<and> (\<forall>j < k + m. fst (ms ! j) = ef_wire s + of_nat (2 * j) \<and> length (snd (ms ! j)) = 32)"
    using ms ns by (intro exI [of _ "ms @ ns"]) simp
  moreover have "ef_wire u = ef_wire s + of_nat (2 * (k + m))"
  proof -
    have "ef_wire u = ef_wire t + of_nat (2 * m)" using assms(2) by (simp add: adv_def)
    then show ?thesis unfolding w by (simp add: distrib_left)
  qed
  moreover have "ef_ctr u = ef_ctr s + of_nat (k + m)" "rg_reads (ef_rig u) = rg_reads (ef_rig s) + (k + m)"
    using assms by (simp_all add: adv_def)
  moreover have "ef_edid u = (case ef_edid s of Some e \<Rightarrow> Some e
      | None \<Rightarrow> first_edid P E ses [rg_reads (ef_rig s)..<rg_reads (ef_rig s) + (k + m)])"
  proof -
    have "[rg_reads (ef_rig s)..<rg_reads (ef_rig s) + (k + m)] =
        [rg_reads (ef_rig s)..<rg_reads (ef_rig s) + k]
          @ [rg_reads (ef_rig s) + k..<rg_reads (ef_rig s) + k + m]"
      using upt_add_eq_append [of "rg_reads (ef_rig s)" "rg_reads (ef_rig s) + k" m]
      by (simp only: add.assoc le_add1 simp_thms)
    moreover have rt: "rg_reads (ef_rig t) = rg_reads (ef_rig s) + k"
      using assms(1) by (simp add: adv_def)
    moreover have "ef_edid t = (case ef_edid s of Some e \<Rightarrow> Some e
        | None \<Rightarrow> first_edid P E ses [rg_reads (ef_rig s)..<rg_reads (ef_rig s) + k])"
      using assms(1) by (simp add: adv_def)
    moreover have "ef_edid u = (case ef_edid t of Some e \<Rightarrow> Some e
        | None \<Rightarrow> first_edid P E ses [rg_reads (ef_rig s) + k..<rg_reads (ef_rig s) + k + m])"
      unfolding rt [symmetric] using assms(2) by (simp add: adv_def)
    ultimately show ?thesis by (simp only: first_edid_append split: option.split) simp
  qed
  ultimately show ?thesis by (simp only: adv_def)
qed

lemma exchange_adv:
  assumes "\<And>c tl. length tl = 10 \<Longrightarrow> length (build c tl) = 32"
  shows "adv P E ses 1 s (snd (exchange P E ses i build s))"
proof -
  have f: "length (fst (rng_fill E 10 r)) = 10" for r by (simp add: rng_fill_def)
  show ?thesis
    using assms f
    by (auto simp: adv_def exchange_def next_ctr_def ef_rand_def ef_send_def drain_once_def
        seal_interactive_def seal_livemac_def length_cp_wire_header send_dlm_def recv_dlm_def rng_fill_def
        Let_def edid_at_def split: option.splits prod.splits)
qed

lemma requests_adv:
  "adv P E ses 1 s (snd (probe P E ses s))" "adv P E ses 1 s (snd (fetch_req P E ses s))"
  "adv P E ses 1 s (snd (engage P E ses s))" "adv P E ses 1 s (snd (poll P E ses s))"
  unfolding probe_def fetch_req_def engage_def poll_def
  by (rule exchange_adv; simp add: get_edid_req_def get_edid_req_sub_def edid_engage_req_def
      device_query_req_def random_tail_msg_def Let_def cp_header_def)+

section \<open>The loops\<close>

text \<open>The early rounds send three messages each and stop early only with an EDID.\<close>

lemma early_rounds_adv:
  "\<exists>k. k \<le> 3 * n \<and> adv P E ses k s (early_rounds P E ses n s)
     \<and> (ef_edid (early_rounds P E ses n s) = None \<longrightarrow> k = 3 * n)"
proof (induction n arbitrary: s)
  case (Suc n)
  show ?case
  proof (cases "ef_edid s = None")
    case False
    then show ?thesis using adv_0 by (intro exI [of _ 0]) auto
  next
    case True
    define c where "c = snd (fetch_req P E ses (snd (probe P E ses (snd (probe P E ses s)))))"
    have c: "adv P E ses 3 s c"
      using adv_trans [OF adv_trans [OF requests_adv(1) requests_adv(1)] requests_adv(2), of P E ses s]
      by (simp add: numeral_3_eq_3 c_def)
    have step: "early_rounds P E ses (Suc n) s = (if ef_edid c \<noteq> None then c else early_rounds P E ses n c)"
      by (simp only: early_rounds.simps Let_def True simp_thms if_False c_def)
    show ?thesis
    proof (cases "ef_edid c = None")
      case False
      then show ?thesis using c unfolding step by (intro exI [of _ 3]) auto
    next
      case none: True
      then have step': "early_rounds P E ses (Suc n) s = early_rounds P E ses n c"
        using step by simp
      obtain k where k: "k \<le> 3 * n" "adv P E ses k c (early_rounds P E ses n c)"
        "ef_edid (early_rounds P E ses n c) = None \<longrightarrow> k = 3 * n"
        using Suc [of c] by (elim exE conjE) (rule that)
      show ?thesis
        unfolding step'
        by (intro exI [of _ "3 + k"] conjI adv_trans [OF c k(2)]) (use k(1,3) in simp_all)
    qed
  qed
qed (use adv_0 in auto)

text \<open>A poll per iteration and a probe every eighth.\<close>

definition probes :: "nat \<Rightarrow> nat \<Rightarrow> nat" where
  "probes i n = length (filter (\<lambda>j. j mod POLL_PROBE_EVERY = POLL_PROBE_EVERY - 1) [i..<i + n])"

lemma probes_Suc:
  "probes i (Suc n) = (if i mod POLL_PROBE_EVERY = POLL_PROBE_EVERY - 1 then 1 else 0) + probes (Suc i) n"
proof -
  have "[i..<i + Suc n] = i # [Suc i..<Suc i + n]" by (subst upt_conv_Cons) simp_all
  then show ?thesis by (simp only: probes_def filter.simps) simp
qed

lemma poll_loop_adv:
  "\<exists>k. k \<le> n + probes i n \<and> adv P E ses k s (snd (poll_loop P E ses i n ready s))"
proof (induction n arbitrary: i ready s)
  case 0
  show ?case using adv_0 by (intro exI [of _ 0]) simp
next
  case (Suc n)
  show ?case
  proof (cases "ef_edid s \<noteq> None \<or> ready")
    case True
    then show ?thesis using adv_0 by (intro exI [of _ 0]) auto
  next
    case False
    obtain r1 s1 where p: "poll P E ses s = (r1, s1)" by fastforce
    define here where "here = (i mod POLL_PROBE_EVERY = POLL_PROBE_EVERY - 1)"
    obtain r2 s2 where q: "(if here then let (r, s) = probe P E ses s1 in (r1 \<or> r, s) else (r1, s1)) = (r2, s2)"
      by fastforce
    have "adv P E ses (1 + (if here then 1 else 0)) s s2"
    proof (cases here)
      case True
      then have "s2 = snd (probe P E ses s1)" using q by (auto simp: Let_def split: prod.splits)
      then show ?thesis
        using True adv_trans [OF requests_adv(4) requests_adv(1), of P E ses s] p by simp
    next
      case False
      then have "s2 = s1" using q by simp
      then show ?thesis using requests_adv(4) [of P E ses s] p False by simp
    qed
    note a = this
    have step: "poll_loop P E ses i (Suc n) ready s =
        (if ef_edid s2 \<noteq> None \<or> r2 then (r2, s2) else poll_loop P E ses (Suc i) n r2 s2)"
      using False p q by (simp add: here_def)
    show ?thesis
    proof (cases "ef_edid s2 \<noteq> None \<or> r2")
      case True
      then show ?thesis
        using a unfolding step
        by (intro exI [of _ "1 + (if here then 1 else 0)"]) (auto simp: probes_Suc here_def)
    next
      case False
      obtain k where k: "k \<le> n + probes (Suc i) n"
        "adv P E ses k s2 (snd (poll_loop P E ses (Suc i) n r2 s2))"
        using Suc [of "Suc i" s2 r2] by blast
      from False have step': "poll_loop P E ses i (Suc n) ready s = poll_loop P E ses (Suc i) n r2 s2"
        using step by simp
      show ?thesis
        unfolding step' using k(1) adv_trans [OF a k(2)]
        by (intro exI [of _ "1 + (if here then 1 else 0) + k"]) (auto simp: probes_Suc here_def)
    qed
  qed
qed

lemma probes_total: "probes 0 POLL_ITERS = 12"
  by code_simp

lemma run_fetch_adv:
  "\<exists>k. k \<le> 124 \<and> adv P E ses k s (run_fetch P E ses s)
     \<and> (ef_edid (run_fetch P E ses s) = None \<longrightarrow> 12 \<le> k)"
proof -
  obtain k where k: "k \<le> 9" "adv P E ses k s (early_rounds P E ses EARLY_ROUNDS s)"
    "ef_edid (early_rounds P E ses EARLY_ROUNDS s) = None \<longrightarrow> k = 9"
    using early_rounds_adv [of EARLY_ROUNDS P E ses s] by (auto simp: EARLY_ROUNDS_def)
  let ?a = "early_rounds P E ses EARLY_ROUNDS s"
  show ?thesis
  proof (cases "ef_edid ?a = None")
    case False
    then show ?thesis using k by (intro exI [of _ k]) (auto simp: run_fetch_def Let_def)
  next
    case True
    let ?c = "snd (engage P E ses (snd (engage P E ses ?a)))"
    obtain rd d where d: "poll_loop P E ses 0 POLL_ITERS False ?c = (rd, d)" by fastforce
    obtain m where m: "m \<le> 112" "adv P E ses m ?c d"
      using poll_loop_adv [of POLL_ITERS 0 P E ses ?c False] d probes_total by (auto simp: POLL_ITERS_def)
    have c: "adv P E ses (11 + m) s d"
      using adv_trans [OF adv_trans [OF adv_trans [OF k(2) requests_adv(3)] requests_adv(3)] m(2)] k(3) True
      by (simp add: eval_nat_numeral)
    have run: "run_fetch P E ses s = (if ef_edid d = None then snd (fetch_req P E ses d) else d)"
      using True d by (simp add: run_fetch_def Let_def)
    show ?thesis
    proof (cases "ef_edid d = None")
      case True
      then show ?thesis
        using adv_trans [OF c requests_adv(2)] m(1) unfolding run by (intro exI [of _ "11 + m + 1"]) simp
    next
      case False
      then show ?thesis using c m(1) unfolding run by (intro exI [of _ "11 + m"]) auto
    qed
  qed
qed

section \<open>Keystream\<close>

text \<open>The counter blocks a sealed message is encrypted with (\<open>ctr_iv riv sq i\<close>).\<close>

definition keystream_blocks :: "(u32 \<times> bytes) list \<Rightarrow> u32 list" where
  "keystream_blocks ms =
     concat (map (\<lambda>(sq, c). map (\<lambda>i. sq + of_nat i) [0..<(length c + 15) div 16]) ms)"

lemma keystream_consecutive:
  assumes "length ms = k" "\<forall>j < k. fst (ms ! j) = w + of_nat (2 * j) \<and> length (snd (ms ! j)) = 32"
  shows "keystream_blocks ms = map (\<lambda>i. w + of_nat i) [0..<2 * k]"
  using assms
proof (induction k arbitrary: ms)
  case (Suc k)
  obtain ns m where ms: "ms = ns @ [m]" "length ns = k"
    using Suc.prems(1) by (cases ms rule: rev_cases) auto
  have "\<forall>j < k. fst (ns ! j) = w + of_nat (2 * j) \<and> length (snd (ns ! j)) = 32"
  proof (intro allI impI)
    fix j assume "j < k"
    then show "fst (ns ! j) = w + of_nat (2 * j) \<and> length (snd (ns ! j)) = 32"
      using Suc.prems(2) [rule_format, of j] ms by (simp add: nth_append)
  qed
  then have "keystream_blocks ns = map (\<lambda>i. w + of_nat i) [0..<2 * k]" using Suc.IH ms(2) by blast
  moreover have "fst m = w + of_nat (2 * k)" "length (snd m) = 32"
    using Suc.prems(2) [rule_format, of k] ms by (simp_all add: nth_append)
  moreover have "keystream_blocks ms = keystream_blocks ns @ map (\<lambda>i. fst m + of_nat i) [0..<(length (snd m) + 15) div 16]"
    by (simp add: keystream_blocks_def ms(1) split_beta)
  moreover have "[0..<2 * Suc k] = [0..<2 * k] @ [2 * k, 2 * k + 1]" by simp
  moreover have "[0..<(32 + 15) div 16] = [0, 1 :: nat]" by (simp add: upt_rec)
  ultimately show ?case by (simp add: add.assoc add.commute [of 1])
qed (simp add: keystream_blocks_def)

lemma counters_distinct: "n \<le> 2 ^ 32 \<Longrightarrow> distinct (map (\<lambda>i. w + of_nat i :: u32) [0..<n])"
proof -
  assume n: "n \<le> 2 ^ 32"
  have inj: "i = j" if "of_nat i = (of_nat j :: u32)" "i < n" "j < n" for i j
  proof -
    have "unat (of_nat i :: u32) = i" "unat (of_nat j :: u32) = j"
      using that(2,3) n by (simp_all add: unsigned_of_nat take_bit_nat_eq_self)
    with that(1) show ?thesis by metis
  qed
  show ?thesis by (simp add: distinct_map inj_on_def Ball_def) (use inj in blast)
qed

text \<open>
  C32. The EDID fetch always ends, within 124 messages, each followed by one read, and gives up
  only after at least 12; it returns the first EDID any of the replies it read carried, under
  the nonces the parser tries; the inner counters run on from the caller's wire counter, which is
  advanced by exactly the blocks used, so that no two blocks of the fetch are encrypted with the
  same keystream block.
\<close>

theorem fetch_edid_bounded:
  "let (r, s) = fetch_edid P E ses counter rg;
       k = rg_reads (ef_rig s) - rg_reads rg
   in k \<le> 124 \<and> length (ef_sealed s) = k
    \<and> r = first_edid P E ses [rg_reads rg..<rg_reads rg + k]
    \<and> (if r = None then 12 \<le> k else True)
    \<and> ef_wire s = counter + of_nat (2 * k)
    \<and> keystream_blocks (ef_sealed s) = map (\<lambda>i. counter + of_nat i) [0..<2 * k]
    \<and> distinct (keystream_blocks (ef_sealed s))"
proof -
  let ?s = "run_fetch P E ses (fetch_init rg counter)"
  obtain k where k: "k \<le> 124" "adv P E ses k (fetch_init rg counter) ?s" "ef_edid ?s = None \<longrightarrow> 12 \<le> k"
    using run_fetch_adv by blast
  then obtain ms where ms: "ef_sealed ?s = ms" "length ms = k"
    "\<forall>j < k. fst (ms ! j) = counter + of_nat (2 * j) \<and> length (snd (ms ! j)) = 32"
    by (auto simp: adv_def fetch_init_def)
  have ks: "keystream_blocks ms = map (\<lambda>i. counter + of_nat i) [0..<2 * k]"
    by (rule keystream_consecutive [OF ms(2,3)])
  have "distinct (keystream_blocks ms)"
    unfolding ks by (rule counters_distinct) (use k(1) in simp)
  moreover have "rg_reads (ef_rig ?s) = rg_reads rg + k" "ef_wire ?s = counter + of_nat (2 * k)"
    "ef_edid ?s = first_edid P E ses [rg_reads rg..<rg_reads rg + k]"
    using k(2) by (simp_all add: adv_def fetch_init_def)
  ultimately show ?thesis
    using k(1,3) ks ms(1,2) by (simp add: fetch_edid_def Let_def)
qed

end
