(* ===== verification/Bringup.thy ===== *)
theory Bringup
  imports Usb Coldstart
begin

text \<open>
  The userspace bring-up tool (\<open>vino-driver/src/bin/bringup.rs\<close>): its own AES-CMAC, tag and
  counter mode, the plaintext session init, the pairing file, and its HDCP exchange from AKE_Init
  to RepeaterAuth_Send_ACK with the stored-km path. The dock is the script of \<open>Coldstart\<close>; the
  receiver-key encryption of the \<open>rsa\<close> crate is a parameter.
\<close>

section \<open>AES-CMAC and the tag\<close>

definition bu_dbl :: "bytes \<Rightarrow> bytes" where
  "bu_dbl b =
     (let o' = map (\<lambda>i. push_bit 1 (b ! i) OR drop_bit 7 (b ! (i + 1))) [0..<15] @ [push_bit 1 (b ! 15)]
      in if b ! 0 AND 0x80 \<noteq> 0 then xor_at 15 0x87 o' else o')"

text \<open>The i-th block of the loop, masked with a subkey when it is the last.\<close>

definition bu_block :: "bytes \<Rightarrow> nat \<Rightarrow> bool \<Rightarrow> bytes \<Rightarrow> bytes \<Rightarrow> nat \<Rightarrow> bytes" where
  "bu_block data n complete k1 k2 i =
     (let start = i * 16;
          end' = min (start + 16) (length data);
          blk = put 0 (slice start (end' - start) data) (zeros 16)
      in if i = n - 1
         then if complete then map (\<lambda>j. blk ! j XOR k1 ! j) [0..<16]
              else let blk = blk[end' - start := 0x80] in map (\<lambda>j. blk ! j XOR k2 ! j) [0..<16]
         else blk)"

definition bu_aes_cmac :: "prims \<Rightarrow> bytes \<Rightarrow> bytes \<Rightarrow> bytes" where
  "bu_aes_cmac P key data =
     (let l = pr_aes P key (zeros 16);
          k1 = bu_dbl l;
          k2 = bu_dbl k1;
          n = (if data = [] then 1 else (length data + 15) div 16);
          complete = (data \<noteq> [] \<and> length data mod 16 = 0)
      in foldl (\<lambda>c i. pr_aes P key (map (\<lambda>j. bu_block data n complete k1 k2 i ! j XOR c ! j) [0..<16]))
           (zeros 16) [0..<n])"

definition bu_dl3cmac_tag :: "prims \<Rightarrow> bytes \<Rightarrow> bytes \<Rightarrow> u64 \<Rightarrow> bytes \<Rightarrow> bytes" where
  "bu_dl3cmac_tag P ks riv counter ciphertext = bu_aes_cmac P ks (riv @ be64 counter @ ciphertext)"

section \<open>Counter mode\<close>

text \<open>\<open>for i in (0..16).rev() \{ counter[i] += 1; if counter[i] != 0 \{ break \} \}\<close>.\<close>

fun inc_at :: "nat \<Rightarrow> bytes \<Rightarrow> bytes" where
  "inc_at 0 c = c[0 := c ! 0 + 1]"
| "inc_at (Suc i) c =
     (let c = c[Suc i := c ! Suc i + 1] in if c ! Suc i \<noteq> 0 then c else inc_at i c)"

fun bu_ctr_blocks :: "prims \<Rightarrow> bytes \<Rightarrow> bytes \<Rightarrow> bytes list \<Rightarrow> bytes" where
  "bu_ctr_blocks P key counter [] = []"
| "bu_ctr_blocks P key counter (b # bs) =
     (let keystream = pr_aes P key counter
      in map (\<lambda>i. b ! i XOR keystream ! i) [0..<length b] @ bu_ctr_blocks P key (inc_at 15 counter) bs)"

definition aes_ctr_encrypt :: "prims \<Rightarrow> bytes \<Rightarrow> bytes \<Rightarrow> bytes \<Rightarrow> bytes" where
  "aes_ctr_encrypt P key iv plaintext = bu_ctr_blocks P key iv (chunks_of 16 plaintext)"

text \<open>The IV every caller builds, the closure \<open>seal\<close> and the closure \<open>decrypt_in\<close> of the replay.\<close>

definition bu_iv :: "bytes \<Rightarrow> u32 \<Rightarrow> bytes" where
  "bu_iv riv sq = put 12 (be32 sq) (put 0 riv (zeros 16))"

definition bu_seal :: "prims \<Rightarrow> bytes \<Rightarrow> bytes \<Rightarrow> u32 \<Rightarrow> bytes \<Rightarrow> bytes" where
  "bu_seal P ks riv sq pt =
     (let ct = aes_ctr_encrypt P ks (bu_iv riv sq) pt
      in [0, 0] @ le16 (of_nat (16 + length ct - 4)) @ le32 4 @ le16 0x24
         @ le16 (of_nat (length ct div 4)) @ le32 sq @ ct)"

definition decrypt_in :: "prims \<Rightarrow> bytes \<Rightarrow> bytes \<Rightarrow> bytes \<Rightarrow> (u16 \<times> u16 \<times> bytes) option" where
  "decrypt_in P ks riv buf =
     (if length buf < 18 then None
      else let in_riv' = xor_at 7 1 riv;
               sub = rd16 buf 8;
               wseq = rd32 buf 12;
               pt = aes_ctr_encrypt P ks (bu_iv in_riv' wseq) (drop 16 buf);
               ictr = (if 6 \<le> length pt then rd16 pt 4 else 0)
           in Some (sub, ictr, pt))"

section \<open>Plaintext messages\<close>

definition bu_init_0 :: bytes where
  "bu_init_0 = [0x00, 0x00, 0x0c, 0x00, 0x01, 0x00, 0x00, 0x00, 0x00, 0x00, 0x00, 0x00, 0x00, 0x00, 0x00, 0x00]"

definition bu_init_25 :: bytes where
  "bu_init_25 =
    [0x00, 0x00, 0x1c, 0x00, 0x02, 0x00, 0x00, 0x00, 0x25, 0x00, 0x00, 0x00, 0x00, 0x00, 0x00, 0x00,
     0x05, 0x00, 0x08, 0x00, 0x00, 0x00, 0x00, 0x00, 0x00, 0x00, 0x00, 0x00, 0x00, 0x00, 0x00, 0x00]"

definition bu_init_4 :: bytes where
  "bu_init_4 =
    [0x00, 0x00, 0x1c, 0x00, 0x02, 0x00, 0x00, 0x00, 0x04, 0x00, 0x00, 0x00, 0x00, 0x00, 0x00, 0x00,
     0x04, 0x00, 0x00, 0x00, 0x00, 0x00, 0x00, 0x00, 0x00, 0x00, 0x00, 0x00, 0x00, 0x00, 0x00, 0x00,
     0x00, 0x00, 0x2c, 0x00, 0x04, 0x00, 0x00, 0x00, 0x04, 0x00, 0x0a, 0x00, 0x00, 0x00, 0x00, 0x00,
     0x14, 0x00, 0x76, 0x00, 0x00, 0x00, 0x00, 0x00, 0x00, 0x00, 0x00, 0x00, 0x00, 0x00, 0x00, 0x00,
     0x00, 0x00, 0x00, 0x00, 0x00, 0x00, 0x00, 0x00, 0x00, 0x00, 0x00, 0x00, 0x00, 0x00, 0x00, 0x00]"

text \<open>\<open>send_ep08_keepalive\<close>: three TLVs, the counter in byte 25 of the frame.\<close>

definition ep08_keepalive :: "u8 \<Rightarrow> bytes" where
  "ep08_keepalive counter =
    [0x1c, 0x00, 0x00, 0x00, 0x04, 0x00, 0x00, 0x00,
     0x20, 0x00, 0x06, 0x00, 0x00, 0x00, 0x00, 0x00, 0x08, 0x00, 0x05, 0x02, 0x00, 0x00, 0x00, 0x08,
     0x00, 0x16, 0x00, 0x00, 0x00, 0x00, 0x00, 0x00,
     0x1c, 0x00, 0x00, 0x00, 0x04, 0x00, 0x00, 0x00,
     0x20, 0x00, 0x04, 0x00, 0x00, 0x00, 0x00, 0x00, 0x0a, 0x00, 0x04, 0x04, 0x00, 0x00, 0x00, 0x10,
     0x00, 0x00, 0x00, 0x08, 0x00, 0x00, 0x00, 0x00,
     0x1c, 0x00, 0x00, 0x00, 0x04, 0x00, 0x00, 0x00,
     0x30, 0x00, 0x04, 0x00, 0x00, 0x00, 0x00, 0x00, 0x0a, 0x00, 0x04, 0x04, 0x00, 0x00, 0x00, 0x10,
     0x00, 0x00, 0x00, 0x08, 0x00, 0x00, 0x00, 0x00][25 := counter]"

section \<open>The pairing file\<close>

type_synonym pairing = "bytes \<times> bytes"

definition save_pairing :: "pairing \<Rightarrow> bytes" where
  "save_pairing p = (case p of (ekh_km, km) \<Rightarrow> put 16 km (put 0 ekh_km (zeros 32)))"

definition load_pairing :: "bytes option \<Rightarrow> pairing option" where
  "load_pairing file =
     (case file of
        None \<Rightarrow> None
      | Some data \<Rightarrow> if length data < 32 then None else Some (slice 0 16 data, slice 16 16 data))"

section \<open>The HDCP exchange\<close>

datatype bu_err =
  BuUsb | BuDecode | BuExpected u8 | BuMismatch u8 | BuCert | BuRsa | BuPanic | BuWaiting

definition rx_of :: "env \<Rightarrow> rx" where
  "rx_of E = (\<lambda>i. case ev_read E i of None \<Rightarrow> Inl Timeout | Some b \<Rightarrow> Inr b)"

definition bu_send :: "env \<Rightarrow> frame \<Rightarrow> (bu_err, unit) act" where
  "bu_send E f = (\<lambda>s. case send_dlm E (frame_encode f) s of
     (ok, s') \<Rightarrow> (if ok then Inr () else Inl BuUsb, s'))"

definition bu_raw :: "env \<Rightarrow> (bu_err, bytes) act" where
  "bu_raw E = (\<lambda>s. case recv_dlm E s of
     (None, s') \<Rightarrow> (Inl BuUsb, s') | (Some b, s') \<Rightarrow> (Inr b, s'))"

text \<open>\<open>recv_hdcp_msg(4096, 8)\<close> and \<open>parse_hdcp_in\<close> of its body.\<close>

definition bu_recv :: "env \<Rightarrow> (bu_err, u8 \<times> bytes) act" where
  "bu_recv E = (\<lambda>s. case recv_hdcp_msg (rx_of E) 8 (rg_reads s) of
     (r, i) \<Rightarrow>
       (case r of
          Inl e \<Rightarrow> Inl (if e = Decode then BuDecode else BuUsb)
        | Inr f \<Rightarrow> (case parse_hdcp_in (fr_body f) of None \<Rightarrow> Inl BuDecode | Some m \<Rightarrow> Inr m),
        s\<lparr>rg_reads := i\<rparr>))"

text \<open>
  (13) The wait for the receiver list: a loop without a bound of its own, one read per unit of
  fuel. A read that fails ends it. The value returned is the half of V that was compared.
\<close>

fun ridlist_loop :: "prims \<Rightarrow> env \<Rightarrow> bytes \<Rightarrow> nat \<Rightarrow> (bu_err, bytes) act" where
  "ridlist_loop P E kd 0 = fail BuWaiting"
| "ridlist_loop P E kd (Suc n) =
     bnd (bu_raw E) (\<lambda>raw.
     case frame_decode raw of
       None \<Rightarrow> ridlist_loop P E kd n
     | Some f \<Rightarrow>
         (case parse_hdcp_in (fr_body f) of
            None \<Rightarrow> ridlist_loop P E kd n
          | Some (i, payload) \<Rightarrow>
              if i = 0x0c
              then if length payload < 16 then fail BuDecode
                   else let v_prime = drop (length payload - 16) payload;
                            hdr = take (length payload - 16) payload;
                            v_full = pr_hmac P kd hdr;
                            vl = take 16 v_full
                        in if vl \<noteq> v_prime then fail (BuMismatch i) else ret vl
              else ridlist_loop P E kd n))"

text \<open>(11) to (13): locality check, session key, repeater authentication up to Send_ACK.\<close>

definition bu_finish :: "prims \<Rightarrow> env \<Rightarrow> nat \<Rightarrow> bytes \<Rightarrow> bytes \<Rightarrow> bytes \<Rightarrow> bytes \<Rightarrow> (bu_err, session) act" where
  "bu_finish P E fuel km rtx rrx kd =
     bnd (rand_or E 8) (\<lambda>rn.
     bnd (bu_send E (d_lc_init 4 0 rn)) (\<lambda>_.
     bnd (bu_recv E) (\<lambda>(lp_id, lp_pl).
     bnd (check (lp_id = 0x0a \<and> 32 \<le> length lp_pl) (BuExpected 0x0a)) (\<lambda>_.
     bnd (check (v_compute_l P kd rrx rn = take 32 lp_pl) (BuMismatch lp_id)) (\<lambda>_.
     bnd (rand_or E 16) (\<lambda>ks.
     bnd (rand_or E 8) (\<lambda>riv.
     let edkey_ks = ske_encrypt_ks P km rtx rrx rn ks
     in bnd (bu_send E (d_ske_send_eks 5 0 edkey_ks riv)) (\<lambda>_.
        bnd (lift_rig (\<lambda>s. snd (recv_dlm E s))) (\<lambda>_.
        bnd (ridlist_loop P E kd fuel) (\<lambda>v_local.
        bnd (bu_send E (d_repeater_auth_send_ack 6 0 v_local)) (\<lambda>_.
        ret \<lparr>ses_ks = ks, ses_riv = riv\<rparr>)))))))))))"

text \<open>(6) to (9): nonce, H', and the pairing message on the path without a stored key.\<close>

definition bu_verify ::
    "prims \<Rightarrow> env \<Rightarrow> nat \<Rightarrow> pairing option \<Rightarrow> bytes \<Rightarrow> bytes \<Rightarrow> u8 \<Rightarrow> (bu_err, session \<times> pairing option) act" where
  "bu_verify P E fuel stored km rtx repeater =
     bnd (bu_recv E) (\<lambda>(rrx_id, rrx_pl).
     bnd (check (rrx_id = 0x06) (BuExpected 0x06)) (\<lambda>_.
     bnd (check (8 \<le> length rrx_pl) BuPanic) (\<lambda>_.
     let rrx = take 8 rrx_pl
     in bnd (bu_recv E) (\<lambda>(hp_id, hp_pl).
        bnd (check (hp_id = 0x07 \<and> 32 \<le> length hp_pl) (BuExpected 0x07)) (\<lambda>_.
        let kd = v_derive_kd P km rtx rrx
        in bnd (check (v_compute_h_simple P kd rtx repeater = take 32 hp_pl) (BuMismatch hp_id)) (\<lambda>_.
           bnd (if stored = None
                then bnd (bu_recv E) (\<lambda>(pi_id, pi_pl).
                     bnd (check (pi_id = 0x08 \<and> 16 \<le> length pi_pl) (BuExpected 0x08)) (\<lambda>_.
                     ret (Some (take 16 pi_pl, km))))
                else ret None) (\<lambda>pairing_out.
           bnd (bu_finish P E fuel km rtx rrx kd) (\<lambda>ses.
           ret (ses, pairing_out)))))))))"

text \<open>
  \<open>run_ake\<close>. The \<open>rsa\<close> crate is two parameters: \<open>pk\<close>, the public key of a certificate or its
  rejection, and \<open>enc\<close>, the encryption under it with the padding \<open>RSA_PAD\<close> selects (the random
  bytes it draws for itself only shift the stream of the generator). Two slices panic on short
  payloads.
\<close>

definition bu_run_ake ::
    "prims \<Rightarrow> (receiver_cert \<Rightarrow> 'k option) \<Rightarrow> ('k \<Rightarrow> bytes \<Rightarrow> bytes option) \<Rightarrow> env \<Rightarrow> nat \<Rightarrow>
     pairing option \<Rightarrow> (bu_err, session \<times> pairing option) act" where
  "bu_run_ake P pk enc E fuel stored =
     bnd (rand_or E 8) (\<lambda>rtx.
     bnd (bu_send E (d_ake_init 1 0 rtx (zeros 3))) (\<lambda>_.
     bnd (bu_raw E) (\<lambda>_.
     bnd (bu_recv E) (\<lambda>(msg_id, payload).
     bnd (check (msg_id = 0x03) (BuExpected 0x03)) (\<lambda>_.
     bnd (check (payload \<noteq> []) BuPanic) (\<lambda>_.
     let repeater = hd payload
     in case cert_from_bytes (tl payload) of
          Inl e \<Rightarrow> fail BuCert
        | Inr cert \<Rightarrow>
           (case pk cert of
              None \<Rightarrow> fail BuRsa
            | Some pubkey \<Rightarrow>
            bnd (bu_send E (d_ake_transmitter_info 2 0)) (\<lambda>_.
            bnd (bu_recv E) (\<lambda>_.
            case stored of
              Some (ekh_km, km) \<Rightarrow>
                bnd (rand_or E 16) (\<lambda>m.
                bnd (bu_send E (d_ake_stored_km 3 0 ekh_km m)) (\<lambda>_.
                bu_verify P E fuel stored km rtx repeater))
            | None \<Rightarrow>
                bnd (rand_or E 16) (\<lambda>km.
                case enc pubkey km of
                  None \<Rightarrow> fail BuRsa
                | Some ekpub \<Rightarrow>
                    if length ekpub \<noteq> 128 then fail BuRsa
                    else bnd (bu_send E (d_ake_no_stored_km 3 0 ekpub)) (\<lambda>_.
                         bu_verify P E fuel stored km rtx repeater)))))))))))"

end
