(* ===== verification/BringupLaws.thy ===== *)
theory BringupLaws
  imports Bringup ColdstartLaws
begin

text \<open>
  The bring-up tool against the kernel code: its CMAC and counter mode are the kernel's (the
  latter up to the 32-bit wrap), its tag is not; its session init is the kernel's but for one byte of the probe;
  it verifies the receiver like the cold engagement, but acknowledges a repeater with the wrong
  half of V.
\<close>

section \<open>The CMAC\<close>

lemma bu_dbl_eq: "bu_dbl b = dbl b"
proof -
  have m: "(b ! 0 AND 0x80 \<noteq> 0) = (drop_bit 7 (b ! 0) = 1)"
  proof -
    have "drop_bit 7 w = (1 :: u8) \<longleftrightarrow> bit w 7" for w :: u8
    proof
      assume "drop_bit 7 w = 1"
      then have "bit (drop_bit 7 w) 0" by simp
      then show "bit w 7" by (simp add: bit_drop_bit_eq)
    next
      assume "bit w 7"
      then show "drop_bit 7 w = 1"
        by (intro bit_eqI) (auto simp: bit_drop_bit_eq bit_1_iff dest: bit_u8_less)
    qed
    moreover have "w AND 0x80 \<noteq> 0 \<longleftrightarrow> bit w 7" for w :: u8
    proof -
      have "(0x80 :: u8) = 2 ^ 7" by simp
      then show ?thesis by (simp only: and_exp_eq_0_iff_not_bit) simp
    qed
    ultimately show ?thesis by blast
  qed
  have u: "[0..<16] = [0..<15] @ [15 :: nat]" by (simp add: upt_rec)
  have v: "map (\<lambda>i. if i + 1 < 16 then push_bit 1 (b ! i) OR drop_bit 7 (b ! (i + 1)) else push_bit 1 (b ! i)) [0..<15] =
      map (\<lambda>i. push_bit 1 (b ! i) OR drop_bit 7 (b ! (i + 1))) [0..<15]"
    by (rule map_cong) simp_all
  show ?thesis
    unfolding bu_dbl_def dbl_def Let_def m u map_append v by simp
qed

lemma bu_block_inner:
  assumes "i < n - 1" "n * 16 \<le> length data + 15"
  shows "bu_block data n complete k1 k2 i = slice (i * 16) 16 data"
proof -
  have "i * 16 + 16 \<le> length data" using assms by simp
  then show ?thesis
    using assms by (simp add: bu_block_def Let_def put_def min_absorb1)
qed

lemma bu_block_last:
  assumes "length data \<le> n * 16" "n * 16 < length data + 16" "0 < n \<or> data = []"
  shows "bu_block data n complete k1 k2 (n - 1) =
    (let rem = drop ((n - 1) * 16) data
     in if complete then map (\<lambda>j. put 0 rem (zeros 16) ! j XOR k1 ! j) [0..<16]
        else map (\<lambda>j. (put 0 rem (zeros 16))[length rem := 0x80] ! j XOR k2 ! j) [0..<16])"
proof -
  have "min ((n - 1) * 16 + 16) (length data) = length data" using assms by (cases n) auto
  then show ?thesis by (simp add: bu_block_def Let_def slice_def)
qed

text \<open>The tool's CMAC is the shim's.\<close>

lemma bu_aes_cmac_eq: "bu_aes_cmac P key data = aes_cmac P key data"
proof -
  define n where "n = (if data = [] then 1 else (length data + 15) div 16)"
  define k1 where "k1 = dbl (pr_aes P key (zeros 16))"
  define complete where "complete = (data \<noteq> [] \<and> length data mod 16 = 0)"
  define rem where "rem = drop ((n - 1) * 16) data"
  have n: "0 < n" "length data \<le> n * 16" "n * 16 < length data + 16 \<or> data = []" "n * 16 \<le> length data + 16"
    by (auto simp: n_def) (cases data; simp; linarith)+
  let ?B = "bu_block data n complete k1 (dbl k1)"
  let ?f = "\<lambda>c i. pr_aes P key (map (\<lambda>j. ?B i ! j XOR c ! j) [0..<16])"
  let ?g = "\<lambda>x j. pr_aes P key (map (\<lambda>i. x ! i XOR data ! (j * 16 + i)) [0..<16])"
  have inner: "foldl ?f x [0..<n - 1] = foldl ?g x [0..<n - 1]" for x
  proof (rule foldl_cong)
    fix c i assume "i \<in> set [0..<n - 1]"
    then have i: "i < n - 1" and "data \<noteq> []" by (auto simp: n_def)
    then have "n * 16 \<le> length data + 15" using n(3) by auto
    note b = bu_block_inner [OF i this]
    have "i * 16 + 16 \<le> length data" using i \<open>n * 16 \<le> length data + 15\<close> by simp
    then have "slice (i * 16) 16 data ! j = data ! (i * 16 + j)" if "j < 16" for j
      using that by (simp add: slice_def)
    then have "map (\<lambda>j. slice (i * 16) 16 data ! j XOR c ! j) [0..<16] =
        map (\<lambda>j. c ! j XOR data ! (i * 16 + j)) [0..<16]"
      by (intro map_cong) (simp_all add: xor.commute)
    then show "?f c i = ?g c i" unfolding b by (rule arg_cong)
  qed simp_all
  let ?ml = "if complete then map (\<lambda>i. data ! ((n - 1) * 16 + i) XOR k1 ! i) [0..<16]
     else map (\<lambda>i. (put 0 rem (zeros 16))[length rem := 0x80] ! i XOR dbl k1 ! i) [0..<16]"
  have lst: "?B (n - 1) = ?ml"
  proof (cases "data = []")
    case True
    then show ?thesis
      by (simp add: bu_block_def n_def complete_def rem_def slice_def)
  next
    case False
    then have "n * 16 < length data + 16" using n(3) by blast
    note b = bu_block_last [OF n(2) this, of complete k1 "dbl k1"]
    have "put 0 rem (zeros 16) ! j = data ! ((n - 1) * 16 + j)" if "complete" "j < 16" for j
    proof -
      have "length data = n * 16" using that(1) n(2) \<open>n * 16 < length data + 16\<close> unfolding complete_def
        by (auto elim!: dvdE simp: mod_eq_0_iff_dvd)
      then have "length rem = 16" using n(1) by (cases n) (auto simp: rem_def)
      then show ?thesis using that(2) by (simp add: put_def rem_def)
    qed
    then show ?thesis using b n(1) by (simp add: Let_def rem_def)
  qed
  have "[0..<n] = [0..<n - 1] @ [n - 1]" using n(1) by (cases n) simp_all
  then have "bu_aes_cmac P key data = ?f (foldl ?f (zeros 16) [0..<n - 1]) (n - 1)"
    by (simp add: bu_aes_cmac_def Let_def bu_dbl_eq n_def k1_def complete_def)
  also have "\<dots> = pr_aes P key (map (\<lambda>i. foldl ?g (zeros 16) [0..<n - 1] ! i XOR ?ml ! i) [0..<16])"
    unfolding inner lst by (simp only: xor.commute)
  also have "\<dots> = aes_cmac P key data"
  proof -
    have "rem = (if data = [] then [] else drop ((n - 1) * 16) data)" by (simp add: rem_def)
    then show ?thesis
      unfolding aes_cmac_def Let_def complete_def n_def [symmetric] k1_def [symmetric] by (simp only:)
  qed
  finally show ?thesis .
qed

text \<open>The tags differ: the kernel flips the top bit of the nonce's first byte, the tool does not.\<close>

lemma bu_tag_eq: "bu_dl3cmac_tag P ks riv c ct = dl3cmac_tag P ks (xor_at 0 0x80 riv) c ct"
  by (simp add: bu_dl3cmac_tag_def dl3cmac_tag_def bu_aes_cmac_eq)

section \<open>Counter mode\<close>

text \<open>The \<open>k\<close> low base-256 digits of a number, most significant first.\<close>

fun digits :: "nat \<Rightarrow> nat \<Rightarrow> bytes" where
  "digits 0 m = []"
| "digits (Suc k) m = digits k (m div 256) @ [of_nat m]"

lemma length_digits [simp]: "length (digits k m) = k"
  by (induction k arbitrary: m) simp_all

lemma u8_of_nat_eq_0: "(of_nat m :: u8) = 0 \<longleftrightarrow> m mod 256 = 0"
  by (simp add: word_of_nat_eq_0_iff dvd_eq_mod_eq_0)

lemma inc_at_digits:
  assumes "Suc m < 256 ^ k" "0 < k"
  shows "inc_at (length pre + k - 1) (pre @ digits k m @ post) = pre @ digits k (Suc m) @ post"
  using assms
proof (induction k arbitrary: m post)
  case (Suc k)
  let ?i = "length pre + k"
  have upd: "(pre @ digits (Suc k) m @ post)[?i := (pre @ digits (Suc k) m @ post) ! ?i + 1]
      = pre @ digits k (m div 256) @ [of_nat (Suc m)] @ post"
    by (simp add: nth_append list_update_append add.commute)
  show ?case
  proof (cases "Suc m mod 256 = 0")
    case False
    then have "Suc m div 256 = m div 256" by (simp add: div_Suc)
    moreover have "(of_nat (Suc m) :: u8) \<noteq> 0" using False by (subst u8_of_nat_eq_0)
    moreover have "(pre @ digits k (m div 256) @ [of_nat (Suc m)] @ post) ! ?i = of_nat (Suc m)"
      by (simp add: nth_append)
    ultimately show ?thesis
      using upd by (cases ?i) (simp_all add: Let_def del: of_nat_Suc)
  next
    case True
    then have d: "Suc m div 256 = Suc (m div 256)" by (simp add: div_Suc)
    have "Suc (m div 256) < 256 ^ k"
      using Suc.prems(1) by (simp add: d [symmetric] less_mult_imp_div_less mult.commute)
    then have k: "0 < k" by (cases k) simp_all
    have z: "(of_nat (Suc m) :: u8) = 0" using True by (simp only: u8_of_nat_eq_0)
    have "(pre @ digits k (m div 256) @ [of_nat (Suc m)] @ post) ! ?i = of_nat (Suc m)"
      by (simp add: nth_append)
    moreover obtain j where j: "?i = Suc j" using k by (cases ?i) simp_all
    ultimately have "inc_at ?i (pre @ digits (Suc k) m @ post)
        = inc_at (?i - 1) (pre @ digits k (m div 256) @ [0] @ post)"
      unfolding j inc_at.simps Let_def upd [unfolded j] by (simp add: z del: of_nat_Suc)
    also have "\<dots> = pre @ digits k (Suc (m div 256)) @ [0] @ post"
      using Suc.IH [OF \<open>Suc (m div 256) < 256 ^ k\<close> k, of "[0] @ post"] by simp
    finally show ?thesis using k d z by (simp del: of_nat_Suc)
  qed
qed simp

lemma be32_digits: "be32 w = digits 4 (unat w)"
proof -
  have "ucast (drop_bit n w) = (of_nat (unat w div 2 ^ n) :: u8)" for n
    by (subst of_nat_unat [symmetric]) (simp only: unat_drop_bit_eq drop_bit_nat_def)
  from this [of 0] this [of 8] this [of 16] this [of 24] have b: "be32 w =
      [of_nat (unat w div 16777216), of_nat (unat w div 65536), of_nat (unat w div 256), of_nat (unat w)]"
    by (simp add: be32_def le32_def)
  have "(4 :: nat) = Suc (Suc (Suc (Suc 0)))" by simp
  then have "digits 4 n = [of_nat (n div 256 div 256 div 256), of_nat (n div 256 div 256),
      of_nat (n div 256), of_nat n]" for n
    by (simp only: digits.simps append.simps)
  then show ?thesis by (simp only: b div_mult2_eq [symmetric]) simp
qed

lemma put_tail: "length b = n + length v \<Longrightarrow> put n v b = take n b @ v"
  by (simp add: put_def)

lemma inc_ctr_iv:
  assumes "length riv = 8" "Suc (unat sq + i) < 2 ^ 32"
  shows "inc_at 15 (ctr_iv riv sq i) = ctr_iv riv sq (Suc i)"
proof -
  define pre where "pre = take 12 (put 0 riv (zeros 16))"
  have l: "length pre = 12" using assms(1) by (simp add: pre_def)
  have iv: "ctr_iv riv sq k = pre @ digits 4 (unat sq + k) @ []" if "unat sq + k < 2 ^ 32" for k
  proof -
    have "unat (sq + of_nat k) = unat sq + k"
      using that by (simp add: unat_word_ariths unat_of_nat take_bit_eq_mod mod_add_right_eq)
    then show ?thesis
      using assms(1) by (simp add: ctr_iv_def put_tail pre_def be32_digits)
  qed
  show ?thesis
    using inc_at_digits [of "unat sq + i" 4 pre "[]"] assms(2) by (simp add: iv l)
qed

lemma bu_blocks_eq:
  assumes P: "prims_sized P" and riv: "length riv = 8"
    and cs: "list_all (\<lambda>c. length c \<le> 16) cs" "unat sq + i + length cs \<le> 2 ^ 32"
  shows "bu_ctr_blocks P key (ctr_iv riv sq i) cs = ctr_chunks P key riv sq i cs"
  using cs
proof (induction cs arbitrary: i)
  case (Cons c cs)
  have x: "map (\<lambda>j. c ! j XOR k ! j) [0..<length c] = xor_bytes c k" if "length k = 16" for k
    using that Cons.prems(1) by (intro nth_equalityI) (auto simp: xor_bytes_def)
  have "bu_ctr_blocks P key (inc_at 15 (ctr_iv riv sq i)) cs = ctr_chunks P key riv sq (Suc i) cs"
  proof (cases cs)
    case (Cons d ds)
    then have "inc_at 15 (ctr_iv riv sq i) = ctr_iv riv sq (Suc i)"
      using Cons.prems(2) by (intro inc_ctr_iv riv) simp
    then show ?thesis using Cons.IH [of "Suc i"] Cons.prems by simp
  qed simp
  then show ?case using P by (simp add: x)
qed simp

lemma length_chunks_of: "0 < n \<Longrightarrow> length (chunks_of n xs) = (length xs + n - 1) div n"
proof (induction n xs rule: chunks_of.induct)
  case (1 n xs)
  show ?case
  proof (cases "xs = []")
    case False
    then have "length (chunks_of n xs) = Suc ((length xs - n + n - 1) div n)"
      using 1 by (simp add: chunks_step)
    also have "\<dots> = (length xs + n - 1) div n"
    proof (cases "length xs \<le> n")
      case True
      have "(n - 1) div n = 0" using "1.prems" by simp
      moreover have "(length xs + n - 1) div n = Suc ((length xs - 1) div n)"
        using False "1.prems" by (cases xs) (auto simp: div_add_self2)
      moreover have "(length xs - 1) div n = 0" using True False by (cases xs) auto
      ultimately show ?thesis using True by simp
    next
      case False
      then have "length xs + n - 1 = (length xs - n + n - 1) + n" by simp
      then show ?thesis using "1.prems" by (metis Suc_eq_plus1 div_add_self2 less_numeral_extra(3))
    qed
    finally show ?thesis .
  qed (use "1.prems" in simp)
qed

text \<open>
  The kernel's content cipher adds the block number to a 32-bit counter and encrypts the sum; the
  tool increments sixteen bytes in place. They agree as long as the counter does not wrap.
\<close>

lemma aes_ctr_eq:
  assumes "prims_sized P" "length riv = 8" "unat sq + (length xs + 15) div 16 \<le> 2 ^ 32"
  shows "aes_ctr_encrypt P key (bu_iv riv sq) xs = ctr_xor P key riv sq xs"
proof -
  have "bu_iv riv sq = ctr_iv riv sq 0" by (simp add: bu_iv_def ctr_iv_def)
  then show ?thesis
    using assms bu_blocks_eq [OF assms(1,2) chunks_of_le, of sq 0 xs key]
    by (simp add: aes_ctr_encrypt_def ctr_xor_def length_chunks_of)
qed

text \<open>
  Two implementations, one cipher: the tool's counter mode and the kernel's content cipher
  produce the same bytes for every key, nonce and data as long as the 32-bit block counter does
  not run past its end, and the tool's AES-CMAC is the kernel's on every input.
\<close>

theorem content_cipher_agrees:
  assumes "prims_sized P" "length riv = 8" "unat sq + (length xs + 15) div 16 \<le> 2 ^ 32"
  shows "aes_ctr_encrypt P key (bu_iv riv sq) xs = ctr_xor P key riv sq xs
    \<and> bu_aes_cmac P key xs = aes_cmac P key xs"
  by (simp add: aes_ctr_eq [OF assms] bu_aes_cmac_eq)

theorem content_cipher_agrees_witness:
  "aes_ctr_encrypt toy_prims [1] (bu_iv (zeros 8) 0xFFFFFFFE) (replicate 32 7)
     = ctr_xor toy_prims [1] (zeros 8) 0xFFFFFFFE (replicate 32 7)"
  using content_cipher_agrees [OF toy_prims_sized, of "zeros 8" "0xFFFFFFFE" "replicate 32 7"] by simp

section \<open>The plaintext messages and the pairing file\<close>

text \<open>
  The tool's session-init frames are the ones the kernel builds with its framer, except that its
  probe has the kernel's resend value in byte 50.
\<close>

lemma bu_init_0_eq: "bu_init_0 = init_0"
  by code_simp

lemma bu_init_25_eq: "bu_init_25 = init_25"
  by code_simp

lemma bu_init_4_eq: "bu_init_4[50 := 0x90] = init_4_probe"
  by code_simp

lemma bu_init_4_ne: "bu_init_4 \<noteq> init_4_probe"
  by code_simp

lemma pairing_roundtrip:
  "length e = 16 \<Longrightarrow> length k = 16 \<Longrightarrow> load_pairing (Some (save_pairing (e, k) @ rest)) = Some (e, k)"
  by (simp add: load_pairing_def save_pairing_def put_def slice_def zeros_def)

section \<open>A session only after every verification\<close>

text \<open>The HDCP message the n-th read carries.\<close>

definition bu_read :: "env \<Rightarrow> nat \<Rightarrow> (u8 \<times> bytes) option" where
  "bu_read E i = Option.bind (ev_read E i) (\<lambda>b. Option.bind (frame_decode b) (\<lambda>f. parse_hdcp_in (fr_body f)))"

lemma recv_hdcp_msg_at:
  "recv_hdcp_msg (rx_of E) n i = (Inr f, j) \<Longrightarrow>
     \<exists>k b. i \<le> k \<and> j = Suc k \<and> ev_read E k = Some b \<and> frame_decode b = Some f"
proof (induction n arbitrary: i)
  case (Suc n)
  then show ?case
    by (fastforce simp: rx_of_def split: option.splits if_splits dest: Suc_leD)
qed simp

lemma on_ok_bu_recv [on_ok_rules]:
  "(\<And>m i. rg_reads s \<le> i \<Longrightarrow> bu_read E i = Some m \<Longrightarrow> Q m (s\<lparr>rg_reads := Suc i\<rparr>)) \<Longrightarrow>
     on_ok (bu_recv E) s Q"
  by (auto simp: on_ok_def bu_recv_def bu_read_def split: prod.splits sum.splits option.splits
      dest!: recv_hdcp_msg_at)

lemma on_ok_bu_send [on_ok_rules]:
  "Q () (s\<lparr>rg_sends := Suc (rg_sends s), rg_sent := rg_sent s @ [frame_encode f]\<rparr>) \<Longrightarrow>
     on_ok (bu_send E f) s Q"
  by (auto simp: on_ok_def bu_send_def send_dlm_def Let_def)

lemma on_ok_bu_raw [on_ok_rules]:
  "(\<And>b. ev_read E (rg_reads s) = Some b \<Longrightarrow> Q b (s\<lparr>rg_reads := Suc (rg_reads s)\<rparr>)) \<Longrightarrow>
     on_ok (bu_raw E) s Q"
  by (auto simp: on_ok_def bu_raw_def recv_dlm_def split: option.splits)

text \<open>The same rules with the state after each action kept abstract, for the long composition.\<close>

definition counts :: "rig \<Rightarrow> nat \<Rightarrow> nat \<Rightarrow> bool" where
  "counts s i r \<longleftrightarrow> rg_reads s = i \<and> rg_rands s = r"

lemma count_recv:
  "counts s i0 r \<Longrightarrow>
     (\<And>m i s'. i0 \<le> i \<Longrightarrow> bu_read E i = Some m \<Longrightarrow> counts s' (Suc i) r \<Longrightarrow> Q m s') \<Longrightarrow>
     on_ok (bu_recv E) s Q"
  by (rule on_ok_bu_recv) (simp add: counts_def)

lemma count_send:
  "counts s i r \<Longrightarrow> (\<And>s'. counts s' i r \<Longrightarrow> Q () s') \<Longrightarrow> on_ok (bu_send E f) s Q"
  by (rule on_ok_bu_send) (simp add: counts_def)

lemma count_raw:
  "counts s i r \<Longrightarrow> (\<And>b s'. counts s' (Suc i) r \<Longrightarrow> Q b s') \<Longrightarrow> on_ok (bu_raw E) s Q"
  by (rule on_ok_bu_raw) (simp add: counts_def)

lemma count_rand:
  "counts s i r \<Longrightarrow> (\<And>s'. counts s' i (r + n) \<Longrightarrow> Q (rnd E r n) s') \<Longrightarrow> on_ok (rand_or E n) s Q"
  by (rule on_ok_rand) (simp add: counts_def)

lemma on_ok_option [on_ok_rules]:
  "(r = None \<Longrightarrow> on_ok m s Q) \<Longrightarrow> (\<And>x. r = Some x \<Longrightarrow> on_ok (f x) s Q) \<Longrightarrow>
     on_ok (case r of None \<Rightarrow> m | Some x \<Rightarrow> f x) s Q"
  by (cases r) simp_all

lemma on_ok_sum [on_ok_rules]:
  "(\<And>e. r = Inl e \<Longrightarrow> on_ok (m e) s Q) \<Longrightarrow> (\<And>x. r = Inr x \<Longrightarrow> on_ok (f x) s Q) \<Longrightarrow>
     on_ok (case r of Inl e \<Rightarrow> m e | Inr x \<Rightarrow> f x) s Q"
  by (cases r) simp_all

lemmas count_rules = count_recv count_send count_raw count_rand on_ok_bnd on_ok_check on_ok_ret
  on_ok_fail on_ok_if on_ok_option on_ok_sum on_ok_prod

text \<open>The receiver list at or after read \<open>i\<close> whose trailer \<open>vp\<close> is V' of the rest.\<close>

definition ridlist_at :: "prims \<Rightarrow> env \<Rightarrow> bytes \<Rightarrow> nat \<Rightarrow> bytes \<Rightarrow> bool" where
  "ridlist_at P E kd i vp \<longleftrightarrow> (\<exists>j lst. i \<le> j \<and> bu_read E j = Some (0x0c, lst) \<and> 16 \<le> length lst
     \<and> vp = drop (length lst - 16) lst \<and> take 16 (pr_hmac P kd (take (length lst - 16) lst)) = vp)"

lemma ridlist_at_mono: "ridlist_at P E kd i vp \<Longrightarrow> i' \<le> i \<Longrightarrow> ridlist_at P E kd i' vp"
  by (auto simp: ridlist_at_def dest: order_trans)

lemma ridlist_verifies:
  "on_ok (ridlist_loop P E kd n) s (\<lambda>vl s'. ridlist_at P E kd (rg_reads s) vl \<and> rg_sent s' = rg_sent s)"
proof (induction n arbitrary: s)
  case 0
  show ?case by (simp add: on_ok_fail)
next
  case (Suc n)
  let ?s = "s\<lparr>rg_reads := Suc (rg_reads s)\<rparr>"
  have IH: "on_ok (ridlist_loop P E kd n) ?s
      (\<lambda>vl s'. ridlist_at P E kd (rg_reads s) vl \<and> rg_sent s' = rg_sent s)"
    by (rule on_ok_mono [OF Suc.IH]) (auto simp: ridlist_at_def dest: Suc_leD)
  show ?case
    unfolding ridlist_loop.simps Let_def
    by (intro on_ok_rules IH) (auto simp: ridlist_at_def bu_read_def)
qed

text \<open>
  What a successful exchange has seen and sent: a nonce, an H' and an L' that match, and a
  receiver list; the last frame is the acknowledgement, carrying the list's own trailer.
\<close>

definition bu_verified ::
    "prims \<Rightarrow> env \<Rightarrow> bytes \<Rightarrow> bytes \<Rightarrow> u8 \<Rightarrow> nat \<Rightarrow> nat \<Rightarrow> bytes \<Rightarrow> bool" where
  "bu_verified P E km rtx repeater i r ack \<longleftrightarrow> (\<exists>j1 j2 j3 rp hp lp vp.
     i \<le> j1 \<and> j1 < j2 \<and> j2 < j3
     \<and> bu_read E j1 = Some (0x06, rp) \<and> 8 \<le> length rp
     \<and> bu_read E j2 = Some (0x07, hp) \<and> bu_read E j3 = Some (0x0a, lp)
     \<and> (let rrx = take 8 rp; kd = v_derive_kd P km rtx rrx
        in take 32 hp = v_compute_h_simple P kd rtx repeater
           \<and> take 32 lp = v_compute_l P kd rrx (rnd E r 8)
           \<and> ridlist_at P E kd (Suc j3) vp
           \<and> ack = frame_encode (d_repeater_auth_send_ack 6 0 vp)))"

lemma bu_finish_verifies:
  "on_ok (bu_finish P E n km rtx rrx kd) s (\<lambda>ses s'. \<exists>j3 lp vp.
     rg_reads s \<le> j3 \<and> bu_read E j3 = Some (0x0a, lp)
     \<and> take 32 lp = v_compute_l P kd rrx (rnd E (rg_rands s) 8)
     \<and> ridlist_at P E kd (Suc j3) vp
     \<and> rg_sent s' \<noteq> [] \<and> last (rg_sent s') = frame_encode (d_repeater_auth_send_ack 6 0 vp)
     \<and> ses = \<lparr>ses_ks = rnd E (rg_rands s + 8) 16, ses_riv = rnd E (rg_rands s + 24) 8\<rparr>)"
  unfolding bu_finish_def Let_def
proof (intro on_ok_rules on_ok_mono [OF ridlist_verifies], goal_cases)
  case (1 m j3 lp_id lp vp s')
  then show ?case
    by (intro exI [of _ j3] exI [of _ lp] exI [of _ vp])
      (auto simp: recv_dlm_def add.commute elim: ridlist_at_mono)
qed

lemma bu_verifiedI:
  assumes "bu_read E j1 = Some (0x06, rp)" "bu_read E j2 = Some (0x07, hp)"
    "bu_read E j3 = Some (0x0a, lp)" "8 \<le> length rp" "i \<le> j1" "j1 < j2" "j2 < j3"
    "v_compute_h_simple P (v_derive_kd P km rtx (take 8 rp)) rtx rep = take 32 hp"
    "take 32 lp = v_compute_l P (v_derive_kd P km rtx (take 8 rp)) (take 8 rp) (rnd E r 8)"
    "ridlist_at P E (v_derive_kd P km rtx (take 8 rp)) (Suc j3) vp"
    "ack = frame_encode (d_repeater_auth_send_ack 6 0 vp)"
  shows "bu_verified P E km rtx rep i r ack"
  unfolding bu_verified_def Let_def
  by (intro exI [of _ j1] exI [of _ j2] exI [of _ j3] exI [of _ rp] exI [of _ hp] exI [of _ lp] exI [of _ vp])
    (simp add: assms)

lemma bu_verified_mono: "bu_verified P E km rtx rep i r ack \<Longrightarrow> i' \<le> i \<Longrightarrow> bu_verified P E km rtx rep i' r ack"
  unfolding bu_verified_def by (meson order_trans)

lemma bu_verify_verifies:
  assumes "counts s i r"
  shows "on_ok (bu_verify P E n stored km rtx rep) s (\<lambda>(ses, po) s'.
     rg_sent s' \<noteq> [] \<and> bu_verified P E km rtx rep i r (last (rg_sent s'))
     \<and> ses = \<lparr>ses_ks = rnd E (r + 8) 16, ses_riv = rnd E (r + 24) 8\<rparr>
     \<and> map_option snd po = (if stored = None then Some km else None))"
proof (cases stored)
  case None
  show ?thesis
    unfolding bu_verify_def Let_def None
    by ((rule assms | assumption | rule on_ok_mono [OF bu_finish_verifies] | rule count_rules
          | simp only: if_True simp_thms)+,
      clarsimp simp: counts_def, (rule bu_verifiedI, assumption+, simp_all))
next
  case (Some x)
  then have n: "(stored = None) = False" by simp
  show ?thesis
    unfolding bu_verify_def Let_def n if_False
    by ((rule assms | assumption | rule on_ok_mono [OF bu_finish_verifies] | rule count_rules)+,
      clarsimp simp: counts_def, (rule bu_verifiedI, assumption+, simp_all))
qed

text \<open>
  C34. The bring-up tool accepts a dock only after the same checks as the cold engagement, on
  both key paths: whatever the dock sends, if the exchange succeeds then the dock sent, in this
  order, a certificate, a nonce, an H' and an L' that match the values computed from this run's
  random bytes and from the stored or fresh km, and a receiver list whose trailer is the first
  half of V'; the last frame written is the acknowledgement, and it repeats that trailer back
  instead of carrying the other half. A pairing is handed out exactly when none was stored.
\<close>

theorem bringup_authenticates:
  assumes "bu_run_ake P pk enc E n stored s = (Inr (ses, po), s')"
  shows "\<exists>i cert_msg cert. rg_reads s < i \<and> bu_read E i = Some (0x03, cert_msg)
    \<and> cert_from_bytes (tl cert_msg) = Inr cert
    \<and> (let rtx = rnd E (rg_rands s) 8;
           km = (case stored of Some (e, k) \<Rightarrow> k | None \<Rightarrow> rnd E (rg_rands s + 8) 16)
       in bu_verified P E km rtx (hd cert_msg) (Suc i) (rg_rands s + 24) (last (rg_sent s'))
          \<and> map_option snd po = (if stored = None then Some km else None))
    \<and> ses = \<lparr>ses_ks = rnd E (rg_rands s + 32) 16, ses_riv = rnd E (rg_rands s + 48) 8\<rparr>"
proof -
  define Q :: "session \<times> pairing option \<Rightarrow> rig \<Rightarrow> bool" where "Q = (\<lambda>(ses, po) s'. \<exists>i cert_msg cert. rg_reads s < i
    \<and> bu_read E i = Some (0x03, cert_msg) \<and> cert_from_bytes (tl cert_msg) = Inr cert
    \<and> (let rtx = rnd E (rg_rands s) 8;
           km = (case stored of Some (e, k) \<Rightarrow> k | None \<Rightarrow> rnd E (rg_rands s + 8) 16)
       in bu_verified P E km rtx (hd cert_msg) (Suc i) (rg_rands s + 24) (last (rg_sent s'))
          \<and> map_option snd po = (if stored = None then Some km else None))
    \<and> ses = \<lparr>ses_ks = rnd E (rg_rands s + 32) 16, ses_riv = rnd E (rg_rands s + 48) 8\<rparr>)"
  define km where "km = (case stored of Some (e, k) \<Rightarrow> k | None \<Rightarrow> rnd E (rg_rands s + 8) 16)"
  have fin: "Q a t" if "Suc (rg_reads s) \<le> i" "bu_read E i = Some m" "m = (mid, pl)" "mid = 3"
      "cert_from_bytes (tl pl) = Inr cert" "Suc i \<le> ia"
      "(case a of (ses, po) \<Rightarrow> \<lambda>t. rg_sent t \<noteq> []
        \<and> bu_verified P E km (rnd E (rg_rands s) 8) (hd pl) (Suc ia) (rg_rands s + 8 + 16) (last (rg_sent t))
        \<and> ses = \<lparr>ses_ks = rnd E (rg_rands s + 8 + 16 + 8) 16, ses_riv = rnd E (rg_rands s + 8 + 16 + 24) 8\<rparr>
        \<and> map_option snd po = (if stored = None then Some km else None)) t"
    for a t i m mid pl cert ia
  proof -
    have "Suc i \<le> Suc ia" using that(6) by simp
    then show ?thesis
      unfolding Q_def using that(1-5,7)
      by (cases a) (auto simp: add.commute km_def intro!: exI [of _ i] dest: bu_verified_mono)
  qed
  have c: "counts s (rg_reads s) (rg_rands s)" by (simp add: counts_def)
  have "on_ok (bu_run_ake P pk enc E n stored) s Q"
  proof (cases stored)
    case None
    then have km: "km = rnd E (rg_rands s + 8) 16" by (simp add: km_def)
    show ?thesis
      unfolding bu_run_ake_def Let_def None option.case
      by ((rule c | assumption | rule on_ok_mono [OF bu_verify_verifies] | rule count_rules)+,
        rule fin [unfolded km None], assumption+)
  next
    case (Some x)
    then obtain e where x: "stored = Some (e, km)" by (cases x) (simp add: km_def)
    show ?thesis
      unfolding bu_run_ake_def Let_def x option.case prod.case
      by ((rule c | assumption | rule on_ok_mono [OF bu_verify_verifies] | rule count_rules)+,
        rule fin [unfolded x], assumption+)
  qed
  with assms show ?thesis by (simp add: on_ok_def Q_def)
qed

text \<open>A repeater on the stored-km path, with the toy primitives and all-zero random bytes.\<close>

definition bu_toy_kd :: bytes where
  "bu_toy_kd = v_derive_kd toy_prims (zeros 16) (zeros 8) (zeros 8)"

definition bu_toy_v :: bytes where
  "bu_toy_v = take 16 (pr_hmac toy_prims bu_toy_kd [])"

definition bu_toy_env :: env where
  "bu_toy_env = \<lparr>ev_read = \<lambda>i. [Some [], dock_msg 0x03 (1 # zeros 522), dock_msg 0x14 [],
            dock_msg 0x06 (zeros 8), dock_msg 0x07 (v_compute_h_simple toy_prims bu_toy_kd (zeros 8) 1),
            dock_msg 0x0a (v_compute_l toy_prims bu_toy_kd (zeros 8) (zeros 8)), Some [],
            dock_msg 0x0c bu_toy_v] ! i,
          ev_send_ok = \<lambda>_. True, ev_rand = \<lambda>_. 0\<rparr>"

lemma bu_toy_reads:
  "ev_read bu_toy_env 0 = Some []"
  "ev_read bu_toy_env (Suc 0) = dock_msg 0x03 (1 # zeros 522)"
  "ev_read bu_toy_env (Suc (Suc 0)) = dock_msg 0x14 []"
  "ev_read bu_toy_env (Suc (Suc (Suc 0))) = dock_msg 0x06 (zeros 8)"
  "ev_read bu_toy_env (Suc (Suc (Suc (Suc 0)))) = dock_msg 0x07 (v_compute_h_simple toy_prims bu_toy_kd (zeros 8) 1)"
  "ev_read bu_toy_env (Suc (Suc (Suc (Suc (Suc 0))))) = dock_msg 0x0a (v_compute_l toy_prims bu_toy_kd (zeros 8) (zeros 8))"
  "ev_read bu_toy_env (Suc (Suc (Suc (Suc (Suc (Suc 0)))))) = Some []"
  "ev_read bu_toy_env (Suc (Suc (Suc (Suc (Suc (Suc (Suc 0))))))) = dock_msg 0x0c bu_toy_v"
  by (simp_all add: bu_toy_env_def)

lemma bu_toy_rnd: "rnd bu_toy_env off n = zeros n"
  by (auto simp: rnd_def bu_toy_env_def zeros_def intro!: nth_equalityI)

lemma bu_toy_lengths: "length bu_toy_v = 16"
    "length (v_compute_h_simple toy_prims bu_toy_kd (zeros 8) 1) = 32"
    "length (v_compute_l toy_prims bu_toy_kd (zeros 8) (zeros 8)) = 32"
  by (simp_all add: bu_toy_v_def v_compute_h_simple_def v_compute_l_def toy_prims_sized)

lemma bu_decode_msg:
  "ev_read E k = dock_msg i pl \<Longrightarrow> i \<noteq> 0 \<Longrightarrow> length pl \<le> 600 \<Longrightarrow> \<exists>b f. ev_read E k = Some b \<and> frame_decode b = Some f
     \<and> parse_hdcp_in (fr_body f) = Some (i, pl) \<and> 10 \<le> length (fr_body f) \<and> fr_body f ! 9 \<noteq> 0"
  using frame_decode_encode [of "\<lparr>fr_msg_type = 4, fr_sub_id = 0x25, fr_sub_len_dw = 0,
     fr_seq = 0, fr_body = zeros 9 @ i # pl\<rparr>" "[]"]
  by (simp add: dock_msg_def parse_hdcp_in_def nth_append)

lemma recv_8:
  "rx i = Inr b \<Longrightarrow> frame_decode b = Some f \<Longrightarrow> 10 \<le> length (fr_body f) \<Longrightarrow> fr_body f ! 9 \<noteq> 0 \<Longrightarrow>
     recv_hdcp_msg rx 8 i = (Inr f, Suc i)"
  using recv_hdcp_msg.simps(2) [of rx 7 i] by simp

lemma bu_recv_now:
  "ev_read E (rg_reads s) = dock_msg i pl \<Longrightarrow> i \<noteq> 0 \<Longrightarrow> length pl \<le> 600 \<Longrightarrow>
     bu_recv E s = (Inr (i, pl), s\<lparr>rg_reads := Suc (rg_reads s)\<rparr>)"
  using bu_decode_msg [of E "rg_reads s" i pl]
  by (auto simp: bu_recv_def rx_of_def recv_8)

lemma bu_send_now:
  "ev_send_ok E = (\<lambda>_. True) \<Longrightarrow>
     bu_send E f s = (Inr (), s\<lparr>rg_sends := Suc (rg_sends s), rg_sent := rg_sent s @ [frame_encode f]\<rparr>)"
  by (simp add: bu_send_def send_dlm_def)

lemma bu_raw_now:
  "ev_read E (rg_reads s) = Some b \<Longrightarrow> bu_raw E s = (Inr b, s\<lparr>rg_reads := Suc (rg_reads s)\<rparr>)"
  by (simp add: bu_raw_def recv_dlm_def)

lemma bu_toy_ok: "ev_send_ok bu_toy_env = (\<lambda>_. True)"
  by (simp add: bu_toy_env_def)

lemma bu_toy_list:
  "rg_reads s = (Suc (Suc (Suc (Suc (Suc (Suc (Suc 0))))))) \<Longrightarrow> ridlist_loop toy_prims bu_toy_env bu_toy_kd (Suc n) s
     = (Inr bu_toy_v, s\<lparr>rg_reads := (Suc (Suc (Suc (Suc (Suc (Suc (Suc (Suc 0))))))))\<rparr>)"
  using bu_decode_msg [OF bu_toy_reads(8)]
  by (auto simp: run_bnd bu_raw_now bu_toy_lengths Let_def ret_def) (simp_all add: bu_toy_v_def)

definition bu_toy_run :: "(bu_err + session \<times> pairing option) \<times> rig" where
  "bu_toy_run = bu_run_ake toy_prims Some (\<lambda>_ _. None) bu_toy_env (Suc 0) (Some (zeros 16, zeros 16)) rig_init"

lemma bu_toy_run_ok: "\<exists>ses s'. bu_toy_run = (Inr (ses, None), s')"
proof -
  have c: "\<exists>c. cert_from_bytes (zeros 522) = Inr c"
    by (simp add: cert_from_bytes_def slice_def zeros_def numeral_2_eq_2)
  then show ?thesis
    by (auto simp: bu_toy_run_def bu_run_ake_def bu_verify_def bu_finish_def Let_def run_bnd run_rand
        run_check run_ret run_lift bu_send_now bu_recv_now bu_raw_now bu_toy_ok bu_toy_reads bu_toy_rnd
        bu_toy_lengths rig_init_def recv_dlm_def bu_toy_list bu_toy_kd_def [symmetric]
        simp del: ridlist_loop.simps)
qed

theorem bringup_authenticates_witness:
  "\<exists>ses s' i cert_msg. bu_toy_run = (Inr (ses, None), s') \<and> bu_read bu_toy_env i = Some (0x03, cert_msg)"
proof -
  obtain ses s' where r: "bu_toy_run = (Inr (ses, None), s')"
    using bu_toy_run_ok by blast
  from bringup_authenticates [OF this [unfolded bu_toy_run_def]] r show ?thesis by blast
qed

end
