(* ===== verification/Revdi.thy ===== *)
theory Revdi
  imports LibOpen LibLaws
begin

text \<open>
  The virtual display client (\<open>chimera/src/revdi.rs\<close>) on top of the library of \<open>Libevdi\<close>: a card
  is opened, a mode negotiated, a pixel buffer registered for it, and frames are grabbed. What the
  descriptor delivers is a script (\<open>None\<close>: nothing readable in time), addresses of allocations are
  an argument, and the blocks freed are recorded.
\<close>

definition BUF_ID :: int where "BUF_ID = 1"
definition LIMIT_PX :: u32 where "LIMIT_PX = 3840 * 2160"

record card =
  cd_ctx :: evdi_ctx
  cd_mode :: "(i32 \<times> i32 \<times> i32 \<times> i32 \<times> u32) option"
  cd_ready :: "int option"
  cd_buf :: "(nat \<times> nat) option"
  cd_width :: nat
  cd_height :: nat
  cd_stride :: nat
  cd_allocs :: nat
  cd_freed :: "nat list"

section \<open>Opening\<close>

datatype open_err = AddFailed | NoDevice | NullHandle

text \<open>
  \<open>RevdiCard::open\<close>: the status of a card before and after \<open>evdi_add_device\<close>, whether the write to
  \<open>add\<close> succeeds, and the handle \<open>evdi_open\<close> gives.
\<close>

definition find_available :: "(int \<Rightarrow> device_status) \<Rightarrow> int option" where
  "find_available check = find (\<lambda>i. check i = AVAILABLE) (map int [0..<64])"

definition fresh_card :: "evdi_ctx \<Rightarrow> card" where
  "fresh_card ctx =
     \<lparr>cd_ctx = ctx, cd_mode = None, cd_ready = None, cd_buf = None, cd_width = 0, cd_height = 0,
      cd_stride = 0, cd_allocs = 0, cd_freed = []\<rparr>"

definition card_open ::
    "(int \<Rightarrow> device_status) \<Rightarrow> bool \<Rightarrow> (int \<Rightarrow> device_status) \<Rightarrow> (int \<Rightarrow> evdi_ctx option) \<Rightarrow> open_err + card" where
  "card_open check add_ok check_after open_handle =
     (let idx = find_available check
      in if idx = None \<and> evdi_add_device add_ok < 0 then Inl AddFailed
         else case (if idx = None then find_available check_after else idx) of
                None \<Rightarrow> Inl NoDevice
              | Some i \<Rightarrow>
                  (case open_handle i of None \<Rightarrow> Inl NullHandle | Some ctx \<Rightarrow> Inr (fresh_card ctx)))"

definition card_connect :: "nat \<Rightarrow> bytes \<Rightarrow> connect_arg" where
  "card_connect addr edid = evdi_connect2 addr (of_nat (length edid)) LIMIT_PX (LIMIT_PX * 60)"

section \<open>Events\<close>

definition register_buffer :: "(nat \<Rightarrow> nat) \<Rightarrow> nat \<Rightarrow> nat \<Rightarrow> card \<Rightarrow> card" where
  "register_buffer alloc w h c =
     (let k = cd_allocs c;
          stride = w * 4;
          buffer = \<lparr>eb_id = BUF_ID, eb_buffer = alloc k, eb_width = sint (of_nat w :: i32),
                    eb_height = sint (of_nat h :: i32), eb_stride = sint (of_nat stride :: i32)\<rparr>
      in c\<lparr>cd_width := w, cd_height := h, cd_stride := stride, cd_buf := Some (alloc k, stride * h),
           cd_allocs := Suc k,
           cd_freed := cd_freed c @ (case cd_buf c of None \<Rightarrow> [] | Some (a, n) \<Rightarrow> [a]),
           cd_ctx := evdi_register_buffer buffer (cd_ctx c)\<rparr>)"

text \<open>The two handlers; the others are null.\<close>

definition card_handlers :: handlers where
  "card_handlers =
     \<lparr>hd_update_ready = True, hd_dpms = False, hd_mode_changed = True, hd_crtc_state = False,
      hd_cursor_set = False, hd_cursor_move = False, hd_ddcci_data = False\<rparr>"

fun on_call :: "lcall \<Rightarrow> card \<Rightarrow> card" where
  "on_call (CbModeChanged w h r b f) c = c\<lparr>cd_mode := Some (w, h, r, b, f)\<rparr>"
| "on_call (CbUpdateReady i) c = c\<lparr>cd_ready := Some i\<rparr>"
| "on_call _ c = c"

definition clamp0 :: "i32 \<Rightarrow> nat" where
  "clamp0 w = nat (max (sint w) 0)"

text \<open>Register a buffer when the negotiated mode is new.\<close>

definition sync_mode :: "(nat \<Rightarrow> nat) \<Rightarrow> card \<Rightarrow> card" where
  "sync_mode alloc c =
     (case cd_mode c of
        None \<Rightarrow> c
      | Some (mw, mh, r, b, f) \<Rightarrow>
          let w = clamp0 mw; h = clamp0 mh
          in if 0 < w \<and> 0 < h \<and> (w \<noteq> cd_width c \<or> h \<noteq> cd_height c)
             then register_buffer alloc w h c else c)"

definition poll_events ::
    "(u32 \<Rightarrow> nat \<Rightarrow> bytes option) \<Rightarrow> (nat \<Rightarrow> nat) \<Rightarrow> (int \<times> bytes) option \<Rightarrow> card \<Rightarrow> (bool \<times> card) res" where
  "poll_events bitmap alloc ev c =
     (case ev of
        None \<Rightarrow> Inr (0 < cd_width c, c)
      | Some (n, contents) \<Rightarrow>
          bindR (evdi_handle_events bitmap (cd_ctx c) (Some card_handlers) n contents) (\<lambda>cs.
          let c = sync_mode alloc (fold on_call cs c)
          in Inr (0 < cd_width c, c)))"

text \<open>The deadline is the end of the script.\<close>

fun wait_for_mode ::
    "(u32 \<Rightarrow> nat \<Rightarrow> bytes option) \<Rightarrow> (nat \<Rightarrow> nat) \<Rightarrow> (int \<times> bytes) option list \<Rightarrow> card \<Rightarrow> (bool \<times> card) res" where
  "wait_for_mode bitmap alloc [] c = Inr (False, c)"
| "wait_for_mode bitmap alloc (ev # evs) c =
     bindR (poll_events bitmap alloc ev c) (\<lambda>(known, c).
     if known then Inr (True, c) else wait_for_mode bitmap alloc evs c)"

section \<open>Grabbing\<close>

type_synonym frame_view = "(nat \<times> nat) option \<times> nat \<times> nat \<times> nat"

text \<open>The frame handed out, and the buffer the library passed to the ioctl.\<close>

fun grab_loop ::
    "(u32 \<Rightarrow> nat \<Rightarrow> bytes option) \<Rightarrow> (nat \<Rightarrow> nat) \<Rightarrow> (int \<times> bytes) option list \<Rightarrow> card
       \<Rightarrow> ((frame_view \<times> evdi_buffer option) option \<times> card) res" where
  "grab_loop bitmap alloc [] c = Inr (None, c)"
| "grab_loop bitmap alloc (ev # evs) c =
     bindR (poll_events bitmap alloc ev c) (\<lambda>(_, c).
     let ready = cd_ready c; c = c\<lparr>cd_ready := None\<rparr>
     in if ready = Some BUF_ID
        then Inr (Some ((cd_buf c, cd_width c, cd_height c, cd_stride c),
                        find_buffer (cd_ctx c) (ec_buffer_to_update (cd_ctx c))), c)
        else grab_loop bitmap alloc evs c)"

definition grab_frame ::
    "(u32 \<Rightarrow> nat \<Rightarrow> bytes option) \<Rightarrow> (nat \<Rightarrow> nat) \<Rightarrow> int \<Rightarrow> (int \<times> bytes) option list \<Rightarrow> card
       \<Rightarrow> ((frame_view \<times> evdi_buffer option) option \<times> card) res" where
  "grab_frame bitmap alloc ioctl_ret evs c =
     (if cd_width c = 0 then Inr (None, c)
      else let (ctx, _) = evdi_request_update ioctl_ret BUF_ID (cd_ctx c)
           in grab_loop bitmap alloc evs (c\<lparr>cd_ctx := ctx\<rparr>))"

section \<open>The raster\<close>

definition rgb_of_xrgb :: "bytes \<Rightarrow> nat \<Rightarrow> bytes" where
  "rgb_of_xrgb buf p =
     (let px = rd32 buf p
      in [ucast (drop_bit 16 px AND 0xff), ucast (drop_bit 8 px AND 0xff), ucast (px AND 0xff)])"

definition to_rgb888 :: "bytes \<Rightarrow> nat \<Rightarrow> nat \<Rightarrow> nat \<Rightarrow> bytes" where
  "to_rgb888 buf width height stride =
     concat (map (\<lambda>y. concat (map (\<lambda>x.
         let p = y * stride + x * 4
         in if p + 4 > length buf then [0, 0, 0] else rgb_of_xrgb buf p)
       [0..<width])) [0..<height])"

end
