(* ===== verification/RevdiLaws.thy ===== *)
theory RevdiLaws
  imports Revdi
begin

text \<open>
  Laws of the virtual display client: what the library's buffer list looks like after any sequence
  of polls, hence which block of memory a grab writes to, and what the raster conversion yields.
\<close>

section \<open>Reachable cards\<close>

inductive card_reach :: "(u32 \<Rightarrow> nat \<Rightarrow> bytes option) \<Rightarrow> (nat \<Rightarrow> nat) \<Rightarrow> card \<Rightarrow> bool"
  for bm :: "u32 \<Rightarrow> nat \<Rightarrow> bytes option" and alloc :: "nat \<Rightarrow> nat" where
  opened: "ec_frame_buffers ctx = [] \<Longrightarrow> card_reach bm alloc (fresh_card ctx)"
| polled: "card_reach bm alloc c \<Longrightarrow> poll_events bm alloc ev c = Inr (k, c') \<Longrightarrow> card_reach bm alloc c'"
| requested: "card_reach bm alloc c \<Longrightarrow>
    card_reach bm alloc (c\<lparr>cd_ctx := fst (evdi_request_update r BUF_ID (cd_ctx c))\<rparr>)"
| taken: "card_reach bm alloc c \<Longrightarrow> card_reach bm alloc (c\<lparr>cd_ready := None\<rparr>)"

definition card_inv :: "(nat \<Rightarrow> nat) \<Rightarrow> card \<Rightarrow> bool" where
  "card_inv alloc c \<longleftrightarrow>
     map eb_buffer (ec_frame_buffers (cd_ctx c)) = map alloc [0..<cd_allocs c]
     \<and> list_all (\<lambda>b. eb_id b = BUF_ID) (ec_frame_buffers (cd_ctx c))
     \<and> cd_freed c = map alloc [0..<cd_allocs c - 1]
     \<and> cd_buf c = (if cd_allocs c = 0 then None else Some (alloc (cd_allocs c - 1), cd_stride c * cd_height c))
     \<and> cd_stride c = 4 * cd_width c \<and> (0 < cd_width c) = (0 < cd_allocs c)"

lemma card_inv_fresh: "ec_frame_buffers ctx = [] \<Longrightarrow> card_inv alloc (fresh_card ctx)"
  by (simp add: card_inv_def fresh_card_def)

lemma card_inv_register:
  "card_inv alloc c \<Longrightarrow> 0 < w \<Longrightarrow> card_inv alloc (register_buffer alloc w h c)"
  by (cases "cd_allocs c") (auto simp: card_inv_def register_buffer_def evdi_register_buffer_def Let_def)

lemma on_call_inv: "card_inv alloc (on_call l c) = card_inv alloc c"
  by (cases l) (auto simp: card_inv_def)

lemma fold_on_call_inv: "card_inv alloc (fold on_call cs c) = card_inv alloc c"
  by (induction cs arbitrary: c) (simp_all add: on_call_inv)

lemma sync_mode_cases:
  "sync_mode alloc c = c \<or> (\<exists>w h. 0 < w \<and> sync_mode alloc c = register_buffer alloc w h c)"
  by (auto simp: sync_mode_def Let_def split: option.split)

lemma sync_mode_inv: "card_inv alloc c \<Longrightarrow> card_inv alloc (sync_mode alloc c)"
  using sync_mode_cases [of alloc c] card_inv_register by auto

lemma poll_events_inv:
  "card_inv alloc c \<Longrightarrow> poll_events bm alloc ev c = Inr (k, c') \<Longrightarrow> card_inv alloc c'"
  by (auto simp: poll_events_def bindR_Inr_iff Let_def fold_on_call_inv sync_mode_inv
      split: option.splits prod.splits)

lemma card_reach_inv: "card_reach bm alloc c \<Longrightarrow> card_inv alloc c"
proof (induction rule: card_reach.induct)
  case (opened ctx)
  then show ?case by (rule card_inv_fresh)
next
  case (polled c ev k c')
  then show ?case using poll_events_inv by blast
qed (simp_all add: card_inv_def evdi_request_update_def)

lemma fold_on_call_rest [simp]:
  "cd_ctx (fold on_call cs c) = cd_ctx c" "cd_allocs (fold on_call cs c) = cd_allocs c"
proof -
  have "cd_ctx (on_call l c) = cd_ctx c" "cd_allocs (on_call l c) = cd_allocs c" for l c
    by (cases l; simp)+
  then show "cd_ctx (fold on_call cs c) = cd_ctx c" "cd_allocs (fold on_call cs c) = cd_allocs c"
    by (induction cs arbitrary: c) simp_all
qed

lemma poll_events_rest:
  assumes "poll_events bm alloc ev c = Inr (k, c')"
  shows "ec_buffer_to_update (cd_ctx c') = ec_buffer_to_update (cd_ctx c) \<and> cd_allocs c \<le> cd_allocs c'"
proof -
  have "ec_buffer_to_update (cd_ctx (sync_mode alloc d)) = ec_buffer_to_update (cd_ctx d)
      \<and> cd_allocs d \<le> cd_allocs (sync_mode alloc d)" for d
    using sync_mode_cases [of alloc d] by (auto simp: register_buffer_def evdi_register_buffer_def Let_def)
  from this [of "fold on_call cs c" for cs] show ?thesis
    using assms by (auto simp: poll_events_def bindR_Inr_iff Let_def split: option.splits prod.splits)
qed

lemma find_buffer_first:
  assumes "card_inv alloc c" "0 < cd_allocs c"
  shows "\<exists>b. find_buffer (cd_ctx c) BUF_ID = Some b \<and> eb_buffer b = alloc 0"
proof -
  have m: "map eb_buffer (ec_frame_buffers (cd_ctx c)) = map alloc [0..<cd_allocs c]"
    and i: "list_all (\<lambda>b. eb_id b = BUF_ID) (ec_frame_buffers (cd_ctx c))"
    using assms(1) by (simp_all add: card_inv_def)
  obtain n where n: "cd_allocs c = Suc n" using assms(2) by (cases "cd_allocs c") auto
  obtain b bs where b: "ec_frame_buffers (cd_ctx c) = b # bs"
    using m n by (cases "ec_frame_buffers (cd_ctx c)") auto
  have "eb_buffer b = alloc 0" using m n by (simp add: b upt_conv_Cons del: upt_Suc)
  with i show ?thesis by (simp add: b find_buffer_def)
qed

section \<open>A grab\<close>

lemma grab_loop_result:
  assumes "card_reach bm alloc c" "ec_buffer_to_update (cd_ctx c) = BUF_ID"
    "grab_loop bm alloc evs c = Inr (r, c')"
  shows "card_reach bm alloc c' \<and> cd_allocs c \<le> cd_allocs c' \<and> (case r of None \<Rightarrow> True
    | Some (view, target) \<Rightarrow> view = (cd_buf c', cd_width c', cd_height c', cd_stride c')
        \<and> target = find_buffer (cd_ctx c') BUF_ID)"
  using assms
proof (induction evs arbitrary: c)
  case (Cons ev evs)
  obtain k c1 where p: "poll_events bm alloc ev c = Inr (k, c1)"
    using Cons.prems(3) by (auto simp: bindR_Inr_iff)
  have r: "card_reach bm alloc (c1\<lparr>cd_ready := None\<rparr>)"
    using Cons.prems(1) p by (blast intro: card_reach.intros)
  have u: "ec_buffer_to_update (cd_ctx c1) = BUF_ID" "cd_allocs c \<le> cd_allocs c1"
    using poll_events_rest [OF p] Cons.prems(2) by simp_all
  show ?case
  proof (cases "cd_ready c1 = Some BUF_ID")
    case True
    then show ?thesis using Cons.prems(3) r u by (auto simp: p Let_def)
  next
    case False
    then have "grab_loop bm alloc evs (c1\<lparr>cd_ready := None\<rparr>) = Inr (r, c')"
      using Cons.prems(3) by (simp add: p Let_def)
    then show ?thesis using Cons.IH [OF r] u by (auto intro: order_trans)
  qed
qed simp

text \<open>
  C33. Where a grabbed frame goes. The buffers are never unregistered and all have the same id, and
  the library looks up the first: after one negotiated mode the pixels land in the card's own
  buffer; after a second mode the library hands the kernel the first buffer, which the card has
  already freed, while the frame returned to the caller is the new one.
\<close>

theorem grab_target:
  assumes "card_reach bm alloc c" "grab_frame bm alloc ioctl_ret evs c = Inr (Some (view, target), c')"
  shows "\<exists>b. target = Some b \<and> eb_buffer b = alloc 0
    \<and> fst view = Some (alloc (cd_allocs c' - 1), cd_stride c' * cd_height c')
    \<and> cd_stride c' = 4 * cd_width c'
    \<and> (if cd_allocs c' = 1 then fst view = Some (eb_buffer b, cd_stride c' * cd_height c')
       else eb_buffer b \<in> set (cd_freed c'))"
proof -
  let ?c = "c\<lparr>cd_ctx := fst (evdi_request_update ioctl_ret BUF_ID (cd_ctx c))\<rparr>"
  have "cd_width c \<noteq> 0" and g: "grab_loop bm alloc evs ?c = Inr (Some (view, target), c')"
    using assms(2) by (auto simp: grab_frame_def split: if_splits prod.splits)
  have "ec_buffer_to_update (cd_ctx ?c) = BUF_ID" by (simp add: evdi_request_update_def)
  from grab_loop_result [OF card_reach.requested [OF assms(1)] this g]
  have r: "card_reach bm alloc c'" "view = (cd_buf c', cd_width c', cd_height c', cd_stride c')"
    "target = find_buffer (cd_ctx c') BUF_ID" "cd_allocs c \<le> cd_allocs c'" by simp_all
  have inv: "card_inv alloc c'" by (rule card_reach_inv [OF r(1)])
  have "0 < cd_allocs c"
    using card_reach_inv [OF assms(1)] \<open>cd_width c \<noteq> 0\<close> by (simp add: card_inv_def)
  then have "0 < cd_allocs c'" using r(4) by simp
  with find_buffer_first [OF inv this] inv show ?thesis
    unfolding r by (cases "cd_allocs c'") (auto simp: card_inv_def)
qed

text \<open>
  The script of the witness: a 64 by 48 mode, then a 32 by 16 mode, then an update; allocations at
  the addresses 1000, 2000, ...
\<close>

definition mode_bytes :: "u32 \<Rightarrow> u32 \<Rightarrow> bytes" where
  "mode_bytes w h = le32 lib_EVENT_MODE_CHANGED @ le32 28 @ le32 w @ le32 h @ le32 60 @ le32 32 @ le32 0"

definition update_bytes :: bytes where
  "update_bytes = le32 lib_EVENT_UPDATE_READY @ le32 8"

definition demo_alloc :: "nat \<Rightarrow> nat" where
  "demo_alloc k = 1000 * Suc k"

definition demo_buffer :: evdi_buffer where
  "demo_buffer = \<lparr>eb_id = 1, eb_buffer = 1000, eb_width = 64, eb_height = 48, eb_stride = 256\<rparr>"

definition demo_ctx :: "evdi_buffer list \<Rightarrow> evdi_ctx" where
  "demo_ctx bs = \<lparr>ec_fd = 3, ec_buffer_to_update = 0, ec_frame_buffers = bs, ec_device_index = 0\<rparr>"

definition demo_card :: card where
  "demo_card =
     \<lparr>cd_ctx = demo_ctx [demo_buffer], cd_mode = Some (64, 48, 60, 32, 0), cd_ready = None,
      cd_buf = Some (1000, 12288), cd_width = 64, cd_height = 48, cd_stride = 256, cd_allocs = 1,
      cd_freed = []\<rparr>"

lemma demo_poll:
  "poll_events (\<lambda>_ _. None) demo_alloc (Some (28, mode_bytes 64 48)) (fresh_card (demo_ctx [])) =
     Inr (True, demo_card)"
  by code_simp

lemma demo_card_grab:
  "map_sum id fst (grab_frame (\<lambda>_ _. None) demo_alloc 0
      [Some (28, mode_bytes 32 16), Some (8, update_bytes)] demo_card) =
     Inr (Some ((Some (2000, 2048), 32, 16, 128), Some demo_buffer))"
  by code_simp

theorem grab_target_witness:
  "\<exists>view b c'. grab_frame (\<lambda>_ _. None) demo_alloc 0 [Some (28, mode_bytes 32 16), Some (8, update_bytes)]
      demo_card = Inr (Some (view, Some b), c') \<and> eb_buffer b = 1000 \<and> fst view = Some (2000, 2048)"
proof -
  have r: "card_reach (\<lambda>_ _. None) demo_alloc demo_card"
    by (rule card_reach.polled [OF card_reach.opened demo_poll]) (simp add: demo_ctx_def)
  from demo_card_grab obtain c' where g: "grab_frame (\<lambda>_ _. None) demo_alloc 0
      [Some (28, mode_bytes 32 16), Some (8, update_bytes)] demo_card =
        Inr (Some ((Some (2000, 2048), 32, 16, 128), Some demo_buffer), c')"
    by (cases "grab_frame (\<lambda>_ _. None) demo_alloc 0
      [Some (28, mode_bytes 32 16), Some (8, update_bytes)] demo_card") auto
  from grab_target [OF r g] g show ?thesis by (auto simp: demo_alloc_def)
qed

section \<open>Missed updates\<close>

text \<open>
  Without an update event in the script nothing is grabbed, whatever \<open>evdi_request_update\<close>
  returned: a frame the kernel reports as ready at once is waited for until the deadline.
\<close>

lemma grab_loop_silent:
  "cd_ready c \<noteq> Some BUF_ID \<Longrightarrow> \<exists>c'. grab_loop bm alloc (replicate n None) c = Inr (None, c')"
  by (induction n arbitrary: c) (auto simp: poll_events_def)

lemma grab_frame_silent:
  "cd_ready c \<noteq> Some BUF_ID \<Longrightarrow> \<exists>c'. grab_frame bm alloc 1 (replicate n None) c = Inr (None, c')"
  using grab_loop_silent [of "c\<lparr>cd_ctx := (cd_ctx c)\<lparr>ec_buffer_to_update := BUF_ID\<rparr>\<rparr>" bm alloc n]
  by (auto simp: grab_frame_def evdi_request_update_def)

section \<open>Opening\<close>

text \<open>
  A failed \<open>evdi_add_device\<close> is never reported as such: its result is a byte count, never negative.
\<close>

lemma card_open_never_AddFailed: "card_open check ok check' h \<noteq> Inl AddFailed"
  by (auto simp: card_open_def Let_def evdi_add_device_def split: option.splits)

section \<open>The raster\<close>

lemma length_to_rgb888: "length (to_rgb888 buf width height stride) = 3 * (width * height)"
proof -
  have "length (concat (map f xs)) = n * length xs" if "\<And>x. length (f x) = n" for f :: "nat \<Rightarrow> bytes" and xs n
    using that by (induction xs) auto
  then show ?thesis
    by (simp add: to_rgb888_def Let_def rgb_of_xrgb_def mult.assoc)
qed

lemma slice_concat_map:
  assumes "\<And>x. length (f x) = n" "i < length xs"
  shows "slice (i * n) n (concat (map f xs)) = f (xs ! i)"
  using assms(2)
proof (induction xs arbitrary: i)
  case (Cons x xs)
  show ?case
  proof (cases i)
    case 0
    then show ?thesis by (simp add: slice_def assms(1))
  next
    case (Suc j)
    then have "slice (i * n) n (concat (map f (x # xs))) = slice (j * n) n (concat (map f xs))"
      by (simp add: slice_def assms(1))
    with Suc Cons show ?thesis by simp
  qed
qed simp

lemma rgb_of_xrgb_bytes: "rgb_of_xrgb buf p = [buf ! (p + 2), buf ! (p + 1), buf ! p]"
proof -
  have m: "w AND 0xff = take_bit 8 w" for w :: u32
    by (simp add: take_bit_eq_mask mask_eq_exp_minus_1)
  have "ucast (take_bit 8 (drop_bit 16 (of_le32 a b c d))) = c"
    "ucast (take_bit 8 (drop_bit 8 (of_le32 a b c d))) = b" "ucast (take_bit 8 (of_le32 a b c d)) = a"
    for a b c d :: u8
    by (rule bit_eqI; auto simp: of_le32_def bit_simps dest: bit_imp_le_length)+
  then show ?thesis by (simp add: rgb_of_xrgb_def rd32_def Let_def m)
qed

text \<open>Pixel \<open>(x, y)\<close> of the raster is red, green and blue of the little-endian XRGB word.\<close>

lemma to_rgb888_pixel:
  assumes "x < width" "y < height" "y * stride + 4 * x + 4 \<le> length buf"
  shows "slice (3 * (y * width + x)) 3 (to_rgb888 buf width height stride) =
    [buf ! (y * stride + 4 * x + 2), buf ! (y * stride + 4 * x + 1), buf ! (y * stride + 4 * x)]"
proof -
  let ?px = "\<lambda>y x. if y * stride + x * 4 + 4 > length buf then [0, 0, 0] else rgb_of_xrgb buf (y * stride + x * 4)"
  let ?row = "\<lambda>y. concat (map (?px y) [0..<width])"
  have px: "length (?px y x) = 3" for x y by (simp add: rgb_of_xrgb_def Let_def)
  have row: "length (?row y) = width * 3" for y
  proof -
    have "length (concat (map (?px y) xs)) = length xs * 3" for xs
      using px by (induction xs) auto
    then show ?thesis by simp
  qed
  have r1: "slice (y * (width * 3)) (width * 3) (to_rgb888 buf width height stride) = ?row y"
  proof -
    have "[0..<height] ! y = y" using assms(2) by simp
    with slice_concat_map [of ?row "width * 3" y "[0..<height]", OF row] assms(2) show ?thesis
      by (simp only: to_rgb888_def Let_def) simp
  qed
  have r2: "slice (x * 3) 3 (?row y) = ?px y x"
    using slice_concat_map [of "?px y" 3 x "[0..<width]"] px assms(1) by simp
  have r3: "slice (a + x * 3) 3 zs = slice (x * 3) 3 (slice a (width * 3) zs)" for a and zs :: bytes
    using assms(1) by (simp add: slice_def drop_take min_def add.commute)
  have "y * (width * 3) + x * 3 = 3 * (y * width + x)" by simp
  then have "slice (3 * (y * width + x)) 3 (to_rgb888 buf width height stride) = ?px y x"
    using r3 [of "y * (width * 3)" "to_rgb888 buf width height stride"] by (simp only: r1 r2)
  then show ?thesis
    using assms(3) by (simp add: rgb_of_xrgb_bytes mult.commute)
qed

end
