(* ===== verification/Sweep.thy ===== *)
theory Sweep
  imports ColdstartLaws
begin

text \<open>
  The sweeper and the soak of the cold rig (\<open>chimera/src/bin/coldstart.rs\<close>): the timing knobs, the
  bounded grid, and the run that ends only when the dock acknowledges. Of the knobs only the
  number of drain rounds reaches the data; the delays are kept as values. The soak is a loop
  without a bound: \<open>None\<close> is a run that never returns.
\<close>

section \<open>The knobs\<close>

record timings =
  tm_pad_init0_25 :: u64
  tm_pad_init25_4 :: u64
  tm_pad_ack_akeinit :: u64
  tm_cert_verify_hold :: u64
  tm_cert_to_arm :: u64
  tm_arm_to_msg0 :: u64
  tm_cap_drain_rounds :: nat
  tm_cap_drain_round_ms :: u64

definition timings_default :: timings where
  "timings_default =
     \<lparr>tm_pad_init0_25 = 79, tm_pad_init25_4 = 120, tm_pad_ack_akeinit = 90, tm_cert_verify_hold = 1650,
      tm_cert_to_arm = 157100, tm_arm_to_msg0 = 170, tm_cap_drain_rounds = 48,
      tm_cap_drain_round_ms = 5\<rparr>"

definition u64_of_le :: "bytes \<Rightarrow> u64" where
  "u64_of_le b = foldr (\<lambda>x a. ucast x OR push_bit 8 a) b 0"

definition rand_u64 :: "env \<Rightarrow> u64 \<Rightarrow> rig \<Rightarrow> u64 \<times> rig" where
  "rand_u64 E mx s = (case rng_fill E 8 s of (b, s) \<Rightarrow> (u64_of_le b mod mx, s))"

definition random_timings :: "env \<Rightarrow> rig \<Rightarrow> timings \<times> rig" where
  "random_timings E s =
     (let t = timings_default;
          (a, s) = rand_u64 E 100001 s;
          (b, s) = rand_u64 E 301 s;
          (c, s) = rand_u64 E 40 s;
          (d, s) = rand_u64 E 5001 s;
          (e, s) = rand_u64 E 15001 s;
          (f, s) = rand_u64 E 2001 s;
          (g, s) = rand_u64 E 2001 s;
          (h, s) = rand_u64 E 400001 s
      in (t\<lparr>tm_arm_to_msg0 := a, tm_cap_drain_rounds := unat b, tm_cap_drain_round_ms := 1 + c,
            tm_pad_ack_akeinit := d, tm_cert_verify_hold := e, tm_pad_init0_25 := f,
            tm_pad_init25_4 := g, tm_cert_to_arm := 100000 + h\<rparr>, s))"

section \<open>The grid\<close>

text \<open>The attempts of \<open>run_sweep\<close> in order: the plane of phase A, then the single knobs of phase B.\<close>

definition SWEEP :: "timings list" where
  "SWEEP =
     concat (map (\<lambda>r. map (\<lambda>a. timings_default\<lparr>tm_arm_to_msg0 := a, tm_cap_drain_rounds := r\<rparr>)
         [0, 100, 170, 500, 2000, 10000, 50000])
       [0, 5, 10, 20, 48, 100, 200])
     @ map (\<lambda>v. timings_default\<lparr>tm_pad_ack_akeinit := v\<rparr>) [0, 45, 90, 200, 500, 1000, 3000]
     @ map (\<lambda>v. timings_default\<lparr>tm_cert_verify_hold := v\<rparr>) [0, 500, 1650, 3000, 6000, 12000]
     @ map (\<lambda>v. timings_default\<lparr>tm_cap_drain_round_ms := v\<rparr>) [1, 5, 10, 30]
     @ map (\<lambda>v. timings_default\<lparr>tm_pad_init0_25 := v\<rparr>) [0, 79, 300, 1000]"

definition sweep_attempt :: "prims \<Rightarrow> env \<Rightarrow> timings \<Rightarrow> nat \<Rightarrow> rig \<Rightarrow> bool \<times> nat \<times> rig" where
  "sweep_attempt P E t n s =
     (case run_session P E (tm_cap_drain_rounds t) s of
        ((ake, acks), s) \<Rightarrow> (0 < acks, Suc n, s))"

fun sweep_loop :: "prims \<Rightarrow> env \<Rightarrow> timings list \<Rightarrow> nat \<Rightarrow> rig \<Rightarrow> timings option \<times> nat \<times> rig" where
  "sweep_loop P E [] n s = (None, n, s)"
| "sweep_loop P E (t # ts) n s =
     (case sweep_attempt P E t n s of
        (engaged, n, s) \<Rightarrow> if engaged then (Some t, n, s) else sweep_loop P E ts n s)"

text \<open>The three baselines, whose acknowledgements are counted nowhere.\<close>

fun baselines :: "prims \<Rightarrow> env \<Rightarrow> nat \<Rightarrow> nat \<Rightarrow> rig \<Rightarrow> nat \<times> rig" where
  "baselines P E 0 base_ok s = (base_ok, s)"
| "baselines P E (Suc i) base_ok s =
     (case run_session P E (tm_cap_drain_rounds timings_default) s of
        ((ake, acks), s) \<Rightarrow> baselines P E i (if ake then Suc base_ok else base_ok) s)"

definition run_sweep :: "prims \<Rightarrow> env \<Rightarrow> rig \<Rightarrow> nat \<times> timings option \<times> nat \<times> rig" where
  "run_sweep P E s =
     (case baselines P E 3 0 s of (base_ok, s) \<Rightarrow> (base_ok, sweep_loop P E SWEEP 0 s))"

section \<open>The soak\<close>

definition soak_attempt :: "prims \<Rightarrow> env \<Rightarrow> rig \<Rightarrow> (timings \<times> bool \<times> nat) \<times> rig" where
  "soak_attempt P E s =
     (case random_timings E s of (t, s) \<Rightarrow>
        (case run_session P E (tm_cap_drain_rounds t) s of ((ake, acks), s) \<Rightarrow> ((t, ake, acks), s)))"

partial_function (option) soak_loop ::
    "prims \<Rightarrow> env \<Rightarrow> nat \<Rightarrow> nat \<Rightarrow> rig \<Rightarrow> (nat \<times> nat \<times> timings \<times> rig) option" where
  [code]: "soak_loop P E n ake_fails s =
     (case soak_attempt P E s of ((t, ake, acks), s) \<Rightarrow>
        (let n = Suc n; ake_fails = (if ake then ake_fails else Suc ake_fails)
         in if 0 < acks then Some (n, ake_fails, t, s) else soak_loop P E n ake_fails s))"

definition run_soak :: "prims \<Rightarrow> env \<Rightarrow> rig \<Rightarrow> (nat \<times> nat \<times> timings \<times> rig) option" where
  "run_soak P E s = soak_loop P E 0 0 s"

section \<open>Laws\<close>

lemma rand_u64_less: "mx \<noteq> 0 \<Longrightarrow> fst (rand_u64 E mx s) < mx"
  by (simp add: rand_u64_def split: prod.split) (metis word_mod_less_divisor word_gt_0)

text \<open>The state before the k-th attempt of a soak that is never stopped, and the attempt.\<close>

fun soak_state :: "prims \<Rightarrow> env \<Rightarrow> rig \<Rightarrow> nat \<Rightarrow> rig" where
  "soak_state P E s 0 = s"
| "soak_state P E s (Suc k) = snd (soak_attempt P E (soak_state P E s k))"

definition soak_try :: "prims \<Rightarrow> env \<Rightarrow> rig \<Rightarrow> nat \<Rightarrow> timings \<times> bool \<times> nat" where
  "soak_try P E s k = fst (soak_attempt P E (soak_state P E s k))"

definition acks_at :: "prims \<Rightarrow> env \<Rightarrow> rig \<Rightarrow> nat \<Rightarrow> nat" where
  "acks_at P E s k = snd (snd (soak_try P E s k))"

definition ake_failed_at :: "prims \<Rightarrow> env \<Rightarrow> rig \<Rightarrow> nat \<Rightarrow> bool" where
  "ake_failed_at P E s k = (\<not> fst (snd (soak_try P E s k)))"

definition fails_before :: "prims \<Rightarrow> env \<Rightarrow> rig \<Rightarrow> nat \<Rightarrow> nat" where
  "fails_before P E s k = length (filter (ake_failed_at P E s) [0..<k])"

lemma soak_step:
  "soak_loop P E k (fails_before P E s k) (soak_state P E s k) =
     (if 0 < acks_at P E s k
      then Some (Suc k, fails_before P E s (Suc k), fst (soak_try P E s k), soak_state P E s (Suc k))
      else soak_loop P E (Suc k) (fails_before P E s (Suc k)) (soak_state P E s (Suc k)))"
  by (subst soak_loop.simps)
    (simp add: acks_at_def soak_try_def fails_before_def ake_failed_at_def Let_def split: prod.split)

lemma soak_from:
  assumes "0 < acks_at P E s (k + j)" "\<forall>i < j. acks_at P E s (k + i) = 0"
  shows "soak_loop P E k (fails_before P E s k) (soak_state P E s k) =
    Some (Suc (k + j), fails_before P E s (Suc (k + j)), fst (soak_try P E s (k + j)), soak_state P E s (Suc (k + j)))"
  using assms
proof (induction j arbitrary: k)
  case 0
  then show ?case by (subst soak_step) simp
next
  case (Suc j)
  have "acks_at P E s k = 0" using Suc.prems(2) by force
  moreover have "\<forall>i < j. acks_at P E s (Suc k + i) = 0" using Suc.prems(2) by force
  ultimately show ?case
    using Suc.IH [of "Suc k"] Suc.prems(1) by (subst soak_step) simp
qed

lemma soak_state_shift: "soak_state P E (snd (soak_attempt P E s)) k = soak_state P E s (Suc k)"
  by (induction k) simp_all

lemma acks_at_shift: "acks_at P E (snd (soak_attempt P E s)) k = acks_at P E s (Suc k)"
  by (simp only: acks_at_def soak_try_def soak_state_shift)

text \<open>A soak that returns has been acknowledged.\<close>

lemma soak_returns:
  assumes "soak_loop P E n f s = Some y"
  shows "\<exists>k. 0 < acks_at P E s k"
proof -
  have "case ((((P, E), n), f), s) of ((((P, E), n), f), s) \<Rightarrow> \<exists>k. 0 < acks_at P E s k"
  proof (rule soak_loop.raw_induct [where Pa = "\<lambda>x y. case x of ((((P, E), n), f), s) \<Rightarrow> \<exists>k. 0 < acks_at P E s k",
        OF _ assms], goal_cases)
    case (1 soak P E n f s y)
    obtain t ake acks s1 where a: "soak_attempt P E s = ((t, ake, acks), s1)" by (metis prod.collapse)
    show ?case
    proof (cases "0 < acks")
      case True
      then have "0 < acks_at P E s 0" by (simp add: acks_at_def soak_try_def a)
      then show ?thesis by blast
    next
      case False
      then have "soak P E (Suc n) (if ake then f else Suc f) s1 = Some y"
        using 1(2) by (simp add: a Let_def)
      then obtain k where "0 < acks_at P E s1 k" using 1(1) by blast
      then have "0 < acks_at P E s (Suc k)" using acks_at_shift [of P E s k] by (simp add: a)
      then show ?thesis by blast
    qed
  qed
  then show ?thesis by simp
qed

text \<open>
  C37. The soak returns exactly when some attempt is acknowledged; it then stops at the first such
  attempt, with the number of attempts, the timings of the winning one and the number of failed
  key exchanges. Against a dock that never acknowledges it runs for ever.
\<close>

theorem soak_returns_iff:
  "(case run_soak P E s of
      Some (n, ake_fails, t, s') \<Rightarrow> 0 < n \<and> 0 < acks_at P E s (n - 1)
        \<and> list_all (\<lambda>i. acks_at P E s i = 0) [0..<n - 1]
        \<and> ake_fails = fails_before P E s n \<and> t = fst (soak_try P E s (n - 1)) \<and> s' = soak_state P E s n
    | None \<Rightarrow> (\<forall>k. acks_at P E s k = 0))"
proof (cases "\<exists>k. 0 < acks_at P E s k")
  case True
  define k where "k = (LEAST k. 0 < acks_at P E s k)"
  have k: "0 < acks_at P E s k" unfolding k_def using True by (rule LeastI_ex)
  have l: "\<forall>i < k. acks_at P E s i = 0" using not_less_Least k_def by blast
  have "fails_before P E s 0 = 0" by (simp add: fails_before_def)
  then have "run_soak P E s = Some (Suc k, fails_before P E s (Suc k), fst (soak_try P E s k), soak_state P E s (Suc k))"
    using soak_from [of P E s 0 k] k l by (simp add: run_soak_def)
  then show ?thesis using k l by (simp add: list_all_iff)
next
  case False
  then have "run_soak P E s = None"
    using soak_returns [of P E 0 0 s] by (cases "run_soak P E s") (auto simp: run_soak_def)
  with False show ?thesis by simp
qed

section \<open>The sweep\<close>

lemma length_SWEEP: "length SWEEP = 70"
  by (simp add: SWEEP_def)

text \<open>The rig before the k-th attempt of a sweep that is never stopped.\<close>

fun sweep_state :: "prims \<Rightarrow> env \<Rightarrow> timings list \<Rightarrow> rig \<Rightarrow> nat \<Rightarrow> rig" where
  "sweep_state P E ts s 0 = s"
| "sweep_state P E ts s (Suc k) = snd (snd (sweep_attempt P E (ts ! k) 0 (sweep_state P E ts s k)))"

definition engages_at :: "prims \<Rightarrow> env \<Rightarrow> timings list \<Rightarrow> rig \<Rightarrow> nat \<Rightarrow> bool" where
  "engages_at P E ts s k = fst (sweep_attempt P E (ts ! k) 0 (sweep_state P E ts s k))"

lemma sweep_attempt_count: "fst (snd (sweep_attempt P E t n s)) = Suc n"
  and sweep_attempt_rest: "fst (sweep_attempt P E t n s) = fst (sweep_attempt P E t 0 s)"
    "snd (snd (sweep_attempt P E t n s)) = snd (snd (sweep_attempt P E t 0 s))"
  by (simp_all add: sweep_attempt_def split: prod.split)

lemma sweep_state_Cons:
  "sweep_state P E (t # ts) s (Suc k) = sweep_state P E ts (snd (snd (sweep_attempt P E t 0 s))) k"
  by (induction k) simp_all

lemma sweep_loop_outcome:
  "sweep_loop P E ts n s =
     (case find (engages_at P E ts s) [0..<length ts] of
        Some k \<Rightarrow> (Some (ts ! k), n + Suc k, sweep_state P E ts s (Suc k))
      | None \<Rightarrow> (None, n + length ts, sweep_state P E ts s (length ts)))"
proof (induction ts arbitrary: n s)
  case (Cons t ts)
  define s1 where "s1 = snd (snd (sweep_attempt P E t 0 s))"
  have att: "sweep_attempt P E t n s = (fst (sweep_attempt P E t 0 s), Suc n, s1)"
    using sweep_attempt_count [of P E t n s] sweep_attempt_rest [of P E t n s]
    unfolding s1_def by (cases "sweep_attempt P E t n s") auto
  have e0: "engages_at P E (t # ts) s 0 = fst (sweep_attempt P E t 0 s)" by (simp add: engages_at_def)
  have eS: "engages_at P E (t # ts) s (Suc k) = engages_at P E ts s1 k" for k
    unfolding engages_at_def s1_def sweep_state_Cons by simp
  have f: "find (engages_at P E (t # ts) s) [1..<Suc (length ts)] =
      map_option Suc (find (engages_at P E ts s1) [0..<length ts])"
  proof -
    have m: "find p (map Suc xs) = map_option Suc (find (\<lambda>k. p (Suc k)) xs)" for p xs
      by (induction xs) auto
    have "[1..<Suc (length ts)] = map Suc [0..<length ts]" by (simp only: map_Suc_upt One_nat_def)
    then show ?thesis by (simp only: m eS)
  qed
  have u: "[0..<length (t # ts)] = 0 # [1..<Suc (length ts)]" by (simp add: upt_conv_Cons del: upt_Suc)
  show ?case
  proof (cases "fst (sweep_attempt P E t 0 s)")
    case True
    then show ?thesis unfolding u by (simp add: att e0 s1_def)
  next
    case False
    have st: "sweep_state P E (t # ts) s (Suc k) = sweep_state P E ts s1 k" for k
      unfolding s1_def by (rule sweep_state_Cons)
    have "sweep_loop P E (t # ts) n s = sweep_loop P E ts (Suc n) s1"
      using False by (simp add: att)
    moreover have "find (engages_at P E (t # ts) s) [0..<length (t # ts)] =
        map_option Suc (find (engages_at P E ts s1) [0..<length ts])"
      unfolding u using False f by (simp add: e0 del: upt_Suc)
    ultimately show ?thesis
      by (simp only: Cons.IH option.case_eq_if option.map_sel st) (auto simp: st simp del: sweep_state.simps(2))
  qed
qed simp

text \<open>At most 70 attempts after the baselines, ending at the first that engages.\<close>

lemma run_sweep_outcome:
  "\<exists>base_ok s1. run_sweep P E s = (base_ok,
     (case find (engages_at P E SWEEP s1) [0..<70] of
        Some k \<Rightarrow> (Some (SWEEP ! k), Suc k, sweep_state P E SWEEP s1 (Suc k))
      | None \<Rightarrow> (None, 70, sweep_state P E SWEEP s1 70)))"
proof -
  obtain base_ok s1 where "baselines P E 3 0 s = (base_ok, s1)" by (cases "baselines P E 3 0 s")
  then show ?thesis
    by (intro exI [of _ base_ok] exI [of _ s1])
      (simp add: run_sweep_def sweep_loop_outcome length_SWEEP split: option.split)
qed

end
