(* ===== verification/Prove.thy ===== *)
theory Prove
  imports Kvino SealLaws
begin

text \<open>
  The offline proof run (\<open>chimera/src/prove.rs\<close>): captured wire frames are decrypted with a list of
  candidate keys and sealed again, recovered messages are rebuilt, and the codec is compared with
  reference strips and its own framing. The embedded fixtures are arguments; the reference
  literals are the source's.
\<close>

section \<open>Hexadecimal\<close>

definition hex_digit :: "u8 \<Rightarrow> char" where
  "hex_digit v = (''0123456789abcdef'' ! unat v)"

definition hex :: "bytes \<Rightarrow> string" where
  "hex b = concat (map (\<lambda>x. [hex_digit (drop_bit 4 x), hex_digit (x AND 0xf)]) b)"

section \<open>Proof 1: seals\<close>

definition KNOWN_SUB :: "u16 list" where
  "KNOWN_SUB = [0x00, 0x04, 0x0c, 0x10, 0x20, 0x21, 0x22, 0x24, 0x25, 0x30, 0x41, 0x42, 0x43, 0x45, 0x75,
    0x84]"

type_synonym cand = "bytes \<times> bytes"

definition recover :: "prims \<Rightarrow> bytes \<Rightarrow> bytes \<Rightarrow> u32 \<Rightarrow> bytes \<Rightarrow> bool \<Rightarrow> bytes option" where
  "recover P ks riv sq bdy livemac =
     (if livemac
      then if length bdy < 16 then None else Some (open_in P ks riv sq (take (length bdy - 16) bdy))
      else Some (open_in P ks riv sq bdy))"

definition plausible :: "bytes \<Rightarrow> bool" where
  "plausible pt \<longleftrightarrow> 8 \<le> length pt \<and> rd16 pt 2 \<in> set KNOWN_SUB \<and> rd16 pt 6 = 0"

fun pick :: "prims \<Rightarrow> cand list \<Rightarrow> u32 \<Rightarrow> bytes \<Rightarrow> bool \<Rightarrow> (cand \<times> bytes) option" where
  "pick P [] sq bdy livemac = None"
| "pick P (c # cs) sq bdy livemac =
     (case recover P (fst c) (snd c) sq bdy livemac of
        Some pt \<Rightarrow> if plausible pt then Some (c, pt) else pick P cs sq bdy livemac
      | None \<Rightarrow> pick P cs sq bdy livemac)"

text \<open>What one wire frame contributes.\<close>

datatype wire_check = Ignored | Skipped | Exact cand bytes | Mismatched cand bytes | SealFailed

definition reseal :: "prims \<Rightarrow> cand \<Rightarrow> u16 \<Rightarrow> u32 \<Rightarrow> bytes \<Rightarrow> bytes res" where
  "reseal P c wsub sq content =
     (if wsub = 0x24
      then seal_interactive P (fst c) (snd c) (rd16 content 0 AND NOT 0x4000) sq content
      else Inr (seal_stream P (fst c) (snd c) wsub sq content))"

definition check_wire :: "prims \<Rightarrow> cand list \<Rightarrow> bytes \<Rightarrow> wire_check" where
  "check_wire P cands wire =
     (if length wire < 32 then Ignored
      else let wsub = rd16 wire 8; sq = rd32 wire 12; bdy = drop 16 wire; livemac = (wsub = 0x24)
           in case pick P cands sq bdy livemac of
                None \<Rightarrow> Skipped
              | Some (c, content) \<Rightarrow>
                  (case reseal P c wsub sq content of
                     Inl e \<Rightarrow> SealFailed
                   | Inr regen \<Rightarrow> if regen = wire then Exact c content else Mismatched c content))"

definition recovered :: "wire_check \<Rightarrow> bytes list" where
  "recovered w = (case w of Exact c pt \<Rightarrow> [pt] | Mismatched c pt \<Rightarrow> [pt] | _ \<Rightarrow> [])"

section \<open>Proof 2: builders\<close>

text \<open>
  A recovered message the builders can make: whether they match exactly, and outside the bytes the
  original leaves uninitialised. \<open>None\<close>: not such a message. The slices panic on short messages.
\<close>

definition tally :: "bytes \<Rightarrow> bytes \<Rightarrow> (nat \<times> nat) option \<Rightarrow> bool \<times> bool" where
  "tally mine content masked =
     (if mine = content then (True, True)
      else (False, case masked of
              None \<Rightarrow> False
            | Some (a, n) \<Rightarrow> put a (zeros n) mine = put a (zeros n) content))"

definition check_builder :: "bytes \<Rightarrow> (bool \<times> bool) option res" where
  "check_builder content =
     (if length content < 8 then Inr None
      else let i = rd16 content 0; sub = rd16 content 2; ctr = rd16 content 4
        in if i = 0x16 \<and> sub = 0x75 \<and> length content = 32
           then Inr (Some (tally (heartbeat ctr) content (Some (24, 8))))
           else if sub \<notin> {0x41, 0x42, 0x43} then Inr None
           else if length content < 28 then Inl Panic
           else let head = content ! 23; f1 = rd16 content 24; f2 = rd16 content 26
             in if sub = 0x41
                then if length content < 32 then Inl Panic
                     else let bgra = drop 32 content; w = of_nat (length bgra div 4)
                       in bindR (cursor_image 64 ctr head w 1 bgra) (\<lambda>mine.
                          Inr (Some (tally mine content None)))
                else let mine = (if sub = 0x42 then cursor_create ctr head f1 f2
                                 else cursor_move ctr head f1 f2)
                  in if mine = content then Inr (Some (True, True))
                     else if length content < 32 then Inl Panic
                     else Inr (Some (tally mine content (Some (28, 4)))))"

section \<open>Proof 3: solid strips and the colour transform\<close>

definition GREY128_REF :: string where
  "GREY128_REF = ''012800000000000000003a003a000000fc007e003f801fc00fe007f003f801fc007e003f801fc00fe007f003f801fc0f200000000000000000003a00''"

definition BARS_STRIP_X512_Y16 :: string where
  "BARS_STRIP_X512_Y16 = ''012800021000000000003c003c000000fc007e003f801fc00fe007f003f801fc007e003f801fc00fe007f003f801fffefcef270000000000000000003c00''"

definition strip_of :: "u16 \<Rightarrow> u16 \<Rightarrow> u8 \<times> u8 \<times> u8 \<Rightarrow> bytes" where
  "strip_of x y rgb = (case rgb of (r, g, b) \<Rightarrow> case colour r g b of (ydc, cbdc, crdc) \<Rightarrow>
     solid_strip x y ydc cbdc crdc)"

text \<open>The comparison leaves out the two tail bytes.\<close>

definition same_body :: "bytes \<Rightarrow> string \<Rightarrow> bool" where
  "same_body s ref = (hex (take (length s - 2) s) = take (length ref - 4) ref)"

definition grey_ok :: bool where
  "grey_ok = same_body (strip_of 0 0 (128, 128, 128)) GREY128_REF"

definition COLOUR_GT :: "((u8 \<times> u8 \<times> u8) \<times> (int \<times> int \<times> int)) list" where
  "COLOUR_GT =
     [((0, 0, 0), (0, 0, 0)),
      ((128, 128, 128), (8192, 0, 0)),
      ((255, 255, 255), (16320, 0, 0)),
      ((255, 0, 0), (4032, 16320, 0)),
      ((0, 255, 0), (8128, - 16320, - 16320)),
      ((0, 0, 255), (4032, 0, 16320)),
      ((0, 255, 255), (12224, - 16320, 0)),
      ((255, 0, 255), (8128, 16320, 16320)),
      ((255, 255, 0), (12224, 0, - 16320))]"

definition colour_ok :: bool where
  "colour_ok = list_all (\<lambda>((r, g, b), gt). colour r g b = gt) COLOUR_GT"

definition PRIMARIES :: "(string \<times> (u8 \<times> u8 \<times> u8)) list" where
  "PRIMARIES =
     [(''red'', (255, 0, 0)), (''green'', (0, 255, 0)), (''blue'', (0, 0, 255)),
      (''cyan'', (0, 255, 255)), (''magenta'', (255, 0, 255)), (''yellow'', (255, 255, 0)),
      (''white'', (255, 255, 255))]"

definition chroma_match :: "string option" where
  "chroma_match = map_option fst
     (find (\<lambda>(name, rgb). same_body (strip_of 512 16 rgb) BARS_STRIP_X512_Y16) PRIMARIES)"

section \<open>Proof 4: captured colour strips\<close>

type_synonym strip_fixture = "u16 \<times> u16 \<times> int list list list \<times> string"

definition colour_ac_pass :: "strip_fixture list \<Rightarrow> bool" where
  "colour_ac_pass fixtures \<longleftrightarrow> fixtures \<noteq> [] \<and>
     list_all (\<lambda>(x, y, planes, want).
       let s = colour_strip_from_planes planes x y in hex (take (length s - 2) s) = want) fixtures"

section \<open>Proof 5: the frame assembler\<close>

text \<open>One strip rebuilt from the pixels, as 16 blocks of planes \<open>[Cr, Cb, Y]\<close>.\<close>

definition strip_planes :: "pixels \<Rightarrow> nat \<times> nat \<Rightarrow> int list list list" where
  "strip_planes px t = (case t of (ox, oy) \<Rightarrow>
     map (\<lambda>k. let bx = k mod 8; yb = k div 8;
                  px8 = map (\<lambda>i. case px (ox + bx * 8 + i mod 8) (oy + yb * 8 + i div 8) of
                          (r, g, b) \<Rightarrow> colour r g b) [0..<64]
              in [map (\<lambda>(y, cb, cr). cr) px8, map (\<lambda>(y, cb, cr). cb) px8, map (\<lambda>(y, cb, cr). y) px8])
       [0..<16])"

definition standalone :: "pixels \<Rightarrow> nat \<times> nat \<Rightarrow> bytes" where
  "standalone px t = colour_strip_from_planes (strip_planes px t) (of_nat (fst t)) (of_nat (snd t))"

text \<open>
  The strips of one record: \<open>st\<close> is the stream from the position on, \<open>n\<close> the bytes left before the
  trailer. The result is what remains of the wanted strips.
\<close>

fun walk_band :: "u16 option \<Rightarrow> nat \<Rightarrow> bytes \<Rightarrow> bytes list \<Rightarrow> bytes list option" where
  "walk_band y n st [] = (if 0 < n then None else Some [])"
| "walk_band y n st (w # ws) =
     (if n = 0 then Some (w # ws)
      else let sid = unat (rd16 st 0);
               wy = rd16 w 4;
               band_y = (case y of None \<Rightarrow> wy | Some b \<Rightarrow> b)
           in if sid \<noteq> length w \<or> n < 2 + sid \<or> slice 2 sid st \<noteq> w \<or> band_y \<noteq> wy then None
              else walk_band (Some band_y) (n - (2 + sid)) (drop (2 + sid) st) ws)"

function walk_records :: "bytes \<Rightarrow> nat \<Rightarrow> bytes list \<Rightarrow> bool res" where
  "walk_records stream p ws =
     (if p + 16 \<le> length stream
      then let pad = rd16 stream p;
               sz = unat (rd16 stream (p + 2));
               ty = rd32 stream (p + 4);
               prefix = slice (p + 8) 8 stream
           in if pad \<noteq> 0 \<or> ty \<noteq> 4 \<or> length stream < p + sz + 4 \<or> prefix \<noteq> zeros 8 then Inr False
              else if p + sz < 4 then Inl Panic
              else case walk_band None (p + sz - 4 - (p + 16)) (drop (p + 16) stream) ws of
                     None \<Rightarrow> Inr False
                   | Some ws' \<Rightarrow>
                       if slice (p + sz - 4) 4 stream \<noteq> zeros 4 \<or> slice (p + sz) 4 stream \<noteq> zeros 4
                       then Inr False
                       else walk_records stream (p + sz + 4) ws'
      else Inr (ws = [] \<and> p = length stream))"
  by pat_completeness auto
termination
  by (relation "measure (\<lambda>(stream, p, ws). length stream - p)") auto

declare walk_records.simps [simp del]

definition check_frame :: "nat \<Rightarrow> nat \<Rightarrow> bytes \<Rightarrow> bool res" where
  "check_frame fw fh rgb =
     (case rgb_frame_ep08 fw fh rgb 0 of
        Inl e \<Rightarrow> Inl Panic
      | Inr (frames, _) \<Rightarrow>
          let strips = map (standalone (rgb_px fw rgb)) (tiles fw fh)
          in if list_all (\<lambda>f. length f \<le> 65536) frames then walk_records (concat frames) 0 strips
             else Inr False)"

definition gradient :: "nat \<Rightarrow> nat \<Rightarrow> bytes" where
  "gradient fw fh = concat (map (\<lambda>y. concat (map (\<lambda>x.
     [of_nat (x * 7) AND 0xff, of_nat (y * 5) AND 0xff, of_nat ((x + y) * 3) AND 0xff]) [0..<fw])) [0..<fh])"

section \<open>The report\<close>

record report =
  rp_seal_ok :: nat
  rp_seal_total :: nat
  rp_seal_skipped :: nat
  rp_builder_exact :: nat
  rp_builder_documented :: nat
  rp_builder_total :: nat
  rp_mismatches :: nat
  rp_video_ok :: bool

definition passed :: "report \<Rightarrow> bool" where
  "passed r \<longleftrightarrow> rp_mismatches r = 0 \<and> rp_seal_ok r = rp_seal_total r \<and> 0 < rp_seal_total r
     \<and> rp_builder_documented r = rp_builder_total r \<and> rp_video_ok r"

definition count :: "('a \<Rightarrow> bool) \<Rightarrow> 'a list \<Rightarrow> nat" where
  "count p xs = length (filter p xs)"

definition run :: "prims \<Rightarrow> cand list \<Rightarrow> bytes list \<Rightarrow> strip_fixture list \<Rightarrow> report res" where
  "run P cands wires fixtures =
     (let checks = map (check_wire P cands) wires;
          contents = concat (map recovered checks);
          built = map check_builder contents
      in if SealFailed \<in> set checks \<or> list_ex (\<lambda>b. case b of Inl e \<Rightarrow> True | Inr _ \<Rightarrow> False) built
         then Inl Panic
         else let tallies = concat (map (\<lambda>b. case b of Inr (Some t) \<Rightarrow> [t] | _ \<Rightarrow> []) built)
           in bindR (check_frame 640 1056 (gradient 640 1056)) (\<lambda>frame_ok.
              Inr \<lparr>rp_seal_ok = count (\<lambda>w. case w of Exact c pt \<Rightarrow> True | _ \<Rightarrow> False) checks,
                   rp_seal_total = length contents,
                   rp_seal_skipped = count (\<lambda>w. w = Skipped) checks,
                   rp_builder_exact = count fst tallies,
                   rp_builder_documented = count snd tallies,
                   rp_builder_total = length tallies,
                   rp_mismatches = count (\<lambda>w. case w of Mismatched c pt \<Rightarrow> True | _ \<Rightarrow> False) checks,
                   rp_video_ok = grey_ok \<and> colour_ok \<and> chroma_match \<noteq> None
                     \<and> colour_ac_pass fixtures \<and> frame_ok\<rparr>))"

end
