(* ===== verification/ProveLaws.thy ===== *)
theory ProveLaws
  imports Prove KvinoLaws
begin

text \<open>
  Laws of the offline proof run: its reference strips are reproduced, its walk over the record stream
  accepts exactly what the frame assembler builds, resealing a frame checks exactly the header and the
  tag of the format, rebuilding a message exactly the layouts of the builders, and so what it means
  that the run passes.
\<close>

section \<open>Proof 3 holds\<close>

text \<open>A solid strip is its head, the flat significance units and the packed escape bits.\<close>

lemma solid_strip_region:
  fixes ydc cbdc crdc :: int
  assumes "concat (map solid_esc_bits [quantize_dc 2 crdc, quantize_dc 1 cbdc, quantize_dc 0 ydc]) = bits"
    and "esc_len (quantize_dc 2 crdc) 10 + esc_len (quantize_dc 1 cbdc) 10 + esc_len (quantize_dc 0 ydc) 10 = n"
    and "bt_out (put_bits bits bits_new) = R"
    and "(368 + n + SOLID_DC_MINPAD + 7) div 8 = m" "l2 = m + m mod 2" "44 \<le> m" "length R \<le> l2 - 44"
  shows "solid_strip x y ydc cbdc crdc = head x y l2 l2 @ flat_sync @ R @ zeros (l2 - 44 - length R)"
proof -
  have "46 \<le> l2 + 2" using assms(5,6) by simp
  note h = solid_head [OF this, of l2 l2 y x]
  have e: "esc_len ([a, b, c] ! 0) k + esc_len ([a, b, c] ! 1) k + esc_len ([a, b, c] ! 2) k =
      esc_len a k + esc_len b k + esc_len c k" for a b c k by simp
  have d: "div_ceil (368 + n + SOLID_DC_MINPAD) 8 = m"
    using assms(4) by (simp add: div_ceil_def)
  have l: "m + m mod 2 + 2 = l2 + 2" "l2 + 2 - 2 = l2" "l2 + 2 - 46 = l2 - 44" using assms(5) by simp_all
  have "solid_strip x y ydc cbdc crdc =
      fst (fold push_at bits (head x y l2 l2 @ flat_sync @ zeros (l2 - 44), 368))"
    unfolding solid_strip_def Let_def assms(1) SOLID_DC_CMAX_def SOLID_DC_BIT_def e assms(2) d l h ..
  moreover have "8 * length (head x y l2 l2 @ flat_sync) = 368"
    by (simp add: flat_sync_def SOLID_MAIN_def)
  ultimately show ?thesis
    using push_all_put_bits [of bits_new bits "l2 - 44" "head x y l2 l2 @ flat_sync"] assms(3,7)
    by simp
qed

lemma strip_grey: "strip_of 0 0 (128, 128, 128) = head 0 0 58 58 @ flat_sync @ [252, 15, 32] @ zeros 11"
proof -
  have c: "colour 128 128 128 = (8192, 0, 0)" by code_simp
  have b: "concat (map solid_esc_bits [quantize_dc 2 0, quantize_dc 1 0, quantize_dc 0 8192]) =
    [False, False] @ replicate 10 True @ replicate 9 False @ [True]" by code_simp
  have n: "esc_len (quantize_dc 2 0) 10 + esc_len (quantize_dc 1 0) 10 + esc_len (quantize_dc 0 8192) 10 = 22"
    by code_simp
  have r: "bt_out (put_bits ([False, False] @ replicate 10 True @ replicate 9 False @ [True]) bits_new) =
    [252, 15, 32]" by code_simp
  show ?thesis
    using solid_strip_region [OF b n r, of 57 58] by (simp add: strip_of_def c SOLID_DC_MINPAD_def)
qed

lemma strip_yellow: "strip_of 512 16 (255, 255, 0) =
  head 512 16 60 60 @ flat_sync @ [255, 254, 252, 239, 39] @ zeros 11"
proof -
  let ?bits = "replicate 8 True @ [False] @ replicate 7 True @ [False] @ [False]
    @ replicate 10 True @ [False] @ replicate 6 True @ [False, False, True] :: bool list"
  have c: "colour 255 255 0 = (12224, 0, - 16320)" by code_simp
  have b: "concat (map solid_esc_bits [quantize_dc 2 (- 16320), quantize_dc 1 0, quantize_dc 0 12224]) =
    ?bits" by code_simp
  have n: "esc_len (quantize_dc 2 (- 16320)) 10 + esc_len (quantize_dc 1 0) 10
      + esc_len (quantize_dc 0 12224) 10 = 38"
    by code_simp
  have r: "bt_out (put_bits ?bits bits_new) = [255, 254, 252, 239, 39]" by code_simp
  show ?thesis
    using solid_strip_region [OF b n r, of 59 60] by (simp add: strip_of_def c SOLID_DC_MINPAD_def)
qed

lemma grey_ok: "grey_ok"
  unfolding grey_ok_def strip_grey by code_simp

lemma colour_ok: "colour_ok"
  by code_simp

lemma chroma_match: "chroma_match \<noteq> None"
proof -
  have "same_body (strip_of 512 16 (255, 255, 0)) BARS_STRIP_X512_Y16"
    unfolding strip_yellow by code_simp
  then show ?thesis
    by (auto simp: chroma_match_def find_None_iff PRIMARIES_def)
qed

section \<open>Proof 5 holds\<close>

text \<open>A strip rebuilt from the pixels is the strip the frame encoder makes.\<close>

lemma plane_eq:
  "colour_plane (\<lambda>(y, cb, cr). cr) x y px = map (\<lambda>(y, cb, cr). cr)
     (map (\<lambda>i. case px (x + i mod 8) (y + i div 8) of (r, g, b) \<Rightarrow> colour r g b) [0..<64])"
  "colour_plane (\<lambda>(y, cb, cr). cb) x y px = map (\<lambda>(y, cb, cr). cb)
     (map (\<lambda>i. case px (x + i mod 8) (y + i div 8) of (r, g, b) \<Rightarrow> colour r g b) [0..<64])"
  "colour_plane (\<lambda>(y, cb, cr). y) x y px = map (\<lambda>(y, cb, cr). y)
     (map (\<lambda>i. case px (x + i mod 8) (y + i div 8) of (r, g, b) \<Rightarrow> colour r g b) [0..<64])"
  by (simp_all add: colour_plane_def DIM_def PIXELS_def case_prod_unfold del: upt_Suc)

lemma standalone_frame_strip: "standalone px t = frame_strip px t"
proof (cases t)
  case (Pair ox oy)
  have "map (\<lambda>k. colour_block (strip_planes px t ! k ! 0) (strip_planes px t ! k ! 1) (strip_planes px t ! k ! 2))
      [0..<16] = colour_strip_blocks ox oy px"
    by (intro nth_equalityI)
      (simp_all add: Pair strip_planes_def colour_strip_blocks_def STRIP_BLOCKS_def STRIP_BLOCKS_X_def
        DIM_def Let_def plane_eq del: upt_Suc map_map)
  then show ?thesis
    by (simp add: Pair standalone_def frame_strip_def colour_strip_from_planes_def)
qed

lemma walk_band_body:
  assumes "list_all (\<lambda>s. strip_y s = v) b" "length (body b) < 65536" "y = None \<or> y = Some v"
  shows "walk_band y (length (body b)) (body b @ rest) (b @ ws) = Some ws"
  using assms
proof (induction b arbitrary: y)
  case Nil
  then show ?case by (cases ws) auto
next
  case (Cons s b)
  have l: "length s < 65536" using Cons.prems(2) by simp
  have y: "(case y of None \<Rightarrow> v | Some b \<Rightarrow> b) = v"
    using Cons.prems(3) by auto
  have "rd16 (le16 (of_nat (length s)) @ s @ body b @ rest) 0 = of_nat (length s)" by simp
  moreover have "slice 2 (length s) (le16 (of_nat (length s)) @ s @ body b @ rest) = s"
    by (simp add: slice_def)
  moreover have "unat (of_nat (length s) :: u16) = length s" by (rule unat_of_nat16 [OF l])
  moreover have "rd16 s 4 = v" using Cons.prems(1) by (simp add: strip_y_def)
  moreover have "walk_band (Some v) (length (body b)) (body b @ rest) (b @ ws) = Some ws"
    using Cons.prems by (intro Cons.IH) auto
  ultimately show ?case using y by (simp add: Let_def)
qed

lemma walk_records_ok:
  assumes "list_all valid_band bs" "list_all (\<lambda>b. list_all (\<lambda>s. strip_y s = strip_y (hd b)) b) bs"
  shows "walk_records (pre @ concat (map record_bytes bs)) (length pre) (concat bs) = Inr True"
  using assms
proof (induction bs arbitrary: pre)
  case Nil
  show ?case by (simp add: walk_records.simps)
next
  case (Cons b bs)
  define n where "n = 20 + length (body b)"
  let ?rest = "concat (map record_bytes bs)"
  let ?s = "pre @ record_bytes b @ ?rest"
  have n: "n < 65536" using Cons.prems by (simp add: valid_band_def n_def)
  have nn: "unat (of_nat n :: u16) = n" by (rule unat_of_nat16 [OF n])
  have rb: "record_bytes b = [0, 0] @ le16 (of_nat n) @ le32 4 @ zeros 8 @ body b @ zeros 8"
    by (simp add: record_bytes_eq n_def)
  have "of_le32 4 0 0 0 = (4 :: u32)" "of_le16 0 0 = 0"
    using of_le32_le32 [of 4] by (simp_all add: of_le16_def)
  then have hdr: "rd16 ?s (length pre) = 0" "rd16 ?s (length pre + 2) = of_nat n" "rd32 ?s (length pre + 4) = 4"
    unfolding rb
    by (simp_all add: rd16_def rd32_def le16_def le32_def of_le16_le16 of_le32_le32 nth_append nth_Cons')
  have len: "length ?s = length pre + n + 4 + length ?rest"
    by (simp add: length_record_bytes n_def)
  have pfx: "slice (length pre + 8) 8 ?s = zeros 8"
    unfolding rb by (simp add: slice_def)
  have tr: "slice (length pre + n - 4) 4 ?s = zeros 4" "slice (length pre + n) 4 ?s = zeros 4"
  proof -
    let ?x = "pre @ [0, 0] @ le16 (of_nat n) @ le32 4 @ zeros 8 @ body b"
    have "zeros 8 = zeros 4 @ (zeros 4 :: bytes)" by (simp add: zeros_def flip: replicate_add)
    then have s: "?s = ?x @ zeros 4 @ zeros 4 @ ?rest" "?s = (?x @ zeros 4) @ zeros 4 @ ?rest"
      unfolding rb by simp_all
    have l: "length pre + n - 4 = length ?x" "length pre + n = length (?x @ zeros 4)"
      by (simp_all add: n_def)
    have "slice (length xs) 4 (xs @ zeros 4 @ ys) = zeros 4" for xs ys :: bytes
      by (simp add: slice_def)
    then show "slice (length pre + n - 4) 4 ?s = zeros 4" "slice (length pre + n) 4 ?s = zeros 4"
      by (metis s(1) l(1), metis s(2) l(2))
  qed
  have bd: "drop (length pre + 16) ?s = body b @ zeros 8 @ ?rest"
    unfolding rb by simp
  have "walk_band None (length pre + n - 4 - (length pre + 16)) (drop (length pre + 16) ?s) (b @ concat bs)
      = Some (concat bs)"
    unfolding bd
    using Cons.prems walk_band_body [of "strip_y (hd b)" b None "zeros 8 @ ?rest" "concat bs"] n
    by (simp add: n_def)
  moreover have "walk_records ?s (length pre + n + 4) (concat bs) = Inr True"
    using Cons.IH [of "pre @ record_bytes b"] Cons.prems by (simp add: length_record_bytes n_def add.assoc)
  moreover have "20 \<le> n" by (simp add: n_def)
  ultimately show ?case
    using hdr len nn pfx tr by (subst walk_records.simps) (simp add: Let_def)
qed

lemma frame_strip_y: "strip_y (frame_strip px t) = of_nat (snd t)"
proof (cases t)
  case (Pair sx sy)
  then show ?thesis
    using colour_strip_facts(2) [OF length_strip_blocks strip_blocks_lasts, of sx sy px "of_nat sx" "of_nat sy"]
    by (simp add: frame_strip_def)
qed

lemma check_frame_eq:
  "check_frame fw fh rgb =
     (if fw mod 64 = 0 \<and> fh mod 16 = 0 \<and> fw * fh * 3 \<le> length rgb then Inr True else Inl Panic)"
proof (cases "fw mod 64 = 0 \<and> fh mod 16 = 0 \<and> fw * fh * 3 \<le> length rgb")
  case True
  let ?ss = "map (frame_strip (rgb_px fw rgb)) (tiles fw fh)"
  have r: "rgb_frame_ep08 fw fh rgb 0 = Inr (frame_records ?ss, 0)"
    using True by (simp add: rgb_frame_ep08_def colour_frame_ep08_def tile_sizes)
  have m: "map (standalone (rgb_px fw rgb)) (tiles fw fh) = ?ss"
    by (simp add: standalone_frame_strip)
  have "length s \<le> 65513" if "s \<in> set ?ss" for s
    using that order_trans [OF frame_strip_length, of 65513 "rgb_px fw rgb"] by auto
  then obtain bs where bs: "concat (frame_records ?ss) = concat (map record_bytes bs)" "concat bs = ?ss"
    "list_all valid_band bs" "list_all (\<lambda>b. list_all (\<lambda>s. strip_y s = strip_y (hd b)) b) bs"
    using frame_records_stream_y [of ?ss] by (auto simp: list_all_iff)
  have "walk_records (concat (frame_records ?ss)) 0 ?ss = Inr True"
    using walk_records_ok [OF bs(3,4), of "[]"] by (simp add: bs(1,2))
  moreover have "list_all (\<lambda>f. length f \<le> 65536) (frame_records ?ss)"
    using frame_records_strips [of "rgb_px fw rgb" "tiles fw fh"] by (auto simp: list_all_iff)
  ultimately show ?thesis using True by (simp add: check_frame_def r m)
next
  case False
  then show ?thesis
    by (auto simp: check_frame_def rgb_frame_ep08_def colour_frame_ep08_def tile_sizes)
qed

text \<open>
  C35. The proof run's own reader of a frame: for every surface whose size is a whole number of tiles
  and whose raster is long enough, the transfers are accepted record by record, every strip equal to
  the one rebuilt from the pixels, one Y per record, and nothing left over. Otherwise the run panics.
\<close>

theorem check_frame_exact:
  "check_frame fw fh rgb =
     (if fw mod 64 = 0 \<and> fh mod 16 = 0 \<and> fw * fh * 3 \<le> length rgb then Inr True else Inl Panic)"
  by (rule check_frame_eq)

section \<open>Proof 1: the frames that are regenerated\<close>

text \<open>
  What the format says of a captured frame: the sub-id at 8, the counter at 12, the ciphertext from
  16 on, without the trailing tag on sub 0x24. It is recovered by the first candidate that decrypts
  it to a message with a known sub-id and a zero word.
\<close>

definition cipher_part :: "bytes \<Rightarrow> bytes" where
  "cipher_part w = (if rd16 w 8 = 0x24 then slice 16 (length w - 32) w else drop 16 w)"

definition picked :: "prims \<Rightarrow> cand list \<Rightarrow> bytes \<Rightarrow> (cand \<times> bytes) option" where
  "picked P cands w =
     (if length w < 32 then None
      else find (\<lambda>(c, m). plausible m)
             (map (\<lambda>c. (c, ctr_xor P (fst c) (snd c) (rd32 w 12) (cipher_part w))) cands))"

text \<open>
  And of a frame sealed by the driver: two zero bytes, its size, type 4, the auxiliary word of the
  message id (bit 14 aside on sub 0x24), and on sub 0x24 the tag of the ciphertext.
\<close>

definition authentic :: "prims \<Rightarrow> cand \<Rightarrow> bytes \<Rightarrow> bytes \<Rightarrow> bool" where
  "authentic P c m w \<longleftrightarrow>
     take 2 w = [0, 0] \<and> rd16 w 2 = of_nat (length w - 4) \<and> rd32 w 4 = 4
     \<and> rd16 w 10 = aux_for_id (if rd16 w 8 = 0x24 then rd16 m 0 AND 0xbfff else rd16 m 0) (length w - 16)
     \<and> (rd16 w 8 = 0x24 \<longrightarrow>
          drop (length w - 16) w = dl3cmac_tag P (fst c) (snd c) (ucast (rd32 w 12)) (cipher_part w))"

lemma pick_eq_find:
  assumes "livemac \<longrightarrow> 16 \<le> length bdy"
  shows "pick P cands sq bdy livemac = find (\<lambda>(c, m). plausible m)
    (map (\<lambda>c. (c, ctr_xor P (fst c) (snd c) sq (if livemac then take (length bdy - 16) bdy else bdy))) cands)"
  using assms by (induction cands) (auto simp: recover_def open_in_def)

lemma length_tag [simp]: "prims_sized P \<Longrightarrow> length (dl3cmac_tag P ks riv q xs) = 16"
  by (simp add: dl3cmac_tag_def aes_cmac_def Let_def)

lemma reseal_bytes:
  assumes "prims_sized P"
  shows "reseal P c wsub sq m = Inr ([0, 0] @ le16 (of_nat (length m + (if wsub = 0x24 then 28 else 12))) @ le32 4
      @ le16 wsub @ le16 (aux_for_id (if wsub = 0x24 then rd16 m 0 AND 0xbfff else if 2 \<le> length m then rd16 m 0 else 0)
          (length m + (if wsub = 0x24 then 16 else 0))) @ le32 sq
      @ ctr_xor P (fst c) (snd c) sq m
      @ (if wsub = 0x24 then dl3cmac_tag P (fst c) (snd c) (ucast sq) (ctr_xor P (fst c) (snd c) sq m) else []))"
proof (cases "wsub = 0x24")
  case True
  have "NOT 0x4000 = (0xbfff :: u16)" by code_simp
  then have "rd16 m 0 AND NOT 0x4000 = rd16 m 0 AND 0xbfff" by (rule arg_cong)
  then show ?thesis
    using True assms
    by (simp add: reseal_def seal_interactive_arm seal_video_arm_frame frame_encode_def Let_def add.commute)
next
  case False
  then show ?thesis
    using assms by (simp add: reseal_def seal_stream_def push_frame_with_def Let_def add.commute)
qed

lemma wire_parts:
  assumes "32 \<le> length w"
  shows "w = take 2 w @ le16 (rd16 w 2) @ le32 (rd32 w 4) @ le16 (rd16 w 8) @ le16 (rd16 w 10) @ le32 (rd32 w 12)
    @ cipher_part w @ (if rd16 w 8 = 0x24 then drop (length w - 16) w else [])"
proof -
  have c: "cipher_part w @ (if rd16 w 8 = 0x24 then drop (length w - 16) w else []) = drop 16 w"
    using assms append_take_drop_id [of "length w - 32" "drop 16 w"] by (simp add: cipher_part_def slice_def)
  have l16: "le16 (rd16 w i) = slice i 2 w" if "i + 2 \<le> length w" for i
    using that by (simp add: rd16_def le16_of_le16) (intro nth_equalityI, auto simp: less_Suc_eq)
  have l32: "le32 (rd32 w i) = slice i 4 w" if "i + 4 \<le> length w" for i
    using that
    by (simp add: rd32_def le32_of_le32) (intro nth_equalityI, auto simp: less_Suc_eq eval_nat_numeral)
  have "w = take 2 w @ slice 2 2 w @ slice 4 4 w @ slice 8 2 w @ slice 10 2 w @ slice 12 4 w @ drop 16 w"
    using append_take_drop_id [of 2 w] append_take_drop_id [of 2 "drop 2 w"] append_take_drop_id [of 4 "drop 4 w"]
      append_take_drop_id [of 2 "drop 8 w"] append_take_drop_id [of 2 "drop 10 w"] append_take_drop_id [of 4 "drop 12 w"]
    by (simp add: slice_def)
  then show ?thesis unfolding c using assms by (simp add: l16 l32)
qed

lemma codec_inj [simp]: "le16 a = le16 b \<longleftrightarrow> a = b" "le32 d = le32 e \<longleftrightarrow> d = e"
  by (metis rd16_le16 append_Nil2) (metis rd32_le32 append_Nil2)

lemma frame_bytes_eq:
  assumes "length t = 2"
  shows "[0, 0] @ le16 a @ le32 d @ le16 s @ le16 b @ le32 q @ c @ u =
      t @ le16 a' @ le32 d' @ le16 s @ le16 b' @ le32 q @ c @ u'
    \<longleftrightarrow> t = [0, 0] \<and> a' = a \<and> d' = d \<and> b' = b \<and> u' = u"
proof -
  have "xs @ ys = zs @ vs \<longleftrightarrow> xs = zs \<and> ys = vs" if "length xs = length zs" for xs ys zs vs :: bytes
    using that by simp
  note e = this
  show ?thesis
    using assms by (subst e, simp) (subst e, simp, subst e, simp, subst e, simp, subst e, simp, subst e, simp, auto)
qed

lemma check_wire_eq:
  assumes P: "prims_sized P"
  shows "check_wire P cands w =
    (if length w < 32 then Ignored
     else case picked P cands w of
       None \<Rightarrow> Skipped
     | Some (c, m) \<Rightarrow> if authentic P c m w then Exact c m else Mismatched c m)"
proof (cases "length w < 32")
  case True
  then show ?thesis by (simp add: check_wire_def)
next
  case False
  then have l: "32 \<le> length w" by simp
  let ?s = "rd16 w 8" and ?q = "rd32 w 12"
  have cp: "(if ?s = 0x24 then take (length (drop 16 w) - 16) (drop 16 w) else drop 16 w) = cipher_part w"
    using l by (simp add: cipher_part_def slice_def)
  have pk: "pick P cands ?q (drop 16 w) (?s = 0x24) = picked P cands w"
  proof -
    have "16 \<le> length (drop 16 w)" using l unfolding length_drop by linarith
    then show ?thesis
      using l pick_eq_find [of "?s = 0x24" "drop 16 w" P cands ?q, unfolded cp] by (simp add: picked_def)
  qed
  show ?thesis
  proof (cases "picked P cands w")
    case None
    then show ?thesis using l by (simp add: check_wire_def pk)
  next
    case (Some cm)
    obtain c m where cm: "cm = (c, m)" by fastforce
    have m: "m = ctr_xor P (fst c) (snd c) ?q (cipher_part w)" and "plausible m"
      using Some l by (auto simp: picked_def cm find_Some_iff)
    then have ct: "ctr_xor P (fst c) (snd c) ?q m = cipher_part w" and lm: "length m = length (cipher_part w)"
      "8 \<le> length m"
      using P by (simp_all add: plausible_def)
    have lc: "length m + (if ?s = 0x24 then 16 else 0) = length w - 16"
      using l lm(1) by (simp add: cipher_part_def)
    then have sz: "length m + (if ?s = 0x24 then 28 else 12) = length w - 4"
      using l by (simp split: if_splits)
    obtain regen where r: "reseal P c ?s ?q m = Inr regen"
      and regen: "regen = [0, 0] @ le16 (of_nat (length w - 4)) @ le32 4 @ le16 ?s
        @ le16 (aux_for_id (if ?s = 0x24 then rd16 m 0 AND 0xbfff else rd16 m 0) (length w - 16)) @ le32 ?q
        @ cipher_part w @ (if ?s = 0x24 then dl3cmac_tag P (fst c) (snd c) (ucast ?q) (cipher_part w) else [])"
      using reseal_bytes [OF P, of c ?s ?q m] lm(2) unfolding sz lc ct by (simp split: if_splits)
    have t: "length (take 2 w) = 2" using l by simp
    have "regen = w \<longleftrightarrow> regen = take 2 w @ le16 (rd16 w 2) @ le32 (rd32 w 4) @ le16 ?s @ le16 (rd16 w 10) @ le32 ?q
      @ cipher_part w @ (if ?s = 0x24 then drop (length w - 16) w else [])"
      using wire_parts [OF l] by (rule arg_cong)
    also have "\<dots> \<longleftrightarrow> authentic P c m w"
      unfolding regen frame_bytes_eq [OF t] authentic_def by auto
    finally have "regen = w \<longleftrightarrow> authentic P c m w" .
    then show ?thesis using l r by (simp add: check_wire_def pk Some cm)
  qed
qed

section \<open>Proof 2: the messages that are rebuilt\<close>

text \<open>
  The layouts the builders claim, byte by byte, and what the run leaves free: eight trailing bytes of
  a heartbeat, the last four of a cursor message. A cursor image must hold whole pixels, fewer
  than 65536 of them. Other messages are not compared.
\<close>

definition documented :: "bytes \<Rightarrow> bool" where
  "documented m =
     (let i = rd16 m 0; sub = rd16 m 2; n = length m
      in if i = 0x16 \<and> sub = 0x75 \<and> n = 32 then slice 6 18 m = zeros 16 @ [0x10, 0x27]
         else if sub = 0x42 then n = 32 \<and> i = 0x1b \<and> slice 6 17 m = zeros 16 @ [2]
         else if sub = 0x43 then n = 32 \<and> i = 0x1a \<and> slice 6 17 m = zeros 16 @ [2]
         else if sub = 0x41 then
           32 \<le> n \<and> 4 dvd n \<and> n < 32 + 2 ^ 18 \<and> i = 0x401c \<and> slice 6 17 m = zeros 16 @ [2]
           \<and> slice 24 8 m = zeros 8
         else True)"

definition buildable :: "bytes \<Rightarrow> bool" where
  "buildable content =
     (case check_builder content of
        Inl e \<Rightarrow> False
      | Inr None \<Rightarrow> True
      | Inr (Some (ex, matches)) \<Rightarrow> matches)"

lemma heartbeat_eq: "heartbeat ctr = le16 0x16 @ le16 0x75 @ le16 ctr @ (zeros 16 @ [0x10, 0x27]) @ zeros 8"
  by (simp add: heartbeat_def cp_header_def pad_to_def zeros_def Let_def eval_nat_numeral)

lemma cursor_eqs:
  "cursor_create ctr hno w h =
     le16 0x1b @ le16 0x42 @ le16 ctr @ (zeros 16 @ [2]) @ [hno] @ le16 w @ le16 h @ zeros 4"
  "cursor_move ctr hno w h =
     le16 0x1a @ le16 0x43 @ le16 ctr @ (zeros 16 @ [2]) @ [hno] @ le16 w @ le16 h @ zeros 4"
  "pad_to 32 (cursor_header 0x401c 0x41 ctr hno) =
     le16 0x401c @ le16 0x41 @ le16 ctr @ (zeros 16 @ [2]) @ [hno] @ zeros 8"
  by (simp_all add: cursor_create_def cursor_move_def cursor_header_def cp_header_def pad_to_def zeros_def Let_def
      eval_nat_numeral)

lemma le16_rd16: "i + 2 \<le> length m \<Longrightarrow> le16 (rd16 m i) = slice i 2 m"
  by (simp add: rd16_def le16_of_le16) (intro nth_equalityI, auto simp: less_Suc_eq)

lemma slice_single: "i < length m \<Longrightarrow> slice i 1 m = [m ! i]"
  by (simp add: slice_def take_Suc_conv_app_nth flip: Cons_nth_drop_Suc)

text \<open>The pieces of a message of at least 24 bytes.\<close>

lemma message_parts:
  "24 \<le> length m \<Longrightarrow>
     m = le16 (rd16 m 0) @ le16 (rd16 m 2) @ le16 (rd16 m 4) @ slice 6 18 m @ drop 24 m"
  "28 \<le> length m \<Longrightarrow>
     m = le16 (rd16 m 0) @ le16 (rd16 m 2) @ le16 (rd16 m 4) @ slice 6 17 m @ [m ! 23]
       @ le16 (rd16 m 24) @ le16 (rd16 m 26) @ drop 28 m"
  "32 \<le> length m \<Longrightarrow>
     m = le16 (rd16 m 0) @ le16 (rd16 m 2) @ le16 (rd16 m 4) @ slice 6 17 m @ [m ! 23]
       @ slice 24 8 m @ drop 32 m"
proof -
  have d: "slice i n m @ drop (i + n) m = drop i m" for i n
    by (metis append_take_drop_id drop_drop add.commute slice_def)
  have d0: "slice 0 2 m @ drop 2 m = m" by (simp add: slice_def)
  note f = d0 d [of 2 2] d [of 4 2] d [of 6 18] d [of 6 17] d [of 23 1] d [of 24 2] d [of 26 2] d [of 24 8]
  show "24 \<le> length m \<Longrightarrow>
     m = le16 (rd16 m 0) @ le16 (rd16 m 2) @ le16 (rd16 m 4) @ slice 6 18 m @ drop 24 m"
    using f by (simp add: le16_rd16)
  show "28 \<le> length m \<Longrightarrow>
     m = le16 (rd16 m 0) @ le16 (rd16 m 2) @ le16 (rd16 m 4) @ slice 6 17 m @ [m ! 23]
       @ le16 (rd16 m 24) @ le16 (rd16 m 26) @ drop 28 m"
    using f slice_single [of 23 m] by (simp add: le16_rd16)
  show "32 \<le> length m \<Longrightarrow>
     m = le16 (rd16 m 0) @ le16 (rd16 m 2) @ le16 (rd16 m 4) @ slice 6 17 m @ [m ! 23]
       @ slice 24 8 m @ drop 32 m"
    using f slice_single [of 23 m] by (simp add: le16_rd16)
qed

lemma app_eq: "length xs = length zs \<Longrightarrow> xs @ ys = zs @ vs \<longleftrightarrow> xs = zs \<and> ys = vs" for xs ys zs vs :: bytes
  by simp

lemma put_tail_zeros:
  "length xs = k \<Longrightarrow> length ys = n \<Longrightarrow> put k (zeros n) (xs @ ys) = xs @ zeros n"
  by (simp add: put_def)

lemma snd_tally: "snd (tally x y (Some (k, n))) \<longleftrightarrow> put k (zeros n) x = put k (zeros n) y"
  by (simp add: tally_def)

lemma buildable_heartbeat:
  assumes "rd16 m 0 = 0x16" "rd16 m 2 = 0x75" "length m = 32"
  shows "buildable m \<longleftrightarrow> slice 6 18 m = zeros 16 @ [0x10, 0x27]"
proof -
  let ?h = "le16 0x16 @ le16 0x75 @ le16 (rd16 m 4)"
  have m: "m = (?h @ slice 6 18 m) @ drop 24 m"
    using message_parts(1) [of m] assms by simp
  have "buildable m \<longleftrightarrow> snd (tally (heartbeat (rd16 m 4)) m (Some (24, 8)))"
    using assms by (simp add: buildable_def check_builder_def split: prod.split)
  also have "\<dots> \<longleftrightarrow> put 24 (zeros 8) ((?h @ zeros 16 @ [0x10, 0x27]) @ zeros 8) = put 24 (zeros 8) ((?h @ slice 6 18 m) @ drop 24 m)"
    using m by (simp add: snd_tally heartbeat_eq)
  also have "\<dots> \<longleftrightarrow> slice 6 18 m = zeros 16 @ [0x10, 0x27]"
    using assms(3) by (subst (1 2) put_tail_zeros) auto
  finally show ?thesis .
qed

lemma buildable_cursor:
  assumes "sub = 0x42 \<and> i = 0x1b \<or> sub = 0x43 \<and> i = 0x1a" "rd16 m 2 = sub" "8 \<le> length m"
  shows "buildable m \<longleftrightarrow> length m = 32 \<and> rd16 m 0 = i \<and> slice 6 17 m = zeros 16 @ [2]"
proof -
  let ?mine = "le16 i @ le16 sub @ le16 (rd16 m 4) @ (zeros 16 @ [2]) @ [m ! 23] @ le16 (rd16 m 24)
    @ le16 (rd16 m 26) @ zeros 4"
  have b: "buildable m \<longleftrightarrow> 28 \<le> length m \<and>
      (?mine = m \<or> 32 \<le> length m \<and> put 28 (zeros 4) ?mine = put 28 (zeros 4) m)"
    using assms by (auto simp: buildable_def check_builder_def Let_def cursor_eqs tally_def)
  show ?thesis
  proof (cases "length m = 32")
    case True
    let ?t = "[m ! 23] @ le16 (rd16 m 24) @ le16 (rd16 m 26)"
    let ?a = "le16 i @ le16 sub @ le16 (rd16 m 4) @ (zeros 16 @ [2]) @ ?t"
    let ?b = "le16 (rd16 m 0) @ le16 sub @ le16 (rd16 m 4) @ slice 6 17 m @ ?t"
    have m: "m = ?b @ drop 28 m"
      using message_parts(2) [of m] True assms(2) by simp
    have l: "length ?a = 28" "length ?b = 28" using True by simp_all
    have "put 28 (zeros 4) ?mine = put 28 (zeros 4) m \<longleftrightarrow> put 28 (zeros 4) (?a @ zeros 4) = put 28 (zeros 4) (?b @ drop 28 m)"
      using m by simp
    also have "\<dots> \<longleftrightarrow> ?a = ?b"
      using l True by (subst (1 2) put_tail_zeros) auto
    also have "\<dots> \<longleftrightarrow> rd16 m 0 = i \<and> slice 6 17 m = zeros 16 @ [2]"
      using True by auto
    finally show ?thesis using b True by auto
  next
    case False
    then have "?mine \<noteq> m" "32 \<le> length m \<Longrightarrow> put 28 (zeros 4) ?mine \<noteq> put 28 (zeros 4) m"
      by (auto dest: arg_cong [where f = length])
    then show ?thesis using b False by auto
  qed
qed

lemma div_mod_eq_iff: "n div 4 mod 65536 * 4 = n \<longleftrightarrow> 4 dvd n \<and> n < 262144" for n :: nat
proof
  assume e: "n div 4 mod 65536 * 4 = n"
  have "n div 4 mod 65536 < 65536" by simp
  with e have "n < 262144" by linarith
  moreover have "4 dvd n" by (subst e [symmetric]) simp
  ultimately show "4 dvd n \<and> n < 262144" by simp
next
  assume n: "4 dvd n \<and> n < 262144"
  then have "n div 4 < 65536" by (simp add: less_mult_imp_div_less)
  then show "n div 4 mod 65536 * 4 = n" using n by simp
qed

lemma buildable_image:
  assumes "rd16 m 2 = 0x41" "8 \<le> length m"
  shows "buildable m \<longleftrightarrow> 32 \<le> length m \<and> 4 dvd length m \<and> length m < 32 + 2 ^ 18 \<and> rd16 m 0 = 0x401c
    \<and> slice 6 17 m = zeros 16 @ [2] \<and> slice 24 8 m = zeros 8"
proof (cases "32 \<le> length m")
  case False
  then show ?thesis using assms by (auto simp: buildable_def check_builder_def Let_def)
next
  case True
  let ?n = "length m - 32"
  let ?w = "of_nat (?n div 4) :: u16"
  have w: "unat ?w * 4 = ?n \<longleftrightarrow> 4 dvd length m \<and> length m < 32 + 2 ^ 18"
  proof -
    have "unat ?w = ?n div 4 mod 65536" by (simp add: unat_of_nat take_bit_eq_mod)
    moreover have "4 dvd ?n \<longleftrightarrow> 4 dvd length m" using True by presburger
    ultimately show ?thesis using True div_mod_eq_iff [of ?n] by auto
  qed
  have lt: "unat ?w < 65536" using unat16_less by simp
  have e: "cursor_image 64 (rd16 m 4) (m ! 23) ?w 1 (drop 32 m) =
      (if unat ?w * 4 = ?n then Inr ((le16 0x401c @ le16 0x41 @ le16 (rd16 m 4) @ (zeros 16 @ [2]) @ [m ! 23] @ zeros 8)
        @ drop 32 m) else Inl EINVAL)"
    using lt by (simp add: cursor_image_def checked_mul_def cursor_eqs Let_def del: of_nat_div)
  have m: "m = le16 (rd16 m 0) @ le16 0x41 @ le16 (rd16 m 4) @ slice 6 17 m @ [m ! 23] @ slice 24 8 m @ drop 32 m"
    using message_parts(3) [of m] True assms(1) by simp
  let ?mine = "le16 0x401c @ le16 0x41 @ le16 (rd16 m 4) @ (zeros 16 @ [2]) @ [m ! 23] @ zeros 8 @ drop 32 m"
  have "buildable m \<longleftrightarrow> unat ?w * 4 = ?n \<and> ?mine = m"
    using assms True e by (auto simp: buildable_def check_builder_def Let_def tally_def)
  also have "?mine = m \<longleftrightarrow> ?mine =
      le16 (rd16 m 0) @ le16 0x41 @ le16 (rd16 m 4) @ slice 6 17 m @ [m ! 23] @ slice 24 8 m @ drop 32 m"
    using m by (rule arg_cong)
  also have "\<dots> \<longleftrightarrow> rd16 m 0 = 0x401c \<and> slice 6 17 m = zeros 16 @ [2] \<and> slice 24 8 m = zeros 8"
  proof -
    have "zeros 16 @ 2 # v = slice 6 17 m @ v' \<longleftrightarrow> slice 6 17 m = zeros 16 @ [2] \<and> v' = v" for v v'
      using True app_eq [of "zeros 16 @ [2]" "slice 6 17 m" v v'] by auto
    then show ?thesis using True by auto
  qed
  finally show ?thesis using w True by auto
qed

lemma buildable_documented: "8 \<le> length m \<Longrightarrow> buildable m \<longleftrightarrow> documented m"
  using buildable_heartbeat [of m] buildable_cursor [of "0x42" "0x1b" m] buildable_cursor [of "0x43" "0x1a" m]
    buildable_image [of m]
  by (auto simp: documented_def Let_def) (auto simp: buildable_def check_builder_def Let_def)

section \<open>The verdict\<close>

lemma length_gradient: "length (gradient fw fh) = fw * fh * 3"
proof -
  have r: "length (concat (map f xs)) = n * length xs" if "\<And>x. length (f x) = n" for f :: "nat \<Rightarrow> bytes" and xs n
    using that by (induction xs) auto
  show ?thesis by (simp add: gradient_def r)
qed

lemma run_frame_ok: "check_frame 640 1056 (gradient 640 1056) = Inr True"
  using length_gradient [of 640 1056] by (simp add: check_frame_eq)

lemma built_tallies:
  "\<not> list_ex (\<lambda>b. case b of Inl e \<Rightarrow> True | Inr x \<Rightarrow> False) (map check_builder ms) \<and>
     list_all snd (concat (map (\<lambda>b. case b of Inr (Some t) \<Rightarrow> [t] | _ \<Rightarrow> []) (map check_builder ms)))
   \<longleftrightarrow> list_all buildable ms"
proof (induction ms)
  case (Cons m ms)
  show ?case
  proof (cases "check_builder m")
    case (Inr t)
    then show ?thesis using Cons
      by (cases t) (simp_all add: buildable_def case_prod_beta del: map_map, blast)
  qed (simp add: buildable_def)
qed simp

lemma count_none: "count p xs = 0 \<longleftrightarrow> list_all (\<lambda>x. \<not> p x) xs"
  by (simp add: count_def list_all_iff filter_empty_conv)

lemma count_all: "count p xs = length xs \<longleftrightarrow> list_all p xs"
proof (induction xs)
  case (Cons x xs)
  have "length (filter p xs) \<noteq> Suc (length xs)" using length_filter_le [of p xs] by linarith
  with Cons show ?case by (simp add: count_def)
qed (simp add: count_def)

text \<open>What the checks of the frames come to.\<close>

lemma checks_summary:
  fixes cands :: "cand list" and P :: prims
  assumes "prims_sized P"
  defines "checks \<equiv> map (check_wire P cands)"
  shows "SealFailed \<notin> set (checks ws)"
    and "concat (map recovered (checks ws)) = map snd (List.map_filter (picked P cands) ws)"
    and "count (\<lambda>w. case w of Mismatched c pt \<Rightarrow> True | _ \<Rightarrow> False) (checks ws) = 0 \<longleftrightarrow>
      list_all (\<lambda>w. case picked P cands w of None \<Rightarrow> True | Some (c, m) \<Rightarrow> authentic P c m w) ws"
    and "count (\<lambda>w. case w of Exact c pt \<Rightarrow> True | _ \<Rightarrow> False) (checks ws)
      + count (\<lambda>w. case w of Mismatched c pt \<Rightarrow> True | _ \<Rightarrow> False) (checks ws)
      = length (List.map_filter (picked P cands) ws)"
    and "count (\<lambda>w. w = Skipped) (checks ws) = count (\<lambda>w. 32 \<le> length w \<and> picked P cands w = None) ws"
proof -
  let ?p = "picked P cands" and ?c = "check_wire P cands"
  let ?ex = "\<lambda>w. case w of Exact c pt \<Rightarrow> True | _ \<Rightarrow> False"
  let ?mis = "\<lambda>w. case w of Mismatched c pt \<Rightarrow> True | _ \<Rightarrow> False"
  have n: "?p w = None" if "length w < 32" for w using that by (simp add: picked_def)
  have e: "?c w \<noteq> SealFailed" "recovered (?c w) = (case ?p w of None \<Rightarrow> [] | Some (c, m) \<Rightarrow> [m])"
    "\<not> ?mis (?c w) \<longleftrightarrow> (case ?p w of None \<Rightarrow> True | Some (c, m) \<Rightarrow> authentic P c m w)"
    "?ex (?c w) \<or> ?mis (?c w) \<longleftrightarrow> ?p w \<noteq> None" "\<not> (?ex (?c w) \<and> ?mis (?c w))"
    "?c w = Skipped \<longleftrightarrow> 32 \<le> length w \<and> ?p w = None" for w
    by (auto simp: check_wire_eq [OF assms(1)] recovered_def n split: option.split)
  show "SealFailed \<notin> set (checks ws)"
    unfolding checks_def set_map image_iff by (metis e(1))
  show "concat (map recovered (checks ws)) = map snd (List.map_filter ?p ws)"
    by (induction ws) (auto simp: checks_def e(2) List.map_filter_def split: option.split)
  show "count ?mis (checks ws) = 0 \<longleftrightarrow>
      list_all (\<lambda>w. case ?p w of None \<Rightarrow> True | Some (c, m) \<Rightarrow> authentic P c m w) ws"
    by (simp add: checks_def count_none list.pred_map comp_def e(3))
  show "count ?ex (checks ws) + count ?mis (checks ws) = length (List.map_filter ?p ws)"
  proof (induction ws)
    case (Cons w ws)
    show ?case
      using Cons e(4,5) [of w] by (cases "?ex (?c w)"; cases "?mis (?c w)"; cases "?p w")
        (simp_all add: checks_def count_def List.map_filter_def del: not_None_eq split_paired_Ex)
  qed (simp add: checks_def count_def List.map_filter_def)
  show "count (\<lambda>w. w = Skipped) (checks ws) = count (\<lambda>w. 32 \<le> length w \<and> ?p w = None) ws"
    by (simp add: checks_def count_def filter_map comp_def e(6))
qed

text \<open>A strip fixture whose body the encoder reproduces, in hexadecimal and without the tail word.\<close>

definition reproduced :: "strip_fixture \<Rightarrow> bool" where
  "reproduced = (\<lambda>(x, y, planes, want). hex (butlast (butlast (colour_strip_from_planes planes x y))) = want)"

lemma colour_ac_pass_iff: "colour_ac_pass fixtures \<longleftrightarrow> fixtures \<noteq> [] \<and> list_all reproduced fixtures"
proof -
  have "butlast (butlast s) = take (length s - 2) s" for s :: bytes
    by (simp add: butlast_conv_take min_def numeral_2_eq_2)
  then show ?thesis by (simp add: colour_ac_pass_def reproduced_def Let_def)
qed

text \<open>The report, from the frames that are picked and what they recover.\<close>

definition verdict :: "prims \<Rightarrow> cand list \<Rightarrow> bytes list \<Rightarrow> strip_fixture list \<Rightarrow> bool" where
  "verdict P cands wires fixtures \<longleftrightarrow>
     (\<exists>w \<in> set wires. picked P cands w \<noteq> None)
     \<and> (\<forall>w \<in> set wires. case picked P cands w of None \<Rightarrow> True | Some (c, m) \<Rightarrow> authentic P c m w \<and> documented m)
     \<and> fixtures \<noteq> [] \<and> list_all reproduced fixtures"

lemma picked_documented: "picked P cands w = Some (c, m) \<Longrightarrow> buildable m \<longleftrightarrow> documented m"
  using buildable_documented [of m] by (auto simp: picked_def plausible_def find_Some_iff split: if_splits)

lemma verdict_iff:
  "verdict P cands wires fixtures \<longleftrightarrow>
     List.map_filter (picked P cands) wires \<noteq> []
     \<and> list_all (\<lambda>w. case picked P cands w of None \<Rightarrow> True | Some (c, m) \<Rightarrow> authentic P c m w) wires
     \<and> list_all buildable (map snd (List.map_filter (picked P cands) wires)) \<and> colour_ac_pass fixtures"
proof -
  let ?p = "picked P cands"
  have cs: "set (List.map_filter ?p wires) = {x. \<exists>w \<in> set wires. ?p w = Some x}"
    by (force simp: List.map_filter_def)
  have "list_all buildable (map snd (List.map_filter ?p wires)) \<longleftrightarrow>
      (\<forall>w \<in> set wires. case ?p w of None \<Rightarrow> True | Some (c, m) \<Rightarrow> documented m)"
    using picked_documented [of P cands] by (fastforce simp: list_all_iff cs split: option.splits)
  moreover have "List.map_filter ?p wires \<noteq> [] \<longleftrightarrow> (\<exists>w \<in> set wires. ?p w \<noteq> None)"
    by (auto simp: List.map_filter_def filter_empty_conv)
  moreover have "(case ?p w of None \<Rightarrow> True | Some (c, m) \<Rightarrow> authentic P c m w \<and> documented m) \<longleftrightarrow>
      (case ?p w of None \<Rightarrow> True | Some (c, m) \<Rightarrow> authentic P c m w)
      \<and> (case ?p w of None \<Rightarrow> True | Some (c, m) \<Rightarrow> documented m)" for w
    by (simp split: option.split)
  ultimately show ?thesis
    unfolding verdict_def colour_ac_pass_iff list_all_iff [of _ wires] by (simp only: ball_conj_distrib) blast
qed

text \<open>
  C36. What the verdict of the proof run means. It passes exactly when some captured frame is
  recovered by a candidate key, every recovered frame carries the header and, on sub 0x24, the tag
  that the format gives its ciphertext, every recovered message has the layout of the builders
  outside the bytes they leave free, and there are reference strips and all are reproduced; its own
  strips, colours and frame walk hold always. It counts every recovered frame, and as skipped the
  frames of at least 32 bytes that no candidate recovers: these it ignores, and a panic is a
  failure.
\<close>

theorem run_passes_iff:
  assumes "prims_sized P"
  shows "((\<exists>r. run P cands wires fixtures = Inr r \<and> passed r) \<longleftrightarrow>
      (\<exists>w \<in> set wires. picked P cands w \<noteq> None)
      \<and> (\<forall>w \<in> set wires. case picked P cands w of None \<Rightarrow> True
           | Some (c, m) \<Rightarrow> authentic P c m w \<and> documented m)
      \<and> fixtures \<noteq> [] \<and> list_all reproduced fixtures)
    \<and> (\<forall>r. run P cands wires fixtures = Inr r \<longrightarrow>
        rp_seal_total r = length (filter (\<lambda>w. picked P cands w \<noteq> None) wires)
        \<and> rp_seal_skipped r = length (filter (\<lambda>w. 32 \<le> length w \<and> picked P cands w = None) wires))"
proof -
  let ?p = "picked P cands"
  let ?cs = "List.map_filter ?p wires"
  let ?built = "map check_builder (map snd ?cs)"
  let ?ts = "concat (map (\<lambda>b. case b of Inr (Some t) \<Rightarrow> [t] | _ \<Rightarrow> []) ?built)"
  note sm = checks_summary [OF assms, of cands wires]
  define ex where "ex = count (\<lambda>w. case w of Exact c pt \<Rightarrow> True | _ \<Rightarrow> False) (map (check_wire P cands) wires)"
  define mis where "mis = count (\<lambda>w. case w of Mismatched c pt \<Rightarrow> True | _ \<Rightarrow> False) (map (check_wire P cands) wires)"
  have run: "run P cands wires fixtures =
    (if list_ex (\<lambda>b. case b of Inl e \<Rightarrow> True | Inr x \<Rightarrow> False) ?built then Inl Panic else Inr
      \<lparr>rp_seal_ok = ex, rp_seal_total = length ?cs,
       rp_seal_skipped = count (\<lambda>w. 32 \<le> length w \<and> ?p w = None) wires,
       rp_builder_exact = count fst ?ts, rp_builder_documented = count snd ?ts, rp_builder_total = length ?ts,
       rp_mismatches = mis, rp_video_ok = colour_ac_pass fixtures\<rparr>)"
    using sm(1) grey_ok colour_ok chroma_match
    unfolding run_def Let_def sm(2) sm(5) ex_def [symmetric] mis_def [symmetric]
    by (simp add: run_frame_ok del: map_map)
  have n: "ex + mis = length ?cs" "length ?cs = length (filter (\<lambda>w. ?p w \<noteq> None) wires)"
    using sm(4) by (simp_all add: ex_def mis_def List.map_filter_def comp_def)
  have "(\<exists>r. run P cands wires fixtures = Inr r \<and> passed r) \<longleftrightarrow>
      mis = 0 \<and> ?cs \<noteq> [] \<and> list_all buildable (map snd ?cs) \<and> colour_ac_pass fixtures"
    using n(1) built_tallies [of "map snd ?cs"] unfolding run by (auto simp: passed_def count_all del: map_map)
  then have "(\<exists>r. run P cands wires fixtures = Inr r \<and> passed r) \<longleftrightarrow> verdict P cands wires fixtures"
    using sm(3) unfolding verdict_iff mis_def by blast
  then show ?thesis
    unfolding verdict_def using n(2) by (auto simp: run count_def split: if_splits)
qed

definition flat_fixture :: strip_fixture where
  "flat_fixture =
     (let planes = replicate 16 (replicate 3 (replicate 64 0)); s = colour_strip_from_planes planes 0 0
      in (0, 0, planes, hex (take (length s - 2) s)))"

text \<open>A sealed heartbeat, and the same frame with one bit of its tag flipped.\<close>

definition demo_wire :: bytes where
  "demo_wire = (case seal_interactive toy_prims (zeros 16) (zeros 8) 0x16 5 (heartbeat 7) of
     Inl e \<Rightarrow> [] | Inr w \<Rightarrow> w)"

definition demo_cand :: cand where
  "demo_cand = (zeros 16, zeros 8)"

lemma demo_wires:
  "picked toy_prims [demo_cand] demo_wire = Some (demo_cand, heartbeat 7)"
  "authentic toy_prims demo_cand (heartbeat 7) demo_wire"
  "picked toy_prims [demo_cand] (xor_at 63 1 demo_wire) = Some (demo_cand, heartbeat 7)"
  "\<not> authentic toy_prims demo_cand (heartbeat 7) (xor_at 63 1 demo_wire)"
  "documented (heartbeat 7)"
  by code_simp+

lemma flat_reproduced: "reproduced flat_fixture"
  by (simp add: reproduced_def flat_fixture_def Let_def butlast_conv_take min_def numeral_2_eq_2)

theorem run_passes_iff_witness:
  "(\<exists>r. run toy_prims [demo_cand] [demo_wire] [flat_fixture] = Inr r \<and> passed r)
   \<and> (\<nexists>r. run toy_prims [demo_cand] [demo_wire, xor_at 63 1 demo_wire] [flat_fixture] = Inr r \<and> passed r)"
  using run_passes_iff [OF toy_prims_sized, of "[demo_cand]" "[demo_wire]" "[flat_fixture]"]
    run_passes_iff [OF toy_prims_sized, of "[demo_cand]" "[demo_wire, xor_at 63 1 demo_wire]" "[flat_fixture]"]
    flat_reproduced demo_wires
  by simp

end
