(* ===== verification/Handoff.thy ===== *)
theory Handoff
  imports Bringup CpMsg
begin

text \<open>
  The warm hand-off of the bring-up tool (\<open>run_warm_handoff\<close> in \<open>vino-driver/src/bin/bringup.rs\<close>): a
  captured session is read from a file and its heartbeat stream continued. The file is an argument, the
  environment variables a record, and each turn of the loop gets what the transfers returned.
  Counters are as in release builds, where they wrap.
\<close>

section \<open>The file\<close>

record handoff =
  ho_ks :: bytes
  ho_riv :: bytes
  ho_counter :: u32
  ho_hb :: u16
  ho_hb_known :: bool
  ho_ep08 :: "bytes list"

definition HOF4 :: bytes where "HOF4 = [0x48, 0x4f, 0x46, 0x34]"
definition HOF2 :: bytes where "HOF2 = [0x48, 0x4f, 0x46, 0x32]"
definition EP08_TAG :: bytes where "EP08_TAG = [0x45, 0x50, 0x30, 0x38]"

definition CP_FRAME_LEN :: nat where "CP_FRAME_LEN = 116"

text \<open>The counter of the last captured heartbeat, plus one: block 0 of its ciphertext is decrypted.\<close>

definition last_hb :: "prims \<Rightarrow> bytes \<Rightarrow> bytes \<Rightarrow> bytes \<Rightarrow> nat \<Rightarrow> nat \<Rightarrow> u16 option" where
  "last_hb P ks riv state p n_cp =
     (if 0 < n_cp
      then let last_off = p + 4 + (n_cp - 1) * CP_FRAME_LEN
           in if last_off + CP_FRAME_LEN \<le> length state
              then let frame_seq = rd32 state last_off;
                       ct0 = slice (last_off + 52 + 16) 16 state;
                       ks_blk = pr_aes P ks (bu_iv riv frame_seq)
                   in Some (of_le16 (ct0 ! 4 XOR ks_blk ! 4) (ct0 ! 5 XOR ks_blk ! 5) + 1)
              else None
      else None)"

text \<open>The frames of the EP08 section; a truncated one ends the list.\<close>

fun ep08_section :: "bytes \<Rightarrow> nat \<Rightarrow> nat \<Rightarrow> bytes list" where
  "ep08_section state 0 p = []"
| "ep08_section state (Suc n) p =
     (if length state < p + 4 then []
      else let len = unat (rd32 state p)
           in if length state < p + 4 + len then []
              else slice (p + 4) len state # ep08_section state n (p + 4 + len))"

text \<open>A file of frames, each preceded by its length.\<close>

function ep08_file :: "bytes \<Rightarrow> nat \<Rightarrow> bytes list" where
  "ep08_file vd vo =
     (if vo + 4 \<le> length vd
      then let fl = unat (rd32 vd vo)
           in if length vd < vo + 4 + fl then []
              else slice (vo + 4) fl vd # ep08_file vd (vo + 4 + fl)
      else [])"
  by pat_completeness auto
termination by (relation "measure (\<lambda>(vd, vo). length vd - vo)") auto

declare ep08_file.simps [simp del]

record handoff_env =
  he_hb_ctr :: "u16 option"
  he_ep08_file :: "bytes option"
  he_skip_init24 :: bool
  he_init24_full :: bool
  he_max_frames :: nat
  he_max_secs :: nat

definition read_handoff :: "prims \<Rightarrow> handoff_env \<Rightarrow> bytes \<Rightarrow> bu_err + handoff" where
  "read_handoff P V state =
     (if length state < 28 then Inl BuDecode
      else let pos0 = (if take 4 state = HOF4 \<or> take 4 state = HOF2 then 4 else 0)
        in if length state < pos0 + 28 then Inl BuPanic
           else let ks = slice pos0 16 state;
                    riv = slice (pos0 + 16) 8 state;
                    resume_counter = rd32 state (pos0 + 24);
                    p = pos0 + 28;
                    n_cp = (if p + 4 \<le> length state then unat (rd32 state p) else 0);
                    from_frame = (if p + 4 \<le> length state then last_hb P ks riv state p n_cp else None);
                    hb = (case he_hb_ctr V of Some v \<Rightarrow> Some v | None \<Rightarrow> from_frame);
                    p = (if p + 4 \<le> length state then p + 4 + n_cp * CP_FRAME_LEN else p);
                    captured = (if p + 8 \<le> length state \<and> slice p 4 state = EP08_TAG
                                then ep08_section state (unat (rd32 state (p + 4))) (p + 8) else []);
                    frames = (case he_ep08_file V of Some vd \<Rightarrow> ep08_file vd 0 | None \<Rightarrow> captured)
                in Inr \<lparr>ho_ks = ks, ho_riv = riv, ho_counter = resume_counter,
                        ho_hb = (case hb of None \<Rightarrow> 0 | Some v \<Rightarrow> v), ho_hb_known = (hb \<noteq> None),
                        ho_ep08 = frames\<rparr>)"

section \<open>The heartbeat\<close>

definition make_heartbeat :: "u16 \<Rightarrow> bytes" where
  "make_heartbeat hb_ctr = put 4 (le16 hb_ctr) ((zeros 32)[0 := 0x16, 2 := 0x75, 22 := 0x10, 23 := 0x27])"

definition handoff_msg :: "prims \<Rightarrow> bytes \<Rightarrow> bytes \<Rightarrow> u32 \<Rightarrow> u16 \<Rightarrow> bytes" where
  "handoff_msg P ks riv counter hb_ctr =
     (let plaintext = make_heartbeat hb_ctr;
          ct = aes_ctr_encrypt P ks (bu_iv riv counter) plaintext;
          msg = put 0 [0x00, 0x00, 0x3c, 0x00, 0x04, 0x00, 0x00, 0x00,
                       0x24, 0x00, 0x08, 0x00, 0x00, 0x00, 0x00, 0x00] (zeros 64);
          msg = put 12 (le32 counter) msg
      in put 16 ct msg)"

definition init24_full :: bytes where
  "init24_full =
    [0x00, 0x00, 0x1c, 0x00, 0x02, 0x00, 0x00, 0x00, 0x24, 0x00, 0x00, 0x00, 0x00, 0x00, 0x00, 0x00,
     0x04, 0x00, 0x06, 0x00, 0x00, 0x00, 0x00, 0x00, 0x00, 0x00, 0x00, 0x00, 0x00, 0x00, 0x00, 0x00,
     0x00, 0x00, 0x1c, 0x00, 0x02, 0x00, 0x00, 0x00, 0x45, 0x00, 0x00, 0x00, 0x00, 0x00, 0x00, 0x00,
     0x05, 0x00, 0x0e, 0x00, 0x00, 0x00, 0x00, 0x00, 0x00, 0x00, 0x00, 0x00, 0x00, 0x00, 0x00, 0x00]"

definition init24 :: bytes where
  "init24 = [0x00, 0x00, 0x1c, 0x00, 0x02, 0x00, 0x00, 0x00, 0x24, 0x00, 0x00, 0x00, 0x00, 0x00, 0x00, 0x00]"

definition handoff_marker :: "handoff_env \<Rightarrow> bytes list" where
  "handoff_marker V =
     (if he_skip_init24 V then [] else if he_init24_full V then [init24_full] else [init24])"

section \<open>The stream\<close>

text \<open>
  What a transfer reports, and one turn: the seconds elapsed at the loop test, the result of the
  CP write, of the video write and of the retry after a stall, and the frame read.
\<close>

datatype wr = Done | Gone | Stalled | Failed

record turn =
  tn_secs :: nat
  tn_ctrl :: wr
  tn_video :: wr
  tn_retry :: wr
  tn_in :: "bytes option"

record stream =
  st_counter :: u32
  st_sent :: nat
  st_hb :: u16
  st_ep08_idx :: nat
  st_ep08_ok :: nat
  st_ep08_err :: nat
  st_ep08_stall :: nat
  st_ep08_recovered :: nat
  st_ready :: bool
  st_status :: "u8 option"
  st_dumped :: "bytes list"
  st_marker :: "bytes list"
  st_wire :: "bytes list"

definition stream_init :: "handoff_env \<Rightarrow> handoff \<Rightarrow> stream" where
  "stream_init V h =
     \<lparr>st_counter = ho_counter h, st_sent = 0, st_hb = ho_hb h, st_ep08_idx = 0, st_ep08_ok = 0,
      st_ep08_err = 0, st_ep08_stall = 0, st_ep08_recovered = 0, st_ready = False, st_status = None,
      st_dumped = [], st_marker = handoff_marker V, st_wire = []\<rparr>"

text \<open>The video write; \<open>None\<close> when the dock is gone.\<close>

definition ep08_turn :: "handoff \<Rightarrow> turn \<Rightarrow> stream \<Rightarrow> stream option" where
  "ep08_turn h t s =
     (if ho_ep08 h = [] then Some s
      else let s = s\<lparr>st_ep08_idx := Suc (st_ep08_idx s)\<rparr>;
               stall = (tn_video t = Stalled);
               r = (if stall then tn_retry t else tn_video t);
               s = (if stall
                    then s\<lparr>st_ep08_stall := Suc (st_ep08_stall s),
                           st_ep08_recovered := (if r = Done then Suc (st_ep08_recovered s)
                                                 else st_ep08_recovered s)\<rparr>
                    else s)
           in if r = Done then Some (s\<lparr>st_ep08_ok := Suc (st_ep08_ok s)\<rparr>)
              else if r = Gone then None
              else Some (s\<lparr>st_ep08_err := Suc (st_ep08_err s)\<rparr>))"

text \<open>The decryption of an unexpected frame for the log: each block under the OUT nonce.\<close>

definition dump_in :: "prims \<Rightarrow> handoff \<Rightarrow> bytes \<Rightarrow> bytes" where
  "dump_in P h buf =
     (let in_seq = rd32 buf 12
      in concat (map (\<lambda>(i, blk). xor_bytes blk (pr_aes P (ho_ks h) (bu_iv (ho_riv h) (in_seq + of_nat i))))
           (List.enumerate 0 (chunks_of 16 (drop 16 buf)))))"

definition in_turn :: "prims \<Rightarrow> handoff \<Rightarrow> bytes option \<Rightarrow> stream \<Rightarrow> stream" where
  "in_turn P h r s =
     (case r of
        None \<Rightarrow> s
      | Some buf \<Rightarrow>
          if length buf < 26 then s
          else let sub_id = rd16 buf 8;
                   mid = buf ! 25;
                   s = (if mid = 0x11 then s\<lparr>st_ready := True\<rparr> else s)
               in if mid = 0x12 \<and> 28 \<le> length buf
                  then s\<lparr>st_status := Some (buf ! 27)\<rparr>
                  else if mid \<noteq> 0x00 \<and> mid \<noteq> 0x11 \<and> rd32 buf 4 = 4 \<and> sub_id \<noteq> 0x25
                          \<and> length (st_dumped s) < 4
                       then s\<lparr>st_dumped := st_dumped s @ [dump_in P h buf]\<rparr>
                       else s)"

text \<open>
  The loop over the turns. \<open>Inl\<close>: the dock was lost. A CP write that fails otherwise ends the loop;
  so does the end of the script.
\<close>

fun handoff_loop :: "prims \<Rightarrow> handoff_env \<Rightarrow> handoff \<Rightarrow> turn list \<Rightarrow> stream \<Rightarrow> bu_err + stream" where
  "handoff_loop P V h [] s = Inr s"
| "handoff_loop P V h (t # ts) s =
     (if \<not> (st_sent s < he_max_frames V \<and> tn_secs t < he_max_secs V) then Inr s
      else let msg = handoff_msg P (ho_ks h) (ho_riv h) (st_counter s) (st_hb s)
        in if tn_ctrl t = Gone then Inl BuUsb
           else if tn_ctrl t \<noteq> Done then Inr s
           else let s = s\<lparr>st_sent := Suc (st_sent s), st_counter := st_counter s + 2,
                          st_hb := st_hb s + 1, st_wire := st_wire s @ [msg]\<rparr>
             in case ep08_turn h t s of
                  None \<Rightarrow> Inl BuUsb
                | Some s \<Rightarrow> handoff_loop P V h ts (in_turn P h (tn_in t) s))"

definition run_warm_handoff :: "prims \<Rightarrow> handoff_env \<Rightarrow> bytes option \<Rightarrow> bool \<Rightarrow> turn list \<Rightarrow> bu_err + stream" where
  "run_warm_handoff P V file open_ok ts =
     (case file of
        None \<Rightarrow> Inl BuDecode
      | Some state \<Rightarrow>
          (case read_handoff P V state of
             Inl e \<Rightarrow> Inl e
           | Inr h \<Rightarrow> if \<not> open_ok then Inl BuUsb else handoff_loop P V h ts (stream_init V h)))"

end
