(* ===== verification/BringupCp.thy ===== *)
theory BringupCp
  imports Handoff
begin

text \<open>
  The control plane of the bring-up tool (\<open>vino-driver/src/bin/bringup.rs\<close>) after the key exchange: the
  replay of captured messages, in lockstep or not, the set-mode message, the wait for the downstream
  link, the CP stream and the saved session, and the attempts of \<open>main\<close>. Environment variables are
  arguments, \<open>P\<close> the primitives. Reads within a time limit are a number of polls; loops that depend
  on the clock take a script of polls with the seconds elapsed.
\<close>

section \<open>Captured files\<close>

text \<open>Indexing past the end of a file panics.\<close>

definition file_count :: "bytes \<Rightarrow> bu_err + nat" where
  "file_count data = (if length data < 2 then Inl BuPanic else Inr (unat (rd16 data 0)))"

definition golden_entry :: "bytes \<Rightarrow> nat \<Rightarrow> bu_err + (u32 \<times> bytes \<times> nat)" where
  "golden_entry data off =
     (if length data < off + 6 then Inl BuPanic
      else let len = unat (rd16 data (off + 4))
           in if length data < off + 6 + len then Inl BuPanic
              else Inr (rd32 data off, slice (off + 6) len data, off + 6 + len))"

definition cap_entry :: "bytes \<Rightarrow> nat \<Rightarrow> bu_err + (bytes \<times> nat)" where
  "cap_entry data off =
     (if length data < off + 2 then Inl BuPanic
      else let len = unat (rd16 data off)
           in if length data < off + 2 + len then Inl BuPanic
              else Inr (slice (off + 2) len data, off + 2 + len))"

definition lift_sum :: "'e + 'a \<Rightarrow> ('e, 'a) act" where
  "lift_sum r = (\<lambda>s. (r, s))"

definition bu_write :: "env \<Rightarrow> bytes \<Rightarrow> (bu_err, unit) act" where
  "bu_write E f = (\<lambda>s. case send_dlm E f s of (ok, s') \<Rightarrow> (if ok then Inr () else Inl BuUsb, s'))"

text \<open>A write whose result is only printed.\<close>

definition bu_write_any :: "env \<Rightarrow> bytes \<Rightarrow> (bu_err, unit) act" where
  "bu_write_any E f = lift_rig (\<lambda>s. snd (send_dlm E f s))"

section \<open>Capability frames\<close>

definition marker_type1 :: bytes where
  "marker_type1 = [0x00, 0x00, 0x0c, 0x00, 0x01, 0x00, 0x00, 0x00, 0x00, 0x00, 0x00, 0x00, 0x00, 0x00, 0x00, 0x00]"

definition marker_25 :: bytes where
  "marker_25 =
    [0x00, 0x00, 0x1c, 0x00, 0x02, 0x00, 0x00, 0x00, 0x25, 0x00, 0x00, 0x00, 0x00, 0x00, 0x00, 0x00,
     0x05, 0x00, 0x08, 0x00, 0x00, 0x00, 0x00, 0x00, 0x00, 0x00, 0x00, 0x00, 0x00, 0x00, 0x00, 0x00]"

definition marker_04 :: bytes where
  "marker_04 =
    [0x00, 0x00, 0x1c, 0x00, 0x02, 0x00, 0x00, 0x00, 0x04, 0x00, 0x00, 0x00, 0x00, 0x00, 0x00, 0x00,
     0x04, 0x00, 0x00, 0x00, 0x00, 0x00, 0x00, 0x00, 0x00, 0x00, 0x00, 0x00, 0x00, 0x00, 0x00, 0x00]"

text \<open>
  \<open>while let Ok(resp) = recv(..)\<close>: until a read fails; \<open>fuel\<close> bounds the reads of the script. Printing a
  reply indexes the frame it answers, which must have more than \<open>need\<close> bytes.
\<close>

fun drain_replies :: "env \<Rightarrow> nat \<Rightarrow> bytes \<Rightarrow> nat \<Rightarrow> nat \<Rightarrow> (bu_err, nat) act" where
  "drain_replies E need f 0 k = fail BuWaiting"
| "drain_replies E need f (Suc fuel) k =
     (\<lambda>s. case recv_dlm E s of
        (None, s) \<Rightarrow> (Inr k, s)
      | (Some resp, s) \<Rightarrow>
          if length f \<le> need then (Inl BuPanic, s) else drain_replies E need f fuel (Suc k) s)"

fun cap_loop_frames :: "env \<Rightarrow> nat \<Rightarrow> bool \<Rightarrow> bytes \<Rightarrow> nat \<Rightarrow> nat \<Rightarrow> (bu_err, unit) act" where
  "cap_loop_frames E fuel fast data 0 off = ret ()"
| "cap_loop_frames E fuel fast data (Suc n) off =
     bnd (lift_sum (cap_entry data off)) (\<lambda>(f, off).
     bnd (bu_write E f) (\<lambda>_.
     if fast \<and> n = 0 then ret ()
     else bnd (drain_replies E 16 f fuel 0) (\<lambda>_. cap_loop_frames E fuel fast data n off)))"

definition cap_replay :: "env \<Rightarrow> nat \<Rightarrow> bool \<Rightarrow> bool \<Rightarrow> bytes option \<Rightarrow> (bu_err, unit) act" where
  "cap_replay E fuel skip_markers fast file =
     (case file of
        None \<Rightarrow> fail BuDecode
      | Some data \<Rightarrow>
          bnd (lift_sum (file_count data)) (\<lambda>count.
          bnd (if skip_markers then ret ()
               else bnd (bu_write_any E marker_type1) (\<lambda>_.
                    bnd (bu_write_any E marker_25) (\<lambda>_. bu_write_any E marker_04))) (\<lambda>_.
          cap_loop_frames E fuel fast data count 2)))"

section \<open>Replaying control-plane messages\<close>

text \<open>The video frames streamed at the end; writes to the video endpoint have their own results.\<close>

fun stream_ep08 :: "(nat \<Rightarrow> bool) \<Rightarrow> nat \<Rightarrow> bytes list \<Rightarrow> bu_err + nat" where
  "stream_ep08 ok i [] = Inr i"
| "stream_ep08 ok i (f # fs) = (if ok i then stream_ep08 ok (Suc i) fs else Inl BuUsb)"

text \<open>The poll for a reply to one message: whether one came, and the frames seen so far.\<close>

definition is_ack45 :: "bytes \<Rightarrow> bool" where
  "is_ack45 resp \<longleftrightarrow> 10 \<le> length resp \<and> rd16 resp 8 = 0x45"

fun await_ack :: "env \<Rightarrow> nat \<Rightarrow> nat \<Rightarrow> rig \<Rightarrow> (bool \<times> nat) \<times> rig" where
  "await_ack E 0 k s = ((False, k), s)"
| "await_ack E (Suc n) k s =
     (case recv_dlm E s of
        (None, s) \<Rightarrow> await_ack E n k s
      | (Some resp, s) \<Rightarrow> if is_ack45 resp then ((True, Suc k), s) else await_ack E n (Suc k) s)"

fun post_drain :: "env \<Rightarrow> nat \<Rightarrow> nat \<Rightarrow> nat \<Rightarrow> rig \<Rightarrow> (nat \<times> nat) \<times> rig" where
  "post_drain E 0 k acks s = ((k, acks), s)"
| "post_drain E (Suc n) k acks s =
     (case recv_dlm E s of
        (None, s) \<Rightarrow> post_drain E n k acks s
      | (Some resp, s) \<Rightarrow> post_drain E n (Suc k) (if is_ack45 resp then Suc acks else acks) s)"

text \<open>
  The lockstep loop: \<open>win i\<close> polls after message \<open>i\<close>. Each message is encrypted whole, and the
  block counter advances by the blocks without the last.
\<close>

fun lockstep ::
    "prims \<Rightarrow> env \<Rightarrow> (nat \<Rightarrow> nat) \<Rightarrow> bytes \<Rightarrow> bytes \<Rightarrow> bytes \<Rightarrow> nat \<Rightarrow> nat \<Rightarrow> nat \<Rightarrow> u32 \<Rightarrow> nat \<Rightarrow> nat list
       \<Rightarrow> (bu_err, nat \<times> nat list) act" where
  "lockstep P E win ks riv data 0 i off wire_ctr k acked = ret (k, acked)"
| "lockstep P E win ks riv data (Suc n) i off wire_ctr k acked =
     bnd (lift_sum (golden_entry data off)) (\<lambda>(_, pt, off).
     bnd (check (6 \<le> length pt) BuPanic) (\<lambda>_.
     let content_blocks = (length pt - 16) div 16;
         frame = bu_seal P ks riv wire_ctr pt
     in bnd (bu_write E frame) (\<lambda>_.
        (\<lambda>s. case await_ack E (win i) k s of
           ((got_reply, k), s) \<Rightarrow>
             lockstep P E win ks riv data n (Suc i) off (wire_ctr + of_nat content_blocks) k
               (if got_reply then acked @ [i] else acked) s))))"

definition interactive_cp ::
    "prims \<Rightarrow> env \<Rightarrow> (nat \<Rightarrow> nat) \<Rightarrow> nat \<Rightarrow> bool \<Rightarrow> bytes \<Rightarrow> bytes \<Rightarrow> bytes \<Rightarrow> bytes option option \<Rightarrow> (nat \<Rightarrow> bool)
       \<Rightarrow> (bu_err, nat \<times> nat list \<times> nat) act" where
  "interactive_cp P E win post skip_open ks riv data ep08 ok =
     bnd (lift_sum (file_count data)) (\<lambda>count.
     bnd (if skip_open then ret () else bu_write_any E init24_full) (\<lambda>_.
     bnd (lockstep P E win ks riv data count 0 2 0 0 []) (\<lambda>(k, acked).
     bnd (\<lambda>s. case post_drain E post k 0 s of (r, s) \<Rightarrow> (Inr r, s)) (\<lambda>(k, late).
     bnd (case ep08 of
            None \<Rightarrow> ret 0
          | Some None \<Rightarrow> fail BuDecode
          | Some (Some vd) \<Rightarrow> lift_sum (stream_ep08 ok 0 (ep08_file vd 0))) (\<lambda>_.
     ret (k, acked, length acked + late))))))"

fun replay_loop ::
    "prims \<Rightarrow> env \<Rightarrow> nat \<Rightarrow> bytes \<Rightarrow> bytes \<Rightarrow> bytes \<Rightarrow> nat \<Rightarrow> nat \<Rightarrow> nat \<Rightarrow> (bu_err, nat) act" where
  "replay_loop P E fuel ks riv data 0 off k = ret k"
| "replay_loop P E fuel ks riv data (Suc n) off k =
     bnd (lift_sum (golden_entry data off)) (\<lambda>(sq, pt, off).
     bnd (bu_write E (bu_seal P ks riv sq pt)) (\<lambda>_.
     bnd (drain_replies E 0 pt fuel k) (\<lambda>k.
     replay_loop P E fuel ks riv data n off k)))"

definition golden_replay ::
    "prims \<Rightarrow> env \<Rightarrow> nat \<Rightarrow> bytes \<Rightarrow> bytes \<Rightarrow> bytes \<Rightarrow> bytes option option \<Rightarrow> (nat \<Rightarrow> bool) \<Rightarrow> (bu_err, nat) act" where
  "golden_replay P E fuel ks riv data ep08 ok =
     bnd (lift_sum (file_count data)) (\<lambda>count.
     bnd (replay_loop P E fuel ks riv data count 2 0) (\<lambda>k.
     bnd (case ep08 of
            None \<Rightarrow> ret 0
          | Some None \<Rightarrow> fail BuDecode
          | Some (Some vd) \<Rightarrow> lift_sum (stream_ep08 ok 0 (ep08_file vd 0))) (\<lambda>_.
     ret k)))"

section \<open>Set-mode\<close>

record mode_env =
  me_hactive :: u16
  me_hblank :: u16
  me_vactive :: u16
  me_vblank :: u16
  me_refresh :: u16
  me_pclk10k :: u16

definition mode_default :: mode_env where
  "mode_default = \<lparr>me_hactive = 1920, me_hblank = 280, me_vactive = 1080, me_vblank = 45, me_refresh = 60,
     me_pclk10k = 14850\<rparr>"

definition bu_mode_inner :: "mode_env \<Rightarrow> bytes" where
  "bu_mode_inner m =
     (let inner = put 0 [0x48, 0x00, 0x22, 0x00] (zeros 96);
          inner = put 20 (be32 2) inner;
          inner = foldl (\<lambda>b (off, v). put off (le16 v) b) inner
            [(26, me_hactive m), (28, me_hblank m), (30, 88), (32, 44),
             (34, me_vactive m), (36, me_vblank m), (38, 4), (40, 5),
             (42, 0), (44, me_refresh m), (46, 0x4000)]
      in put 70 (le16 (me_pclk10k m)) inner)"

definition bu_set_mode :: "prims \<Rightarrow> bytes \<Rightarrow> bytes \<Rightarrow> mode_env \<Rightarrow> bytes" where
  "bu_set_mode P ks riv m =
     (let ct = aes_ctr_encrypt P ks (bu_iv riv 0) (bu_mode_inner m)
      in [0, 0] @ le16 (of_nat (16 + length ct - 4)) @ le32 4 @ le16 0x24
         @ le16 (of_nat (length ct div 4)) @ le32 0 @ ct)"

end
