(* ===== verification/BringupRun.thy ===== *)
theory BringupRun
  imports BringupCp
begin

text \<open>
  The end of a bring-up attempt (\<open>vino-driver/src/bin/bringup.rs\<close>): priming the video endpoint, waiting
  for the downstream link before Stream_Manage, the encrypted stream until Stream_Ready, the session
  saved for a warm start, and the attempts of \<open>main\<close>. A loop on the clock takes a script of polls:
  the seconds elapsed at the loop test, what the read returned, and what the writes of that turn
  returned. \<open>Fatal\<close>: a panic, or an error \<open>main\<close> returns at once; \<open>Cut\<close>: the script ends before the
  loop does.
\<close>

datatype run_err = EP08_RESET | RunFailed | Fatal | Cut

datatype rd = RdOk bytes | RdTimeout | RdGone | RdErr

record poll =
  pl_secs :: nat
  pl_rd :: rd
  pl_cp :: wr
  pl_kv :: wr
  pl_sm2 :: bool

text \<open>The HDCP message of a frame that was read, and the status of a 0x12 message.\<close>

definition poll_msg :: "bytes \<Rightarrow> (u8 \<times> bytes) option" where
  "poll_msg raw =
     (if length raw < 16 then None
      else case frame_decode raw of None \<Rightarrow> None | Some f \<Rightarrow> parse_hdcp_in (fr_body f))"

definition link_status :: "bytes \<Rightarrow> u8" where
  "link_status pl = (if 2 < length pl then pl ! 2 else 0xff)"

section \<open>Priming\<close>

fun ep08_burst :: "(nat \<Rightarrow> bool) \<Rightarrow> nat \<Rightarrow> u8 \<Rightarrow> run_err + u8" where
  "ep08_burst ok 0 counter = Inr counter"
| "ep08_burst ok (Suc n) counter =
     (if ok (unat counter) then ep08_burst ok n (counter + 1) else Inl EP08_RESET)"

definition ep08_prime :: "bool \<Rightarrow> (nat \<Rightarrow> bool) \<Rightarrow> run_err + u8" where
  "ep08_prime skip_ep08 ok = (if skip_ep08 then Inr 0 else ep08_burst ok 10 0)"

section \<open>Before Stream_Manage\<close>

fun wait_downstream :: "nat \<Rightarrow> nat \<Rightarrow> poll list \<Rightarrow> run_err + poll list" where
  "wait_downstream secs t0 [] = Inl Cut"
| "wait_downstream secs t0 (p # ps) =
     (if secs \<le> pl_secs p - t0 then Inr (p # ps)
      else case pl_rd p of
             RdOk raw \<Rightarrow>
               (case poll_msg raw of
                  None \<Rightarrow> wait_downstream secs t0 ps
                | Some (i, pl) \<Rightarrow>
                    if i = 0x12 \<and> link_status pl = 0 then Inr ps else wait_downstream secs t0 ps)
           | RdTimeout \<Rightarrow> wait_downstream secs t0 ps
           | RdGone \<Rightarrow> Inl EP08_RESET
           | RdErr \<Rightarrow> Inr ps)"

record wait_env =
  we_early :: bool
  we_wait_before :: nat
  we_pre_secs :: nat
  we_skip_ep08 :: bool

fun pre_sm2_loop :: "wait_env \<Rightarrow> u8 \<Rightarrow> poll list \<Rightarrow> run_err + (bool \<times> u8 \<times> poll list)" where
  "pre_sm2_loop W counter [] = Inl Cut"
| "pre_sm2_loop W counter (p # ps) =
     (case pl_rd p of
        RdOk raw \<Rightarrow>
          (case poll_msg raw of
             None \<Rightarrow> pre_sm2_loop W counter ps
           | Some (i, pl) \<Rightarrow>
               if i = 0x00
               then if 0 < we_wait_before W
                    then (case wait_downstream (we_wait_before W) (pl_secs p) ps of
                            Inl e \<Rightarrow> Inl e | Inr ps \<Rightarrow> Inr (True, counter, ps))
                    else Inr (True, counter, ps)
               else if i = 0x12 \<and> link_status pl = 0 then Inr (True, counter, ps)
               else pre_sm2_loop W counter ps)
      | RdTimeout \<Rightarrow>
          if we_pre_secs W \<le> pl_secs p then Inr (False, counter, ps)
          else pre_sm2_loop W (if \<not> we_skip_ep08 W \<and> pl_kv p = Done then counter + 1 else counter) ps
      | RdGone \<Rightarrow> Inl EP08_RESET
      | RdErr \<Rightarrow> Inr (False, counter, ps))"

definition pre_sm2 :: "wait_env \<Rightarrow> u8 \<Rightarrow> poll list \<Rightarrow> run_err + (bool \<times> u8 \<times> poll list)" where
  "pre_sm2 W counter ps = (if we_early W then Inr (True, counter, ps) else pre_sm2_loop W counter ps)"

section \<open>The stream\<close>

definition STREAM_PLAINTEXT :: bytes where
  "STREAM_PLAINTEXT = [0x14, 0, 0, 0, 0x08, 0, 0, 0, 0, 0, 0, 0, 0, 0, 0, 0]"

definition cp_stream_msg :: "prims \<Rightarrow> bytes \<Rightarrow> bytes \<Rightarrow> u32 \<Rightarrow> bytes" where
  "cp_stream_msg P ks riv counter =
     (let ct = aes_ctr_encrypt P ks (bu_iv riv counter) STREAM_PLAINTEXT;
          msg = put 0 [0x00, 0x00, 0x3c, 0x00, 0x04, 0x00, 0x00, 0x00,
                       0x24, 0x00, 0x0a, 0x00, 0x00, 0x00, 0x00, 0x00] (zeros 64)
      in put 16 ct msg)"

record stream_env =
  se_post_ep08 :: bool
  se_resend :: "nat option"
  se_poll_secs :: nat

record cp_stream =
  cs_counter :: u32
  cs_kv :: u8
  cs_sm2 :: nat
  cs_last :: nat
  cs_wire :: "bytes list"

definition stream_manage :: bytes where
  "stream_manage = frame_encode (d_repeater_auth_stream_manage_2 7 0)"

text \<open>A timeout: one CP frame, a keepalive, and Stream_Manage again when it is due.\<close>

definition stream_turn ::
    "prims \<Rightarrow> stream_env \<Rightarrow> bytes \<Rightarrow> bytes \<Rightarrow> poll \<Rightarrow> cp_stream \<Rightarrow> run_err + cp_stream" where
  "stream_turn P S ks riv p c =
     (if pl_cp p = Gone then Inl EP08_RESET
      else let c = (if pl_cp p = Done
                    then c\<lparr>cs_wire := cs_wire c @ [cp_stream_msg P ks riv (cs_counter c)],
                           cs_counter := cs_counter c + 1\<rparr>
                    else c)
        in if se_post_ep08 S \<and> pl_kv p = Gone then Inl EP08_RESET
           else let c = (if se_post_ep08 S \<and> pl_kv p = Done then c\<lparr>cs_kv := cs_kv c + 1\<rparr> else c)
             in case se_resend S of
                  None \<Rightarrow> Inr c
                | Some secs \<Rightarrow>
                    if secs \<le> pl_secs p - cs_last c
                    then if pl_sm2 p
                         then Inr (c\<lparr>cs_sm2 := Suc (cs_sm2 c), cs_last := pl_secs p,
                                     cs_wire := cs_wire c @ [stream_manage]\<rparr>)
                         else Inl RunFailed
                    else Inr c)"

fun stream_loop ::
    "prims \<Rightarrow> stream_env \<Rightarrow> bytes \<Rightarrow> bytes \<Rightarrow> poll list \<Rightarrow> cp_stream \<Rightarrow> run_err + (bool \<times> cp_stream)" where
  "stream_loop P S ks riv [] c = Inl Cut"
| "stream_loop P S ks riv (p # ps) c =
     (if se_poll_secs S \<le> pl_secs p then Inr (False, c)
      else case pl_rd p of
             RdOk raw \<Rightarrow>
               (case poll_msg raw of
                  None \<Rightarrow> stream_loop P S ks riv ps c
                | Some (i, pl) \<Rightarrow> if i = 0x11 then Inr (True, c) else stream_loop P S ks riv ps c)
           | RdTimeout \<Rightarrow>
               (case stream_turn P S ks riv p c of
                  Inl e \<Rightarrow> Inl e | Inr c \<Rightarrow> stream_loop P S ks riv ps c)
           | RdGone \<Rightarrow> Inr (False, c)
           | RdErr \<Rightarrow> Inr (False, c))"

section \<open>The saved session\<close>

definition save_session :: "bytes \<Rightarrow> bytes \<Rightarrow> u32 \<Rightarrow> bytes" where
  "save_session ks riv counter = put 24 (le32 counter) (put 16 riv (put 0 ks (zeros 32)))"

text \<open>\<open>None\<close>: ignored. The slice \<open>data[24..28]\<close> panics on a file of 25 to 27 bytes.\<close>

definition load_session :: "bytes option \<Rightarrow> run_err + (bytes \<times> bytes \<times> u32) option" where
  "load_session file =
     (case file of
        None \<Rightarrow> Inr None
      | Some data \<Rightarrow>
          if length data < 25 then Inr None
          else if length data < 28 then Inl Fatal
          else Inr (Some (slice 0 16 data, slice 16 8 data, rd32 data 24)))"

fun warm_frames :: "prims \<Rightarrow> bytes \<Rightarrow> bytes \<Rightarrow> (nat \<Rightarrow> bool) \<Rightarrow> nat \<Rightarrow> nat \<Rightarrow> u32 \<Rightarrow> bytes list" where
  "warm_frames P ks riv ok 0 i ctr = []"
| "warm_frames P ks riv ok (Suc n) i ctr =
     (if ok i then cp_stream_msg P ks riv ctr # warm_frames P ks riv ok n (Suc i) (ctr + 1) else [])"

definition warm_start :: "prims \<Rightarrow> (nat \<Rightarrow> bool) \<Rightarrow> nat \<Rightarrow> bytes option \<Rightarrow> run_err + bytes list" where
  "warm_start P ok n_frames file =
     (case load_session file of
        Inl e \<Rightarrow> Inl e
      | Inr None \<Rightarrow> Inr []
      | Inr (Some (ks, riv, ctr)) \<Rightarrow> Inr (warm_frames P ks riv ok n_frames 0 ctr))"

text \<open>After Stream_Ready: the marker and three frames; any failed write ends the attempt unsaved.\<close>

definition after_ready ::
    "prims \<Rightarrow> (nat \<Rightarrow> bool) \<Rightarrow> bytes \<Rightarrow> bytes \<Rightarrow> cp_stream \<Rightarrow> run_err + cp_stream" where
  "after_ready P ok ks riv c =
     (if list_all ok [0..<4]
      then Inr (c\<lparr>cs_wire := cs_wire c @ init24_full #
                    map (\<lambda>i. cp_stream_msg P ks riv (cs_counter c + of_nat i)) [0..<3],
                  cs_counter := cs_counter c + 3\<rparr>)
      else Inl RunFailed)"

text \<open>From Stream_Manage on: whether Stream_Ready came, the stream, and the saved session.\<close>

definition run_stream ::
    "prims \<Rightarrow> stream_env \<Rightarrow> bytes \<Rightarrow> bytes \<Rightarrow> bool \<Rightarrow> (nat \<Rightarrow> bool) \<Rightarrow> u8 \<Rightarrow> poll list
       \<Rightarrow> run_err + (bool \<times> cp_stream \<times> bytes)" where
  "run_stream P S ks riv sm2_ok ok kv ps =
     (if \<not> sm2_ok then Inl RunFailed
      else case stream_loop P S ks riv ps
             \<lparr>cs_counter = 0, cs_kv = kv, cs_sm2 = 1, cs_last = 0, cs_wire = [stream_manage]\<rparr> of
             Inl e \<Rightarrow> Inl e
           | Inr (ready, c) \<Rightarrow>
               (case (if ready then after_ready P ok ks riv c else Inr c) of
                  Inl e \<Rightarrow> Inl e
                | Inr c \<Rightarrow> Inr (ready, c, save_session ks riv (cs_counter c))))"

section \<open>Attempts\<close>

text \<open>
  The loop of \<open>main\<close>: \<open>attempt n prev skip\<close> is what the n-th attempt returns with the stored pairing it is
  given, and the pairing it hands back; the file is written whenever there is one.
\<close>

fun attempts ::
    "(nat \<Rightarrow> pairing option \<Rightarrow> bool \<Rightarrow> (run_err + unit) \<times> pairing option) \<Rightarrow> bool \<Rightarrow> nat \<Rightarrow> nat \<Rightarrow> pairing option
       \<Rightarrow> bool \<Rightarrow> pairing list \<Rightarrow> bool \<times> pairing list" where
  "attempts attempt skip_env 0 i stored reset saved = (False, saved)"
| "attempts attempt skip_env (Suc n) i stored reset saved =
     (case attempt i stored (reset \<or> skip_env) of
        (r, new_pairing) \<Rightarrow>
          (let saved = (case new_pairing of None \<Rightarrow> saved | Some p \<Rightarrow> saved @ [p])
           in case r of
                Inr _ \<Rightarrow> (True, saved)
              | Inl e \<Rightarrow> if e = Fatal then (False, saved)
                  else attempts attempt skip_env n (Suc i) new_pairing (e = EP08_RESET) saved))"

definition bring_up ::
    "(nat \<Rightarrow> pairing option \<Rightarrow> bool \<Rightarrow> (run_err + unit) \<times> pairing option) \<Rightarrow> bool \<Rightarrow> bool \<Rightarrow> nat \<Rightarrow> bytes option
       \<Rightarrow> bool \<times> pairing list" where
  "bring_up attempt skip_env fresh_km max_attempts file =
     attempts attempt skip_env max_attempts 1 (if fresh_km then None else load_pairing file) False []"

end
