(* ===== verification/BringupRunLaws.thy ===== *)
theory BringupRunLaws
  imports BringupRun HandoffLaws CpLaws
begin

text \<open>
  Laws of the bring-up tool after the key exchange: what a lockstep replay puts on the wire and that
  it uses keystream twice, how its set-mode message differs from the kernel's, what its waits
  conclude from, the saved session, and what an attempt hands to the next.
\<close>

section \<open>Replay\<close>

text \<open>The frames of a lockstep replay.\<close>

fun seals :: "prims \<Rightarrow> bytes \<Rightarrow> bytes \<Rightarrow> u32 \<Rightarrow> bytes list \<Rightarrow> bytes list" where
  "seals P ks riv w [] = []"
| "seals P ks riv w (pt # pts) =
     bu_seal P ks riv w pt # seals P ks riv (w + of_nat ((length pt - 16) div 16)) pts"

lemma await_ack_sent [simp]: "rg_sent (snd (await_ack E n k s)) = rg_sent s"
  by (induction E n k s rule: await_ack.induct)
    (auto simp: recv_dlm_def split: option.split)

text \<open>
  A golden file, from its format: the number of messages, then each with its captured sequence
  number and its length.
\<close>

definition golden_body :: "(u32 \<times> bytes) list \<Rightarrow> bytes" where
  "golden_body es = concat (map (\<lambda>(sq, m). le32 sq @ le16 (of_nat (length m)) @ m) es)"

definition golden_file :: "(u32 \<times> bytes) list \<Rightarrow> bytes" where
  "golden_file es = le16 (of_nat (length es)) @ golden_body es"

lemma golden_entry_at:
  assumes "length m < 65536"
  shows "golden_entry (pre @ le32 sq @ le16 (of_nat (length m)) @ m @ ys) (length pre)
    = Inr (sq, m, length pre + 6 + length m)"
proof -
  let ?d = "pre @ le32 sq @ le16 (of_nat (length m)) @ m @ ys"
  have "rd32 ?d (length pre) = sq" by (simp add: rd32_append_right)
  moreover have "rd16 ?d (length pre + 4) = of_nat (length m)" by (simp add: rd16_append_right)
  moreover have "slice (length pre + 6) (length m) ?d = m" by (simp add: slice_def)
  moreover have "unat (of_nat (length m) :: u16) = length m" by (rule unat_of_nat16 [OF assms])
  ultimately show ?thesis by (simp add: golden_entry_def Let_def)
qed

lemma lockstep_step:
  assumes "lockstep P E win ks riv data (Suc n) i off w k acked s = (Inr r, s')"
  shows "\<exists>sq pt off' k' acked' s1. golden_entry data off = Inr (sq, pt, off') \<and> 6 \<le> length pt
    \<and> rg_sent s1 = rg_sent s @ [bu_seal P ks riv w pt]
    \<and> lockstep P E win ks riv data n (Suc i) off' (w + of_nat ((length pt - 16) div 16)) k' acked' s1 = (Inr r, s')"
proof -
  obtain sq pt off' where g: "golden_entry data off = Inr (sq, pt, off')"
    using assms by (cases "golden_entry data off") (auto simp: bnd_def lift_sum_def)
  let ?f = "bu_seal P ks riv w pt"
  obtain ok s0 where d: "send_dlm E ?f s = (ok, s0)" by fastforce
  have l: "6 \<le> length pt" and o: "ok"
    using assms g d by (auto simp: bnd_def lift_sum_def check_def ret_def fail_def bu_write_def Let_def split: if_splits)
  then have s0: "rg_sent s0 = rg_sent s @ [?f]" using d by (auto simp: send_dlm_def Let_def)
  obtain got k1 s1 where a: "await_ack E (win i) k s0 = ((got, k1), s1)" by (metis prod.collapse)
  then have "rg_sent s1 = rg_sent s0" using await_ack_sent [of E "win i" k s0] by simp
  moreover have "lockstep P E win ks riv data n (Suc i) off' (w + of_nat ((length pt - 16) div 16)) k1
      (if got then acked @ [i] else acked) s1 = (Inr r, s')"
    using assms g d l o a
    by (simp add: bnd_def lift_sum_def check_def ret_def bu_write_def Let_def)
  ultimately show ?thesis using g l s0 by metis
qed

lemma lockstep_sent:
  assumes "lockstep P E win ks riv data (length es) i off w k acked s = (Inr r, s')"
    "data = pre @ golden_body es @ ys" "off = length pre" "list_all (\<lambda>(sq, m). length m < 65536) es"
  shows "rg_sent s' = rg_sent s @ seals P ks riv w (map snd es)"
  using assms
proof (induction es arbitrary: i off w k acked s pre)
  case (Cons e es)
  obtain sq m where e: "e = (sq, m)" by fastforce
  have g: "golden_entry data off = Inr (sq, m, length pre + 6 + length m)"
    using Cons.prems golden_entry_at [of m pre sq "golden_body es @ ys"] by (simp add: e golden_body_def)
  from lockstep_step [OF Cons.prems(1) [unfolded length_Cons]] g obtain k' acked' s1 where
    s1: "rg_sent s1 = rg_sent s @ [bu_seal P ks riv w m]"
    and l: "lockstep P E win ks riv data (length es) (Suc i) (length pre + 6 + length m)
      (w + of_nat ((length m - 16) div 16)) k' acked' s1 = (Inr r, s')"
    by auto
  have "rg_sent s' = rg_sent s1 @ seals P ks riv (w + of_nat ((length m - 16) div 16)) (map snd es)"
    using Cons.prems
    by (intro Cons.IH [OF l, of "pre @ le32 sq @ le16 (of_nat (length m)) @ m"]) (simp_all add: e golden_body_def)
  then show ?case by (simp add: e s1)
qed (simp add: ret_def)

lemma post_drain_sent [simp]: "rg_sent (snd (post_drain E n k acks s)) = rg_sent s"
  by (induction E n k acks s rule: post_drain.induct) (auto simp: recv_dlm_def split: option.split)

lemma interactive_sent:
  assumes "interactive_cp P E win post skip_open ks riv (golden_file es @ rest) ep08 ok s = (Inr r, s')"
    "length es < 65536" "list_all (\<lambda>(sq, m). length m < 65536) es"
  shows "\<exists>pre. rg_sent s' = rg_sent s @ pre @ seals P ks riv 0 (map snd es)
    \<and> set pre \<subseteq> {init24_full}"
proof -
  let ?d = "golden_file es @ rest"
  have c: "file_count ?d = Inr (length es)"
    using unat_of_nat16 [OF assms(2)] by (simp add: file_count_def golden_file_def)
  define s0 where "s0 = (if skip_open then s else snd (send_dlm E init24_full s))"
  obtain q s1 where l: "lockstep P E win ks riv ?d (length es) 0 2 0 0 [] s0 = (q, s1)" by fastforce
  obtain k acked where q: "q = Inr (k, acked)" and s': "rg_sent s' = rg_sent s1"
    using assms(1) l
    by (cases q) (auto simp: interactive_cp_def bnd_def lift_sum_def c ret_def fail_def s0_def bu_write_any_def
        lift_rig_def split: if_splits prod.splits option.splits sum.splits
        dest: arg_cong [where f = "\<lambda>x. rg_sent (snd x)"])
  have "rg_sent s1 = rg_sent s0 @ seals P ks riv 0 (map snd es)"
    using lockstep_sent [OF l [unfolded q], of "le16 (of_nat (length es))" rest] assms(3)
    by (simp add: golden_file_def)
  moreover have "\<exists>pre. rg_sent s0 = rg_sent s @ pre \<and> set pre \<subseteq> {init24_full}"
    by (auto simp: s0_def send_dlm_def Let_def)
  ultimately show ?thesis using s' by auto
qed

text \<open>
  The counter a message is sealed under, and its size: message \<open>j\<close> of a replay of messages
  shorter than 65536 bytes starts at a block below \<open>4096 * j\<close>.
\<close>

fun start_block :: "bytes list \<Rightarrow> nat \<Rightarrow> nat" where
  "start_block pts 0 = 0"
| "start_block pts (Suc j) = start_block pts j + (length (pts ! j) - 16) div 16"

lemma start_block_le:
  "j \<le> length pts \<Longrightarrow> list_all (\<lambda>pt. length pt < 65536) pts \<Longrightarrow> start_block pts j \<le> 4096 * j"
proof (induction j)
  case (Suc j)
  then have "length (pts ! j) < 65536" by (simp add: list_all_length)
  then have "(length (pts ! j) - 16) div 16 \<le> 4096" by simp
  with Suc show ?case by simp
qed simp

lemma start_block_Cons: "start_block (pt # pts) (Suc j) = (length pt - 16) div 16 + start_block pts j"
  by (induction j) simp_all

lemma nth_seals:
  "j < length pts \<Longrightarrow> seals P ks riv w pts ! j = bu_seal P ks riv (w + of_nat (start_block pts j)) (pts ! j)"
proof (induction pts arbitrary: w j)
  case (Cons pt pts)
  show ?case
  proof (cases j)
    case 0
    then show ?thesis by simp
  next
    case (Suc i)
    then have "seals P ks riv w (pt # pts) ! j =
        bu_seal P ks riv (w + of_nat ((length pt - 16) div 16) + of_nat (start_block pts i)) (pts ! i)"
      using Cons by simp
    then show ?thesis using Suc by (simp only: start_block_Cons nth_Cons_Suc of_nat_add add.assoc)
  qed
qed simp

lemma length_seals [simp]: "length (seals P ks riv w pts) = length pts"
  by (induction pts arbitrary: w) simp_all

text \<open>The last block of a message's ciphertext and the first of the next.\<close>

lemma seal_body:
  assumes "prims_sized P" "length riv = 8" "unat w + (length pt + 15) div 16 \<le> 2 ^ 32"
  shows "drop 16 (bu_seal P ks riv w pt) = ctr_xor P ks riv w pt"
    and "rd32 (bu_seal P ks riv w pt) 12 = w"
proof -
  let ?ct = "ctr_xor P ks riv w pt"
  let ?h = "[0, 0] @ le16 (of_nat (16 + length ?ct - 4)) @ le32 4 @ le16 0x24 @ le16 (of_nat (length ?ct div 4)) @ le32 w"
  have f: "bu_seal P ks riv w pt = ?h @ ?ct"
    using aes_ctr_eq [OF assms, of ks] by (simp add: bu_seal_def Let_def)
  show "drop 16 (bu_seal P ks riv w pt) = ?ct"
    unfolding f by (rule drop_append_exact) simp
  show "rd32 (bu_seal P ks riv w pt) 12 = w"
    unfolding f by (simp add: rd32_def le16_def le32_def of_le32_le32 nth_Cons')
qed

lemma keystream_overlap:
  assumes P: "prims_sized P"
  shows "xor_bytes (slice (16 * b) 16 (ctr_xor P ks riv w pt)) (take 16 (ctr_xor P ks riv (w + of_nat b) pt')) =
    xor_bytes (slice (16 * b) 16 pt) (take 16 pt')" (is "?l = ?r")
proof (rule nth_equalityI)
  show "length ?l = length ?r" using P by simp
  fix t assume "t < length ?l"
  then have t: "t < 16" "t < length pt'" "16 * b + t < length pt" using P by (simp_all add: min_def split: if_splits)
  have "(16 * b + t) div 16 = b" "(16 * b + t) mod 16 = t" using t by simp_all
  then have "ctr_xor P ks riv w pt ! (16 * b + t) = pt ! (16 * b + t) XOR pr_aes P ks (ctr_iv riv (w + of_nat b) 0) ! t"
    using t P by (simp add: nth_ctr_xor ctr_iv_def)
  moreover have "ctr_xor P ks riv (w + of_nat b) pt' ! t = pt' ! t XOR pr_aes P ks (ctr_iv riv (w + of_nat b) 0) ! t"
    using t P by (simp add: nth_ctr_xor)
  ultimately show "?l ! t = ?r ! t" using t P by (simp add: ac_simps)
qed

lemma nth_lockstep:
  assumes "prims_sized P" "length riv = 8" "length ms < 65536" "list_all (\<lambda>m. length m < 65536) ms"
    "j < length ms"
  shows "rd32 (seals P ks riv 0 ms ! j) 12 = of_nat (start_block ms j)"
    and "drop 16 (seals P ks riv 0 ms ! j) = ctr_xor P ks riv (of_nat (start_block ms j)) (ms ! j)"
proof -
  have "start_block ms j \<le> 4096 * j" using start_block_le [of j ms] assms(4,5) by simp
  then have b: "start_block ms j + 4096 \<le> 2 ^ 32" using assms(3,5) by simp
  have "length (ms ! j) < 65536" using assms(4,5) by (simp add: list_all_length)
  then have "(length (ms ! j) + 15) div 16 \<le> 4096" by simp
  moreover have "unat (of_nat (start_block ms j) :: u32) = start_block ms j"
    using b by (simp add: unat_of_nat take_bit_nat_eq_self)
  ultimately have w: "unat (of_nat (start_block ms j) :: u32) + (length (ms ! j) + 15) div 16 \<le> 2 ^ 32"
    using b by simp
  show "rd32 (seals P ks riv 0 ms ! j) 12 = of_nat (start_block ms j)"
    "drop 16 (seals P ks riv 0 ms ! j) = ctr_xor P ks riv (of_nat (start_block ms j)) (ms ! j)"
    using seal_body [OF assms(1,2) w] assms(5) by (simp_all add: nth_seals)
qed

text \<open>
  C39. A lockstep replay of a golden file puts one frame per message of the file on the wire, after the
  opening marker: each encrypted whole, from the block its header names, which is the number of
  blocks of the messages before it less one for each. So the last full block of a message is
  encrypted with the keystream of the first block of the next, for every pair of neighbours, and an
  eavesdropper who adds those two ciphertext blocks has the sum of the two plaintext blocks of
  the file.
\<close>

theorem lockstep_reuses_keystream:
  assumes "prims_sized P" "length riv = 8"
    "length es < 65536" "list_all (\<lambda>(sq, m). length m < 65536) es"
    "interactive_cp P E win post skip_open ks riv (golden_file es @ rest) ep08 ok s = (Inr r, s')"
  shows "\<exists>pre wire. rg_sent s' = rg_sent s @ pre @ wire \<and> set pre \<subseteq> {init24_full} \<and> length wire = length es
    \<and> (let m = \<lambda>j. snd (es ! j); ct = \<lambda>j. drop 16 (wire ! j) in
       list_all (\<lambda>j. rd32 (wire ! j) 12 = of_nat (start_block (map snd es) j)
         \<and> ct j = ctr_xor P ks riv (rd32 (wire ! j) 12) (m j)) [0..<length es]
       \<and> list_all (\<lambda>j. let b = (length (m j) - 16) div 16 in
           xor_bytes (slice (16 * b) 16 (ct j)) (take 16 (ct (Suc j))) =
           xor_bytes (slice (16 * b) 16 (m j)) (take 16 (m (Suc j)))) [0..<length es - 1])"
proof -
  let ?ms = "map snd es"
  let ?w = "seals P ks riv 0 ?ms"
  obtain pre where pre: "rg_sent s' = rg_sent s @ pre @ ?w" "set pre \<subseteq> {init24_full}"
    using interactive_sent [OF assms(5,3,4)] by blast
  have "list_all (\<lambda>m. length m < 65536) ?ms"
    using assms(4) by (auto simp: list_all_iff)
  note n = nth_lockstep [OF assms(1,2) _ this, of _ ks]
  have ct: "rd32 (?w ! j) 12 = of_nat (start_block ?ms j)"
    "drop 16 (?w ! j) = ctr_xor P ks riv (of_nat (start_block ?ms j)) (snd (es ! j))" if "j < length es" for j
    using n [of j] that assms(3) by simp_all
  have "xor_bytes (slice (16 * b) 16 (drop 16 (?w ! j))) (take 16 (drop 16 (?w ! Suc j))) =
      xor_bytes (slice (16 * b) 16 (snd (es ! j))) (take 16 (snd (es ! Suc j)))"
    if "j < length es - 1" "b = (length (snd (es ! j)) - 16) div 16" for j b
    using that ct [of j] ct [of "Suc j"] keystream_overlap [OF assms(1), of b ks riv "of_nat (start_block ?ms j)"]
    by simp
  then show ?thesis
    using pre ct by (intro exI [of _ pre] exI [of _ ?w]) (simp add: list_all_iff Let_def)
qed

definition demo_messages :: "(u32 \<times> bytes) list" where
  "demo_messages = [(0, replicate 32 0x11), (2, replicate 32 0x22)]"

definition demo_env :: env where
  "demo_env = \<lparr>ev_read = (\<lambda>_. None), ev_send_ok = (\<lambda>_. True), ev_rand = (\<lambda>_. 0)\<rparr>"

lemma demo_lockstep:
  "fst (interactive_cp toy_prims demo_env (\<lambda>_. 1) 0 False (zeros 16) (zeros 8) (golden_file demo_messages @ [])
     None (\<lambda>_. True) rig_init) = Inr (0, [], 0)"
  by code_simp

text \<open>Two messages of two blocks: what is added is a block of each message.\<close>

theorem lockstep_reuses_keystream_witness:
  "\<exists>pre wire s'. interactive_cp toy_prims demo_env (\<lambda>_. 1) 0 False (zeros 16) (zeros 8)
      (golden_file demo_messages @ []) None (\<lambda>_. True) rig_init = (Inr (0, [], 0), s')
    \<and> rg_sent s' = pre @ wire \<and> map (\<lambda>f. rd32 f 12) wire = [0, 1]
    \<and> xor_bytes (slice 16 16 (drop 16 (wire ! 0))) (take 16 (drop 16 (wire ! 1))) = replicate 16 0x33"
proof -
  obtain s' where l: "interactive_cp toy_prims demo_env (\<lambda>_. 1) 0 False (zeros 16) (zeros 8)
      (golden_file demo_messages @ []) None (\<lambda>_. True) rig_init = (Inr (0, [], 0), s')"
    using demo_lockstep by (metis prod.collapse)
  have es: "length demo_messages = 2" "list_all (\<lambda>(sq, m). length m < 65536) demo_messages"
    by (simp_all add: demo_messages_def)
  have x: "xor_bytes (slice 16 16 (snd (demo_messages ! 0))) (take 16 (snd (demo_messages ! 1))) = replicate 16 0x33"
    by code_simp
  have b: "(length (snd (demo_messages ! 0)) - 16) div 16 = 1" "start_block (map snd demo_messages) 1 = 1"
    by (simp_all add: demo_messages_def)
  have u: "[0..<2] = [0, 1 :: nat]" "[0..<1] = [0 :: nat]" by (simp_all add: upt_rec)
  from lockstep_reuses_keystream [OF toy_prims_sized _ _ es(2) l] obtain pre wire where
    w: "rg_sent s' = pre @ wire" "length wire = 2"
    "rd32 (wire ! 0) 12 = 0" "rd32 (wire ! 1) 12 = 1"
    "xor_bytes (slice 16 16 (drop 16 (wire ! 0))) (take 16 (drop 16 (wire ! 1))) = replicate 16 0x33"
    using x b by (auto simp: es(1) u rig_init_def Let_def)
  moreover have "map (\<lambda>f. rd32 f 12) wire = [rd32 (wire ! 0) 12, rd32 (wire ! 1) 12]"
    using w(2) by (intro nth_equalityI) (auto simp: less_2_cases_iff)
  ultimately show ?thesis using l by (intro exI [of _ pre] exI [of _ wire] exI [of _ s']) simp
qed

section \<open>Set-mode\<close>

text \<open>Writing ahead into a zeroed buffer, in ascending order.\<close>

lemma put_ahead:
  "length us \<le> off \<Longrightarrow> off - length us + length ws \<le> n \<Longrightarrow>
     put off ws (us @ zeros n) = (us @ zeros (off - length us) @ ws) @ zeros (n - (off - length us + length ws))"
proof -
  assume a: "length us \<le> off" "off - length us + length ws \<le> n"
  define k where "k = off - length us"
  define m where "m = n - (k + length ws)"
  have n: "zeros n = zeros k @ zeros (length ws) @ zeros m"
    using a by (simp add: zeros_def k_def m_def flip: replicate_add)
  have l: "length (us @ zeros k) = off" using a by (simp add: k_def)
  show ?thesis
    unfolding n using put_at [OF l, of "zeros (length ws)" ws "zeros m"]
    by (simp add: k_def m_def)
qed

lemma bu_mode_inner_eq:
  "bu_mode_inner m = [0x48, 0, 0x22, 0] @ zeros 16 @ be32 2 @ zeros 2 @
     le16 (me_hactive m) @ le16 (me_hblank m) @ le16 88 @ le16 44 @
     le16 (me_vactive m) @ le16 (me_vblank m) @ le16 4 @ le16 5 @
     le16 0 @ le16 (me_refresh m) @ le16 0x4000 @ zeros 22 @ le16 (me_pclk10k m) @ zeros 24"
proof -
  have e: "zeros 0 = []" by (simp add: zeros_def)
  define H :: bytes where "H = [0x48, 0, 0x22, 0]"
  have h: "length H = 4" by (simp add: H_def)
  have z: "put 0 H (zeros 96) = H @ zeros 92" unfolding H_def by code_simp
  show ?thesis
    unfolding bu_mode_inner_def Let_def foldl_Cons foldl_Nil prod.case H_def [symmetric] z
    by (simp add: put_ahead e h flip: append_assoc del: append_assoc)
qed

text \<open>The tool's set-mode lacks four constants of the kernel's.\<close>

lemma set_mode_differs:
  "set_mode 0 \<lparr>tm_hactive = me_hactive m, tm_hblank = me_hblank m, tm_hsync_front = 88, tm_hsync_width = 44,
      tm_vactive = me_vactive m, tm_vblank = me_vblank m, tm_vsync_front = 4, tm_vsync_width = 5,
      tm_refresh_hz = me_refresh m, tm_pixel_clock_10khz = me_pclk10k m, tm_field42 = 0\<rparr> =
   put 66 (le16 0x0800) (put 58 (le16 0x0080 @ le16 0x00ff) (put 48 (le16 0x6000) (bu_mode_inner m)))"
proof -
  have z: "zeros 22 = zeros 2 @ zeros 8 @ zeros 4 @ zeros 4 @ zeros 2 @ (zeros 2 :: bytes)"
    by (simp add: zeros_def flip: replicate_add)
  have h: "cp_header [] 0x48 0x22 0 @ zeros 12 = [0x48, 0, 0x22, 0] @ zeros 16" by code_simp
  show ?thesis
    unfolding set_mode_eq bu_mode_inner_eq z append_assoc [symmetric] h
    by (simp add: put_def)
qed

section \<open>The stream and the saved session\<close>

lemma length_stream_plaintext: "length STREAM_PLAINTEXT = 16"
  by (simp add: STREAM_PLAINTEXT_def)

text \<open>
  The frames of the CP stream carry sequence number 0 whatever counter they are encrypted at, so a
  receiver that decrypts at the number in the header reads only the first one.
\<close>

lemma cp_stream_seq: "rd32 (cp_stream_msg P ks riv counter) 12 = 0"
proof -
  have "zeros 64 = zeros 16 @ (zeros 48 :: bytes)" by (simp add: zeros_def flip: replicate_add)
  then show ?thesis
    by (simp add: cp_stream_msg_def Let_def put_def rd32_def nth_append nth_Cons' of_le32_def)
qed

lemma session_roundtrip:
  assumes "length ks = 16" "length riv = 8"
  shows "load_session (Some (save_session ks riv counter)) = Inr (Some (ks, riv, counter))"
proof -
  have z: "zeros 32 = zeros 16 @ zeros 8 @ zeros 4 @ (zeros 4 :: bytes)"
    by (simp add: zeros_def flip: replicate_add)
  have s: "save_session ks riv counter = ks @ riv @ le32 counter @ zeros 4"
    unfolding save_session_def z using assms by (simp add: put_def)
  have "rd32 (ks @ riv @ le32 counter @ zeros 4) 24 = counter"
    using assms by (simp add: rd32_append_right)
  then show ?thesis
    using assms by (simp add: load_session_def s slice_def)
qed

text \<open>Files of 25 to 27 bytes pass the length check and panic.\<close>

lemma load_session_panics:
  "load_session file = Inl e \<longleftrightarrow> e = Fatal \<and> (\<exists>data. file = Some data \<and> 25 \<le> length data \<and> length data < 28)"
  by (auto simp: load_session_def split: option.split)

section \<open>What the waits conclude from\<close>

definition says_ready :: "poll \<Rightarrow> bool" where
  "says_ready p = (case pl_rd p of
     RdOk raw \<Rightarrow> (case poll_msg raw of
        None \<Rightarrow> False | Some (i, pl) \<Rightarrow> i = 0x00 \<or> i = 0x12 \<and> link_status pl = 0)
   | _ \<Rightarrow> False)"

lemma pre_sm2_evidence:
  "pre_sm2_loop W counter ps = Inr (True, counter', ps') \<Longrightarrow> list_ex says_ready ps"
proof (induction W counter ps rule: pre_sm2_loop.induct)
  case (2 W counter p ps)
  show ?case
  proof (cases "pl_rd p")
    case (RdOk raw)
    show ?thesis
    proof (cases "poll_msg raw")
      case None
      then show ?thesis using 2 RdOk by simp
    next
      case (Some ip)
      then obtain i pl where m: "poll_msg raw = Some (i, pl)" by (cases ip) auto
      show ?thesis
      proof (cases "i = 0x00 \<or> i = 0x12 \<and> link_status pl = 0")
        case True
        then show ?thesis using RdOk m by (simp add: says_ready_def)
      next
        case False
        then have "pre_sm2_loop W counter (p # ps) = pre_sm2_loop W counter ps"
          using RdOk m by (simp del: de_Morgan_disj) auto
        then show ?thesis using 2 RdOk m False by simp
      qed
    qed
  next
    case RdTimeout
    then show ?thesis using 2 by (simp split: if_splits)
  qed (use 2 in simp_all)
qed simp

definition says_stream_ready :: "poll \<Rightarrow> bool" where
  "says_stream_ready p = (case pl_rd p of
     RdOk raw \<Rightarrow> (case poll_msg raw of None \<Rightarrow> False | Some (i, pl) \<Rightarrow> i = 0x11)
   | _ \<Rightarrow> False)"

lemma stream_ready_evidence:
  "stream_loop P S ks riv ps c = Inr (True, c') \<Longrightarrow> list_ex says_stream_ready ps"
proof (induction P S ks riv ps c rule: stream_loop.induct)
  case (2 P S ks riv p ps c)
  have t: "\<not> se_poll_secs S \<le> pl_secs p" using 2(4) by (auto split: if_splits)
  show ?case
  proof (cases "pl_rd p")
    case (RdOk raw)
    show ?thesis
    proof (cases "poll_msg raw")
      case None
      then show ?thesis using 2 RdOk t by simp
    next
      case (Some ip)
      then obtain i pl where m: "poll_msg raw = Some (i, pl)" by (cases ip) auto
      then show ?thesis using 2 RdOk t by (cases "i = 0x11") (simp_all add: says_stream_ready_def)
    qed
  next
    case RdTimeout
    then show ?thesis using 2 t by (cases "stream_turn P S ks riv p c") simp_all
  qed (use 2 t in simp_all)
qed simp

text \<open>Ten keepalives at most, and a refused one ends the attempt.\<close>

lemma ep08_burst_ok:
  "ep08_burst ok n c = Inr c' \<longleftrightarrow> c' = c + of_nat n \<and> list_all (\<lambda>i. ok (unat (c + of_nat i :: u8))) [0..<n]"
proof (induction n arbitrary: c)
  case (Suc n)
  have "list_all Q [0..<Suc n] \<longleftrightarrow> Q 0 \<and> list_all (\<lambda>i. Q (Suc i)) [0..<n]" for Q
    by (auto simp: list_all_iff less_Suc_eq_0_disj simp del: upt_Suc)
  then show ?case using Suc [of "c + 1"] by (simp add: add.assoc del: upt_Suc)
qed auto

section \<open>Attempts\<close>

text \<open>
  A failed attempt hands its own pairing to the next: one that ran with a stored key hands back none,
  so the next pairs afresh.
\<close>

lemma attempts_repair:
  assumes "attempt i (Some p) (reset \<or> se) = (Inl e, None)" "e \<noteq> Fatal"
  shows "attempts attempt se (Suc n) i (Some p) reset saved =
    attempts attempt se n (Suc i) None (e = EP08_RESET) saved"
  using assms by simp

lemma attempts_saved: "\<exists>more. snd (attempts attempt se n i stored reset saved) = saved @ more \<and> length more \<le> n"
proof (induction n arbitrary: i stored reset saved)
  case (Suc n)
  obtain r np where a: "attempt i stored (reset \<or> se) = (r, np)" by fastforce
  let ?s = "case np of None \<Rightarrow> saved | Some p \<Rightarrow> saved @ [p]"
  have s: "\<exists>x. ?s = saved @ x \<and> length x \<le> 1" by (cases np) auto
  from Suc [of "Suc i" np "projl r = EP08_RESET" ?s] obtain more where
    "snd (attempts attempt se n (Suc i) np (projl r = EP08_RESET) ?s) = ?s @ more" "length more \<le> n" by blast
  then show ?case using s by (cases r) (auto simp: a Let_def)
qed simp

end
