(* ===== verification/DockCtl.thy ===== *)
theory DockCtl
  imports DockOpen BringupRun Sweep
begin

text \<open>
  The control transfers of the dock (\<open>vino-driver/src/usb.rs\<close>), the waits on the clock, and the requests
  the tools make before the key exchange: the preambles of \<open>chimera/src/bin/coldstart.rs\<close> and of an
  attempt of \<open>vino-driver/src/bin/bringup.rs\<close>, with the diagnostics that end an attempt early. The
  clock and the answers are scripts.
\<close>

section \<open>Control transfers\<close>

definition RT_VENDOR_IN_IFACE :: u8 where "RT_VENDOR_IN_IFACE = 0xc1"
definition RT_VENDOR_OUT_DEV :: u8 where "RT_VENDOR_OUT_DEV = 0x40"
definition RT_STD_IN_DEV :: u8 where "RT_STD_IN_DEV = 0x80"
definition RT_STD_OUT_IFACE :: u8 where "RT_STD_OUT_IFACE = 0x01"
definition RT_STD_OUT_DEV :: u8 where "RT_STD_OUT_DEV = 0x00"
definition RT_CLASS_OUT_DEV :: u8 where "RT_CLASS_OUT_DEV = 0x20"

text \<open>A setup packet: request type, request, value, index and length.\<close>

record setup_packet =
  su_type :: u8
  su_request :: u8
  su_value :: u16
  su_index :: u16
  su_length :: u16

datatype ctl =
    VendorIn u8 u16 u16 u16
  | VendorOut u8 u16 u16
  | StdIn u8 u16 u16 u16
  | StdOutIface u8 u16 u16
  | ClassOut u8 u16 u16
  | CtrlNoop

fun setup_of :: "ctl \<Rightarrow> setup_packet" where
  "setup_of (VendorIn r v i n) =
     \<lparr>su_type = RT_VENDOR_IN_IFACE, su_request = r, su_value = v, su_index = i, su_length = n\<rparr>"
| "setup_of (VendorOut r v i) =
     \<lparr>su_type = RT_VENDOR_OUT_DEV, su_request = r, su_value = v, su_index = i, su_length = 0\<rparr>"
| "setup_of (StdIn r v i n) =
     \<lparr>su_type = RT_STD_IN_DEV, su_request = r, su_value = v, su_index = i, su_length = n\<rparr>"
| "setup_of (StdOutIface r v i) =
     \<lparr>su_type = RT_STD_OUT_IFACE, su_request = r, su_value = v, su_index = i, su_length = 0\<rparr>"
| "setup_of (ClassOut r v i) =
     \<lparr>su_type = RT_CLASS_OUT_DEV, su_request = r, su_value = v, su_index = i, su_length = 0\<rparr>"
| "setup_of CtrlNoop =
     \<lparr>su_type = RT_STD_OUT_DEV, su_request = 0, su_value = 0, su_index = 0, su_length = 0\<rparr>"

definition std_in :: "bytes \<Rightarrow> rusb_error + nat \<Rightarrow> error + bytes" where
  "std_in buf io = (case usb_call io of Inl e \<Rightarrow> Inl e | Inr n \<Rightarrow> Inr (take n buf))"

definition std_out_iface :: "rusb_error + nat \<Rightarrow> error + unit" where
  "std_out_iface io = (case usb_call io of Inl e \<Rightarrow> Inl e | Inr n \<Rightarrow> Inr ())"

definition class_out_device :: "rusb_error + nat \<Rightarrow> error + unit" where
  "class_out_device io = (case usb_call io of Inl e \<Rightarrow> Inl e | Inr n \<Rightarrow> Inr ())"

definition ctrl_noop :: "rusb_error + nat \<Rightarrow> error + unit" where
  "ctrl_noop io = Inr ()"

definition write_ctrl_raw :: "rusb_error + nat \<Rightarrow> error + nat" where
  "write_ctrl_raw io = usb_call io"

text \<open>A configuration: per interface its descriptors, per descriptor its endpoints.\<close>

definition has_endpoint :: "u8 list list list option \<Rightarrow> u8 \<Rightarrow> bool" where
  "has_endpoint config addr =
     (case config of None \<Rightarrow> False | Some ifs \<Rightarrow> list_ex (\<lambda>a. a = addr) (concat (concat ifs)))"

definition env_flag :: "string option \<Rightarrow> bool" where
  "env_flag v = (case v of None \<Rightarrow> False | Some s \<Rightarrow> s \<noteq> [])"

section \<open>Waiting on the clock\<close>

text \<open>The calls between two readings of the clock, and the readings left when the wait is over.\<close>

datatype pause = Sleep nat | Spin

text \<open>\<open>pace_to_gap\<close> in nanoseconds: one sleep for all but the tail, then spinning.\<close>

fun spin_until :: "nat \<Rightarrow> nat list \<Rightarrow> (nat \<times> nat list) option" where
  "spin_until target [] = None"
| "spin_until target (now # clock) = (if now < target then spin_until target clock else Some (now, clock))"

definition SPIN_TAIL_NS :: nat where "SPIN_TAIL_NS = 150000"

definition pace_to_gap :: "nat \<Rightarrow> nat \<Rightarrow> nat list \<Rightarrow> (pause list \<times> nat list) option" where
  "pace_to_gap recv_ns target_us clock =
     (if recv_ns = 0 then Some ([], clock)
      else let target_ns = target_us * 1000
        in case clock of
             [] \<Rightarrow> None
           | now # clock \<Rightarrow>
               let rem = target_ns - now
               in if rem = 0 then Some ([], clock)
                  else map_option (\<lambda>(_, clock). (if SPIN_TAIL_NS < rem then [Sleep (rem - SPIN_TAIL_NS)] else [], clock))
                         (spin_until target_ns clock))"

text \<open>\<open>hold_until\<close> in microseconds: the clock is read again after every sleep.\<close>

fun hold_until :: "nat \<Rightarrow> nat list \<Rightarrow> (pause list \<times> nat list) option" where
  "hold_until target [] = None"
| "hold_until target (now # clock) =
     (if target \<le> now then Some ([], clock)
      else map_option (apfst ((#) (if 400 < target - now then Sleep (target - now - 200) else Spin)))
             (hold_until target clock))"

section \<open>The preamble of the cold rig\<close>

datatype step = Ctl ctl | ClaimIf u8 | Pause nat | Write bytes | Recv | Poll

definition REQ_SET_INTERFACE :: u8 where "REQ_SET_INTERFACE = 0x0b"

text \<open>Every result is only logged.\<close>

definition device_open_preamble :: "step list" where
  "device_open_preamble =
     [ClaimIf 1, Ctl (VendorIn 0xfe 0 1 16), Ctl (VendorIn 0xfc 0 1 3),
      Ctl (StdOutIface REQ_SET_INTERFACE 0 1), Ctl (VendorOut 0x24 3 0), Ctl (VendorIn 0x22 1 0 28)]"

datatype rig_mode = SweepMode | SoakMode | SingleMode

definition rig_mode :: "string option \<Rightarrow> rig_mode" where
  "rig_mode arg =
     (case arg of
        None \<Rightarrow> SingleMode
      | Some a \<Rightarrow> if a = ''sweep'' then SweepMode else if a = ''soak'' then SoakMode else SingleMode)"

datatype rig_result =
    NotOpened error
  | Swept "nat \<times> timings option \<times> nat \<times> rig"
  | Soaked "(nat \<times> nat \<times> timings \<times> rig) option"
  | Ran "bool \<times> nat"

definition rig_main ::
    "prims \<Rightarrow> env \<Rightarrow> error + dock \<Rightarrow> string option \<Rightarrow> rig \<Rightarrow> step list \<times> rig_result" where
  "rig_main P E opened arg s =
     (case opened of
        Inl e \<Rightarrow> ([], NotOpened e)
      | Inr d \<Rightarrow>
          (device_open_preamble,
           case rig_mode arg of
             SweepMode \<Rightarrow> Swept (run_sweep P E s)
           | SoakMode \<Rightarrow> Soaked (run_soak P E s)
           | SingleMode \<Rightarrow> Ran (fst (run_session P E (tm_cap_drain_rounds timings_default) s))))"

section \<open>The requests of an attempt\<close>

record attempt_env =
  ae_poll_first :: bool
  ae_warm_frame :: "bytes option option"
  ae_listen_first :: bool
  ae_read_cfg40 :: bool
  ae_poll_mode :: bool
  ae_class_0c :: bool

text \<open>Bytes 8 to 15 of the answer to a replayed frame are printed when it has at least 8.\<close>

definition warm_frame_step :: "bytes option \<Rightarrow> bytes option \<Rightarrow> run_err + step list" where
  "warm_frame_step file resp =
     (case file of
        None \<Rightarrow> Inr []
      | Some frame \<Rightarrow>
          if length frame \<noteq> 64 then Inr []
          else case resp of
                 Some r \<Rightarrow>
                   if 8 \<le> length r \<and> length r < 16 then Inl Fatal
                   else Inr [Write frame, Recv, Ctl (VendorIn 0x22 1 0 28)]
               | None \<Rightarrow> Inr [Write frame, Recv, Ctl (VendorIn 0x22 1 0 28)])"

definition vendor_preamble :: "bool \<Rightarrow> step list" where
  "vendor_preamble read_cfg40 =
     [Ctl (VendorIn 0xfe 0 1 16), Pause 4, Ctl (VendorIn 0xfc 0 1 3)]
     @ concat (replicate 2 [Ctl (StdIn 0x06 0x0300 0 255), Ctl (StdIn 0x06 0x0303 0x0409 255)])
     @ (if read_cfg40 then replicate 6 (Ctl (StdIn 0x06 0x0200 0 40)) else [])
     @ [Pause 10, Ctl (StdOutIface 0x0b 0 4), Ctl (StdOutIface 0x0b 0 0), Pause 1,
        Ctl (VendorOut 0x24 3 0), Ctl (VendorIn 0x22 1 0 28)]"

text \<open>
  The polls of byte 9 of the dock's state: seconds elapsed and what the request returned. The first
  form reports the value last seen, the second stops at 2 and collects the states it prints.
\<close>

definition byte9 :: "bytes \<Rightarrow> u8" where
  "byte9 b = (if 9 < length b then b ! 9 else 0)"

fun poll_first :: "nat \<Rightarrow> (nat \<times> bytes option) list \<Rightarrow> u8 option \<Rightarrow> u8 option" where
  "poll_first secs [] prev = prev"
| "poll_first secs ((t, r) # ps) prev =
     (if secs \<le> t then prev
      else case r of None \<Rightarrow> poll_first secs ps prev | Some b \<Rightarrow> poll_first secs ps (Some (byte9 b)))"

fun poll_mode :: "nat \<Rightarrow> (nat \<times> bytes option) list \<Rightarrow> bytes \<Rightarrow> bytes list \<Rightarrow> bytes list \<times> bool" where
  "poll_mode secs [] prev seen = (seen, False)"
| "poll_mode secs ((t, r) # ps) prev seen =
     (if secs \<le> t then (seen, False)
      else case r of
             None \<Rightarrow> poll_mode secs ps prev seen
           | Some b \<Rightarrow>
               let changed = (b \<noteq> take (length b) prev);
                   seen = (if changed then seen @ [b] else seen);
                   prev = (if changed then put 0 b prev else prev)
               in if byte9 b = 2 then (seen, True) else poll_mode secs ps prev seen)"

text \<open>
  An attempt up to the session init: the steps, and whether it goes on to the key exchange. A poll
  ends the attempt, and \<open>main\<close>, with success. \<open>warm\<close>: the steps of the saved session.
\<close>

definition attempt_steps :: "attempt_env \<Rightarrow> nat \<Rightarrow> bytes option \<Rightarrow> step list \<Rightarrow> run_err + (step list \<times> bool)" where
  "attempt_steps V n resp warm =
     (if ae_poll_first V then Inr ([Poll], False)
      else case (case ae_warm_frame V of
                   None \<Rightarrow> Inr []
                 | Some file \<Rightarrow> if n = 1 then warm_frame_step file resp else Inr []) of
             Inl e \<Rightarrow> Inl e
           | Inr replay \<Rightarrow>
               (let pre = replay @ (if ae_listen_first V then [Recv] else []) @ warm @ vendor_preamble (ae_read_cfg40 V)
                in if ae_poll_mode V then Inr (pre @ [Poll], False)
                   else Inr (pre @ (if ae_class_0c V then [Ctl (ClassOut 0x0c 0 0), Ctl (ClassOut 0x0c 1 0)] else []),
                             True)))"

text \<open>The frames drained before anything is sent: those of twelve bytes or more count.\<close>

fun listen_first :: "(nat \<times> (error + bytes)) list \<Rightarrow> nat \<Rightarrow> nat \<Rightarrow> nat" where
  "listen_first [] deadline seen = seen"
| "listen_first ((t, r) # ps) deadline seen =
     (if deadline \<le> t then seen
      else case r of
             Inr b \<Rightarrow> listen_first ps deadline (if 12 \<le> length b then Suc seen else seen)
           | Inl e \<Rightarrow> if e = Timeout then listen_first ps deadline seen else seen)"

section \<open>The session init\<close>

text \<open>
  \<open>sent i\<close>: the bytes the i-th write took, \<open>None\<close> when it failed. A short write ends the init; the
  answer to the last message is only printed.
\<close>

definition send_one :: "(nat \<Rightarrow> nat option) \<Rightarrow> nat \<Rightarrow> bytes \<Rightarrow> bool" where
  "send_one sent i b = (sent i = Some (length b))"

definition send_init_messages :: "(nat \<Rightarrow> nat option) \<Rightarrow> step list \<times> bool" where
  "send_init_messages sent =
     (let cfg = [Ctl (StdIn 0x06 0x0200 0 40), Ctl (StdIn 0x06 0x0200 0 618)];
          strings = [Ctl (StdIn 0x06 0x0300 0 255), Ctl (StdIn 0x06 0x0303 0x0409 255)]
      in if \<not> send_one sent 0 bu_init_0 then (cfg @ [Write bu_init_0], False)
         else if \<not> send_one sent 1 bu_init_25 then (cfg @ [Write bu_init_0, Write bu_init_25], False)
         else if \<not> send_one sent 2 bu_init_4
              then (cfg @ [Write bu_init_0, Write bu_init_25] @ strings @ [Write bu_init_4], False)
              else (cfg @ [Write bu_init_0, Write bu_init_25] @ strings @ [Write bu_init_4, Recv], True))"

definition do_vendor_setup :: "step list" where
  "do_vendor_setup = [Ctl (VendorIn 0xfe 0 1 16), Ctl (VendorIn 0xfc 0 1 3), Ctl CtrlNoop, Ctl CtrlNoop]"

text \<open>Opening with retries: what \<open>Dock::open\<close> returns and whether the deadline has passed then.\<close>

fun open_dock_with_retry :: "((error + dock) \<times> bool) list \<Rightarrow> (error + dock) option" where
  "open_dock_with_retry [] = None"
| "open_dock_with_retry ((r, expired) # rest) =
     (case r of
        Inr d \<Rightarrow> Some (Inr d)
      | Inl e \<Rightarrow> if expired then Some (Inl e) else open_dock_with_retry rest)"

text \<open>The interrupt poller: events until the flag is set.\<close>

fun intr_poll_loop :: "(bool \<times> (error + nat)) list \<Rightarrow> nat \<Rightarrow> nat" where
  "intr_poll_loop [] n_events = n_events"
| "intr_poll_loop ((stop, r) # ps) n_events =
     (if stop then n_events
      else intr_poll_loop ps (case r of Inr n \<Rightarrow> if 0 < n then Suc n_events else n_events | Inl e \<Rightarrow> n_events))"

section \<open>Laws\<close>

text \<open>
  \<open>hold_until\<close> returns at the first reading at or past its target, and each sleep it makes ends two
  hundred microseconds before it, so only the scheduler can overshoot.
\<close>

lemma hold_until_exact:
  "hold_until target clock = Some (ps, rest) \<longleftrightarrow>
     (\<exists>pre now. clock = pre @ now # rest \<and> target \<le> now \<and> list_all (\<lambda>t. t < target) pre
       \<and> ps = map (\<lambda>t. if 400 < target - t then Sleep (target - t - 200) else Spin) pre)"
proof (induction target clock arbitrary: ps rule: hold_until.induct)
  case (2 target now clock)
  show ?case
  proof (cases "target \<le> now")
    case True
    then show ?thesis by (auto simp: Cons_eq_append_conv)
  next
    case False
    let ?p = "if 400 < target - now then Sleep (target - now - 200) else Spin"
    have "hold_until target (now # clock) = Some (ps, rest) \<longleftrightarrow>
        (\<exists>qs. hold_until target clock = Some (qs, rest) \<and> ps = ?p # qs)"
      using False by (auto simp: apfst_def map_prod_def)
    also have "\<dots> \<longleftrightarrow> (\<exists>pre now'. now # clock = (now # pre) @ now' # rest \<and> target \<le> now' \<and> list_all (\<lambda>t. t < target) pre
       \<and> ps = ?p # map (\<lambda>t. if 400 < target - t then Sleep (target - t - 200) else Spin) pre)"
      using "2.IH" [OF False] by auto
    also have "\<dots> \<longleftrightarrow> (\<exists>pre now'. now # clock = pre @ now' # rest \<and> target \<le> now' \<and> list_all (\<lambda>t. t < target) pre
       \<and> ps = map (\<lambda>t. if 400 < target - t then Sleep (target - t - 200) else Spin) pre)"
    proof (intro iffI; elim exE conjE)
      fix pre now' assume "now # clock = (now # pre) @ now' # rest" "target \<le> now'" "list_all (\<lambda>t. t < target) pre"
        "ps = ?p # map (\<lambda>t. if 400 < target - t then Sleep (target - t - 200) else Spin) pre"
      then show "\<exists>pre now'. now # clock = pre @ now' # rest \<and> target \<le> now' \<and> list_all (\<lambda>t. t < target) pre
       \<and> ps = map (\<lambda>t. if 400 < target - t then Sleep (target - t - 200) else Spin) pre"
        using False by (intro exI [of _ "now # pre"] exI [of _ now']) auto
    next
      fix pre now' assume p: "now # clock = pre @ now' # rest" "target \<le> now'" "list_all (\<lambda>t. t < target) pre"
        "ps = map (\<lambda>t. if 400 < target - t then Sleep (target - t - 200) else Spin) pre"
      then show "\<exists>pre now'. now # clock = (now # pre) @ now' # rest \<and> target \<le> now' \<and> list_all (\<lambda>t. t < target) pre
       \<and> ps = ?p # map (\<lambda>t. if 400 < target - t then Sleep (target - t - 200) else Spin) pre"
        using False by (cases pre) auto
    qed
    finally show ?thesis .
  qed
qed simp

lemma spin_until_find: "spin_until target clock = Some (now, rest) \<Longrightarrow> target \<le> now"
  by (induction target clock rule: spin_until.induct) (auto split: if_splits)

text \<open>The polls report what was seen before their time was up.\<close>

lemma poll_mode_ready:
  "snd (poll_mode secs ps prev seen) \<longleftrightarrow>
     list_ex (\<lambda>(_, r). case r of None \<Rightarrow> False | Some b \<Rightarrow> byte9 b = 2) (takeWhile (\<lambda>(t, _). t < secs) ps)"
  by (induction secs ps prev seen rule: poll_mode.induct) (auto simp: Let_def split: option.split)

lemma poll_first_last:
  "poll_first secs ps prev =
     (case rev (List.map_filter snd (takeWhile (\<lambda>(t, _). t < secs) ps)) of [] \<Rightarrow> prev | b # _ \<Rightarrow> Some (byte9 b))"
  by (induction secs ps prev rule: poll_first.induct)
    (auto simp: List.map_filter_simps split: option.split list.split)

text \<open>The init is a prefix of one sequence, and is whole when every message was taken whole.\<close>

lemma send_init_prefix:
  "\<exists>rest. fst (send_init_messages sent) @ rest = fst (send_init_messages (\<lambda>i. Some (length ([bu_init_0, bu_init_25, bu_init_4] ! i))))"
  by (auto simp: send_init_messages_def send_one_def Let_def)

lemma send_init_ok:
  "snd (send_init_messages sent) \<longleftrightarrow> list_all2 (\<lambda>i b. sent i = Some (length b)) [0, 1, 2] [bu_init_0, bu_init_25, bu_init_4]"
  by (auto simp: send_init_messages_def send_one_def Let_def)

text \<open>The one panic before the session init: a replayed frame answered by 8 to 15 bytes.\<close>

lemma attempt_panics:
  "attempt_steps V n resp warm = Inl e \<longleftrightarrow>
     e = Fatal \<and> \<not> ae_poll_first V \<and> n = 1 \<and> (\<exists>frame r. ae_warm_frame V = Some (Some frame) \<and> length frame = 64
       \<and> resp = Some r \<and> 8 \<le> length r \<and> length r < 16)"
  by (auto simp: attempt_steps_def warm_frame_step_def Let_def split: option.splits if_splits)

lemma attempt_goes_on:
  "attempt_steps V n resp warm = Inr (steps, go) \<Longrightarrow> go = (\<not> ae_poll_first V \<and> \<not> ae_poll_mode V)"
  by (auto simp: attempt_steps_def Let_def split: sum.splits if_splits)

lemma open_retry_find:
  "open_dock_with_retry tries = map_option fst (find (\<lambda>(r, expired). expired \<or> (case r of Inr _ \<Rightarrow> True | Inl _ \<Rightarrow> False)) tries)"
  by (induction tries rule: open_dock_with_retry.induct) (auto split: sum.split)

end
