(* ===== verification/ProveLoad.thy ===== *)
theory ProveLoad
  imports ProveLaws Libevdi
begin

text \<open>
  The fixtures of the offline proof run (\<open>chimera/src/prove.rs\<close>): the readers of the candidate keys, the
  captured frames and the reference strips, and that they read back what \<open>hex\<close> prints. The texts are
  ASCII; \<open>None\<close> is a panic of the readers.
\<close>

section \<open>Text\<close>

definition is_space :: "char \<Rightarrow> bool" where
  "is_space c = (let n = of_char c :: nat in 9 \<le> n \<and> n \<le> 13 \<or> n = 32)"

definition strip_ws :: "string \<Rightarrow> string" where
  "strip_ws s = rev (dropWhile is_space (rev (dropWhile is_space s)))"

fun split_by :: "(char \<Rightarrow> bool) \<Rightarrow> string \<Rightarrow> string list" where
  "split_by p [] = [[]]"
| "split_by p (c # cs) =
     (if p c then [] # split_by p cs
      else case split_by p cs of w # ws \<Rightarrow> (c # w) # ws | [] \<Rightarrow> [[c]])"

definition split_whitespace :: "string \<Rightarrow> string list" where
  "split_whitespace s = filter ((\<noteq>) []) (split_by is_space s)"

text \<open>\<open>str::lines\<close>: a carriage return before a line feed belongs to the line ending.\<close>

definition strip_cr :: "string \<Rightarrow> string" where
  "strip_cr l = (if l \<noteq> [] \<and> last l = CHR 0x0d then butlast l else l)"

definition lines :: "string \<Rightarrow> string list" where
  "lines t =
     (let ls = split_by ((=) (CHR 0x0a)) t
      in map strip_cr (butlast ls) @ (if last ls = [] then [] else [last ls]))"

section \<open>Hexadecimal\<close>

definition hex_val :: "char \<Rightarrow> u8 option" where
  "hex_val c =
     (let n = of_char c :: nat
      in if 48 \<le> n \<and> n \<le> 57 then Some (of_nat (n - 48))
         else if 97 \<le> n \<and> n \<le> 102 then Some (of_nat (n - 87))
         else if 65 \<le> n \<and> n \<le> 70 then Some (of_nat (n - 55))
         else None)"

text \<open>\<open>u8::from_str_radix\<close> on two characters: a leading plus sign is allowed.\<close>

definition byte_of :: "char \<Rightarrow> char \<Rightarrow> u8 option" where
  "byte_of a b =
     (if a = CHR ''+'' then hex_val b
      else case (hex_val a, hex_val b) of (Some h, Some l) \<Rightarrow> Some (16 * h + l) | _ \<Rightarrow> None)"

definition unhex :: "string \<Rightarrow> bytes option" where
  "unhex s =
     (let s = strip_ws s
      in those (map (\<lambda>i. byte_of (s ! (2 * i)) (s ! (2 * i + 1))) [0..<length s div 2]))"

section \<open>The fixtures\<close>

definition content_lines :: "string \<Rightarrow> string list" where
  "content_lines text = filter (\<lambda>l. strip_ws l \<noteq> []) (lines text)"

text \<open>A key that is not 16 bytes or a nonce that is not 8 panics in \<open>copy_from_slice\<close>.\<close>

definition load_cand :: "string \<Rightarrow> cand option" where
  "load_cand l =
     (case split_whitespace l of
        k # r # _ \<Rightarrow>
          (case (unhex k, unhex r) of
             (Some ks, Some riv) \<Rightarrow> if length ks = 16 \<and> length riv = 8 then Some (ks, riv) else None
           | _ \<Rightarrow> None)
      | _ \<Rightarrow> None)"

definition load_cands :: "string \<Rightarrow> cand list option" where
  "load_cands text = those (map load_cand (content_lines text))"

definition load_frames :: "string \<Rightarrow> bytes list option" where
  "load_frames text = those (map unhex (content_lines text))"

definition parse_i32 :: "string \<Rightarrow> int option" where
  "parse_i32 s =
     (let neg = (take 1 s = ''-'');
          ds = (if take 1 s = ''-'' \<or> take 1 s = ''+'' then drop 1 s else s)
      in if ds = [] then None
         else case digits_val 0 ds of
                None \<Rightarrow> None
              | Some n \<Rightarrow>
                  let v = (if neg then - int n else int n)
                  in if - (2 ^ 31) \<le> v \<and> v < 2 ^ 31 then Some v else None)"

text \<open>The numbers of a strip: its position and 16 blocks of three planes of 64 samples.\<close>

definition strip_numbers :: "int list \<Rightarrow> (u16 \<times> u16 \<times> int list list list) option" where
  "strip_numbers nums =
     (if length nums < 2 + 16 * 3 * 64 then None
      else Some (of_int (nums ! 0), of_int (nums ! 1),
        map (\<lambda>k. map (\<lambda>p. map (\<lambda>i. nums ! (2 + (k * 3 + p) * 64 + i)) [0..<64]) [0..<3]) [0..<16]))"

fun strip_entries :: "string list \<Rightarrow> strip_fixture list option" where
  "strip_entries [] = Some []"
| "strip_entries (hdr # ls) =
     (if take 1 hdr \<noteq> ''#'' then strip_entries ls
      else case ls of
             data # want # rest \<Rightarrow>
               (case those (map parse_i32 (split_whitespace data)) of
                  None \<Rightarrow> None
                | Some nums \<Rightarrow>
                    (case strip_numbers nums of
                       None \<Rightarrow> None
                     | Some (x, y, planes) \<Rightarrow> map_option ((#) (x, y, planes, want)) (strip_entries rest)))
           | _ \<Rightarrow> None)"

section \<open>Laws\<close>

lemma hex_digit_cases:
  "hex_val (hex_digit v) = (if v < 16 then Some v else hex_val (hex_digit v))"
  "v < 16 \<Longrightarrow> \<not> is_space (hex_digit v)" "v < 16 \<Longrightarrow> hex_digit v \<noteq> CHR ''+''"
proof -
  have "list_all (\<lambda>v :: u8. hex_val (hex_digit v) = Some v \<and> \<not> is_space (hex_digit v)
      \<and> hex_digit v \<noteq> CHR ''+'') (map of_nat [0..<16])" by code_simp
  moreover have "v \<in> set (map of_nat [0..<16])" if "v < 16"
  proof -
    have "unat v \<in> {0..<16}" using that by (simp add: word_less_nat_alt)
    then have "(of_nat (unat v) :: u8) \<in> of_nat ` {0..<16}" by (rule imageI)
    then show ?thesis by simp
  qed
  ultimately have "v < 16 \<Longrightarrow> hex_val (hex_digit v) = Some v \<and> \<not> is_space (hex_digit v) \<and> hex_digit v \<noteq> CHR ''+''"
    unfolding list_all_iff by blast
  then show "hex_val (hex_digit v) = (if v < 16 then Some v else hex_val (hex_digit v))"
    "v < 16 \<Longrightarrow> \<not> is_space (hex_digit v)" "v < 16 \<Longrightarrow> hex_digit v \<noteq> CHR ''+''" by auto
qed

lemma nibbles: "drop_bit 4 (x :: u8) < 16" "x AND 0xf < 16" "16 * drop_bit 4 x + (x AND 0xf) = x"
proof -
  show "drop_bit 4 x < 16"
    using unat8_less [of x] by (simp add: word_less_nat_alt unat_drop_bit_eq drop_bit_nat_def del: drop_bit_eq_div)
  have m: "x AND 0xf = take_bit 4 x" by (simp add: take_bit_eq_mask mask_eq_exp_minus_1)
  show "x AND 0xf < 16"
    by (rule le_less_trans [OF word_and_le1]) simp
  show "16 * drop_bit 4 x + (x AND 0xf) = x"
    unfolding m using bits_ident [of 4 x] by (simp add: push_bit_eq_mult mult.commute)
qed

lemma byte_of_hex: "byte_of (hex_digit (drop_bit 4 x)) (hex_digit (x AND 0xf)) = Some x"
proof -
  have "hex_val (hex_digit (drop_bit 4 x)) = Some (drop_bit 4 x)" "hex_val (hex_digit (x AND 0xf)) = Some (x AND 0xf)"
    using hex_digit_cases(1) nibbles by (metis (full_types))+
  then show ?thesis using hex_digit_cases(3) nibbles by (simp add: byte_of_def)
qed

lemma hex_Cons: "hex (x # b) = hex_digit (drop_bit 4 x) # hex_digit (x AND 0xf) # hex b"
  by (simp add: hex_def)

lemma hex_Nil [simp]: "hex [] = []"
  by (simp add: hex_def)

lemma length_hex [simp]: "length (hex b) = 2 * length b"
  by (induction b) (simp_all add: hex_Cons)

lemma hex_no_space: "c \<in> set (hex b) \<Longrightarrow> \<not> is_space c"
  by (induction b) (auto simp: hex_Cons hex_digit_cases(2) nibbles)

lemma strip_ws_id: "(\<And>c. c \<in> set s \<Longrightarrow> \<not> is_space c) \<Longrightarrow> strip_ws s = s"
proof -
  assume n: "\<And>c. c \<in> set s \<Longrightarrow> \<not> is_space c"
  have "dropWhile is_space t = t" if "set t \<subseteq> set s" for t
    using that n by (cases t) auto
  then show ?thesis by (simp add: strip_ws_def)
qed

lemma hex_pairs:
  "map (\<lambda>i. byte_of (hex b ! (2 * i)) (hex b ! (2 * i + 1))) [0..<length b] = map Some b"
proof (induction b)
  case (Cons x b)
  have "[0..<length (x # b)] = 0 # map Suc [0..<length b]" by (simp add: map_Suc_upt upt_conv_Cons del: upt_Suc)
  then show ?case using Cons by (simp add: hex_Cons byte_of_hex comp_def del: upt_Suc)
qed simp

lemma those_Some [simp]: "those (map Some xs) = Some xs"
  by (induction xs) simp_all

text \<open>What \<open>hex\<close> prints is read back.\<close>

lemma unhex_hex: "unhex (hex b) = Some b"
proof -
  have "strip_ws (hex b) = hex b" by (rule strip_ws_id) (rule hex_no_space)
  then show ?thesis unfolding unhex_def Let_def by (simp add: hex_pairs [simplified])
qed

lemma split_by_append:
  "(\<And>c. c \<in> set l \<Longrightarrow> \<not> p c) \<Longrightarrow> p d \<Longrightarrow> split_by p (l @ d # t) = l # split_by p t"
  by (induction l) (simp_all split: list.split)

lemma split_by_ne [simp]: "split_by p s \<noteq> []"
  by (cases s) (auto split: list.split)

lemma split_by_none: "(\<And>c. c \<in> set l \<Longrightarrow> \<not> p c) \<Longrightarrow> split_by p l = [l]"
  by (induction l) simp_all

lemma lines_Cons:
  "(\<And>c. c \<in> set l \<Longrightarrow> \<not> is_space c) \<Longrightarrow> lines (l @ CHR 0x0a # t) = l # lines t"
proof -
  assume n: "\<And>c. c \<in> set l \<Longrightarrow> \<not> is_space c"
  have sp: "is_space (CHR 0x0a)" "is_space (CHR 0x0d)" by code_simp+
  have "split_by ((=) (CHR 0x0a)) (l @ CHR 0x0a # t) = l # split_by ((=) (CHR 0x0a)) t"
    by (rule split_by_append) (use n sp in auto)
  moreover have "strip_cr l = l" using n sp last_in_set [of l] by (metis strip_cr_def)
  ultimately show ?thesis by (simp add: lines_def Let_def)
qed

text \<open>A file of printed frames loads as the frames, and a line of a key and a nonce as the candidate.\<close>

lemma load_frames_hex:
  assumes "list_all (\<lambda>f. f \<noteq> []) fs"
  shows "load_frames (concat (map (\<lambda>f. hex f @ [CHR 0x0a]) fs)) = Some fs"
proof -
  have "lines (concat (map (\<lambda>f. hex f @ [CHR 0x0a]) fs)) = map hex fs"
    by (induction fs) (simp_all add: lines_Cons hex_no_space, simp add: lines_def)
  moreover have "strip_ws (hex f) = hex f" for f by (rule strip_ws_id) (rule hex_no_space)
  moreover have "hex f = [] \<longleftrightarrow> f = []" for f by (metis length_hex length_0_conv mult_eq_0_iff zero_neq_numeral)
  ultimately have "content_lines (concat (map (\<lambda>f. hex f @ [CHR 0x0a]) fs)) = map hex fs"
    using assms by (simp add: content_lines_def filter_map comp_def list_all_iff filter_id_conv)
  then show ?thesis by (simp add: load_frames_def unhex_hex comp_def)
qed

lemma load_cand_hex:
  assumes "length ks = 16" "length riv = 8"
  shows "load_cand (hex ks @ CHR '' '' # hex riv) = Some (ks, riv)"
proof -
  have sp: "is_space (CHR '' '')" by code_simp
  have "split_by is_space (hex ks @ CHR '' '' # hex riv) = hex ks # [hex riv]"
    using split_by_append [of "hex ks" is_space "CHR '' ''" "hex riv"] split_by_none [of "hex riv" is_space]
      hex_no_space sp by metis
  moreover have "hex ks \<noteq> []" "hex riv \<noteq> []" using assms length_hex [of ks] length_hex [of riv] by fastforce+
  ultimately show ?thesis using assms by (simp add: load_cand_def split_whitespace_def unhex_hex)
qed

end
