(* ===== verification/ClientAbi.thy ===== *)
theory ClientAbi
  imports LibOpen
begin

text \<open>
  The C interface of the library (\<open>library/src/lib.rs\<close>) and its declaration in the client
  (\<open>chimera/src/revdi.rs\<close>) as C layouts, and the generic DRM ioctls (\<open>library/src/ffi.rs\<close>) with
  their numbers. Function pointers are pointers.
\<close>

section \<open>The library's public structures\<close>

abbreviation c_int :: cty where "c_int \<equiv> CInt True 4"

definition evdi_lib_version :: cty where
  "evdi_lib_version = CStruct
     [(''version_major'', c_int), (''version_minor'', c_int), (''version_patchlevel'', c_int)]"
definition evdi_rect :: cty where
  "evdi_rect = CStruct
     [(''x1'', c_int), (''y1'', c_int), (''x2'', c_int), (''y2'', c_int)]"
definition evdi_mode :: cty where
  "evdi_mode = CStruct
     [(''width'', c_int), (''height'', c_int), (''refresh_rate'', c_int),
      (''bits_per_pixel'', c_int), (''pixel_format'', c_u32)]"
definition l_evdi_buffer :: cty where
  "l_evdi_buffer = CStruct
     [(''id'', c_int), (''buffer'', CPtr), (''width'', c_int), (''height'', c_int),
      (''stride'', c_int), (''rects'', CPtr), (''rect_count'', c_int)]"
definition evdi_cursor_set :: cty where
  "evdi_cursor_set = CStruct
     [(''hot_x'', c_i32), (''hot_y'', c_i32), (''width'', c_u32), (''height'', c_u32),
      (''enabled'', c_u8), (''buffer_length'', c_u32), (''buffer'', CPtr),
      (''pixel_format'', c_u32), (''stride'', c_u32)]"
definition evdi_cursor_move :: cty where
  "evdi_cursor_move = CStruct
     [(''x'', c_i32), (''y'', c_i32)]"
definition evdi_ddcci_data :: cty where
  "evdi_ddcci_data = CStruct
     [(''address'', c_u16), (''flags'', c_u16), (''buffer_length'', c_u32), (''buffer'', CPtr)]"
definition evdi_event_context :: cty where
  "evdi_event_context = CStruct
     [(''dpms_handler'', CPtr), (''mode_changed_handler'', CPtr),
      (''update_ready_handler'', CPtr), (''crtc_state_handler'', CPtr),
      (''cursor_set_handler'', CPtr), (''cursor_move_handler'', CPtr),
      (''ddcci_data_handler'', CPtr), (''user_data'', CPtr)]"
definition evdi_logging :: cty where
  "evdi_logging = CStruct
     [(''function'', CPtr), (''user_data'', CPtr)]"

fun status_code :: "device_status \<Rightarrow> int" where
  "status_code AVAILABLE = 0"
| "status_code UNRECOGNIZED = 1"
| "status_code NOT_PRESENT = 2"

section \<open>The client's declarations\<close>

definition EVDI_STATUS_AVAILABLE :: int where "EVDI_STATUS_AVAILABLE = 0"
definition EvdiRect :: cty where
  "EvdiRect = CStruct
     [(''x1'', c_int), (''y1'', c_int), (''x2'', c_int), (''y2'', c_int)]"
definition EvdiMode :: cty where
  "EvdiMode = CStruct
     [(''width'', c_int), (''height'', c_int), (''refresh_rate'', c_int),
      (''bits_per_pixel'', c_int), (''pixel_format'', c_u32)]"
definition EvdiBuffer :: cty where
  "EvdiBuffer = CStruct
     [(''id'', c_int), (''buffer'', CPtr), (''width'', c_int), (''height'', c_int),
      (''stride'', c_int), (''rects'', CPtr), (''rect_count'', c_int)]"
definition EvdiEventContext :: cty where
  "EvdiEventContext = CStruct
     [(''dpms_handler'', CPtr), (''mode_changed_handler'', CPtr),
      (''update_ready_handler'', CPtr), (''crtc_state_handler'', CPtr),
      (''cursor_set_handler'', CPtr), (''cursor_move_handler'', CPtr),
      (''ddcci_data_handler'', CPtr), (''user_data'', CPtr)]"

text \<open>
  Waiting for an event: the timeout handed to \<open>poll\<close>, in milliseconds and at most the largest \<open>int\<close>,
  and what is made of its result and the returned events.
\<close>

definition POLLIN :: u16 where "POLLIN = 1"

definition poll_timeout :: "nat \<Rightarrow> int" where
  "poll_timeout ms = int (min ms (2 ^ 31 - 1))"

definition wait_readable :: "int \<Rightarrow> int \<Rightarrow> u16 \<Rightarrow> bool" where
  "wait_readable fd r revents = (if fd < 0 then False else 0 < r \<and> revents AND POLLIN \<noteq> 0)"

section \<open>Generic DRM ioctls\<close>

definition DrmVersion :: cty where
  "DrmVersion = CStruct
     [(''version_major'', c_int), (''version_minor'', c_int), (''version_patchlevel'', c_int),
      (''name_len'', c_usize), (''name'', CPtr), (''date_len'', c_usize), (''date'', CPtr),
      (''desc_len'', c_usize), (''desc'', CPtr)]"
definition DrmAuth :: cty where
  "DrmAuth = CStruct
     [(''magic'', c_u32)]"
definition DrmModeMapDumb :: cty where
  "DrmModeMapDumb = CStruct
     [(''handle'', c_u32), (''pad'', c_u32), (''offset'', c_u64)]"
definition DrmGemClose :: cty where
  "DrmGemClose = CStruct
     [(''handle'', c_u32), (''pad'', c_u32)]"

definition drm_ioctl_version :: u64 where
  "drm_ioctl_version = drm_iowr 0x00 (csize DrmVersion)"
definition drm_ioctl_auth_magic :: u64 where
  "drm_ioctl_auth_magic = drm_iow 0x11 (csize DrmAuth)"
definition drm_ioctl_drop_master :: u64 where
  "drm_ioctl_drop_master = drm_io 0x1f"
definition drm_ioctl_mode_map_dumb :: u64 where
  "drm_ioctl_mode_map_dumb = drm_iowr 0xb3 (csize DrmModeMapDumb)"
definition drm_ioctl_gem_close :: u64 where
  "drm_ioctl_gem_close = drm_iow 0x09 (csize DrmGemClose)"

section \<open>Laws\<close>

text \<open>
  The client sees the library's structures: what one of them stores in a buffer, a rectangle, a mode or
  the table of handlers, the other loads from the fields of the same name.
\<close>

lemma client_abi:
  assumes "(u, c) \<in> set [(evdi_rect, EvdiRect), (evdi_mode, EvdiMode), (l_evdi_buffer, EvdiBuffer),
    (evdi_event_context, EvdiEventContext)]" "holds_values u v" "p \<in> fst ` set (leaves u)"
  shows "csize c = csize u \<and> load c (store u v) p = Some (v p) \<and> load u (store c v) p = Some (v p)"
proof -
  have "list_all (\<lambda>(u, c). c = u \<and> cwf u) [(evdi_rect, EvdiRect), (evdi_mode, EvdiMode),
    (l_evdi_buffer, EvdiBuffer), (evdi_event_context, EvdiEventContext)]" by code_simp
  then have "c = u" "cwf u" using assms(1) by (auto simp: list_all_iff)
  then show ?thesis using load_store assms(2,3) by simp
qed

lemma client_status: "status_code s = EVDI_STATUS_AVAILABLE \<longleftrightarrow> s = AVAILABLE"
  by (cases s) (simp_all add: EVDI_STATUS_AVAILABLE_def)

text \<open>The sizes the comments state, and the numbers of the kernel's headers.\<close>

lemma drm_sizes: "csize DrmVersion = 64" "csize DrmAuth = 4" "csize DrmModeMapDumb = 16" "csize DrmGemClose = 8"
  by code_simp+

lemma drm_numbers:
  "[drm_ioctl_version, drm_ioctl_auth_magic, drm_ioctl_drop_master, drm_ioctl_mode_map_dumb, drm_ioctl_gem_close]
     = [0xc0406400, 0x40046411, 0x641f, 0xc01064b3, 0x40086409]"
  by (simp add: drm_ioctl_version_def drm_ioctl_auth_magic_def drm_ioctl_drop_master_def
      drm_ioctl_mode_map_dumb_def drm_ioctl_gem_close_def drm_sizes drm_iowr_def drm_iow_def drm_io_def ioc_def
      IOC_READ_def IOC_WRITE_def IOC_NONE_def IOC_DIRSHIFT_def IOC_TYPESHIFT_def IOC_NRSHIFT_def
      IOC_SIZESHIFT_def DRM_IOCTL_BASE_def)

lemma poll_timeout_int: "0 \<le> poll_timeout ms \<and> poll_timeout ms < 2 ^ 31"
  by (simp add: poll_timeout_def min_def)

end
