(* ===== verification/DockErrors.thy ===== *)
theory DockErrors
  imports DockCtl LibOpen
begin

text \<open>
  The errors of the USB layer as text (\<open>vino-driver/src/usb.rs\<close>) and what the bring-up tool
  (\<open>vino-driver/src/bin/bringup.rs\<close>) reads out of them: it recognises a lost dock, and an attempt that
  ended in a reset, by substrings. \<open>rusb_text\<close> is the text of a libusb error, of the rusb crate.
\<close>

section \<open>Texts\<close>

fun error_text :: "(rusb_error \<Rightarrow> string) \<Rightarrow> error \<Rightarrow> string" where
  "error_text rusb_text DeviceNotFound = ''DisplayLink D6000 (17e9:6006) not found''"
| "error_text rusb_text error.Timeout = ''USB transfer timed out''"
| "error_text rusb_text Stall = ''endpoint stalled (Pipe)''"
| "error_text rusb_text error.Disconnected = ''device disconnected (NoDevice)''"
| "error_text rusb_text (Usb e) = ''USB error: '' @ rusb_text e"
| "error_text rusb_text Decode = ''frame decode failed''"
| "error_text rusb_text (ShortRead n) = ''short read: '' @ nat_digits n @ '' bytes''"

definition says_gone :: "string \<Rightarrow> bool" where
  "says_gone s \<longleftrightarrow> contains s ''No such device'' \<or> contains s ''NoDevice''"

definition says_reset :: "string \<Rightarrow> bool" where
  "says_reset s = contains s ''EP08_RESET''"

section \<open>What the loops of the tool make of a result\<close>

definition rd_of :: "(rusb_error \<Rightarrow> string) \<Rightarrow> error + bytes \<Rightarrow> rd" where
  "rd_of rusb_text r =
     (case r of
        Inr b \<Rightarrow> RdOk b
      | Inl e \<Rightarrow> if e = error.Timeout then RdTimeout
                 else if says_gone (error_text rusb_text e) then RdGone else RdErr)"

definition wr_of :: "(rusb_error \<Rightarrow> string) \<Rightarrow> error + nat \<Rightarrow> wr" where
  "wr_of rusb_text r =
     (case r of
        Inr n \<Rightarrow> Done
      | Inl e \<Rightarrow> if says_gone (error_text rusb_text e) then Gone else if e = Stall then Stalled else Failed)"

text \<open>Which kind of failure \<open>main\<close> takes the text of a failed attempt for.\<close>

definition attempt_error :: "string \<Rightarrow> run_err" where
  "attempt_error s = (if says_reset s then EP08_RESET else RunFailed)"

text \<open>
  The keepalive: a write that is not taken whole is an error of its own text. The texts of the
  errors that end an attempt with a lost dock.
\<close>

definition keepalive_result :: "(rusb_error \<Rightarrow> string) \<Rightarrow> nat \<Rightarrow> error + nat \<Rightarrow> string option" where
  "keepalive_result rusb_text len r =
     (case r of
        Inl e \<Rightarrow> Some (error_text rusb_text e)
      | Inr n \<Rightarrow>
          if n \<noteq> len
          then Some (''EP 0x08 short write: '' @ nat_digits n @ ''/'' @ nat_digits len)
          else None)"

definition reset_texts :: "nat \<Rightarrow> string list" where
  "reset_texts n =
     [''EP08_RESET after '' @ nat_digits n @ '' writes'', ''EP08_RESET (dock disconnected during wait)'',
      ''EP08_RESET (dock disconnected in pre-SM2 wait)'', ''EP08_RESET (dock disconnected during CP stream)'',
      ''EP08_RESET (dock disconnected during post-SM2 ep08)'']"

section \<open>Reading a frame\<close>

text \<open>A frame that arrives stamps the time the pacing starts from.\<close>

definition recv_frame_raw_timeout :: "error + bytes \<Rightarrow> nat \<Rightarrow> nat \<Rightarrow> (error + bytes) \<times> nat" where
  "recv_frame_raw_timeout r now last_recv_ns =
     (r, case r of Inr b \<Rightarrow> now | Inl e \<Rightarrow> last_recv_ns)"

section \<open>Laws\<close>

lemma contains_skip: "c \<notin> set u \<Longrightarrow> contains (u @ t) (c # p) = contains t (c # p)"
  by (induction u) auto

lemma contains_start: "contains (p @ t) p"
proof (cases "p @ t")
  case (Cons c cs)
  have "take (length p) (p @ t) = p" by simp
  then show ?thesis unfolding Cons by simp
qed simp

lemma nat_digits_chars: "c \<in> set (nat_digits n) \<Longrightarrow> \<exists>k < 10. c = char_of (48 + k :: nat)"
proof (induction n rule: nat_digits.induct)
  case (1 n)
  show ?case
  proof (cases "n < 10")
    case True
    then show ?thesis using "1.prems" by (subst (asm) nat_digits.simps) auto
  next
    case False
    have "n mod 10 < 10" by simp
    moreover from False have "c \<in> set (nat_digits (n div 10)) \<or> c = char_of (48 + n mod 10)"
      using "1.prems" by (subst (asm) nat_digits.simps) auto
    ultimately show ?thesis using False "1.IH" by blast
  qed
qed

lemma nat_digits_no: "c \<in> {CHR ''N'', CHR ''E''} \<Longrightarrow> c \<notin> set (nat_digits n)"
proof
  assume c: "c \<in> {CHR ''N'', CHR ''E''}" and m: "c \<in> set (nat_digits n)"
  obtain k where k: "k < 10" "c = char_of (48 + k :: nat)" using nat_digits_chars [OF m] by blast
  have "(of_char c :: nat) = 48 + k" using k by (simp add: of_char_of)
  moreover have "(of_char (CHR ''N'') :: nat) = 78" "(of_char (CHR ''E'') :: nat) = 69" by code_simp+
  ultimately show False using c k(1) by auto
qed

text \<open>
  As long as libusb's own texts do not, the text of an error speaks of a lost device exactly when the
  error is \<open>Disconnected\<close>.
\<close>

lemma gone_iff_disconnected:
  assumes "\<And>e. \<not> says_gone (rusb_text e)"
  shows "says_gone (error_text rusb_text e) \<longleftrightarrow> e = error.Disconnected"
proof -
  note skip = contains_skip [of "CHR ''N''"]
  have "says_gone ''device disconnected (NoDevice)''"
    "\<not> says_gone ''DisplayLink D6000 (17e9:6006) not found''" "\<not> says_gone ''USB transfer timed out''"
    "\<not> says_gone ''endpoint stalled (Pipe)''" "\<not> says_gone ''frame decode failed''" by code_simp+
  moreover have "\<not> says_gone (''USB error: '' @ rusb_text r)" for r
    unfolding says_gone_def
    using assms [of r] skip [of "''USB error: ''"] unfolding says_gone_def by simp
  moreover have "\<not> says_gone (''short read: '' @ nat_digits n @ '' bytes'')" for n
  proof -
    have "CHR ''N'' \<notin> set (''short read: '' @ nat_digits n)" using nat_digits_no [of "CHR ''N''" n] by simp
    from skip [OF this, of "'' bytes''"] show ?thesis by (simp add: says_gone_def)
  qed
  ultimately show ?thesis by (cases e) simp_all
qed

lemma rd_of_gone:
  assumes "\<And>e. \<not> says_gone (rusb_text e)"
  shows "rd_of rusb_text r = RdGone \<longleftrightarrow> r = Inl error.Disconnected"
  using gone_iff_disconnected [OF assms] by (auto simp: rd_of_def split: sum.split)

lemma wr_of_gone:
  assumes "\<And>e. \<not> says_gone (rusb_text e)"
  shows "wr_of rusb_text r = Gone \<longleftrightarrow> r = Inl error.Disconnected"
  using gone_iff_disconnected [OF assms] by (auto simp: wr_of_def split: sum.split)

text \<open>Every text with which the tool reports a reset is read as one.\<close>

lemma reset_texts_recognised: "list_all (\<lambda>s. attempt_error s = EP08_RESET) (reset_texts n)"
proof -
  have "contains (''EP08_RESET'' @ t) ''EP08_RESET''" for t by (rule contains_start)
  from this [of "'' after '' @ nat_digits n @ '' writes''"] this [of "'' (dock disconnected during wait)''"]
    this [of "'' (dock disconnected in pre-SM2 wait)''"] this [of "'' (dock disconnected during CP stream)''"]
    this [of "'' (dock disconnected during post-SM2 ep08)''"]
  show ?thesis by (simp add: reset_texts_def attempt_error_def says_reset_def)
qed

end
