(* ===== verification/CardProbe.thy ===== *)
theory CardProbe
  imports RegistryLaws
begin

text \<open>
  Histories of probes that bind and fail, and loading and unloading the module (\<open>module/evdi.rs\<close>).
\<close>

section \<open>Histories of probes\<close>

text \<open>
  The cards over time, and the device data of the probes that failed after building it. A probe
  happens while a slot is free; cards unbind and their connectors are detected at any time.
\<close>

inductive probes :: "slots \<Rightarrow> evdi_data list \<Rightarrow> evdi_data list \<Rightarrow> bool" where
  probes_init: "probes slots_init [] []"
| probes_bound: "probes sl ds gs \<Longrightarrow> length ds + length gs < MAX_CARDS
    \<Longrightarrow> platform_probe early kms_ok e reg i2c sl = (sl', Inr b) \<Longrightarrow> probes sl' (bd_dev b # ds) gs"
| probes_early: "probes sl ds gs \<Longrightarrow> platform_probe (Some e) kms_ok e' reg i2c sl = (sl', Inl e)
    \<Longrightarrow> probes sl' ds gs"
| probes_failed: "probes sl ds gs \<Longrightarrow> length ds + length gs < MAX_CARDS
    \<Longrightarrow> platform_probe None kms_ok e reg i2c sl = (sl', Inl e')
    \<Longrightarrow> probes sl' ds (snd (evdi_data_new sl) # gs)"
| probes_unbind: "probes sl (ds1 @ d # ds2) gs \<Longrightarrow> probes (fst (shutdown sl d)) (ds1 @ ds2) gs"
| probes_detect: "probes sl ds gs \<Longrightarrow> d \<in> set ds \<Longrightarrow> probes (fst (detect sl d c)) ds gs"

section \<open>The module\<close>

text \<open>A sysfs root that cannot be registered is only reported; the driver must register.\<close>

record module_state =
  ms_sysfs :: "registry option"

definition module_init :: "unit res \<Rightarrow> unit res \<Rightarrow> module_state res" where
  "module_init root driver =
     (let sysfs = (case root of Inr _ \<Rightarrow> Some registry_new | Inl e \<Rightarrow> None)
      in bindR driver (\<lambda>_. Inr \<lparr>ms_sysfs = sysfs\<rparr>))"

text \<open>Dropping the state drops the registry, and every card with it, before the driver.\<close>

definition module_exit :: "module_state \<Rightarrow> slots option" where
  "module_exit ms =
     (case ms_sysfs ms of None \<Rightarrow> None | Some rg \<Rightarrow> Some (drop_cards (rg_slots rg) (rg_devices rg)))"

section \<open>Laws\<close>

lemma cards_inv_later: "cards_inv sl (d # ds @ gs) \<Longrightarrow> cards_inv sl (ds @ d # gs)"
  by (auto simp: cards_inv_def slots_of_def)

lemma probes_inv: "probes sl ds gs \<Longrightarrow> cards_inv sl (ds @ gs)"
proof (induction rule: probes.induct)
  case probes_init
  then show ?case using cards_reachable_inv [OF cards_init] by simp
next
  case (probes_bound sl ds gs early kms_ok e reg i2c sl' b)
  from probe_bound_data [OF probes_bound(3)] obtain d where
    d: "evdi_data_new sl = (sl', d)" "bd_dev b = probe_connector d" by blast
  have "cards_inv sl' (d # ds @ gs)" using cards_inv_probe [OF probes_bound(4) _ d(1)] probes_bound(2) by simp
  then show ?case using cards_inv_slot [of "bd_dev b" d] d(2) by simp
next
  case (probes_early sl ds gs e kms_ok e' reg i2c sl')
  then show ?case by (simp add: platform_probe_def)
next
  case (probes_failed sl ds gs kms_ok e reg i2c sl' e')
  have "cards_inv sl' (snd (evdi_data_new sl) # ds @ gs)"
    using cards_inv_probe [OF probes_failed(4) _ probe_failed_data [OF probes_failed(3)]] probes_failed(2) by simp
  then show ?case by (rule cards_inv_later)
next
  case (probes_unbind sl ds1 d ds2 gs)
  then show ?case using cards_inv_unbind [of sl ds1 d "ds2 @ gs"] by simp
next
  case (probes_detect sl ds gs d c)
  then show ?case using cards_inv_detect [of sl "ds @ gs" d c] by simp
qed

text \<open>
  C5. Over any history of probes, failures, unbinds and detections in which a slot is free whenever a
  card is probed: no two live cards share a slot of the budget table; the slots in use are
  those of the live cards and, for good, one for every probe that failed after it had built its device
  data; so the cards and the failures together never exceed sixteen.
\<close>

theorem failed_probes_keep_slots:
  assumes "probes sl ds gs"
  shows "distinct (slots_of ds @ slots_of gs)
    \<and> {i. i < MAX_CARDS \<and> sl_in_use sl ! i} = set (slots_of ds) \<union> set (slots_of gs)
    \<and> length ds + length gs \<le> MAX_CARDS"
  using probes_inv [OF assms] by (auto simp: cards_inv_def)

definition all_made :: "kms_call \<Rightarrow> bool" where
  "all_made c = True"

definition failing :: "slots \<Rightarrow> slots" where
  "failing sl = fst (platform_probe None all_made ENOMEM (Inl ENOMEM) (Inr ()) sl)"

definition two_cards :: "slots \<Rightarrow> nat list" where
  "two_cards sl =
     (case evdi_data_new sl of (sl, d) \<Rightarrow> (case evdi_data_new sl of (sl, d') \<Rightarrow>
        [ed_pixel_rate_slot d, ed_pixel_rate_slot d']))"

lemma failing_probe:
  "platform_probe None all_made ENOMEM (Inl ENOMEM) (Inr ()) sl = (fst (evdi_data_new sl), Inl ENOMEM)"
  by (simp add: platform_probe_def split: option.split prod.split)

lemma failing_claims: "failing sl = fst (claim_pixel_rate_slot sl)"
  by (simp add: failing_def failing_probe evdi_data_new_def split: prod.split)

text \<open>After sixteen failures every card gets slot 0, and two of them share one share of the budget.\<close>

definition used :: "nat \<Rightarrow> slots" where
  "used k = \<lparr>sl_in_use = replicate k True @ replicate (MAX_CARDS - k) False,
     sl_connected = replicate MAX_CARDS False\<rparr>"

lemma failing_used: "k < MAX_CARDS \<Longrightarrow> failing (used k) = used (Suc k)"
proof -
  assume k: "k < MAX_CARDS"
  let ?l = "replicate k True @ replicate (MAX_CARDS - k) False"
  have "find (\<lambda>i. \<not> ?l ! i) [0..<MAX_CARDS] = Some k"
    using k by (simp add: find_upt_Some_iff nth_append)
  moreover have "?l[k := True] = replicate (Suc k) True @ replicate (MAX_CARDS - Suc k) False"
  proof -
    obtain m where "MAX_CARDS - k = Suc m" "MAX_CARDS - Suc k = m" using k by (metis Suc_diff_Suc)
    then show ?thesis by (simp add: list_update_append replicate_app_Cons_same)
  qed
  ultimately show ?thesis by (simp add: failing_claims claim_pixel_rate_slot_def used_def)
qed

lemma failing_all: "k \<le> MAX_CARDS \<Longrightarrow> (failing ^^ k) slots_init = used k"
proof (induction k)
  case 0
  then show ?case by (simp add: used_def slots_init_def)
next
  case (Suc k)
  then show ?case using failing_used by simp
qed

lemma sixteen_failures_share: "two_cards ((failing ^^ 16) slots_init) = [0, 0]"
proof -
  have "(failing ^^ 16) slots_init = used 16" using failing_all [of 16] by (simp add: MAX_CARDS_def)
  moreover have "claim_pixel_rate_slot (used 16) = (used 16, 0)"
    by (rule claim_full) (simp add: used_def MAX_CARDS_def)
  ultimately show ?thesis by (simp add: two_cards_def evdi_data_new_def)
qed

theorem failed_probes_keep_slots_witness:
  "probes (failing slots_init) [] [snd (evdi_data_new slots_init)]
    \<and> {i. i < MAX_CARDS \<and> sl_in_use (failing slots_init) ! i} = {0}"
proof -
  have p: "probes (failing slots_init) [] [snd (evdi_data_new slots_init)]"
    unfolding failing_def failing_probe fst_conv
    by (rule probes_failed [OF probes_init _ failing_probe]) (simp add: MAX_CARDS_def)
  have "ed_pixel_rate_slot (snd (evdi_data_new slots_init)) = 0" by code_simp
  then show ?thesis using failed_probes_keep_slots [OF p] p by (simp add: slots_of_def)
qed

text \<open>Unloading the module leaves in use only the slots that failed probes kept.\<close>

lemma module_exit_frees:
  assumes "ms_sysfs ms = Some rg" "reg_inv rg gs" "module_exit ms = Some sl"
  shows "{i. i < MAX_CARDS \<and> sl_in_use sl ! i} = set (slots_of gs)"
proof -
  have "cards_inv sl gs"
    using drop_cards_inv [of "rg_slots rg" "[]" "rg_devices rg" gs "\<lambda>_. True"] assms
    by (simp add: module_exit_def reg_inv_def)
  then show ?thesis by (auto simp: cards_inv_def)
qed

lemma module_init_tolerates: "module_init (Inl e) (Inr ()) = Inr \<lparr>ms_sysfs = None\<rparr>"
  by (simp add: module_init_def)

end
