(* ===== verification/Spec2Isabelle.thy ===== *)
theory Spec2Isabelle
  imports Proto KmsLaws GrabLaws Clients RegistryLaws LibLaws Uapi RawRl RecordLaws AkeLaws CpLaws SealLaws ColdstartLaws UsbLaws DockOpen KvinoLaws EdidFetchLaws BringupLaws RevdiLaws Sweep ProveLaws HandoffLaws BringupRunLaws KmsDriver DockCtl ProveLoad ClientAbi DockErrors CardProbe
begin

text \<open>
  Verification library for revdi: a Rust reimplementation of DisplayLink's evdi kernel module and
  userspace library, and of the protocol a DisplayLink (DL3) dock speaks.

  \<^bold>\<open>The program.\<close> The kernel module (\<open>module/\<close>) creates virtual DRM cards; a client connects one with
  an EDID, a compositor draws on it, and the module's painter accumulates the damage that the client
  fetches through driver-private ioctls. The userspace library (\<open>library/\<close>) wraps these ioctls in
  libevdi's C interface and turns the bytes of the event queue into callbacks. The dock side is the
  kernel driver's protocol core (\<open>chimera/vino/\<close>: framing, HDCP 2.2 messages and keys, the encrypted
  control plane, the video codec), the USB transport and the bring-up tool (\<open>vino-driver/\<close>), the typed HDCP
  messages (\<open>vino-hdcp/\<close>), and the rig (\<open>chimera/src/\<close>) that runs the kernel files in userspace.

  \<^bold>\<open>Theories and code.\<close> Each definition has the name of the Rust item it translates, up to a prefix or a
  suffix where HOL or another file already has the name.

  \<^item> \<open>Prelude\<close>: integer types, the result type \<open>error + 'a\<close> with \<open>Panic\<close> as one of the errors, byte
    codecs, slices and byte strings.
  \<^item> Wire format. \<open>Proto\<close>: \<open>chimera/vino/proto.rs\<close> and \<open>vino-driver/src/frame.rs\<close>, encoder and decoder.
  \<^item> Module. \<open>Layout\<close>: C layouts with named, signed fields and what they store in memory. \<open>Uapi\<close>:
    \<open>module/uapi.rs\<close> and \<open>library/src/uapi.rs\<close>, structures and ioctl numbers. \<open>Painter\<close>: \<open>painter.rs\<close>, the record of the painter and its damage list. \<open>Kms\<close>, \<open>KmsLaws\<close>: \<open>kms.rs\<close> and \<open>ddcci.rs\<close>,
    the card as a record, modes, flips, cursor, DDC/CI. \<open>Ioctl\<close>, \<open>GrabLaws\<close>: \<open>ioctl.rs\<close>. \<open>Clients\<close>: files
    that come and go, as an inductive step relation. \<open>Binding\<close>: the platform probe of \<open>evdi.rs\<close> with its
    failures; \<open>Registry\<close>, \<open>RegistryLaws\<close>: its sysfs files, the cards that were added and whether their
    probe succeeded, the slot table and USB matching. \<open>KmsDriver\<close>: the driver table, the calls of a probe, and the library's
    ioctl and logging layer over it. \<open>CardProbe\<close>: histories of probes, module load and unload.
  \<^item> Library. \<open>Libevdi\<close>, \<open>LibLaws\<close>: \<open>library/src/lib.rs\<close> over the model of the module, so that events and
    grabs are followed from the kernel to the callback. \<open>LibOpen\<close>: opening a node without DRM master,
    the scans of \<open>/proc\<close>, and the ioctls of one argument. \<open>ClientAbi\<close>: the C structures and ioctl numbers
    as library and client declare them. \<open>Revdi\<close>, \<open>RevdiLaws\<close>: the client \<open>revdi.rs\<close>.
  \<^item> Video. \<open>RawRl\<close>: the raw and run-length encoder. \<open>Bits\<close>, \<open>Wht\<close>, \<open>Strip\<close>, \<open>StripLaws\<close>, \<open>ColourLaws\<close>: bit
    packers and escape codes, colour transform, wavelet, quantizers, strip layouts with a decoder
    written from the layout. \<open>Records\<close>, \<open>RecordLaws\<close>: frames as records and transfers, and a reader of them.
    All of \<open>chimera/vino/video.rs\<close>. \<open>Kvino\<close>, \<open>KvinoLaws\<close>: the rig's builders, \<open>kvino.rs\<close>.
  \<^item> Control plane. \<open>CpMsg\<close>, \<open>Edid\<close>, \<open>CpLaws\<close>: messages and EDID timings; \<open>Seal\<close>, \<open>SealLaws\<close>: encryption, tags and
    reply decoders, \<open>chimera/vino/cp.rs\<close>. \<open>Crypto\<close>: CMAC of \<open>kshim.rs\<close>.
  \<^item> HDCP. \<open>Ake\<close>, \<open>AkeLaws\<close>: the builders of \<open>ake.rs\<close> and \<open>hdcp_msgs.rs\<close>, messages and certificate of
    \<open>vino-hdcp\<close>. \<open>Hdcp\<close>, \<open>HdcpLaws\<close>: key derivation and OAEP in \<open>hdcp.rs\<close> and \<open>kdf.rs\<close>.
  \<^item> Dock sessions. \<open>Usb\<close>, \<open>UsbLaws\<close>, \<open>DockOpen\<close>: \<open>usb.rs\<close>. \<open>DockCtl\<close>,
    \<open>DockErrors\<close>: control transfers, pacing, preambles, retries, and the error texts the tools look for.
    \<open>Coldstart\<close>, \<open>ColdstartLaws\<close>, \<open>Sweep\<close>: \<open>coldstart.rs\<close>.
    \<open>EdidFetch\<close>, \<open>EdidFetchLaws\<close>: \<open>edid_fetch.rs\<close>. \<open>Bringup\<close>, \<open>BringupLaws\<close>: the key
    exchange of \<open>bringup.rs\<close>; \<open>Handoff\<close>, \<open>HandoffLaws\<close>: its warm hand-off of a captured session;
    \<open>BringupCp\<close>, \<open>BringupRun\<close>, \<open>BringupRunLaws\<close>: its replays, the wait for the stream and the attempts.
    \<open>Prove\<close>, \<open>ProveLaws\<close>: the offline proof run \<open>prove.rs\<close>; \<open>ProveLoad\<close>: the
    readers of its fixtures.

  \<^bold>\<open>How the environment enters.\<close> Mutexes become sections run without interruption; the state they
  guard is passed explicitly. User memory, the DRM crates, \<open>/proc\<close> and sysfs are arguments with the
  results the code looks at. The dock is a script of reads with a clock, and the random generator a stream
  of bytes (\<open>env\<close> in \<open>Coldstart\<close>), so a claim about all environments covers every interleaving of replies,
  time-outs and errors. AES, SHA-256, HMAC and RSA are an argument \<open>prims\<close>; the theorems assume at most
  their output lengths (\<open>prims_sized\<close>) and, where an honest receiver answers, that its RSA key inverts.

  \<^bold>\<open>What the lemmas show.\<close> Round trips: every encoder has a reader, written from the format and not from the
  encoder, that returns what was encoded. Invariants: slots, damage, event receiver, transfer
  ownership, buffer lists, over every operation or step. Equivalences: two implementations in
  the repository, or the code and a reference algorithm, agree. Errors and safety: what each error path
  leaves behind, bounds of every copy, that a session needs every verifier, and exactly when keystream is
  used twice and when the proof run passes. Liveness and
  termination: an honest receiver is engaged, loops end, and the one loop without a bound ends exactly
  when the dock answers. The interfaces are locales, each interpreted on the code's own
  definitions.

  \<^bold>\<open>Bounds and fuel.\<close> Loops over reads recurse on the number of reads the code allows: 24 for an HDCP reply,
  8 while pacing, the capability rounds given, 124 messages of an EDID fetch, 51 attempts at
  opening a node, 70 of a sweep; the receiver-list loop has one unit per read the script holds. MGF1 has the
  mask length as fuel, one block per step. The soak has no bound and is a
  \<open>partial_function\<close>. Everything else is structural or has a measure. Words have the width of the
  Rust type; \<open>usize\<close> is \<open>nat\<close> except where a checked product takes the width as an argument.

  \<^bold>\<open>Not modelled.\<close> Text that is only printed, delays (kept as values where a caller chooses them), raw
  libusb and libc calls (their results are arguments), unsafe glue of the kernel crates and the vector
  shims of the rig, the one-shot binaries that print a strip or forward their arguments, crate roots,
  build scripts and tests. Of \<open>bringup.rs\<close>: reading arguments and the environment, and the statistics it
  prints.
\<close>

end
